(* ===== verification/Prelude.thy ===== *)
theory Prelude
  imports Main "HOL-Library.Word"
begin

text \<open>
  Shared vocabulary of the Seq development: the type synonyms that name the machine integers and
  the byte strings of the Rust sources, the result type that models Rust's \<open>Result\<close>, the collections
  of rules the component theories fill, and the generic lemmas on lists, options and searches that
  several components use.
\<close>

section \<open>Rule collections\<close>

named_theorems seq_simps \<open>unfoldings of the small operations of a component\<close>
named_theorems bounds_intros \<open>introduction rules for index bounds\<close>
named_theorems stack_specs \<open>the laws of the abstract value stack\<close>

section \<open>Types\<close>

type_synonym u64 = "64 word"
type_synonym i64 = "64 word"
type_synonym name = string
type_synonym bytes = "char list"

text \<open>Rust's \<open>Result\<close> with an error type of the component; \<open>Inl\<close> is \<open>Err\<close>, \<open>Inr\<close> is \<open>Ok\<close>.\<close>

type_synonym ('e, 'a) result = "'e + 'a"

abbreviation Ok :: "'a \<Rightarrow> 'e + 'a" where "Ok \<equiv> Inr"
abbreviation Err :: "'e \<Rightarrow> 'e + 'a" where "Err \<equiv> Inl"

text \<open>
  A computation that may panic (or run out of fuel) and may fail: \<open>None\<close> is the abort, and the
  inner sum is the Rust result.  \<open>and_then\<close> is the \<open>?\<close> operator.
\<close>

fun and_then :: "('e + 'a) option \<Rightarrow> ('a \<Rightarrow> ('e + 'b) option) \<Rightarrow> ('e + 'b) option" where
  "and_then None f = None"
| "and_then (Some (Inl e)) f = Some (Inl e)"
| "and_then (Some (Inr a)) f = f a"

lemma and_then_ok [simp]:
  "and_then m f = Some (Inr b) \<longleftrightarrow> (\<exists>a. m = Some (Inr a) \<and> f a = Some (Inr b))"
  by (cases m rule: option.exhaust; auto split: sum.splits) (metis and_then.simps(2,3) sum.exhaust
      Inr_inject Inl_Inr_False option.inject)+

lemma and_then_cong [fundef_cong]:
  "m = m' \<Longrightarrow> (\<And>a. m' = Some (Inr a) \<Longrightarrow> f a = f' a) \<Longrightarrow> and_then m f = and_then m' f'"
  by (cases m' rule: option.exhaust; auto) (metis and_then.simps(2,3) sum.exhaust)

text \<open>The \<open>?\<close> operator on a plain result.\<close>

fun try_bind :: "'e + 'a \<Rightarrow> ('a \<Rightarrow> 'e + 'b) \<Rightarrow> 'e + 'b" where
  "try_bind (Inl e) f = Inl e"
| "try_bind (Inr a) f = f a"

section \<open>Lists and strings\<close>

text \<open>Rust's \<open>join\<close> on a slice of strings.\<close>

fun join :: "'a list \<Rightarrow> 'a list list \<Rightarrow> 'a list" where
  "join sep [] = []"
| "join sep [x] = x"
| "join sep (x # y # zs) = x @ sep @ join sep (y # zs)"

text \<open>Decimal rendering of an unsigned integer, as \<open>format!\<close> writes it.\<close>

definition digit_char :: "nat \<Rightarrow> char" where
  "digit_char d = char_of (48 + d)"

fun dec :: "nat \<Rightarrow> string" where
  "dec n = (if n < 10 then [digit_char n] else dec (n div 10) @ [digit_char (n mod 10)])"

declare dec.simps [simp del]

lemma digit_char_inj: "a < 10 \<Longrightarrow> b < 10 \<Longrightarrow> digit_char a = digit_char b \<longleftrightarrow> a = b"
  by (auto simp: digit_char_def char_of_eq_iff of_char_of take_bit_nat_def)

lemma of_char_digit: "d < 10 \<Longrightarrow> of_char (digit_char d) = 48 + d"
  by (simp add: digit_char_def of_char_of take_bit_nat_def)

lemma dec_digits: "c \<in> set (dec n) \<Longrightarrow> 48 \<le> (of_char c :: nat) \<and> (of_char c :: nat) < 58"
proof (induction n rule: dec.induct)
  case (1 n)
  then show ?case
    by (subst (asm) (2) dec.simps) (auto simp: of_char_digit split: if_splits)
qed

lemma dec_not_empty [simp]: "dec n \<noteq> []"
  by (subst dec.simps) simp

lemma dec_small_iff: "length (dec n) = 1 \<longleftrightarrow> n < 10"
  by (subst dec.simps) simp

lemma dec_inj: "dec m = dec n \<Longrightarrow> m = n"
proof (induction m arbitrary: n rule: dec.induct)
  case (1 m)
  show ?case
  proof (cases "m < 10")
    case True
    with 1(2) have "n < 10" using dec_small_iff by metis
    with 1(2) True show ?thesis by (simp add: dec.simps digit_char_inj)
  next
    case False
    with 1(2) have n: "\<not> n < 10" using dec_small_iff by metis
    from 1(2) False n have "dec (m div 10) = dec (n div 10)" "digit_char (m mod 10) = digit_char (n mod 10)"
      by (simp_all add: dec.simps [of m] dec.simps [of n])
    then have "m div 10 = n div 10" "m mod 10 = n mod 10"
      using 1(1) [OF False] by (auto simp: digit_char_inj)
    then show ?thesis by (metis div_mult_mod_eq)
  qed
qed

text \<open>A string is determined by its last occurrence of a separator.\<close>

lemma append_sep_eq:
  assumes "xs @ c # us = ys @ c # vs" "c \<notin> set us" "c \<notin> set vs"
  shows "xs = ys \<and> us = vs"
  using assms
proof (induction xs arbitrary: ys)
  case Nil
  then show ?case by (cases ys) auto
next
  case (Cons x xs)
  then show ?case by (cases ys) auto
qed

end
