(* ===== verification/Seq_Types.thy ===== *)
theory Seq_Types
  imports Prelude
begin

text \<open>
  The type language of the Seq compiler, after \<open>crates/compiler/src/types.rs\<close>: types, row-polymorphic
  stack types, stack effects and computational side effects, with their constructors, observers and
  their \<open>Display\<close> rendering.  A stack type is a spine of \<open>Cons\<close> cells over \<open>Empty\<close> or a row variable.
\<close>

section \<open>Data\<close>

datatype ty =
    TInt
  | TFloat
  | TBool
  | TString
  | TSymbol
  | TChannel
  | TSocket
  | TQuotation effect
  | TClosure (closure_effect: effect) (captures: "ty list")
  | TUnion name
  | TVariant
  | TVar name
and stack_type =
    SEmpty
  | SCons (s_rest: stack_type) (s_top: ty)
  | SRowVar name
and effect = Effect (inputs: stack_type) (outputs: stack_type) (effects: "side_effect list")
and side_effect = Yield ty

record variant_field_info =
  vf_name :: name
  field_type :: ty

record variant_info =
  vi_name :: name
  vi_fields :: "variant_field_info list"

record union_type_info =
  ut_name :: name
  ut_variants :: "variant_info list"

section \<open>Stack type and effect operations\<close>

definition st_empty :: stack_type where
  "st_empty = SEmpty"

definition st_singleton :: "ty \<Rightarrow> stack_type" where
  "st_singleton t = SCons SEmpty t"

definition st_push :: "stack_type \<Rightarrow> ty \<Rightarrow> stack_type" where
  "st_push s t = SCons s t"

definition st_from_vec :: "ty list \<Rightarrow> stack_type" where
  "st_from_vec ts = foldl st_push SEmpty ts"

fun st_pop :: "stack_type \<Rightarrow> (stack_type \<times> ty) option" where
  "st_pop (SCons rest tp) = Some (rest, tp)"
| "st_pop _ = None"

definition effect_new :: "stack_type \<Rightarrow> stack_type \<Rightarrow> effect" where
  "effect_new i o' = Effect i o' []"

definition effect_with_effects :: "stack_type \<Rightarrow> stack_type \<Rightarrow> side_effect list \<Rightarrow> effect" where
  "effect_with_effects i o' es = Effect i o' es"

definition is_pure :: "effect \<Rightarrow> bool" where
  "is_pure e \<longleftrightarrow> effects e = []"

definition has_yield :: "effect \<Rightarrow> bool" where
  "has_yield e \<longleftrightarrow> list_ex (\<lambda>s. case s of Yield _ \<Rightarrow> True) (effects e)"

lemmas stack_type_ops [seq_simps] =
  st_empty_def st_singleton_def st_push_def effect_new_def effect_with_effects_def

section \<open>Display\<close>

text \<open>
  \<open>collect_types\<close> is the loop of the \<open>Display\<close> instance of stack types: it gathers the rendered
  types from top to bottom, and the caller reverses them.
\<close>

fun display_type :: "ty \<Rightarrow> string"
and display_stack :: "stack_type \<Rightarrow> string"
and collect_types :: "stack_type \<Rightarrow> string list"
and display_effect :: "effect \<Rightarrow> string"
and display_side_effect :: "side_effect \<Rightarrow> string" where
  "display_type TInt = ''Int''"
| "display_type TFloat = ''Float''"
| "display_type TBool = ''Bool''"
| "display_type TString = ''String''"
| "display_type TSymbol = ''Symbol''"
| "display_type TChannel = ''Channel''"
| "display_type TSocket = ''Socket''"
| "display_type (TQuotation e) = ''['' @ display_effect e @ '']''"
| "display_type (TClosure e cs) =
     ''Closure['' @ display_effect e @ '', captures=('' @ join '', '' (map display_type cs) @ '')]''"
| "display_type (TUnion n) = n"
| "display_type TVariant = ''Variant''"
| "display_type (TVar n) = n"
| "display_stack SEmpty = ''()''"
| "display_stack (SRowVar n) = ''..'' @ n"
| "display_stack (SCons rest tp) =
     ''('' @ join '' '' (rev (display_type tp # collect_types rest)) @ '')''"
| "collect_types SEmpty = []"
| "collect_types (SRowVar n) = [''..'' @ n]"
| "collect_types (SCons rest tp) = display_type tp # collect_types rest"
| "display_effect (Effect i o' es) =
     (if es = [] then display_stack i @ '' -- '' @ display_stack o'
      else display_stack i @ '' -- '' @ display_stack o' @ '' | ''
             @ join '' '' (map display_side_effect es))"
| "display_side_effect (Yield t) = ''Yield '' @ display_type t"

section \<open>Variables of stack types, as the substitution of the compiler sees them\<close>

text \<open>
  The substitution of \<open>unification.rs\<close> rewrites the type variables in the \<open>top\<close> positions of a spine and
  the row variable at its base; it does not descend into quotation and closure types.  \<open>stack_tvars\<close>
  and \<open>stack_rvars\<close> are the variables at those positions.  A type is flat when it is not a
  quotation or closure type.
\<close>

fun type_tvars :: "ty \<Rightarrow> name set" where
  "type_tvars (TVar n) = {n}"
| "type_tvars _ = {}"

fun stack_tvars :: "stack_type \<Rightarrow> name set" where
  "stack_tvars (SCons rest tp) = type_tvars tp \<union> stack_tvars rest"
| "stack_tvars _ = {}"

fun stack_rvars :: "stack_type \<Rightarrow> name set" where
  "stack_rvars SEmpty = {}"
| "stack_rvars (SRowVar n) = {n}"
| "stack_rvars (SCons rest _) = stack_rvars rest"

text \<open>
  \<open>stack_depth\<close> counts the \<open>Cons\<close> cells of a spine (\<open>TypeChecker::stack_depth\<close> in
  \<open>typechecker/stack_utils.rs\<close>).
\<close>

fun stack_depth :: "stack_type \<Rightarrow> nat" where
  "stack_depth (SCons rest _) = Suc (stack_depth rest)"
| "stack_depth _ = 0"

text \<open>Induction along the spine of a stack type.\<close>

lemmas spine_induct = stack_depth.induct [case_names Cons Empty Row]

fun flat_type :: "ty \<Rightarrow> bool" where
  "flat_type (TQuotation _) = False"
| "flat_type (TClosure _ _) = False"
| "flat_type _ = True"

fun flat_stack :: "stack_type \<Rightarrow> bool" where
  "flat_stack (SCons rest tp) \<longleftrightarrow> flat_type tp \<and> flat_stack rest"
| "flat_stack _ = True"

lemma st_pop_push: "st_pop (st_push s t) = Some (s, t)"
  by (simp add: st_push_def)

lemma st_pop_Some: "st_pop s = Some (r, t) \<longleftrightarrow> s = SCons r t"
  by (cases s) auto

lemma has_yield_iff: "has_yield e \<longleftrightarrow> \<not> is_pure e"
proof -
  have "list_ex (\<lambda>s. case s of Yield _ \<Rightarrow> True) es \<longleftrightarrow> es \<noteq> []" for es
    by (induction es) (auto split: side_effect.splits)
  then show ?thesis by (simp add: has_yield_def is_pure_def)
qed

end
