(* ===== verification/Unification.thy ===== *)
theory Unification
  imports Seq_Types
begin

text \<open>
  Type unification, after \<open>crates/compiler/src/unification.rs\<close>.  A substitution maps type variables to
  types and row variables to stack types.  The three unification functions call each other; the
  recursion is on quotation types whose variables the substitution does not rewrite, and it need not
  end, so the functions take fuel, one unit per call, and \<open>None\<close> means that the fuel ran out.

  On flat stacks (no quotation or closure type in a \<open>top\<close> position) unification ends, is sound, most
  general and complete.  On quotation types it can run forever.
\<close>

section \<open>Substitutions\<close>

record subst =
  subst_types :: "name \<rightharpoonup> ty"
  subst_rows :: "name \<rightharpoonup> stack_type"

definition subst_empty :: subst where
  "subst_empty = \<lparr>subst_types = Map.empty, subst_rows = Map.empty\<rparr>"

fun apply_type :: "subst \<Rightarrow> ty \<Rightarrow> ty" where
  "apply_type s (TVar n) = (case subst_types s n of Some t \<Rightarrow> t | None \<Rightarrow> TVar n)"
| "apply_type s t = t"

fun apply_stack :: "subst \<Rightarrow> stack_type \<Rightarrow> stack_type" where
  "apply_stack s SEmpty = SEmpty"
| "apply_stack s (SCons rest tp) = SCons (apply_stack s rest) (apply_type s tp)"
| "apply_stack s (SRowVar n) = (case subst_rows s n of Some st \<Rightarrow> st | None \<Rightarrow> SRowVar n)"

text \<open>
  \<open>compose\<close> first inserts the entries of \<open>self\<close> with \<open>other\<close> applied to their values, then the entries
  of \<open>other\<close> with \<open>self\<close> applied to theirs; a key of both keeps the second value.
\<close>

definition compose :: "subst \<Rightarrow> subst \<Rightarrow> subst" where
  "compose self other =
     \<lparr>subst_types = (\<lambda>k. case subst_types other k of
          Some v \<Rightarrow> Some (apply_type self v)
        | None \<Rightarrow> map_option (apply_type other) (subst_types self k)),
      subst_rows = (\<lambda>k. case subst_rows other k of
          Some v \<Rightarrow> Some (apply_stack self v)
        | None \<Rightarrow> map_option (apply_stack other) (subst_rows self k))\<rparr>"

section \<open>Occurs checks\<close>

fun occurs_in_stack :: "name \<Rightarrow> stack_type \<Rightarrow> bool" where
  "occurs_in_stack v SEmpty \<longleftrightarrow> False"
| "occurs_in_stack v (SRowVar n) \<longleftrightarrow> n = v"
| "occurs_in_stack v (SCons rest _) \<longleftrightarrow> occurs_in_stack v rest"

fun occurs_in_type :: "name \<Rightarrow> ty \<Rightarrow> bool" where
  "occurs_in_type v (TVar n) \<longleftrightarrow> n = v"
| "occurs_in_type v (TQuotation e) \<longleftrightarrow>
     occurs_in_stack v (inputs e) \<or> occurs_in_stack v (outputs e)"
| "occurs_in_type v (TClosure e cs) \<longleftrightarrow>
     occurs_in_stack v (inputs e) \<or> occurs_in_stack v (outputs e) \<or> list_ex (occurs_in_type v) cs"
| "occurs_in_type v _ \<longleftrightarrow> False"

section \<open>Unification\<close>

datatype unify_error =
    UnionMismatch name name
  | TypeMismatch ty ty
  | TypeOccurs name ty
  | StackOccurs name stack_type
  | ShapeMismatch stack_type stack_type

definition bind_type_var :: "name \<Rightarrow> ty \<Rightarrow> unify_error + subst" where
  "bind_type_var n t =
     (if t = TVar n then Ok subst_empty
      else if occurs_in_type n t then Err (TypeOccurs n t)
      else Ok (subst_empty\<lparr>subst_types := [n \<mapsto> t]\<rparr>))"

definition bind_row_var :: "name \<Rightarrow> stack_type \<Rightarrow> unify_error + subst" where
  "bind_row_var n st =
     (if st = SRowVar n then Ok subst_empty
      else if occurs_in_stack n st then Err (StackOccurs n st)
      else Ok (subst_empty\<lparr>subst_rows := [n \<mapsto> st]\<rparr>))"

fun unify_effects :: "nat \<Rightarrow> effect \<Rightarrow> effect \<Rightarrow> (unify_error + subst) option"
and unify_types :: "nat \<Rightarrow> ty \<Rightarrow> ty \<Rightarrow> (unify_error + subst) option"
and unify_stacks :: "nat \<Rightarrow> stack_type \<Rightarrow> stack_type \<Rightarrow> (unify_error + subst) option" where
  "unify_effects 0 e1 e2 = None"
| "unify_effects (Suc n) e1 e2 =
     and_then (unify_stacks n (inputs e1) (inputs e2)) (\<lambda>s_in.
     and_then (unify_stacks n (apply_stack s_in (outputs e1)) (apply_stack s_in (outputs e2))) (\<lambda>s_out.
     Some (Ok (compose s_in s_out))))"
| "unify_types 0 t1 t2 = None"
| "unify_types (Suc n) t1 t2 =
     (case (t1, t2) of
        (TInt, TInt) \<Rightarrow> Some (Ok subst_empty)
      | (TFloat, TFloat) \<Rightarrow> Some (Ok subst_empty)
      | (TBool, TBool) \<Rightarrow> Some (Ok subst_empty)
      | (TString, TString) \<Rightarrow> Some (Ok subst_empty)
      | (TSymbol, TSymbol) \<Rightarrow> Some (Ok subst_empty)
      | (TChannel, TChannel) \<Rightarrow> Some (Ok subst_empty)
      | (TSocket, TSocket) \<Rightarrow> Some (Ok subst_empty)
      | (TUnion n1, TUnion n2) \<Rightarrow>
          Some (if n1 = n2 then Ok subst_empty else Err (UnionMismatch n1 n2))
      | (TVariant, TVariant) \<Rightarrow> Some (Ok subst_empty)
      | (TUnion _, TVariant) \<Rightarrow> Some (Ok subst_empty)
      | (TVariant, TUnion _) \<Rightarrow> Some (Ok subst_empty)
      | (TVar v, t) \<Rightarrow> Some (bind_type_var v t)
      | (t, TVar v) \<Rightarrow> Some (bind_type_var v t)
      | (TQuotation e1, TQuotation e2) \<Rightarrow> unify_effects n e1 e2
      | (TClosure e1 _, TClosure e2 _) \<Rightarrow> unify_effects n e1 e2
      | (TQuotation q, TClosure e _) \<Rightarrow> unify_effects n q e
      | (TClosure e _, TQuotation q) \<Rightarrow> unify_effects n q e
      | _ \<Rightarrow> Some (Err (TypeMismatch t1 t2)))"
| "unify_stacks 0 s1 s2 = None"
| "unify_stacks (Suc n) s1 s2 =
     (case (s1, s2) of
        (SEmpty, SEmpty) \<Rightarrow> Some (Ok subst_empty)
      | (SRowVar v, st) \<Rightarrow> Some (bind_row_var v st)
      | (st, SRowVar v) \<Rightarrow> Some (bind_row_var v st)
      | (SCons rest1 top1, SCons rest2 top2) \<Rightarrow>
          and_then (unify_types n top1 top2) (\<lambda>s_top.
          and_then (unify_stacks n (apply_stack s_top rest1) (apply_stack s_top rest2)) (\<lambda>s_rest.
          Some (Ok (compose s_top s_rest))))
      | _ \<Rightarrow> Some (Err (ShapeMismatch s1 s2)))"

declare unify_types.simps(2) [simp del]
declare unify_stacks.simps(2) [simp del]

lemma unify_stacks_simps [simp]:
  "unify_stacks (Suc n) SEmpty SEmpty = Some (Ok subst_empty)"
  "unify_stacks (Suc n) (SRowVar v) st = Some (bind_row_var v st)"
  "unify_stacks (Suc n) SEmpty (SRowVar v) = Some (bind_row_var v SEmpty)"
  "unify_stacks (Suc n) (SCons r1 t1) (SRowVar v) = Some (bind_row_var v (SCons r1 t1))"
  "unify_stacks (Suc n) (SCons r1 t1) (SCons r2 t2) =
     and_then (unify_types n t1 t2) (\<lambda>s_top.
     and_then (unify_stacks n (apply_stack s_top r1) (apply_stack s_top r2)) (\<lambda>s_rest.
     Some (Ok (compose s_top s_rest))))"
  "unify_stacks (Suc n) SEmpty (SCons r2 t2) = Some (Err (ShapeMismatch SEmpty (SCons r2 t2)))"
  "unify_stacks (Suc n) (SCons r1 t1) SEmpty = Some (Err (ShapeMismatch (SCons r1 t1) SEmpty))"
  by (cases st; simp add: unify_stacks.simps(2))+

section \<open>Applying and composing substitutions\<close>

lemma subst_empty_sel [simp]: "subst_types subst_empty = Map.empty" "subst_rows subst_empty = Map.empty"
  by (simp_all add: subst_empty_def)

lemma apply_type_empty [simp]: "apply_type subst_empty t = t"
  by (cases t) simp_all

lemma apply_stack_empty [simp]: "apply_stack subst_empty st = st"
  by (induction st rule: spine_induct) simp_all

lemma apply_type_id: "type_tvars t \<inter> dom (subst_types s) = {} \<Longrightarrow> apply_type s t = t"
  by (cases t) (auto simp: domIff)

lemma apply_stack_id:
  "stack_tvars st \<inter> dom (subst_types s) = {} \<Longrightarrow> stack_rvars st \<inter> dom (subst_rows s) = {} \<Longrightarrow>
   apply_stack s st = st"
proof (induction st rule: spine_induct)
  case (Cons rest tp)
  then have "type_tvars tp \<inter> dom (subst_types s) = {}" by auto
  with Cons show ?case by (simp add: apply_type_id Int_Un_distrib2)
qed (auto simp: domIff)

lemma flat_no_occurs [simp]: "flat_type t \<Longrightarrow> occurs_in_type v t \<longleftrightarrow> t = TVar v"
  by (cases t) auto

lemma occurs_in_stack_iff: "occurs_in_stack v st \<longleftrightarrow> v \<in> stack_rvars st"
  by (induction st rule: spine_induct) auto

text \<open>
  The agreement that unification establishes: equality, up to the relaxation that a named union and
  the anonymous variant type are accepted for each other.
\<close>

fun is_union :: "ty \<Rightarrow> bool" where
  "is_union (TUnion _) = True"
| "is_union _ = False"

definition compat_type :: "ty \<Rightarrow> ty \<Rightarrow> bool" where
  "compat_type a b \<longleftrightarrow> a = b \<or> is_union a \<and> b = TVariant \<or> a = TVariant \<and> is_union b"

fun compat_stack :: "stack_type \<Rightarrow> stack_type \<Rightarrow> bool" where
  "compat_stack (SCons r1 t1) (SCons r2 t2) \<longleftrightarrow> compat_type t1 t2 \<and> compat_stack r1 r2"
| "compat_stack s1 s2 \<longleftrightarrow> s1 = s2"

lemma compat_stack_refl [simp]: "compat_stack s s"
  by (induction s rule: spine_induct) (auto simp: compat_type_def)

lemma compat_stack_depth: "compat_stack s1 s2 \<Longrightarrow> stack_depth s1 = stack_depth s2"
  by (induction s1 s2 rule: compat_stack.induct) auto

lemma compat_type_apply: "compat_type a b \<Longrightarrow> compat_type (apply_type s a) (apply_type s b)"
  by (cases a; cases b) (auto simp: compat_type_def)

text \<open>Unifying two flat types yields the empty substitution or binds one variable.\<close>

abbreviation single :: "name \<Rightarrow> ty \<Rightarrow> subst" where
  "single v t \<equiv> subst_empty\<lparr>subst_types := [v \<mapsto> t]\<rparr>"

definition flat_binding :: "ty \<Rightarrow> ty \<Rightarrow> subst \<Rightarrow> bool" where
  "flat_binding t1 t2 s \<longleftrightarrow>
     s = subst_empty \<and> compat_type t1 t2 \<or>
     (\<exists>v t. s = single v t \<and> t \<noteq> TVar v \<and> flat_type t \<and>
        (t1 = TVar v \<and> t2 = t \<or> t1 = t \<and> t2 = TVar v))"

lemma flat_binding_single [simp]:
  "flat_type t \<Longrightarrow> t \<noteq> TVar v \<Longrightarrow> flat_binding (TVar v) t (single v t)"
  "flat_type t \<Longrightarrow> t \<noteq> TVar v \<Longrightarrow> flat_binding t (TVar v) (single v t)"
  by (auto simp: flat_binding_def)

lemma flat_binding_empty [simp]: "compat_type t1 t2 \<Longrightarrow> flat_binding t1 t2 subst_empty"
  by (simp add: flat_binding_def)

lemma bind_type_var_flat:
  "flat_type t \<Longrightarrow> bind_type_var v t = (if t = TVar v then Ok subst_empty else Ok (single v t))"
  by (simp add: bind_type_var_def)

lemma unify_types_flat:
  assumes "flat_type t1" "flat_type t2"
  shows "\<exists>r. unify_types (Suc n) t1 t2 = Some r \<and> (\<forall>s. r = Ok s \<longrightarrow> flat_binding t1 t2 s)"
  using assms
  by (cases t1; cases t2)
    (auto simp: unify_types.simps(2) bind_type_var_flat compat_type_def)

lemma unify_types_flat_Ok:
  "unify_types n t1 t2 = Some (Ok s) \<Longrightarrow> flat_type t1 \<Longrightarrow> flat_type t2 \<Longrightarrow> flat_binding t1 t2 s"
  using unify_types_flat [of t1 t2] by (cases n) (simp, metis option.inject)

section \<open>Well-formed results\<close>

text \<open>
  A flat substitution over the type variables \<open>T\<close> and the row variables \<open>R\<close>: its domain lies in them,
  its values are flat and mention only variables outside its domain, so it is idempotent.
\<close>

definition subst_ok :: "name set \<Rightarrow> name set \<Rightarrow> subst \<Rightarrow> bool" where
  "subst_ok T R s \<longleftrightarrow>
     dom (subst_types s) \<subseteq> T \<and> dom (subst_rows s) \<subseteq> R \<and>
     (\<forall>k t. subst_types s k = Some t \<longrightarrow> flat_type t \<and> type_tvars t \<subseteq> T - dom (subst_types s)) \<and>
     (\<forall>k st. subst_rows s k = Some st \<longrightarrow> flat_stack st \<and>
        stack_tvars st \<subseteq> T - dom (subst_types s) \<and> stack_rvars st \<subseteq> R - dom (subst_rows s))"

lemma subst_ok_dom: "subst_ok T R s \<Longrightarrow> dom (subst_types s) \<subseteq> T" "subst_ok T R s \<Longrightarrow> dom (subst_rows s) \<subseteq> R"
  by (simp_all add: subst_ok_def)

lemma subst_ok_types:
  "subst_ok T R s \<Longrightarrow> subst_types s k = Some t \<Longrightarrow> flat_type t \<and> type_tvars t \<subseteq> T - dom (subst_types s)"
  unfolding subst_ok_def by blast

lemma subst_ok_rows:
  "subst_ok T R s \<Longrightarrow> subst_rows s k = Some st \<Longrightarrow>
   flat_stack st \<and> stack_tvars st \<subseteq> T - dom (subst_types s) \<and> stack_rvars st \<subseteq> R - dom (subst_rows s)"
  unfolding subst_ok_def by blast

lemma subst_ok_empty [simp]: "subst_ok T R subst_empty"
  by (simp add: subst_ok_def)

lemma subst_ok_single: "flat_type t \<Longrightarrow> t \<noteq> TVar v \<Longrightarrow> v \<in> T \<Longrightarrow> type_tvars t \<subseteq> T \<Longrightarrow>
    subst_ok T R (single v t)"
  by (cases t) (auto simp: subst_ok_def)

lemma subst_ok_mono: "subst_ok T R s \<Longrightarrow> T \<subseteq> T' \<Longrightarrow> R \<subseteq> R' \<Longrightarrow> subst_ok T' R' s"
  unfolding subst_ok_def by blast

lemma apply_type_tvars:
  "subst_ok T R s \<Longrightarrow> type_tvars t \<subseteq> T \<Longrightarrow> type_tvars (apply_type s t) \<subseteq> T - dom (subst_types s)"
  by (cases t) (auto simp: subst_ok_def domIff split: option.splits)

lemma apply_type_flat: "subst_ok T R s \<Longrightarrow> flat_type t \<Longrightarrow> flat_type (apply_type s t)"
  by (cases t) (auto simp: subst_ok_def split: option.splits)

lemma apply_stack_flat: "subst_ok T R s \<Longrightarrow> flat_stack st \<Longrightarrow> flat_stack (apply_stack s st)"
proof (induction st rule: spine_induct)
  case (Cons rest tp)
  then show ?case by (simp add: apply_type_flat)
qed (auto simp: subst_ok_def split: option.splits)

text \<open>
  Composition with a single binding, the case unification on flat stacks builds: when the second
  substitution avoids the bound variable, \<open>compose\<close> is sequential application.
\<close>

lemma compose_empty_left [simp]: "compose subst_empty s = s"
  by (rule subst.equality) (auto simp: compose_def fun_eq_iff split: option.splits)

lemma compose_single:
  assumes "subst_ok (T - {v}) R s"
  shows "compose (single v t) s = s\<lparr>subst_types := (subst_types s)(v \<mapsto> apply_type s t)\<rparr>"
proof -
  have ty: "apply_type (single v t) u = u" if "subst_types s k = Some u" for k u
    using subst_ok_types [OF assms that] by (intro apply_type_id) auto
  have row: "apply_stack (single v t) u = u" if "subst_rows s k = Some u" for k u
    using subst_ok_rows [OF assms that] by (intro apply_stack_id) auto
  have "subst_types s v = None"
    using assms by (auto simp: subst_ok_def)
  then show ?thesis
    by (auto simp: compose_def fun_eq_iff ty row intro!: subst.equality split: option.splits)
qed

lemma apply_type_compose_single:
  "subst_ok (T - {v}) R s \<Longrightarrow>
   apply_type (compose (single v t) s) u = apply_type s (apply_type (single v t) u)"
  by (cases u) (auto simp: compose_single)

lemma apply_stack_compose_single:
  "subst_ok (T - {v}) R s \<Longrightarrow>
   apply_stack (compose (single v t) s) st = apply_stack s (apply_stack (single v t) st)"
  by (induction st rule: spine_induct) (auto simp: apply_type_compose_single, simp add: compose_single)

lemma subst_ok_compose_single:
  assumes s: "subst_ok (T - {v}) R s" and t: "flat_type t" "type_tvars t \<subseteq> T - {v}" and "v \<in> T"
  shows "subst_ok T R (compose (single v t) s)"
proof -
  let ?c = "compose (single v t) s"
  have dom: "dom (subst_types ?c) = insert v (dom (subst_types s))" "subst_rows ?c = subst_rows s"
    by (auto simp: compose_single [OF s])
  have "flat_type u \<and> type_tvars u \<subseteq> T - dom (subst_types ?c)" if "subst_types ?c k = Some u" for k u
  proof (cases "k = v")
    case True
    with that have "u = apply_type s t" by (simp add: compose_single [OF s])
    then show ?thesis
      using apply_type_tvars [OF s t(2)] apply_type_flat [OF s t(1)] by (auto simp: dom(1))
  next
    case False
    with that have "subst_types s k = Some u" by (simp add: compose_single [OF s])
    from subst_ok_types [OF s this] show ?thesis by (auto simp: dom(1))
  qed
  moreover have "flat_stack st \<and> stack_tvars st \<subseteq> T - dom (subst_types ?c) \<and>
      stack_rvars st \<subseteq> R - dom (subst_rows ?c)" if "subst_rows ?c k = Some st" for k st
    using subst_ok_rows [OF s that [unfolded dom(2)]] unfolding dom by blast
  moreover have "dom (subst_types ?c) \<subseteq> T" "dom (subst_rows ?c) \<subseteq> R"
    using subst_ok_dom [OF s] \<open>v \<in> T\<close> unfolding dom by auto
  ultimately show ?thesis unfolding subst_ok_def by blast
qed

section \<open>Unification of flat stacks: soundness\<close>

lemma flat_binding_cases:
  assumes "flat_binding t1 t2 s"
  obtains (empty) "s = subst_empty" "compat_type t1 t2"
  | (bind) v t where "s = single v t" "flat_type t" "v \<notin> type_tvars t"
      "v \<in> type_tvars t1 \<union> type_tvars t2" "type_tvars t \<subseteq> type_tvars t1 \<union> type_tvars t2"
      "apply_type s t1 = t" "apply_type s t2 = t"
proof -
  from assms consider "s = subst_empty" "compat_type t1 t2"
    | v t where "s = single v t" "t \<noteq> TVar v" "flat_type t" "t1 = TVar v \<and> t2 = t \<or> t1 = t \<and> t2 = TVar v"
    unfolding flat_binding_def by blast
  then show ?thesis
  proof cases
    case 1
    then show ?thesis by (rule empty)
  next
    case (2 v t)
    moreover from 2 have "v \<notin> type_tvars t" "apply_type (single v t) t = t"
      by (cases t; auto)+
    ultimately show ?thesis by (intro bind [of v t]) auto
  qed
qed

lemma flat_binding_types: "flat_binding t1 t2 s \<Longrightarrow> compat_type (apply_type s t1) (apply_type s t2)"
  by (erule flat_binding_cases) (auto simp: compat_type_def)

lemma flat_binding_stack:
  assumes fb: "flat_binding t1 t2 s"
  shows "stack_rvars (apply_stack s st) = stack_rvars st" "stack_depth (apply_stack s st) = stack_depth st"
    "flat_stack st \<Longrightarrow> flat_stack (apply_stack s st)"
    "stack_tvars (apply_stack s st) \<subseteq> stack_tvars st \<union> type_tvars t1 \<union> type_tvars t2 - dom (subst_types s)"
proof -
  have rows: "subst_rows s = Map.empty"
    using fb by (cases rule: flat_binding_cases) auto
  have ty: "type_tvars (apply_type s u) \<subseteq> type_tvars u \<union> type_tvars t1 \<union> type_tvars t2 - dom (subst_types s)"
    and fl: "flat_type u \<Longrightarrow> flat_type (apply_type s u)" for u
    using fb by (cases rule: flat_binding_cases; cases u; auto)+
  show "stack_rvars (apply_stack s st) = stack_rvars st" "stack_depth (apply_stack s st) = stack_depth st"
    "flat_stack st \<Longrightarrow> flat_stack (apply_stack s st)"
    by (induction st rule: spine_induct) (auto simp: rows fl)
  show "stack_tvars (apply_stack s st) \<subseteq> stack_tvars st \<union> type_tvars t1 \<union> type_tvars t2 - dom (subst_types s)"
  proof (induction st rule: spine_induct)
    case (Cons rest tp)
    then show ?case using ty [of tp] by auto
  qed (auto simp: rows)
qed

lemma flat_binding_compose:
  assumes "flat_binding t1 t2 s" "type_tvars t1 \<union> type_tvars t2 \<subseteq> T"
    and "subst_ok (T - dom (subst_types s)) R s'"
  shows "subst_ok T R (compose s s')" "apply_type (compose s s') u = apply_type s' (apply_type s u)"
    "apply_stack (compose s s') st = apply_stack s' (apply_stack s st)"
proof -
  from assms(1) have "subst_ok T R (compose s s') \<and>
      apply_type (compose s s') u = apply_type s' (apply_type s u) \<and>
      apply_stack (compose s s') st = apply_stack s' (apply_stack s st)"
  proof (cases rule: flat_binding_cases)
    case empty
    with assms(3) show ?thesis by simp
  next
    case (bind v t)
    with assms(2,3) show ?thesis
      using subst_ok_compose_single [of T v R s' t]
      by (auto simp: apply_type_compose_single apply_stack_compose_single)
  qed
  then show "subst_ok T R (compose s s')" "apply_type (compose s s') u = apply_type s' (apply_type s u)"
    "apply_stack (compose s s') st = apply_stack s' (apply_stack s st)" by blast+
qed

lemma bind_row_var_ok:
  assumes "bind_row_var v st = Ok s" "flat_stack st" "v \<in> R" "stack_rvars st \<subseteq> R" "stack_tvars st \<subseteq> T"
  shows "subst_ok T R s \<and> apply_stack s (SRowVar v) = apply_stack s st"
proof (cases "st = SRowVar v")
  case True
  with assms show ?thesis by (simp add: bind_row_var_def)
next
  case False
  with assms have s: "s = subst_empty\<lparr>subst_rows := [v \<mapsto> st]\<rparr>" and "v \<notin> stack_rvars st"
    by (auto simp: bind_row_var_def occurs_in_stack_iff split: if_splits)
  with assms have "apply_stack s st = st" "subst_ok T R s"
    by (auto simp: subst_ok_def intro!: apply_stack_id split: if_splits)
  with s show ?thesis by simp
qed

lemma unify_stacks_flat:
  assumes "unify_stacks n s1 s2 = Some (Ok s)" "flat_stack s1" "flat_stack s2"
    and "stack_tvars s1 \<union> stack_tvars s2 \<subseteq> T" "stack_rvars s1 \<union> stack_rvars s2 \<subseteq> R"
  shows "subst_ok T R s \<and> compat_stack (apply_stack s s1) (apply_stack s s2)"
  using assms
proof (induction n arbitrary: s1 s2 s T)
  case 0
  then show ?case by simp
next
  case (Suc n)
  consider (row1) v where "s1 = SRowVar v" | (row2) v where "s2 = SRowVar v" "\<forall>w. s1 \<noteq> SRowVar w"
    | (empty) "s1 = SEmpty" "s2 = SEmpty"
    | (cons) r1 t1 r2 t2 where "s1 = SCons r1 t1" "s2 = SCons r2 t2"
    using Suc.prems(1) by (cases s1; cases s2) auto
  then show ?case
  proof cases
    case row1
    with Suc.prems bind_row_var_ok [of v s2 s R T] show ?thesis by (simp del: apply_stack.simps(3))
  next
    case row2
    with Suc.prems bind_row_var_ok [of v s1 s R T] show ?thesis
      by (cases s1) (auto simp del: apply_stack.simps(3))
  next
    case empty
    with Suc.prems(1) show ?thesis by simp
  next
    case cons
    with Suc.prems(1) obtain st sr where st: "unify_types n t1 t2 = Some (Ok st)"
      and sr: "unify_stacks n (apply_stack st r1) (apply_stack st r2) = Some (Ok sr)"
      and s: "s = compose st sr" by auto
    from st cons Suc.prems(2,3) have fb: "flat_binding t1 t2 st"
      by (auto intro: unify_types_flat_Ok)
    have T: "type_tvars t1 \<union> type_tvars t2 \<subseteq> T" "stack_tvars r1 \<union> stack_tvars r2 \<subseteq> T"
      "stack_rvars r1 \<union> stack_rvars r2 \<subseteq> R" "flat_stack r1" "flat_stack r2"
      using cons Suc.prems by auto
    have "subst_ok (T - dom (subst_types st)) R sr \<and>
        compat_stack (apply_stack sr (apply_stack st r1)) (apply_stack sr (apply_stack st r2))"
      using flat_binding_stack [OF fb] T by (intro Suc.IH [OF sr]) (auto, blast+)
    then have sr_ok: "subst_ok (T - dom (subst_types st)) R sr"
      and "compat_stack (apply_stack sr (apply_stack st r1)) (apply_stack sr (apply_stack st r2))" by auto
    moreover note flat_binding_compose [OF fb T(1) sr_ok]
      and compat_type_apply [OF flat_binding_types [OF fb]]
    ultimately show ?thesis
      by (simp add: s cons)
  qed
qed

section \<open>Unification of flat stacks: termination, most general unifiers, completeness\<close>

lemma unify_stacks_flat_terminates:
  "flat_stack s1 \<Longrightarrow> flat_stack s2 \<Longrightarrow> stack_depth s1 < n \<Longrightarrow> \<exists>r. unify_stacks n s1 s2 = Some r"
proof (induction n arbitrary: s1 s2)
  case 0
  then show ?case by simp
next
  case (Suc n)
  show ?case
  proof (cases "\<exists>r1 t1 r2 t2. s1 = SCons r1 t1 \<and> s2 = SCons r2 t2")
    case False
    then show ?thesis by (cases s1; cases s2) auto
  next
    case True
    then obtain r1 t1 r2 t2 where s: "s1 = SCons r1 t1" "s2 = SCons r2 t2" by blast
    with Suc.prems have fl: "flat_type t1" "flat_type t2" "flat_stack r1" "flat_stack r2" by auto
    from s Suc.prems(3) obtain m where n: "n = Suc m" by (cases n) auto
    with unify_types_flat [OF fl(1,2)] obtain r where r: "unify_types n t1 t2 = Some r" by blast
    show ?thesis
    proof (cases r)
      case (Inl e)
      with r s show ?thesis by simp
    next
      case (Inr st)
      with r fl have "flat_binding t1 t2 st" by (auto intro: unify_types_flat_Ok)
      with Suc.prems s fl have "\<exists>r. unify_stacks n (apply_stack st r1) (apply_stack st r2) = Some r"
        by (intro Suc.IH) (auto simp: flat_binding_stack)
      then obtain r' where "unify_stacks n (apply_stack st r1) (apply_stack st r2) = Some r'" by blast
      with Inr r s show ?thesis by (cases r') auto
    qed
  qed
qed

text \<open>
  \<open>factors \<theta> s\<close>: applying \<open>s\<close> first loses nothing that \<open>\<theta>\<close> keeps, the defining property of an
  idempotent most general unifier.
\<close>

definition factors :: "subst \<Rightarrow> subst \<Rightarrow> bool" where
  "factors \<theta> s \<longleftrightarrow> (\<forall>t. apply_type \<theta> (apply_type s t) = apply_type \<theta> t) \<and>
     (\<forall>st. apply_stack \<theta> (apply_stack s st) = apply_stack \<theta> st)"

lemma factors_empty [simp]: "factors \<theta> subst_empty"
  by (simp add: factors_def)

lemma factorsI:
  assumes "\<And>v t. subst_types s v = Some t \<Longrightarrow> apply_type \<theta> t = apply_type \<theta> (TVar v)"
    and "\<And>v st. subst_rows s v = Some st \<Longrightarrow> apply_stack \<theta> st = apply_stack \<theta> (SRowVar v)"
  shows "factors \<theta> s"
proof -
  have ty: "apply_type \<theta> (apply_type s t) = apply_type \<theta> t" for t
    using assms(1) by (cases t) (auto split: option.split)
  moreover have "apply_stack \<theta> (apply_stack s st) = apply_stack \<theta> st" for st
    by (induction st rule: spine_induct) (auto simp: ty assms(2) split: option.splits)
  ultimately show ?thesis by (simp add: factors_def)
qed

fun is_type_var :: "ty \<Rightarrow> bool" where
  "is_type_var (TVar _) = True"
| "is_type_var _ = False"

lemma unify_types_var:
  "unify_types (Suc n) (TVar v) t = Some (bind_type_var v t)"
  "\<not> is_type_var t \<Longrightarrow> unify_types (Suc n) t (TVar v) = Some (bind_type_var v t)"
  by (cases t; simp add: unify_types.simps(2))+

lemma unify_types_same: "flat_type t \<Longrightarrow> \<not> is_type_var t \<Longrightarrow> unify_types (Suc n) t t = Some (Ok subst_empty)"
  by (cases t) (simp_all add: unify_types.simps(2))

lemma apply_type_not_var: "\<not> is_type_var t \<Longrightarrow> apply_type s t = t"
  by (cases t) auto

lemma bind_type_var_complete:
  assumes "apply_type \<theta> (TVar v) = apply_type \<theta> t" "flat_type t"
  shows "\<exists>s. bind_type_var v t = Ok s \<and> factors \<theta> s"
  using assms by (auto simp: bind_type_var_flat intro!: factorsI split: if_splits)

lemma unify_types_complete:
  assumes "flat_type t1" "flat_type t2" "apply_type \<theta> t1 = apply_type \<theta> t2"
  shows "\<exists>s. unify_types (Suc n) t1 t2 = Some (Ok s) \<and> factors \<theta> s"
proof -
  consider (v1) v where "t1 = TVar v" | (v2) v where "t2 = TVar v" "\<not> is_type_var t1"
    | (none) "\<not> is_type_var t1" "\<not> is_type_var t2"
    by (cases t1; cases t2) auto
  then show ?thesis
  proof cases
    case v1
    with assms bind_type_var_complete [of \<theta> v t2] show ?thesis by (simp add: unify_types_var)
  next
    case v2
    with assms bind_type_var_complete [of \<theta> v t1] show ?thesis by (simp add: unify_types_var)
  next
    case none
    with assms show ?thesis by (simp add: apply_type_not_var unify_types_same)
  qed
qed

lemma stack_depth_apply_row:
  "v \<in> stack_rvars st \<Longrightarrow> stack_depth (apply_stack \<theta> st) = stack_depth st + stack_depth (apply_stack \<theta> (SRowVar v))"
  by (induction st rule: spine_induct) auto

lemma bind_row_var_complete:
  assumes "apply_stack \<theta> (SRowVar v) = apply_stack \<theta> st"
  shows "\<exists>s. bind_row_var v st = Ok s \<and> factors \<theta> s"
proof (cases "v \<in> stack_rvars st")
  case True
  with assms have "stack_depth st = 0" using stack_depth_apply_row [of v st \<theta>] by simp
  with True have "st = SRowVar v" by (cases st) auto
  then show ?thesis by (simp add: bind_row_var_def)
next
  case False
  with assms show ?thesis
    by (auto simp: bind_row_var_def occurs_in_stack_iff intro!: factorsI split: if_splits)
qed

lemma unify_stacks_factors:
  assumes fb: "flat_binding t1 t2 st" and "unify_stacks n (apply_stack st r1) (apply_stack st r2) = Some (Ok sr)"
    and "flat_stack r1" "flat_stack r2"
  shows "apply_type (compose st sr) u = apply_type sr (apply_type st u)"
    "apply_stack (compose st sr) w = apply_stack sr (apply_stack st w)"
proof -
  let ?T = "type_tvars t1 \<union> type_tvars t2 \<union> stack_tvars r1 \<union> stack_tvars r2"
  let ?R = "stack_rvars r1 \<union> stack_rvars r2"
  have "subst_ok (?T - dom (subst_types st)) ?R sr"
    using assms flat_binding_stack [OF fb]
    by (intro unify_stacks_flat [OF assms(2), THEN conjunct1]) (auto, blast+)
  then show "apply_type (compose st sr) u = apply_type sr (apply_type st u)"
    "apply_stack (compose st sr) w = apply_stack sr (apply_stack st w)"
    using flat_binding_compose [OF fb, of ?T ?R sr] by auto
qed

lemma unify_stacks_complete:
  "flat_stack s1 \<Longrightarrow> flat_stack s2 \<Longrightarrow> stack_depth s1 < n \<Longrightarrow> apply_stack \<theta> s1 = apply_stack \<theta> s2 \<Longrightarrow>
   \<exists>s. unify_stacks n s1 s2 = Some (Ok s) \<and> factors \<theta> s"
proof (induction n arbitrary: s1 s2)
  case 0
  then show ?case by simp
next
  case (Suc n)
  consider (row1) v where "s1 = SRowVar v" | (row2) v where "s2 = SRowVar v" "\<forall>w. s1 \<noteq> SRowVar w"
    | (empty) "s1 = SEmpty" "s2 = SEmpty"
    | (cons) r1 t1 r2 t2 where "s1 = SCons r1 t1" "s2 = SCons r2 t2"
    using Suc.prems(4) by (cases s1; cases s2) auto
  then show ?case
  proof cases
    case row1
    with Suc.prems bind_row_var_complete [of \<theta> v s2] show ?thesis by simp
  next
    case row2
    with Suc.prems bind_row_var_complete [of \<theta> v s1] show ?thesis by (cases s1) auto
  next
    case empty
    then show ?thesis by simp
  next
    case cons
    with Suc.prems have p: "flat_type t1" "flat_type t2" "apply_type \<theta> t1 = apply_type \<theta> t2"
      "flat_stack r1" "flat_stack r2" "apply_stack \<theta> r1 = apply_stack \<theta> r2" "stack_depth r1 < n" by auto
    then obtain m where n: "n = Suc m" by (cases n) auto
    obtain st where st: "unify_types n t1 t2 = Some (Ok st)" "factors \<theta> st"
      using unify_types_complete [OF p(1-3)] n by blast
    with p have fb: "flat_binding t1 t2 st" by (auto intro: unify_types_flat_Ok)
    have "apply_stack \<theta> (apply_stack st r1) = apply_stack \<theta> (apply_stack st r2)"
      using st(2) p by (simp add: factors_def)
    with p fb obtain sr where sr: "unify_stacks n (apply_stack st r1) (apply_stack st r2) = Some (Ok sr)"
      "factors \<theta> sr"
      using Suc.IH [of "apply_stack st r1" "apply_stack st r2"] by (auto simp: flat_binding_stack)
    have "factors \<theta> (compose st sr)"
      using unify_stacks_factors [OF fb sr(1)] p st(2) sr(2) by (simp add: factors_def)
    with st sr cons show ?thesis by simp
  qed
qed

section \<open>Fuel\<close>

text \<open>More fuel never changes a result, on all types.\<close>

lemma and_then_mono:
  assumes "and_then m f = Some r" "\<And>x. m = Some x \<Longrightarrow> m' = Some x" "\<And>a x. f a = Some x \<Longrightarrow> f' a = Some x"
  shows "and_then m' f' = Some r"
proof (cases m)
  case None
  with assms(1) show ?thesis by simp
next
  case (Some x)
  with assms show ?thesis by (cases x) auto
qed

lemma unify_fuel_Suc:
  "unify_effects n e1 e2 = Some re \<Longrightarrow> unify_effects (Suc n) e1 e2 = Some re"
  "unify_types n t1 t2 = Some rt \<Longrightarrow> unify_types (Suc n) t1 t2 = Some rt"
  "unify_stacks n s1 s2 = Some rs \<Longrightarrow> unify_stacks (Suc n) s1 s2 = Some rs"
proof (induction n arbitrary: e1 e2 t1 t2 s1 s2 re rt rs)
  case 0
  { case 1 then show ?case by simp next
    case 2 then show ?case by simp next
    case 3 then show ?case by simp }
next
  case (Suc n)
  { case 1
    then show ?case
      by (subst unify_effects.simps(2), subst (asm) unify_effects.simps(2))
        (auto intro: Suc.IH(3) elim!: and_then_mono)
  next
    case 2
    then show ?case
      by (cases t1; cases t2) (auto simp: unify_types.simps(2) simp del: unify_effects.simps intro: Suc.IH(1))
  next
    case 3
    show ?case
    proof (cases "\<exists>r1 u1 r2 u2. s1 = SCons r1 u1 \<and> s2 = SCons r2 u2")
      case False
      with 3 show ?thesis by (cases s1; cases s2) auto
    next
      case True
      then obtain r1 u1 r2 u2 where s: "s1 = SCons r1 u1" "s2 = SCons r2 u2" by blast
      show ?thesis
        using 3 unfolding s unify_stacks_simps(5)
        by (elim and_then_mono) (auto intro: Suc.IH(2,3) elim: and_then_mono)
    qed }
qed

lemma unify_stacks_fuel_mono: "unify_stacks n s1 s2 = Some r \<Longrightarrow> n \<le> m \<Longrightarrow> unify_stacks m s1 s2 = Some r"
  by (induction m) (auto simp: le_Suc_eq intro: unify_fuel_Suc(3))

section \<open>Unification of quotation types need not end\<close>

text \<open>
  The substitution does not rewrite variables inside quotation types, so a variable that unification
  has already bound can come back when a row variable is bound to the stack type of a quotation.
  The two quotation pairs below hand the tails of two stacks to each other: \<open>loop_p1\<close> against
  \<open>loop_p2\<close> extends the tails \<open>..a\<close>, \<open>..b\<close> to ones based on \<open>..c\<close>, \<open>..d\<close>, and \<open>loop_r1\<close> against
  \<open>loop_r2\<close> extends those back to \<open>..a\<close>, \<open>..b\<close>.  Spines are written with the top first.
\<close>

definition spine :: "name \<Rightarrow> ty list \<Rightarrow> stack_type" where
  "spine v ts = foldr (\<lambda>t st. SCons st t) ts (SRowVar v)"

lemma spine_simps [simp]: "spine v [] = SRowVar v" "spine v (t # ts) = SCons (spine v ts) t"
  by (simp_all add: spine_def)

abbreviation quotation :: "stack_type \<Rightarrow> stack_type \<Rightarrow> ty" where
  "quotation i o' \<equiv> TQuotation (Effect i o' [])"

definition loop_p1 :: ty where
  "loop_p1 = quotation (spine ''a'' []) (spine ''b'' [])"

definition loop_p2 :: ty where
  "loop_p2 = quotation
     (spine ''c'' (map TVar [''T1'', ''U1'', ''U2'', ''V1'', ''V2'']))
     (spine ''d'' (map TVar [''T2'', ''T1'', ''T2'', ''S1'', ''S2'']))"

definition loop_r1 :: ty where
  "loop_r1 = quotation (spine ''c'' []) (spine ''d'' [])"

definition loop_r2 :: ty where
  "loop_r2 = quotation
     (spine ''a'' (map TVar [''V1'', ''T1'', ''T2'', ''S1'', ''S2'']))
     (spine ''b'' (map TVar [''V2'', ''U1'', ''U2'', ''V1'', ''V2'']))"

definition loop_left :: stack_type where
  "loop_left = spine ''a'' [loop_p1, TVar ''T1'', TVar ''T2'', TVar ''S1'', TVar ''S2'']"

definition loop_right :: stack_type where
  "loop_right = spine ''b'' [loop_p2, loop_r1, loop_r2, loop_p1, loop_p2]"

lemmas loop_types = loop_p1_def loop_p2_def loop_r1_def loop_r2_def

text \<open>One unification step that does not fail passes non-termination on.\<close>

lemma unify_stacks_Cons_None:
  assumes "unify_types n t1 t2 = None \<or> unify_types n t1 t2 = Some (Ok s)"
    and "unify_stacks n (apply_stack s r1) (apply_stack s r2) = None"
  shows "unify_stacks (Suc n) (SCons r1 t1) (SCons r2 t2) = None"
  using assms by auto

lemma apply_stack_no_rvars:
  "subst_types s = Map.empty \<Longrightarrow> stack_rvars st \<inter> dom (subst_rows s) = {} \<Longrightarrow> apply_stack s st = st"
  by (rule apply_stack_id) auto

lemma unify_row_quotations:
  assumes "a \<noteq> b" "a \<notin> stack_rvars A \<union> stack_rvars B" "b \<notin> stack_rvars A \<union> stack_rvars B"
  shows "unify_types n (quotation (SRowVar a) (SRowVar b)) (quotation A B) = None \<or>
    unify_types n (quotation (SRowVar a) (SRowVar b)) (quotation A B) =
      Some (Ok \<lparr>subst_types = Map.empty, subst_rows = [a \<mapsto> A, b \<mapsto> B]\<rparr>)"
proof -
  have "bind_row_var v st = Ok (subst_empty\<lparr>subst_rows := [v \<mapsto> st]\<rparr>)" if "v \<notin> stack_rvars st" for v st
    using that by (auto simp: bind_row_var_def occurs_in_stack_iff)
  moreover have "apply_stack (subst_empty\<lparr>subst_rows := [v \<mapsto> st]\<rparr>) u = u" if "v \<notin> stack_rvars u" for v st u
    using that by (intro apply_stack_no_rvars) auto
  ultimately have "unify_effects (Suc (Suc k)) (Effect (SRowVar a) (SRowVar b) []) (Effect A B []) =
      Some (Ok \<lparr>subst_types = Map.empty, subst_rows = [a \<mapsto> A, b \<mapsto> B]\<rparr>)" for k
    using assms by (auto simp: compose_def fun_eq_iff)
  then have "unify_effects k (Effect (SRowVar a) (SRowVar b) []) (Effect A B []) \<in>
      {None, Some (Ok \<lparr>subst_types = Map.empty, subst_rows = [a \<mapsto> A, b \<mapsto> B]\<rparr>)}" for k
    by (cases k; cases "k - 1") auto
  then show ?thesis by (cases n) (auto simp: unify_types.simps(2))
qed

lemma loop_apply [simp]:
  "apply_type s loop_p1 = loop_p1" "apply_type s loop_p2 = loop_p2"
  "apply_type s loop_r1 = loop_r1" "apply_type s loop_r2 = loop_r2"
  by (simp_all add: loop_types)

lemma loop_unify:
  "unify_types n loop_p1 loop_p2 = None \<or> unify_types n loop_p1 loop_p2 =
     Some (Ok \<lparr>subst_types = Map.empty, subst_rows =
       [''a'' \<mapsto> spine ''c'' (map TVar [''T1'', ''U1'', ''U2'', ''V1'', ''V2'']),
        ''b'' \<mapsto> spine ''d'' (map TVar [''T2'', ''T1'', ''T2'', ''S1'', ''S2''])]\<rparr>)"
  "unify_types n loop_r1 loop_r2 = None \<or> unify_types n loop_r1 loop_r2 =
     Some (Ok \<lparr>subst_types = Map.empty, subst_rows =
       [''c'' \<mapsto> spine ''a'' (map TVar [''V1'', ''T1'', ''T2'', ''S1'', ''S2'']),
        ''d'' \<mapsto> spine ''b'' (map TVar [''V2'', ''U1'', ''U2'', ''V1'', ''V2''])]\<rparr>)"
  unfolding loop_types spine_simps(1) by (rule unify_row_quotations; simp)+

lemma loop_bind:
  assumes "t \<in> {loop_p1, loop_p2, loop_r1, loop_r2}" "v \<notin> {''a'', ''b'', ''c'', ''d''}"
  shows "unify_types n (TVar v) t = None \<or> unify_types n (TVar v) t = Some (Ok (single v t))"
  using assms by (cases n) (auto simp: unify_types_var bind_type_var_def loop_types)

text \<open>The ten states the search runs through; the last leads back to the first.\<close>

definition loop_states :: "(stack_type \<times> stack_type) list" where
  "loop_states =
     [(loop_left, loop_right),
      (spine ''c'' (map TVar [''T1'', ''T2'', ''S1'', ''S2'', ''T1'', ''U1'', ''U2'', ''V1'', ''V2'']),
       spine ''d'' ([loop_r1, loop_r2, loop_p1, loop_p2] @ map TVar [''T2'', ''T1'', ''T2'', ''S1'', ''S2''])),
      (spine ''c'' (map TVar [''T2'', ''S1'', ''S2''] @ loop_r1 # map TVar [''U1'', ''U2'', ''V1'', ''V2'']),
       spine ''d'' [loop_r2, loop_p1, loop_p2, TVar ''T2'', loop_r1, TVar ''T2'', TVar ''S1'', TVar ''S2'']),
      (spine ''c'' (map TVar [''S1'', ''S2''] @ loop_r1 # map TVar [''U1'', ''U2'', ''V1'', ''V2'']),
       spine ''d'' [loop_p1, loop_p2, loop_r2, loop_r1, loop_r2, TVar ''S1'', TVar ''S2'']),
      (spine ''c'' (TVar ''S2'' # loop_r1 # map TVar [''U1'', ''U2'', ''V1'', ''V2'']),
       spine ''d'' [loop_p2, loop_r2, loop_r1, loop_r2, loop_p1, TVar ''S2'']),
      (spine ''c'' (loop_r1 # map TVar [''U1'', ''U2'', ''V1'', ''V2'']),
       spine ''d'' [loop_r2, loop_r1, loop_r2, loop_p1, loop_p2]),
      (spine ''a'' (map TVar [''U1'', ''U2'', ''V1'', ''V2'', ''V1'', ''T1'', ''T2'', ''S1'', ''S2'']),
       spine ''b'' ([loop_r1, loop_r2, loop_p1, loop_p2] @ map TVar [''V2'', ''U1'', ''U2'', ''V1'', ''V2''])),
      (spine ''a'' (map TVar [''U2'', ''V1'', ''V2'', ''V1'', ''T1'', ''T2'', ''S1'', ''S2'']),
       spine ''b'' [loop_r2, loop_p1, loop_p2, TVar ''V2'', loop_r1, TVar ''U2'', TVar ''V1'', TVar ''V2'']),
      (spine ''a'' (map TVar [''V1'', ''V2'', ''V1'', ''T1'', ''T2'', ''S1'', ''S2'']),
       spine ''b'' [loop_p1, loop_p2, TVar ''V2'', loop_r1, loop_r2, TVar ''V1'', TVar ''V2'']),
      (spine ''a'' (TVar ''V2'' # loop_p1 # map TVar [''T1'', ''T2'', ''S1'', ''S2'']),
       spine ''b'' [loop_p2, TVar ''V2'', loop_r1, loop_r2, loop_p1, TVar ''V2''])]"

lemma loop_states_diverge: "list_all (\<lambda>(l, r). unify_stacks n l r = None) loop_states"
proof (induction n)
  case 0
  show ?case by (simp add: loop_states_def)
next
  case (Suc n)
  note step = unify_stacks_Cons_None [OF loop_unify(1)] unify_stacks_Cons_None [OF loop_unify(2)]
    unify_stacks_Cons_None [OF loop_bind]
  from Suc show ?case
    by (simp add: loop_states_def loop_left_def loop_right_def step del: unify_stacks_simps(5))
qed

section \<open>Properties\<close>

text \<open>C5: Unification is sound on stack types without quotation types.  When \<open>unify_stacks\<close> succeeds, the
  substitution binds only variables of the two stacks, to flat types and stacks over variables it leaves
  free, and applying it makes the two stacks agree, up to a union type meeting \<open>Variant\<close>.\<close>

theorem unify_stacks_sound:
  assumes "unify_stacks n s1 s2 = Some (Ok s)" "flat_stack s1" "flat_stack s2"
  shows "subst_ok (stack_tvars s1 \<union> stack_tvars s2) (stack_rvars s1 \<union> stack_rvars s2) s \<and>
    compat_stack (apply_stack s s1) (apply_stack s s2)"
  using unify_stacks_flat [OF assms subset_refl subset_refl] .

definition demo_left :: stack_type where
  "demo_left = SCons (SRowVar ''a'') TInt"

definition demo_right :: stack_type where
  "demo_right = SCons (SCons (SRowVar ''b'') TBool) (TVar ''T'')"

definition demo_unifier :: subst where
  "demo_unifier = \<lparr>subst_types = [''T'' \<mapsto> TInt], subst_rows = [''a'' \<mapsto> SCons (SRowVar ''b'') TBool]\<rparr>"

lemma demo_unify: "\<exists>s. unify_stacks 3 demo_left demo_right = Some (Ok s)"
  using unify_stacks_complete [of demo_left demo_right 3 demo_unifier]
  by (auto simp: demo_left_def demo_right_def demo_unifier_def)

theorem unify_stacks_sound_witness:
  "\<exists>s. unify_stacks 3 demo_left demo_right = Some (Ok s) \<and> compat_stack (apply_stack s demo_left) (apply_stack s demo_right)"
proof -
  obtain s where s: "unify_stacks 3 demo_left demo_right = Some (Ok s)" using demo_unify by blast
  have "flat_stack demo_left" "flat_stack demo_right" by (simp_all add: demo_left_def demo_right_def)
  with unify_stacks_sound [OF s] s show ?thesis by blast
qed

text \<open>C8: Unification decides unifiability of stack types without quotation types.  With fuel above the depth of
  the first stack it returns, and whenever some substitution \<open>\<theta>\<close> makes the stacks equal it succeeds with a
  most general unifier, through which \<open>\<theta>\<close> factors.\<close>

theorem unify_stacks_decides:
  assumes "flat_stack s1" "flat_stack s2" "stack_depth s1 < n"
  shows "(\<exists>r. unify_stacks n s1 s2 = Some r) \<and>
    (apply_stack \<theta> s1 = apply_stack \<theta> s2 \<longrightarrow> (\<exists>s. unify_stacks n s1 s2 = Some (Ok s) \<and> factors \<theta> s))"
  using unify_stacks_flat_terminates [OF assms] unify_stacks_complete [OF assms] by blast

theorem unify_stacks_decides_witness:
  "apply_stack demo_unifier demo_left = apply_stack demo_unifier demo_right \<and>
   (\<exists>s. unify_stacks 3 demo_left demo_right = Some (Ok s) \<and> factors demo_unifier s)"
  using unify_stacks_decides [of demo_left demo_right 3 demo_unifier]
  by (simp add: demo_left_def demo_right_def demo_unifier_def)

text \<open>Fuel only bounds the search: a result found with some fuel is the result with any larger fuel, on all
  stack types, quotation types included.\<close>

lemma unify_stacks_fuel_irrelevant:
  assumes "unify_stacks n s1 s2 = Some r" "n \<le> m"
  shows "unify_stacks m s1 s2 = Some r"
  by (rule unify_stacks_fuel_mono [OF assms])

lemma unify_stacks_fuel_irrelevant_witness:
  "\<exists>r. unify_stacks 3 demo_left demo_right = Some r \<and> unify_stacks 10 demo_left demo_right = Some r"
proof -
  obtain s where s: "unify_stacks 3 demo_left demo_right = Some (Ok s)" using demo_unify by blast
  then show ?thesis using unify_stacks_fuel_irrelevant [OF s, of 10] by auto
qed

text \<open>C25: With quotation types the search may run forever: on this pair of stacks no amount of fuel gives a
  result, because \<open>apply_type\<close> leaves the variables inside a quotation type alone and they return after
  they have been bound.\<close>

theorem unify_stacks_can_diverge: "unify_stacks n loop_left loop_right = None"
  using loop_states_diverge [of n] by (simp add: loop_states_def)

end
