(* ===== verification/Freshen.thy ===== *)
theory Freshen
  imports Seq_Types
begin

text \<open>
  Fresh type variables and the alpha-renaming of effects, after
  \<open>crates/compiler/src/typechecker/freshen.rs\<close>.  The state is the type checker's fresh counter with the
  two maps that a renaming threads through the whole effect.
\<close>

section \<open>Operations\<close>

record fresh_state =
  fresh_counter :: nat
  type_map :: "name \<rightharpoonup> name"
  row_map :: "name \<rightharpoonup> name"

definition fresh_var :: "name \<Rightarrow> nat \<Rightarrow> name \<times> nat" where
  "fresh_var prefix n = (prefix @ ''$'' @ dec n, n + 1)"

definition fresh_type_name :: "name \<Rightarrow> fresh_state \<Rightarrow> name \<times> fresh_state" where
  "fresh_type_name v f =
     (case type_map f v of
        Some v' \<Rightarrow> (v', f)
      | None \<Rightarrow> (let (v', c) = fresh_var v (fresh_counter f)
                 in (v', f\<lparr>fresh_counter := c, type_map := (type_map f)(v \<mapsto> v')\<rparr>)))"

definition fresh_row_name :: "name \<Rightarrow> fresh_state \<Rightarrow> name \<times> fresh_state" where
  "fresh_row_name v f =
     (case row_map f v of
        Some v' \<Rightarrow> (v', f)
      | None \<Rightarrow> (let (v', c) = fresh_var v (fresh_counter f)
                 in (v', f\<lparr>fresh_counter := c, row_map := (row_map f)(v \<mapsto> v')\<rparr>)))"

text \<open>
  A quotation or closure type is rebuilt with \<open>Effect::new\<close>, which has no side effects.
  \<open>freshen_types\<close> is the iteration over the captures of a closure.
\<close>

fun freshen_stack :: "stack_type \<Rightarrow> fresh_state \<Rightarrow> stack_type \<times> fresh_state"
and freshen_type :: "ty \<Rightarrow> fresh_state \<Rightarrow> ty \<times> fresh_state"
and freshen_types :: "ty list \<Rightarrow> fresh_state \<Rightarrow> ty list \<times> fresh_state" where
  "freshen_stack SEmpty f = (SEmpty, f)"
| "freshen_stack (SRowVar v) f = (let (v', f) = fresh_row_name v f in (SRowVar v', f))"
| "freshen_stack (SCons rest tp) f =
     (let (rest', f) = freshen_stack rest f; (tp', f) = freshen_type tp f in (SCons rest' tp', f))"
| "freshen_type (TVar v) f = (let (v', f) = fresh_type_name v f in (TVar v', f))"
| "freshen_type (TQuotation (Effect i o' es)) f =
     (let (i', f) = freshen_stack i f; (o'', f) = freshen_stack o' f
      in (TQuotation (effect_new i' o''), f))"
| "freshen_type (TClosure (Effect i o' es) cs) f =
     (let (i', f) = freshen_stack i f; (o'', f) = freshen_stack o' f; (cs', f) = freshen_types cs f
      in (TClosure (effect_new i' o'') cs', f))"
| "freshen_type t f = (t, f)"
| "freshen_types [] f = ([], f)"
| "freshen_types (c # cs) f =
     (let (c', f) = freshen_type c f; (cs', f) = freshen_types cs f in (c' # cs', f))"

fun freshen_side_effect :: "side_effect \<Rightarrow> fresh_state \<Rightarrow> side_effect \<times> fresh_state" where
  "freshen_side_effect (Yield t) f = (let (t', f) = freshen_type t f in (Yield t', f))"

fun freshen_side_effects :: "side_effect list \<Rightarrow> fresh_state \<Rightarrow> side_effect list \<times> fresh_state" where
  "freshen_side_effects [] f = ([], f)"
| "freshen_side_effects (e # es) f =
     (let (e', f) = freshen_side_effect e f; (es', f) = freshen_side_effects es f in (e' # es', f))"

definition freshen_effect :: "effect \<Rightarrow> nat \<Rightarrow> effect \<times> nat" where
  "freshen_effect e c =
     (let f = \<lparr>fresh_counter = c, type_map = Map.empty, row_map = Map.empty\<rparr>;
          (i, f) = freshen_stack (inputs e) f;
          (o', f) = freshen_stack (outputs e) f;
          (es, f) = freshen_side_effects (effects e) f
      in (effect_with_effects i o' es, fresh_counter f))"

section \<open>The specification: an injective renaming into names of the counter's range\<close>

text \<open>
  \<open>rename_stack\<close> renames every variable, including those inside quotation types, and drops the side
  effects of nested quotation and closure types, as the code does.
\<close>

fun rename_stack :: "(name \<Rightarrow> name) \<Rightarrow> (name \<Rightarrow> name) \<Rightarrow> stack_type \<Rightarrow> stack_type"
and rename_type :: "(name \<Rightarrow> name) \<Rightarrow> (name \<Rightarrow> name) \<Rightarrow> ty \<Rightarrow> ty" where
  "rename_stack \<tau> \<rho> SEmpty = SEmpty"
| "rename_stack \<tau> \<rho> (SRowVar v) = SRowVar (\<rho> v)"
| "rename_stack \<tau> \<rho> (SCons rest tp) = SCons (rename_stack \<tau> \<rho> rest) (rename_type \<tau> \<rho> tp)"
| "rename_type \<tau> \<rho> (TVar v) = TVar (\<tau> v)"
| "rename_type \<tau> \<rho> (TQuotation (Effect i o' es)) =
     TQuotation (Effect (rename_stack \<tau> \<rho> i) (rename_stack \<tau> \<rho> o') [])"
| "rename_type \<tau> \<rho> (TClosure (Effect i o' es) cs) =
     TClosure (Effect (rename_stack \<tau> \<rho> i) (rename_stack \<tau> \<rho> o') []) (map (rename_type \<tau> \<rho>) cs)"
| "rename_type \<tau> \<rho> t = t"

fun rename_side_effect :: "(name \<Rightarrow> name) \<Rightarrow> (name \<Rightarrow> name) \<Rightarrow> side_effect \<Rightarrow> side_effect" where
  "rename_side_effect \<tau> \<rho> (Yield t) = Yield (rename_type \<tau> \<rho> t)"

definition rename_effect :: "(name \<Rightarrow> name) \<Rightarrow> (name \<Rightarrow> name) \<Rightarrow> effect \<Rightarrow> effect" where
  "rename_effect \<tau> \<rho> e =
     Effect (rename_stack \<tau> \<rho> (inputs e)) (rename_stack \<tau> \<rho> (outputs e))
       (map (rename_side_effect \<tau> \<rho>) (effects e))"

text \<open>The variables of a stack type at any depth.\<close>

fun deep_tvars :: "stack_type \<Rightarrow> name set"
and deep_type_tvars :: "ty \<Rightarrow> name set" where
  "deep_tvars (SCons rest tp) = deep_tvars rest \<union> deep_type_tvars tp"
| "deep_tvars _ = {}"
| "deep_type_tvars (TVar v) = {v}"
| "deep_type_tvars (TQuotation (Effect i o' es)) = deep_tvars i \<union> deep_tvars o'"
| "deep_type_tvars (TClosure (Effect i o' es) cs) =
     deep_tvars i \<union> deep_tvars o' \<union> \<Union> (set (map deep_type_tvars cs))"
| "deep_type_tvars _ = {}"

fun deep_rvars :: "stack_type \<Rightarrow> name set"
and deep_type_rvars :: "ty \<Rightarrow> name set" where
  "deep_rvars (SCons rest tp) = deep_rvars rest \<union> deep_type_rvars tp"
| "deep_rvars (SRowVar v) = {v}"
| "deep_rvars SEmpty = {}"
| "deep_type_rvars (TQuotation (Effect i o' es)) = deep_rvars i \<union> deep_rvars o'"
| "deep_type_rvars (TClosure (Effect i o' es) cs) =
     deep_rvars i \<union> deep_rvars o' \<union> \<Union> (set (map deep_type_rvars cs))"
| "deep_type_rvars _ = {}"

text \<open>The variables of the side effects of an effect.\<close>

fun yield_type :: "side_effect \<Rightarrow> ty" where
  "yield_type (Yield t) = t"

definition effect_deep_tvars :: "effect \<Rightarrow> name set" where
  "effect_deep_tvars e = deep_tvars (inputs e) \<union> deep_tvars (outputs e) \<union> (\<Union>x \<in> set (effects e). deep_type_tvars (yield_type x))"

definition effect_deep_rvars :: "effect \<Rightarrow> name set" where
  "effect_deep_rvars e = deep_rvars (inputs e) \<union> deep_rvars (outputs e) \<union> (\<Union>x \<in> set (effects e). deep_type_rvars (yield_type x))"

text \<open>
  The same in two steps: a renaming that keeps everything but the names, after the loss of the side effects of the
  quotation and closure types inside the effect.  The side effects of the effect itself stay.
\<close>

fun alpha_stack :: "(name \<Rightarrow> name) \<Rightarrow> (name \<Rightarrow> name) \<Rightarrow> stack_type \<Rightarrow> stack_type"
and alpha_type :: "(name \<Rightarrow> name) \<Rightarrow> (name \<Rightarrow> name) \<Rightarrow> ty \<Rightarrow> ty"
and alpha_effect :: "(name \<Rightarrow> name) \<Rightarrow> (name \<Rightarrow> name) \<Rightarrow> effect \<Rightarrow> effect"
and alpha_side_effect :: "(name \<Rightarrow> name) \<Rightarrow> (name \<Rightarrow> name) \<Rightarrow> side_effect \<Rightarrow> side_effect" where
  "alpha_stack \<tau> \<rho> SEmpty = SEmpty"
| "alpha_stack \<tau> \<rho> (SRowVar v) = SRowVar (\<rho> v)"
| "alpha_stack \<tau> \<rho> (SCons rest tp) = SCons (alpha_stack \<tau> \<rho> rest) (alpha_type \<tau> \<rho> tp)"
| "alpha_type \<tau> \<rho> (TVar v) = TVar (\<tau> v)"
| "alpha_type \<tau> \<rho> (TQuotation e) = TQuotation (alpha_effect \<tau> \<rho> e)"
| "alpha_type \<tau> \<rho> (TClosure e cs) = TClosure (alpha_effect \<tau> \<rho> e) (map (alpha_type \<tau> \<rho>) cs)"
| "alpha_type \<tau> \<rho> t = t"
| "alpha_effect \<tau> \<rho> (Effect i o' es) = Effect (alpha_stack \<tau> \<rho> i) (alpha_stack \<tau> \<rho> o') (map (alpha_side_effect \<tau> \<rho>) es)"
| "alpha_side_effect \<tau> \<rho> (Yield t) = Yield (alpha_type \<tau> \<rho> t)"

fun erase_stack :: "stack_type \<Rightarrow> stack_type"
and erase_type :: "ty \<Rightarrow> ty" where
  "erase_stack SEmpty = SEmpty"
| "erase_stack (SRowVar v) = SRowVar v"
| "erase_stack (SCons rest tp) = SCons (erase_stack rest) (erase_type tp)"
| "erase_type (TQuotation (Effect i o' es)) = TQuotation (Effect (erase_stack i) (erase_stack o') [])"
| "erase_type (TClosure (Effect i o' es) cs) = TClosure (Effect (erase_stack i) (erase_stack o') []) (map erase_type cs)"
| "erase_type t = t"

definition erase_nested :: "effect \<Rightarrow> effect" where
  "erase_nested e = Effect (erase_stack (inputs e)) (erase_stack (outputs e)) (map (\<lambda>x. Yield (erase_type (yield_type x))) (effects e))"

text \<open>The type and row variables of an effect, at any depth and in every side effect.\<close>

fun all_tvars :: "stack_type \<Rightarrow> name set"
and all_type_tvars :: "ty \<Rightarrow> name set"
and all_effect_tvars :: "effect \<Rightarrow> name set"
and all_side_effect_tvars :: "side_effect \<Rightarrow> name set" where
  "all_tvars (SCons rest tp) = all_tvars rest \<union> all_type_tvars tp"
| "all_tvars _ = {}"
| "all_type_tvars (TVar v) = {v}"
| "all_type_tvars (TQuotation e) = all_effect_tvars e"
| "all_type_tvars (TClosure e cs) = all_effect_tvars e \<union> \<Union> (set (map all_type_tvars cs))"
| "all_type_tvars _ = {}"
| "all_effect_tvars (Effect i o' es) = all_tvars i \<union> all_tvars o' \<union> \<Union> (set (map all_side_effect_tvars es))"
| "all_side_effect_tvars (Yield t) = all_type_tvars t"

fun all_rvars :: "stack_type \<Rightarrow> name set"
and all_type_rvars :: "ty \<Rightarrow> name set"
and all_effect_rvars :: "effect \<Rightarrow> name set"
and all_side_effect_rvars :: "side_effect \<Rightarrow> name set" where
  "all_rvars (SCons rest tp) = all_rvars rest \<union> all_type_rvars tp"
| "all_rvars (SRowVar v) = {v}"
| "all_rvars SEmpty = {}"
| "all_type_rvars (TQuotation e) = all_effect_rvars e"
| "all_type_rvars (TClosure e cs) = all_effect_rvars e \<union> \<Union> (set (map all_type_rvars cs))"
| "all_type_rvars _ = {}"
| "all_effect_rvars (Effect i o' es) = all_rvars i \<union> all_rvars o' \<union> \<Union> (set (map all_side_effect_rvars es))"
| "all_side_effect_rvars (Yield t) = all_type_rvars t"

lemma rename_erase:
  "rename_stack \<tau> \<rho> st = alpha_stack \<tau> \<rho> (erase_stack st)"
  "rename_type \<tau> \<rho> t = alpha_type \<tau> \<rho> (erase_type t)"
  by (induction \<tau> \<rho> st and \<tau> \<rho> t rule: rename_stack_rename_type.induct) (auto simp: map_idI)

lemma deep_tvars_erase: "all_tvars (erase_stack st) = deep_tvars st" "all_type_tvars (erase_type t) = deep_type_tvars t"
  by (induction st and t rule: deep_tvars_deep_type_tvars.induct) auto

lemma deep_rvars_erase: "all_rvars (erase_stack st) = deep_rvars st" "all_type_rvars (erase_type t) = deep_type_rvars t"
  by (induction st and t rule: deep_rvars_deep_type_rvars.induct) auto

lemma side_effect_erase: "rename_side_effect \<tau> \<rho> x = alpha_side_effect \<tau> \<rho> (Yield (erase_type (yield_type x)))"
  by (cases x) (simp add: rename_erase)

lemma effect_erase:
  "rename_effect \<tau> \<rho> e = alpha_effect \<tau> \<rho> (erase_nested e)" "effect_deep_tvars e = all_effect_tvars (erase_nested e)"
  "effect_deep_rvars e = all_effect_rvars (erase_nested e)"
  by (auto simp: rename_effect_def erase_nested_def rename_erase side_effect_erase effect_deep_tvars_def effect_deep_rvars_def
      deep_tvars_erase deep_rvars_erase)

section \<open>Fresh names\<close>

lemma fresh_var_inj: "fst (fresh_var p m) = fst (fresh_var q n) \<Longrightarrow> p = q \<and> m = n"
proof -
  have "CHR ''$'' \<notin> set (dec k)" for k
    using dec_digits [of "CHR ''$''" k] by auto
  then show "fst (fresh_var p m) = fst (fresh_var q n) \<Longrightarrow> p = q \<and> m = n"
    using append_sep_eq [of p "CHR ''$''" "dec m" q "dec n"] dec_inj by (auto simp: fresh_var_def)
qed

text \<open>
  The state extends another when its maps agree with the other's, its counter has not gone back, and
  each name it added is the fresh name of its variable at a counter value of the range.
\<close>

definition fresh_range :: "nat \<Rightarrow> nat \<Rightarrow> name \<Rightarrow> name \<Rightarrow> bool" where
  "fresh_range c d v v' \<longleftrightarrow> (\<exists>k. c \<le> k \<and> k < d \<and> v' = fst (fresh_var v k))"

definition fresh_inv :: "nat \<Rightarrow> fresh_state \<Rightarrow> bool" where
  "fresh_inv c f \<longleftrightarrow> c \<le> fresh_counter f \<and>
     (\<forall>v v'. type_map f v = Some v' \<longrightarrow> fresh_range c (fresh_counter f) v v') \<and>
     (\<forall>v v'. row_map f v = Some v' \<longrightarrow> fresh_range c (fresh_counter f) v v')"

definition extends :: "fresh_state \<Rightarrow> fresh_state \<Rightarrow> bool" where
  "extends f g \<longleftrightarrow> type_map f \<subseteq>\<^sub>m type_map g \<and> row_map f \<subseteq>\<^sub>m row_map g"

lemma extends_refl [simp]: "extends f f"
  by (simp add: extends_def)

lemma extends_trans: "extends f g \<Longrightarrow> extends g h \<Longrightarrow> extends f h"
  by (auto simp: extends_def intro: map_le_trans)

lemma fresh_range_Suc: "fresh_range c d v v' \<Longrightarrow> fresh_range c (Suc d) v v'"
  by (auto simp: fresh_range_def intro: less_SucI)

lemma fresh_range_new: "c \<le> d \<Longrightarrow> fresh_range c (Suc d) v (fst (fresh_var v d))"
  by (auto simp: fresh_range_def)

lemma fresh_invI:
  assumes "fresh_inv c f" "d = fresh_counter f"
  shows "fresh_inv c (f\<lparr>fresh_counter := Suc d, type_map := (type_map f)(v \<mapsto> fst (fresh_var v d))\<rparr>)"
    "fresh_inv c (f\<lparr>fresh_counter := Suc d, row_map := (row_map f)(v \<mapsto> fst (fresh_var v d))\<rparr>)"
  using assms by (auto simp: fresh_inv_def intro: fresh_range_new fresh_range_Suc)

lemma fresh_type_name_spec:
  assumes "fresh_type_name v f = (v', f')" "fresh_inv c f"
  shows "fresh_inv c f' \<and> extends f f' \<and> type_map f' v = Some v'"
proof (cases "type_map f v")
  case None
  with assms(1) have "f' = f\<lparr>fresh_counter := Suc (fresh_counter f),
      type_map := (type_map f)(v \<mapsto> fst (fresh_var v (fresh_counter f)))\<rparr>"
    and "v' = fst (fresh_var v (fresh_counter f))"
    by (auto simp: fresh_type_name_def fresh_var_def)
  with None assms(2) show ?thesis by (auto simp: extends_def map_le_def intro: fresh_invI)
qed (use assms in \<open>auto simp: fresh_type_name_def\<close>)

lemma fresh_row_name_spec:
  assumes "fresh_row_name v f = (v', f')" "fresh_inv c f"
  shows "fresh_inv c f' \<and> extends f f' \<and> row_map f' v = Some v'"
proof (cases "row_map f v")
  case None
  with assms(1) have "f' = f\<lparr>fresh_counter := Suc (fresh_counter f),
      row_map := (row_map f)(v \<mapsto> fst (fresh_var v (fresh_counter f)))\<rparr>"
    and "v' = fst (fresh_var v (fresh_counter f))"
    by (auto simp: fresh_row_name_def fresh_var_def)
  with None assms(2) show ?thesis by (auto simp: extends_def map_le_def intro: fresh_invI)
qed (use assms in \<open>auto simp: fresh_row_name_def\<close>)

section \<open>Freshening is an alpha-renaming\<close>

text \<open>
  What every freshening step guarantees: the invariant, an extended state, and that any later state
  renames the input to the output.
\<close>

definition fresh_step :: "nat \<Rightarrow> fresh_state \<Rightarrow> fresh_state \<Rightarrow> (fresh_state \<Rightarrow> bool) \<Rightarrow> bool" where
  "fresh_step c f f' P \<longleftrightarrow> (fresh_inv c f \<longrightarrow> fresh_inv c f' \<and> extends f f' \<and> (\<forall>g. extends f' g \<longrightarrow> P g))"

lemma fresh_stepI:
  "fresh_inv c f' \<and> extends f f' \<Longrightarrow> (\<And>g. extends f' g \<Longrightarrow> P g) \<Longrightarrow> fresh_step c f f' P"
  by (simp add: fresh_step_def)

lemma fresh_step_refl: "(\<And>g. P g) \<Longrightarrow> fresh_step c f f P"
  by (simp add: fresh_step_def)

lemma fresh_step_conj:
  "fresh_step c f f' P \<Longrightarrow> fresh_step c f' f'' Q \<Longrightarrow> fresh_step c f f'' (\<lambda>g. P g \<and> Q g)"
  unfolding fresh_step_def by (meson extends_trans)

lemma fresh_step_mono: "fresh_step c f f' P \<Longrightarrow> (\<And>g. P g \<Longrightarrow> Q g) \<Longrightarrow> fresh_step c f f' Q"
  unfolding fresh_step_def by blast

abbreviation tren :: "fresh_state \<Rightarrow> name \<Rightarrow> name" where "tren g \<equiv> (\<lambda>v. the (type_map g v))"
abbreviation rren :: "fresh_state \<Rightarrow> name \<Rightarrow> name" where "rren g \<equiv> (\<lambda>v. the (row_map g v))"

lemma extends_type: "extends f g \<Longrightarrow> type_map f v = Some v' \<Longrightarrow> type_map g v = Some v'"
  by (auto simp: extends_def map_le_def dom_def)

lemma extends_row: "extends f g \<Longrightarrow> row_map f v = Some v' \<Longrightarrow> row_map g v = Some v'"
  by (auto simp: extends_def map_le_def dom_def)

lemma fresh_type_step: "fresh_type_name v f = (w, f') \<Longrightarrow> fresh_step c f f' (\<lambda>g. type_map g v = Some w)"
  unfolding fresh_step_def by (meson fresh_type_name_spec extends_type)

lemma fresh_row_step: "fresh_row_name v f = (w, f') \<Longrightarrow> fresh_step c f f' (\<lambda>g. row_map g v = Some w)"
  unfolding fresh_step_def by (meson fresh_row_name_spec extends_row)

lemma freshen_spec:
  "freshen_stack st f = (st', f') \<Longrightarrow> fresh_step c f f' (\<lambda>g. st' = rename_stack (tren g) (rren g) st \<and>
     deep_tvars st \<subseteq> dom (type_map g) \<and> deep_rvars st \<subseteq> dom (row_map g))"
  "freshen_type t f = (t', f') \<Longrightarrow> fresh_step c f f' (\<lambda>g. t' = rename_type (tren g) (rren g) t \<and>
     deep_type_tvars t \<subseteq> dom (type_map g) \<and> deep_type_rvars t \<subseteq> dom (row_map g))"
  "freshen_types ts f = (ts', f') \<Longrightarrow> fresh_step c f f' (\<lambda>g. ts' = map (rename_type (tren g) (rren g)) ts \<and>
     \<Union> (set (map deep_type_tvars ts)) \<subseteq> dom (type_map g) \<and> \<Union> (set (map deep_type_rvars ts)) \<subseteq> dom (row_map g))"
proof (induction st f and t f and ts f arbitrary: st' f' and t' f' and ts' f'
    rule: freshen_stack_freshen_type_freshen_types.induct)
  case (2 v f)
  then obtain w where "fresh_row_name v f = (w, f')" "st' = SRowVar w"
    by (auto split: prod.splits)
  then show ?case by (auto intro: fresh_step_mono [OF fresh_row_step])
next
  case (3 rest tp f)
  then obtain r' g' t' where e: "freshen_stack rest f = (r', g')" "freshen_type tp g' = (t', f')"
    and "st' = SCons r' t'" by (auto split: prod.splits)
  then show ?case
    by (intro fresh_step_mono [OF fresh_step_conj [OF "3.IH"(1) [OF e(1)]
          "3.IH"(2) [OF refl e(1) [symmetric] e(2)]]]) auto
next
  case (4 v f)
  then obtain w where "fresh_type_name v f = (w, f')" "t' = TVar w"
    by (auto split: prod.splits)
  then show ?case by (auto intro: fresh_step_mono [OF fresh_type_step])
next
  case (5 i o' es f)
  then obtain i' g' o'' where e: "freshen_stack i f = (i', g')" "freshen_stack o' g' = (o'', f')"
    and "t' = TQuotation (Effect i' o'' [])" by (auto simp: effect_new_def split: prod.splits)
  then show ?case
    by (intro fresh_step_mono [OF fresh_step_conj [OF "5.IH"(1) [OF e(1)]
          "5.IH"(2) [OF refl e(1) [symmetric] e(2)]]]) auto
next
  case (6 i o' es cs f)
  then obtain i' g' o'' h' cs' where e: "freshen_stack i f = (i', g')" "freshen_stack o' g' = (o'', h')"
    "freshen_types cs h' = (cs', f')" and "t' = TClosure (Effect i' o'' []) cs'"
    by (auto simp: effect_new_def split: prod.splits)
  then show ?case
    by (intro fresh_step_mono [OF fresh_step_conj [OF fresh_step_conj [OF "6.IH"(1) [OF e(1)]
          "6.IH"(2) [OF refl e(1) [symmetric] e(2)]]
          "6.IH"(3) [OF refl e(1) [symmetric] refl e(2) [symmetric] e(3)]]]) auto
next
  case (9 c' cs f)
  then obtain c'' g' cs' where e: "freshen_type c' f = (c'', g')" "freshen_types cs g' = (cs', f')"
    and "ts' = c'' # cs'" by (auto split: prod.splits)
  then show ?case
    by (intro fresh_step_mono [OF fresh_step_conj [OF "9.IH"(1) [OF e(1)]
          "9.IH"(2) [OF refl e(1) [symmetric] e(2)]]]) auto
qed (auto intro: fresh_step_refl)

lemma freshen_side_effects_spec:
  "freshen_side_effects es f = (es', f') \<Longrightarrow>
   fresh_step c f f' (\<lambda>g. es' = map (rename_side_effect (tren g) (rren g)) es \<and>
     (\<Union>x \<in> set es. deep_type_tvars (yield_type x)) \<subseteq> dom (type_map g) \<and>
     (\<Union>x \<in> set es. deep_type_rvars (yield_type x)) \<subseteq> dom (row_map g))"
proof (induction es arbitrary: f es')
  case Nil
  then show ?case by (auto intro: fresh_step_refl)
next
  case (Cons e es)
  obtain t where t: "e = Yield t" by (cases e)
  with Cons.prems obtain t' g' es2 where e: "freshen_type t f = (t', g')"
    "freshen_side_effects es g' = (es2, f')" and "es' = Yield t' # es2" by (auto split: prod.splits)
  then show ?case
    by (intro fresh_step_mono [OF fresh_step_conj [OF freshen_spec(2) [OF e(1)] Cons.IH [OF e(2)]]])
      (simp add: t)
qed

lemma fresh_inv_inj:
  assumes "fresh_inv c f" "type_map f u = Some x \<or> row_map f u = Some x" "type_map f v = Some x \<or> row_map f v = Some x"
  shows "u = v"
proof -
  have "\<exists>k. x = fst (fresh_var w k)" if "type_map f w = Some x \<or> row_map f w = Some x" for w
    using assms(1) that unfolding fresh_inv_def fresh_range_def by blast
  with assms(2,3) show ?thesis by (metis fresh_var_inj)
qed

lemma freshen_alpha:
  "\<exists>\<tau> \<rho>. fst (freshen_effect e c) = rename_effect \<tau> \<rho> e \<and> c \<le> snd (freshen_effect e c) \<and>
     inj_on \<tau> (effect_deep_tvars e) \<and> inj_on \<rho> (effect_deep_rvars e) \<and>
     effect_deep_tvars e \<subseteq> {v. fresh_range c (snd (freshen_effect e c)) v (\<tau> v)} \<and>
     effect_deep_rvars e \<subseteq> {v. fresh_range c (snd (freshen_effect e c)) v (\<rho> v)}"
proof -
  let ?f = "\<lparr>fresh_counter = c, type_map = Map.empty, row_map = Map.empty\<rparr>"
  obtain i f1 where 1: "freshen_stack (inputs e) ?f = (i, f1)" by fastforce
  obtain o' f2 where 2: "freshen_stack (outputs e) f1 = (o', f2)" by fastforce
  obtain es f3 where 3: "freshen_side_effects (effects e) f2 = (es, f3)" by fastforce
  have r: "freshen_effect e c = (Effect i o' es, fresh_counter f3)"
    by (simp add: freshen_effect_def 1 2 3 effect_with_effects_def)
  have "fresh_inv c ?f" by (simp add: fresh_inv_def)
  with fresh_step_conj [OF fresh_step_conj [OF freshen_spec(1) [OF 1] freshen_spec(1) [OF 2]]
      freshen_side_effects_spec [OF 3]]
  have inv: "fresh_inv c f3" and eq: "Effect i o' es = rename_effect (tren f3) (rren f3) e"
    and T: "effect_deep_tvars e \<subseteq> dom (type_map f3)" and R: "effect_deep_rvars e \<subseteq> dom (row_map f3)"
    unfolding fresh_step_def rename_effect_def effect_deep_tvars_def effect_deep_rvars_def by (auto dest: spec [of _ f3])
  have "inj_on (tren f3) (dom (type_map f3))" "inj_on (rren f3) (dom (row_map f3))"
    by (auto simp: inj_on_def intro: fresh_inv_inj [OF inv])
  moreover have "dom (type_map f3) \<subseteq> {v. fresh_range c (fresh_counter f3) v (tren f3 v)}"
    "dom (row_map f3) \<subseteq> {v. fresh_range c (fresh_counter f3) v (rren f3 v)}" "c \<le> fresh_counter f3"
    using inv by (auto simp: fresh_inv_def)
  ultimately have "inj_on (tren f3) (effect_deep_tvars e)" "inj_on (rren f3) (effect_deep_rvars e)"
    "effect_deep_tvars e \<subseteq> {v. fresh_range c (fresh_counter f3) v (tren f3 v)}"
    "effect_deep_rvars e \<subseteq> {v. fresh_range c (fresh_counter f3) v (rren f3 v)}" "c \<le> fresh_counter f3"
    using T R by (simp_all add: inj_on_subset subset_trans [OF T] subset_trans [OF R])
  with eq show ?thesis unfolding r fst_conv snd_conv by blast
qed

text \<open>C19: Freshening a signature is an alpha-renaming of the signature without the side effects of the quotation and closure types
  inside it, which the code drops: every type and row variable that is left, at any depth and in the signature's own
  side effects, is renamed injectively to a name that carries a counter value of the range the call consumed.\<close>

theorem freshen_effect_renames:
  "\<exists>\<tau> \<rho>. fst (freshen_effect e c) = alpha_effect \<tau> \<rho> (erase_nested e) \<and> c \<le> snd (freshen_effect e c) \<and>
     inj_on \<tau> (all_effect_tvars (erase_nested e)) \<and> inj_on \<rho> (all_effect_rvars (erase_nested e)) \<and>
     all_effect_tvars (erase_nested e) \<subseteq> {v. fresh_range c (snd (freshen_effect e c)) v (\<tau> v)} \<and>
     all_effect_rvars (erase_nested e) \<subseteq> {v. fresh_range c (snd (freshen_effect e c)) v (\<rho> v)}"
  using freshen_alpha [of e c] unfolding effect_erase .

text \<open>Freshening erases the side effects of every quotation type inside a signature: whatever effects the
  quotation declared, its fresh instance has none.\<close>

lemma freshen_quotation_is_pure:
  "\<exists>e' f'. freshen_type (TQuotation e) f = (TQuotation e', f') \<and> is_pure e'"
  by (cases e) (auto simp: is_pure_def effect_new_def split: prod.splits)

end
