(* ===== verification/Seq_Ast.thy ===== *)
theory Seq_Ast
  imports Seq_Types
begin

text \<open>
  The syntax tree of \<open>crates/compiler/src/ast/types.rs\<close>: programs, words, unions and statements, with
  their source positions.  A float literal is kept as the 64 bits of its IEEE representation and a path
  as its string; nothing in this development computes on either.
\<close>

section \<open>Positions\<close>

record source_location =
  sl_file :: string
  sl_start_line :: nat
  sl_end_line :: nat

definition source_location_new :: "string \<Rightarrow> nat \<Rightarrow> source_location" where
  "source_location_new f l = \<lparr>sl_file = f, sl_start_line = l, sl_end_line = l\<rparr>"

definition display_source_location :: "source_location \<Rightarrow> string" where
  "display_source_location s =
     (if sl_start_line s = sl_end_line s
      then sl_file s @ '':'' @ dec (sl_start_line s + 1)
      else sl_file s @ '':'' @ dec (sl_start_line s + 1) @ ''-'' @ dec (sl_end_line s + 1))"

record span =
  sp_line :: nat
  sp_column :: nat
  sp_length :: nat

record quotation_span =
  qs_start_line :: nat
  qs_start_column :: nat
  qs_end_line :: nat
  qs_end_column :: nat

definition quotation_span_contains :: "quotation_span \<Rightarrow> nat \<Rightarrow> nat \<Rightarrow> bool" where
  "quotation_span_contains q line column =
     (if line < qs_start_line q \<or> qs_end_line q < line then False
      else if line = qs_start_line q \<and> column < qs_start_column q then False
      else if line = qs_end_line q \<and> qs_end_column q \<le> column then False
      else True)"

section \<open>Programs\<close>

datatype include_stmt = IncStd string | IncRelative string | IncFfi string

record union_field =
  uf_name :: name
  uf_type_name :: name

record union_variant =
  uv_name :: name
  uv_fields :: "union_field list"
  uv_source :: "source_location option"

record union_def =
  ud_name :: name
  ud_variants :: "union_variant list"
  ud_source :: "source_location option"

datatype pattern =
    PVariant name
  | PVariantWithBindings name "name list"

datatype statement =
    IntLiteral i64
  | FloatLiteral u64
  | BoolLiteral bool
  | StringLiteral bytes
  | Symbol name
  | WordCall name "span option"
  | If "statement list" "statement list option" "span option"
  | Quotation nat "statement list" "quotation_span option"
  | Match "match_arm list" "span option"
and match_arm = MatchArm (arm_pattern: pattern) (arm_body: "statement list") (arm_span: "span option")

record word_def =
  wd_name :: name
  wd_effect :: "effect option"
  wd_body :: "statement list"
  wd_source :: "source_location option"
  wd_allowed_lints :: "name list"

record seq_program =
  prog_includes :: "include_stmt list"
  prog_unions :: "union_def list"
  prog_words :: "word_def list"

fun pattern_name :: "pattern \<Rightarrow> name" where
  "pattern_name (PVariant n) = n"
| "pattern_name (PVariantWithBindings n _) = n"

end
