(* ===== verification/Call_Graph.thy ===== *)
theory Call_Graph
  imports Seq_Ast
begin

text \<open>
  The call graph of \<open>crates/compiler/src/call_graph.rs\<close>: the calls between the words of a program and
  Tarjan's search for the strongly connected components that are recursive.  A hash set is the list of its
  elements in some order and a hash map a partial function; the search is given fuel, and an
  \<open>expect\<close> that fails is \<open>None\<close>, as is running out of fuel.
\<close>

section \<open>Collecting calls\<close>

fun extract_each :: "statement list \<Rightarrow> name list \<Rightarrow> name list \<Rightarrow> name list"
and extract_calls_from_statement :: "statement \<Rightarrow> name list \<Rightarrow> name list \<Rightarrow> name list"
and extract_arms :: "match_arm list \<Rightarrow> name list \<Rightarrow> name list \<Rightarrow> name list" where
  "extract_each [] known calls = calls"
| "extract_each (s # ss) known calls = extract_each ss known (extract_calls_from_statement s known calls)"
| "extract_calls_from_statement (WordCall n _) known calls =
     (if n \<in> set known then List.insert n calls else calls)"
| "extract_calls_from_statement (If t None _) known calls = extract_each t known calls"
| "extract_calls_from_statement (If t (Some e) _) known calls = extract_each e known (extract_each t known calls)"
| "extract_calls_from_statement (Quotation _ body _) known calls = extract_each body known calls"
| "extract_calls_from_statement (Match arms _) known calls = extract_arms arms known calls"
| "extract_calls_from_statement (IntLiteral _) known calls = calls"
| "extract_calls_from_statement (FloatLiteral _) known calls = calls"
| "extract_calls_from_statement (BoolLiteral _) known calls = calls"
| "extract_calls_from_statement (StringLiteral _) known calls = calls"
| "extract_calls_from_statement (Symbol _) known calls = calls"
| "extract_arms [] known calls = calls"
| "extract_arms (MatchArm _ body _ # arms) known calls = extract_arms arms known (extract_each body known calls)"

definition extract_calls :: "statement list \<Rightarrow> name list \<Rightarrow> name list" where
  "extract_calls body known = extract_each body known []"

section \<open>Tarjan's algorithm\<close>

record call_graph =
  edges :: "name \<rightharpoonup> name list"
  graph_words :: "name list"
  recursive_sccs :: "name list list"

record tarjan_state =
  index_counter :: nat
  tstack :: "name list"
  on_stack :: "name list"
  indices :: "name \<rightharpoonup> nat"
  lowlinks :: "name \<rightharpoonup> nat"
  sccs :: "name list list"

definition tarjan_new :: tarjan_state where
  "tarjan_new = \<lparr>index_counter = 0, tstack = [], on_stack = [], indices = Map.empty, lowlinks = Map.empty, sccs = []\<rparr>"

definition relax_lowlink :: "name \<Rightarrow> nat \<Rightarrow> tarjan_state \<Rightarrow> tarjan_state option" where
  "relax_lowlink w c st =
     (case lowlinks st w of
        None \<Rightarrow> None
      | Some l \<Rightarrow> Some (st\<lparr>lowlinks := (lowlinks st)(w \<mapsto> min l c)\<rparr>))"

text \<open>The loop that pops the component of \<open>word\<close> off the stack.\<close>

fun pop_scc :: "name \<Rightarrow> name list \<Rightarrow> name list \<Rightarrow> name list \<Rightarrow> (name list \<times> name list \<times> name list) option" where
  "pop_scc word [] on scc = None"
| "pop_scc word (w # ws) on scc =
     (let on' = removeAll w on; scc' = List.insert w scc
      in if w = word then Some (ws, on', scc') else pop_scc word ws on' scc')"

text \<open>What \<open>tarjan_visit\<close> does before and after its loop over the callees.\<close>

definition tarjan_enter :: "name \<Rightarrow> tarjan_state \<Rightarrow> tarjan_state" where
  "tarjan_enter word st =
     (let index = index_counter st
      in st\<lparr>index_counter := index + 1, indices := (indices st)(word \<mapsto> index),
            lowlinks := (lowlinks st)(word \<mapsto> index), tstack := word # tstack st,
            on_stack := List.insert word (on_stack st)\<rparr>)"

definition tarjan_leave :: "name \<Rightarrow> tarjan_state \<Rightarrow> tarjan_state option" where
  "tarjan_leave word st =
     (if lowlinks st word = indices st word
      then (case pop_scc word (tstack st) (on_stack st) [] of
              None \<Rightarrow> None
            | Some (ws, on, scc) \<Rightarrow> Some (st\<lparr>tstack := ws, on_stack := on, sccs := sccs st @ [scc]\<rparr>))
      else Some st)"

fun tarjan_visit :: "nat \<Rightarrow> call_graph \<Rightarrow> name \<Rightarrow> tarjan_state \<Rightarrow> tarjan_state option"
and tarjan_callees :: "nat \<Rightarrow> call_graph \<Rightarrow> name \<Rightarrow> name list \<Rightarrow> tarjan_state \<Rightarrow> tarjan_state option" where
  "tarjan_visit 0 g word st = None"
| "tarjan_visit (Suc n) g word st =
     (case tarjan_callees n g word (case edges g word of Some cs \<Rightarrow> cs | None \<Rightarrow> []) (tarjan_enter word st) of
        None \<Rightarrow> None
      | Some st' \<Rightarrow> tarjan_leave word st')"
| "tarjan_callees n g word [] st = Some st"
| "tarjan_callees n g word (callee # cs) st =
     (if callee \<notin> set (graph_words g) then tarjan_callees n g word cs st
      else if indices st callee = None then
        (case tarjan_visit n g callee st of
           None \<Rightarrow> None
         | Some st1 \<Rightarrow>
             (case lowlinks st1 callee of
                None \<Rightarrow> None
              | Some l \<Rightarrow>
                  (case relax_lowlink word l st1 of
                     None \<Rightarrow> None
                   | Some st2 \<Rightarrow> tarjan_callees n g word cs st2)))
      else if callee \<in> set (on_stack st) then
        (case indices st callee of
           None \<Rightarrow> None
         | Some i \<Rightarrow>
             (case relax_lowlink word i st of
                None \<Rightarrow> None
              | Some st1 \<Rightarrow> tarjan_callees n g word cs st1))
      else tarjan_callees n g word cs st)"

fun tarjan_all :: "nat \<Rightarrow> call_graph \<Rightarrow> name list \<Rightarrow> tarjan_state \<Rightarrow> tarjan_state option" where
  "tarjan_all n g [] st = Some st"
| "tarjan_all n g (w # ws) st =
     (if indices st w = None
      then (case tarjan_visit n g w st of None \<Rightarrow> None | Some st' \<Rightarrow> tarjan_all n g ws st')
      else tarjan_all n g ws st)"

definition calls_itself :: "call_graph \<Rightarrow> name \<Rightarrow> bool" where
  "calls_itself g w = (case edges g w of Some cs \<Rightarrow> w \<in> set cs | None \<Rightarrow> False)"

definition recursive_scc :: "call_graph \<Rightarrow> name list \<Rightarrow> bool" where
  "recursive_scc g scc =
     (if length scc > 1 then True
      else case scc of [w] \<Rightarrow> calls_itself g w | _ \<Rightarrow> False)"

text \<open>One more unit of fuel than there are words is enough: every nested visit marks a new word.\<close>

definition find_sccs :: "call_graph \<Rightarrow> name list list option" where
  "find_sccs g =
     (case tarjan_all (length (graph_words g) + 1) g (graph_words g) tarjan_new of
        None \<Rightarrow> None
      | Some st \<Rightarrow> Some (filter (recursive_scc g) (sccs st)))"

section \<open>The graph of a program\<close>

definition build_edges :: "word_def list \<Rightarrow> name list \<Rightarrow> (name \<rightharpoonup> name list)" where
  "build_edges ws known = foldl (\<lambda>m w. m(wd_name w \<mapsto> extract_calls (wd_body w) known)) Map.empty ws"

definition call_graph_build :: "seq_program \<Rightarrow> call_graph option" where
  "call_graph_build p =
     (let ws = remdups (map wd_name (prog_words p));
          g = \<lparr>edges = build_edges (prog_words p) ws, graph_words = ws, recursive_sccs = []\<rparr>
      in map_option (\<lambda>cs. g\<lparr>recursive_sccs := cs\<rparr>) (find_sccs g))"

definition is_recursive :: "call_graph \<Rightarrow> name \<Rightarrow> bool" where
  "is_recursive g w = list_ex (\<lambda>scc. w \<in> set scc) (recursive_sccs g)"

definition is_self_recursive :: "call_graph \<Rightarrow> name \<Rightarrow> bool" where
  "is_self_recursive g w = calls_itself g w"

definition are_mutually_recursive :: "call_graph \<Rightarrow> name \<Rightarrow> name \<Rightarrow> bool" where
  "are_mutually_recursive g w1 w2 = list_ex (\<lambda>scc. w1 \<in> set scc \<and> w2 \<in> set scc) (recursive_sccs g)"

section \<open>Which calls are collected\<close>

text \<open>The names called anywhere in a body, in branches, arms and quotations.\<close>

fun called_in :: "statement list \<Rightarrow> name set"
and called_by :: "statement \<Rightarrow> name set"
and called_in_arms :: "match_arm list \<Rightarrow> name set" where
  "called_in [] = {}"
| "called_in (s # ss) = called_by s \<union> called_in ss"
| "called_by (WordCall n _) = {n}"
| "called_by (If t None _) = called_in t"
| "called_by (If t (Some e) _) = called_in t \<union> called_in e"
| "called_by (Quotation _ body _) = called_in body"
| "called_by (Match arms _) = called_in_arms arms"
| "called_by (IntLiteral _) = {}"
| "called_by (FloatLiteral _) = {}"
| "called_by (BoolLiteral _) = {}"
| "called_by (StringLiteral _) = {}"
| "called_by (Symbol _) = {}"
| "called_in_arms [] = {}"
| "called_in_arms (MatchArm _ body _ # arms) = called_in body \<union> called_in_arms arms"

lemma set_extract:
  shows "set (extract_each ss known calls) = set calls \<union> called_in ss \<inter> set known"
    and "set (extract_calls_from_statement s known calls) = set calls \<union> called_by s \<inter> set known"
    and "set (extract_arms arms known calls) = set calls \<union> called_in_arms arms \<inter> set known"
  by (induction ss known calls and s known calls and arms known calls
      rule: extract_each_extract_calls_from_statement_extract_arms.induct) auto

lemma set_extract_calls: "set (extract_calls body known) = called_in body \<inter> set known"
  by (simp add: extract_calls_def set_extract)

end
