(* ===== verification/Stack_Utils.thy ===== *)
theory Stack_Utils
  imports Unification Freshen Call_Graph
begin

text \<open>
  The stack-type utilities of the type checker (\<open>typechecker/stack_utils.rs\<close>, \<open>typechecker/pick_roll.rs\<close>,
  the auxiliary-stack and sugar parts of \<open>typechecker/words.rs\<close>) and the capture analysis of closures
  (\<open>capture_analysis.rs\<close>).  The checker's interior-mutable fields are a record that the operations
  thread; error messages are values of a datatype, without their line prefix.
\<close>

section \<open>State and errors\<close>

record checker =
  env :: "name \<rightharpoonup> effect"
  unions :: "(name \<times> union_type_info) list"
  tc_counter :: nat
  quotation_types :: "nat \<rightharpoonup> ty"
  expected_quotation_type :: "ty option"
  current_word :: "(name \<times> nat option) option"
  statement_top_types :: "name \<times> nat \<rightharpoonup> ty"
  tc_call_graph :: "call_graph option"
  current_aux_stack :: stack_type
  aux_max_depths :: "name \<rightharpoonup> nat"
  quotation_aux_depths :: "nat \<rightharpoonup> nat"
  quotation_id_stack :: "nat list"
  resolved_sugar :: "nat \<times> nat \<rightharpoonup> name"

definition checker_new :: checker where
  "checker_new = \<lparr>env = Map.empty, unions = [], tc_counter = 0, quotation_types = Map.empty,
     expected_quotation_type = None, current_word = None, statement_top_types = Map.empty,
     tc_call_graph = None, current_aux_stack = SEmpty, aux_max_depths = Map.empty,
     quotation_aux_depths = Map.empty, quotation_id_stack = [], resolved_sugar = Map.empty\<rparr>"

datatype (plugins only: code size) check_error =
    PositionUnderflow name nat nat
  | RollUnderflow nat nat
  | EffectUnderflow name name nat nat
  | StackMismatch name stack_type stack_type unify_error
  | PopUnderflow name
  | PopPolymorphic name
  | NegativeIndex name int
  | AuxEmpty
  | CaptureTooMany nat nat
  | CaptureMismatch nat ty ty
  | SugarOutOfScope name
  | SugarMismatch name string string
  | UnknownWord name
  | QuotationUnderflow name name
  | NotAQuotation name name ty
  | YieldInQuotation name
  | ConditionNotBool unify_error
  | BranchMismatch stack_type stack_type unify_error
  | BranchAuxMismatch stack_type stack_type
  | EmptyMatch
  | UnknownVariant name
  | UnknownField name name "name list"
  | ArmAuxMismatch nat stack_type stack_type
  | ArmMismatch nat stack_type stack_type unify_error
  | QuotationAux stack_type
  | QuotationMismatch effect effect unify_error
  | SpawnCaptures nat
  | MissingEffect name
  | OutputMismatch name stack_type stack_type unify_error
  | UndeclaredEffect name side_effect
  | UnproducedEffect name side_effect
  | AuxNotEmpty name stack_type
  | UnknownFieldType name name name name
  | UnknownType name name string
  | UnknownUnion name name
  | BadMainEffect stack_type stack_type

definition tc_fresh :: "name \<Rightarrow> checker \<Rightarrow> name \<times> checker" where
  "tc_fresh prefix tc = (let (v, c) = fresh_var prefix (tc_counter tc) in (v, tc\<lparr>tc_counter := c\<rparr>))"

section \<open>Positions, rotation, pops\<close>

fun get_trivially_copyable_top :: "stack_type \<Rightarrow> ty option" where
  "get_trivially_copyable_top (SCons _ TInt) = Some TInt"
| "get_trivially_copyable_top (SCons _ TFloat) = Some TFloat"
| "get_trivially_copyable_top (SCons _ TBool) = Some TBool"
| "get_trivially_copyable_top _ = None"

text \<open>The loop of \<open>get_type_at_position\<close>; \<open>pos\<close> is its counter.\<close>

fun get_type_at :: "checker \<Rightarrow> stack_type \<Rightarrow> nat \<Rightarrow> nat \<Rightarrow> name \<Rightarrow> check_error + ty \<times> checker" where
  "get_type_at tc (SCons rest tp) n pos op =
     (if pos = n then Ok (tp, tc) else get_type_at tc rest n (pos + 1) op)"
| "get_type_at tc (SRowVar v) n pos op =
     (let (w, tc') = tc_fresh (op @ ''_'' @ v) tc in Ok (TVar w, tc'))"
| "get_type_at tc SEmpty n pos op = Err (PositionUnderflow op n pos)"

definition get_type_at_position :: "checker \<Rightarrow> stack_type \<Rightarrow> nat \<Rightarrow> name \<Rightarrow> check_error + ty \<times> checker" where
  "get_type_at_position tc st n op = get_type_at tc st n 0 op"

text \<open>
  The loop of \<open>rotate_type_to_top\<close>: \<open>abv\<close> is \<open>types_above\<close>, with the type pushed last in front, so that
  iterating it in this order is iterating the vector in reverse.
\<close>

fun rotate_loop :: "checker \<Rightarrow> stack_type \<Rightarrow> ty list \<Rightarrow> nat \<Rightarrow> nat \<Rightarrow> check_error + stack_type \<times> subst \<times> checker" where
  "rotate_loop tc (SCons rest tp) abv n pos =
     (if pos = n then Ok (st_push (foldl st_push rest abv) tp, subst_empty, tc)
      else rotate_loop tc rest (tp # abv) n (pos + 1))"
| "rotate_loop tc (SRowVar v) abv n pos =
     (let (w, tc') = tc_fresh (''roll_'' @ v) tc
      in Ok (st_push (foldl st_push (SRowVar v) abv) (TVar w), subst_empty, tc'))"
| "rotate_loop tc SEmpty abv n pos = Err (RollUnderflow n pos)"

definition rotate_type_to_top :: "checker \<Rightarrow> stack_type \<Rightarrow> nat \<Rightarrow> check_error + stack_type \<times> subst \<times> checker" where
  "rotate_type_to_top tc st n =
     (if n = 0 then Ok (st, subst_empty, tc) else rotate_loop tc st [] n 0)"

definition handle_literal_pick :: "checker \<Rightarrow> int \<Rightarrow> stack_type \<Rightarrow> check_error + stack_type \<times> subst \<times> checker" where
  "handle_literal_pick tc n st =
     (if n < 0 then Err (NegativeIndex ''pick'' n)
      else case get_type_at_position tc st (nat n) ''pick'' of
             Inl e \<Rightarrow> Err e
           | Inr (t, tc') \<Rightarrow> Ok (st_push st t, subst_empty, tc'))"

definition handle_literal_roll :: "checker \<Rightarrow> int \<Rightarrow> stack_type \<Rightarrow> check_error + stack_type \<times> subst \<times> checker" where
  "handle_literal_roll tc n st =
     (if n < 0 then Err (NegativeIndex ''roll'' n) else rotate_type_to_top tc st (nat n))"

fun polymorphic_pop :: "checker \<Rightarrow> stack_type \<Rightarrow> name \<Rightarrow> check_error + stack_type \<times> ty \<times> subst \<times> checker" where
  "polymorphic_pop tc (SCons rest tp) ctx = Ok (rest, tp, subst_empty, tc)"
| "polymorphic_pop tc (SRowVar v) ctx =
     (if v = ''rest'' then Err (PopUnderflow ctx)
      else let (t, tc1) = tc_fresh ''T'' tc; (r, tc2) = tc_fresh v tc1
           in Ok (SRowVar r, TVar t,
                  \<lparr>subst_types = Map.empty, subst_rows = [v \<mapsto> SCons (SRowVar r) (TVar t)]\<rparr>, tc2))"
| "polymorphic_pop tc SEmpty ctx = Err (PopUnderflow ctx)"

fun pop_type :: "stack_type \<Rightarrow> name \<Rightarrow> check_error + stack_type \<times> ty" where
  "pop_type (SCons rest tp) ctx = Ok (rest, tp)"
| "pop_type SEmpty ctx = Err (PopUnderflow ctx)"
| "pop_type (SRowVar _) ctx = Err (PopPolymorphic ctx)"

section \<open>Applying an effect\<close>

definition count_concrete_types :: "stack_type \<Rightarrow> nat" where
  "count_concrete_types st = stack_depth st"

fun get_row_var_base :: "stack_type \<Rightarrow> name option" where
  "get_row_var_base (SCons rest _) = get_row_var_base rest"
| "get_row_var_base (SRowVar v) = Some v"
| "get_row_var_base SEmpty = None"

definition lookup_word_effect :: "(name \<rightharpoonup> effect) \<Rightarrow> checker \<Rightarrow> name \<Rightarrow> effect option" where
  "lookup_word_effect builtin_signature tc n =
     (case builtin_signature n of Some e \<Rightarrow> Some e | None \<Rightarrow> env tc n)"

text \<open>\<open>n\<close> is the fuel of the unifier.\<close>

definition apply_effect :: "nat \<Rightarrow> checker \<Rightarrow> effect \<Rightarrow> stack_type \<Rightarrow> name \<Rightarrow> (check_error + stack_type \<times> subst) option" where
  "apply_effect n tc e st op =
     (let effect_concrete = count_concrete_types (inputs e);
          stack_concrete = count_concrete_types st
      in if get_row_var_base st = Some ''rest'' \<and> effect_concrete > stack_concrete
         then Some (Err (EffectUnderflow
                (case current_word tc of Some (w, _) \<Rightarrow> w | None \<Rightarrow> ''unknown'') op effect_concrete stack_concrete))
         else case unify_stacks n (inputs e) st of
                None \<Rightarrow> None
              | Some (Inl err) \<Rightarrow> Some (Err (StackMismatch op (inputs e) st err))
              | Some (Inr s) \<Rightarrow> Some (Ok (apply_stack s (outputs e), s)))"

section \<open>The auxiliary stack\<close>

definition bump_depth :: "'k \<Rightarrow> nat \<Rightarrow> ('k \<rightharpoonup> nat) \<Rightarrow> ('k \<rightharpoonup> nat)" where
  "bump_depth k d m =
     (let entry = (case m k of Some x \<Rightarrow> x | None \<Rightarrow> 0) in m(k \<mapsto> (if d > entry then d else entry)))"

definition infer_to_aux :: "checker \<Rightarrow> stack_type \<Rightarrow> check_error + stack_type \<times> checker" where
  "infer_to_aux tc st =
     (case pop_type st ''>aux'' of
        Inl e \<Rightarrow> Err e
      | Inr (rest, t) \<Rightarrow>
          (let aux = st_push (current_aux_stack tc) t;
               depth = stack_depth aux;
               tc1 = tc\<lparr>current_aux_stack := aux\<rparr>
           in Ok (rest,
                if quotation_id_stack tc \<noteq> []
                then tc1\<lparr>quotation_aux_depths :=
                       bump_depth (last (quotation_id_stack tc)) depth (quotation_aux_depths tc)\<rparr>
                else case current_word tc of
                       Some (w, _) \<Rightarrow> tc1\<lparr>aux_max_depths := bump_depth w depth (aux_max_depths tc)\<rparr>
                     | None \<Rightarrow> tc1)))"

definition infer_from_aux :: "checker \<Rightarrow> stack_type \<Rightarrow> check_error + stack_type \<times> checker" where
  "infer_from_aux tc st =
     (case st_pop (current_aux_stack tc) of
        Some (rest, t) \<Rightarrow> Ok (st_push st t, tc\<lparr>current_aux_stack := rest\<rparr>)
      | None \<Rightarrow> Err AuxEmpty)"

section \<open>Arithmetic sugar\<close>

definition sugar_ops :: "name list" where
  "sugar_ops = [''+'', ''-'', ''*'', ''/'', ''%'', ''='', ''<'', ''>'', ''<='', ''>='', ''<>'']"

definition resolve_arithmetic_sugar :: "name \<Rightarrow> stack_type \<Rightarrow> name option" where
  "resolve_arithmetic_sugar op st =
     (if op \<notin> set sugar_ops then None
      else case st of
        SCons (SCons _ second) tp \<Rightarrow>
          (case (second, tp) of
             (TInt, TInt) \<Rightarrow> Some (''i.'' @ op)
           | (TFloat, TFloat) \<Rightarrow> if op \<noteq> ''%'' then Some (''f.'' @ op) else None
           | (TString, TString) \<Rightarrow>
               if op = ''+'' then Some ''string.concat''
               else if op = ''='' then Some ''string.equal?'' else None
           | _ \<Rightarrow> None)
      | _ \<Rightarrow> None)"

section \<open>Closure captures\<close>

fun extract_concrete_types :: "stack_type \<Rightarrow> ty list" where
  "extract_concrete_types (SCons rest tp) = extract_concrete_types rest @ [tp]"
| "extract_concrete_types _ = []"

text \<open>The loop over the zipped non-captured inputs; \<open>i\<close> is its enumeration index.\<close>

fun check_provided :: "nat \<Rightarrow> (ty \<times> ty) list \<Rightarrow> check_error + unit" where
  "check_provided i [] = Ok ()"
| "check_provided i ((b, c) # ps) =
     (if b \<noteq> c \<and> \<not> (is_type_var b \<or> is_type_var c) then Err (CaptureMismatch i b c)
      else check_provided (i + 1) ps)"

definition calculate_captures :: "effect \<Rightarrow> effect \<Rightarrow> check_error + ty list" where
  "calculate_captures body_effect call_effect =
     (let body_inputs = extract_concrete_types (inputs body_effect);
          call_inputs = extract_concrete_types (inputs call_effect)
      in if length call_inputs > length body_inputs
         then Err (CaptureTooMany (length call_inputs) (length body_inputs))
         else let capture_count = length body_inputs - length call_inputs
              in case check_provided 0 (zip (drop capture_count body_inputs) call_inputs) of
                   Inl e \<Rightarrow> Err e
                 | Inr _ \<Rightarrow> Ok (take capture_count body_inputs))"

section \<open>Stack types as lists of types, top first\<close>

abbreviation types_of :: "stack_type \<Rightarrow> ty list" where
  "types_of st \<equiv> rev (extract_concrete_types st)"

lemma length_extract [simp]: "length (extract_concrete_types st) = stack_depth st"
  by (induction st rule: spine_induct) auto

lemma foldl_push_types: "extract_concrete_types (foldl st_push st ts) = extract_concrete_types st @ ts"
  by (induction ts arbitrary: st) (auto simp: st_push_def)

lemma foldl_push_base: "get_row_var_base (foldl st_push st ts) = get_row_var_base st"
  by (induction ts arbitrary: st) (auto simp: st_push_def)

lemma get_type_at_nth:
  "pos \<le> n \<Longrightarrow> n < pos + stack_depth st \<Longrightarrow> get_type_at tc st n pos op = Ok (types_of st ! (n - pos), tc)"
proof (induction tc st n pos op rule: get_type_at.induct)
  case (1 tc rest tp n pos op)
  show ?case
  proof (cases "pos = n")
    case False
    with 1 have "get_type_at tc rest n (pos + 1) op = Ok (types_of rest ! (n - (pos + 1)), tc)" by simp
    with False 1(2) show ?thesis by (simp add: nth_Cons')
  qed simp
qed auto

lemma rotate_loop_nth:
  "pos \<le> n \<Longrightarrow> n < pos + stack_depth st \<Longrightarrow>
   \<exists>st'. rotate_loop tc st abv n pos = Ok (st', subst_empty, tc) \<and>
     types_of st' = types_of st ! (n - pos) # rev abv @ take (n - pos) (types_of st) @ drop (Suc (n - pos)) (types_of st) \<and>
     get_row_var_base st' = get_row_var_base st"
proof (induction tc st abv n pos rule: rotate_loop.induct)
  case (1 tc rest tp abv n pos)
  show ?case
  proof (cases "pos = n")
    case True
    then show ?thesis
      by (simp add: st_push_def foldl_push_types foldl_push_base)
  next
    case False
    with 1 have d: "pos + 1 \<le> n" "n < pos + 1 + stack_depth rest" "n - pos = Suc (n - (pos + 1))" by auto
    show ?thesis using 1(1) [OF False d(1,2)] False by (simp add: d(3))
  qed
qed auto

lemma rotate_type_to_top_types:
  assumes "n < stack_depth st"
  shows "\<exists>st'. rotate_type_to_top tc st n = Ok (st', subst_empty, tc) \<and>
     types_of st' = types_of st ! n # take n (types_of st) @ drop (Suc n) (types_of st) \<and>
     get_row_var_base st' = get_row_var_base st"
proof (cases "n = 0")
  case True
  with assms show ?thesis by (cases st) (auto simp: rotate_type_to_top_def)
next
  case False
  with rotate_loop_nth [of 0 n st tc "[]"] assms show ?thesis by (simp add: rotate_type_to_top_def)
qed

section \<open>Rigid row variables never grow\<close>

lemma flat_binding_base: "flat_binding t1 t2 s \<Longrightarrow> get_row_var_base (apply_stack s st) = get_row_var_base st"
  by (induction st rule: spine_induct) (auto elim!: flat_binding_cases)

lemma base_iff: "get_row_var_base st = Some v \<longleftrightarrow> stack_rvars st = {v}"
  by (induction st rule: spine_induct) auto

text \<open>Unifying a stack with a deeper or equally deep one binds only the row variable of the first.\<close>

lemma unify_stacks_rows:
  assumes "unify_stacks n s1 s2 = Some (Ok s)" "flat_stack s1" "flat_stack s2"
    and "get_row_var_base s1 = Some r" "get_row_var_base s2 = Some v" "r \<noteq> v" "stack_depth s1 \<le> stack_depth s2"
  shows "\<exists>st. subst_rows s = [r \<mapsto> st] \<and> get_row_var_base st = Some v \<and>
    stack_depth st = stack_depth s2 - stack_depth s1"
  using assms
proof (induction n arbitrary: s1 s2 s)
  case (Suc n)
  show ?case
  proof (cases s1)
    case SEmpty
    with Suc.prems show ?thesis by simp
  next
    case (SRowVar w)
    with Suc.prems(4) have w: "w = r" by simp
    have "stack_rvars s2 = {v}" using Suc.prems(5) by (simp only: base_iff)
    then have r: "r \<notin> stack_rvars s2" using \<open>r \<noteq> v\<close> by simp
    then have r2: "s2 \<noteq> SRowVar r" by fastforce
    from Suc.prems(1) have "s = subst_empty\<lparr>subst_rows := [r \<mapsto> s2]\<rparr>"
      by (simp add: SRowVar w bind_row_var_def occurs_in_stack_iff r r2)
    with Suc.prems(5) SRowVar show ?thesis by (intro exI [of _ s2]) simp
  next
    case (SCons r1 t1)
    with Suc.prems(7) obtain r2 t2 where s2: "s2 = SCons r2 t2" by (cases s2) auto
    with Suc.prems(1) SCons obtain st sr where st: "unify_types n t1 t2 = Some (Ok st)"
      and sr: "unify_stacks n (apply_stack st r1) (apply_stack st r2) = Some (Ok sr)"
      and s: "s = compose st sr" by auto
    from st SCons s2 Suc.prems(2,3) have fb: "flat_binding t1 t2 st" by (auto intro: unify_types_flat_Ok)
    have rows: "subst_rows (compose st sr) = subst_rows sr" if "subst_rows sr = [r \<mapsto> x]"
        "apply_stack st x = x" for x
      using fb that by (cases rule: flat_binding_cases) (auto simp: compose_def fun_eq_iff)
    have "\<exists>x. subst_rows sr = [r \<mapsto> x] \<and> get_row_var_base x = Some v \<and>
        stack_depth x = stack_depth (apply_stack st r2) - stack_depth (apply_stack st r1)"
      using Suc.prems(2-7) SCons s2
      by (intro Suc.IH [OF sr]) (simp_all add: flat_binding_stack [OF fb] flat_binding_base [OF fb])
    then obtain x where x: "subst_rows sr = [r \<mapsto> x]" "get_row_var_base x = Some v"
      "stack_depth x = stack_depth r2 - stack_depth r1"
      unfolding flat_binding_stack(2) [OF fb] by blast
    have "subst_ok (type_tvars t1 \<union> type_tvars t2 \<union> stack_tvars r1 \<union> stack_tvars r2 - dom (subst_types st))
        (stack_rvars r1 \<union> stack_rvars r2) sr"
      using Suc.prems(2,3) SCons s2 flat_binding_stack [OF fb]
      by (intro unify_stacks_flat [OF sr, THEN conjunct1]) (auto, blast+)
    from subst_ok_rows [OF this, of r x] x(1) have "stack_tvars x \<inter> dom (subst_types st) = {}" by auto
    moreover have "subst_rows st = Map.empty" using fb by (cases rule: flat_binding_cases) auto
    ultimately have "apply_stack st x = x" by (intro apply_stack_id) auto
    with x s2 SCons show ?thesis by (intro exI [of _ x]) (simp add: s rows)
  qed
qed simp

section \<open>The contract between the unifier and its client\<close>

text \<open>
  What applying a stack effect relies on: a successful unification of flat stacks makes them agree, and
  when the effect's inputs are based on a row variable of their own and are no deeper than the stack,
  only that row variable is bound, to the part of the stack below the inputs.
\<close>

locale row_unifier =
  fixes unify :: "stack_type \<Rightarrow> stack_type \<Rightarrow> (unify_error + subst) option"
  assumes unify_agrees: "unify s1 s2 = Some (Ok s) \<Longrightarrow> flat_stack s1 \<Longrightarrow> flat_stack s2 \<Longrightarrow>
      compat_stack (apply_stack s s1) (apply_stack s s2)"
    and unify_rows: "unify s1 s2 = Some (Ok s) \<Longrightarrow> flat_stack s1 \<Longrightarrow> flat_stack s2 \<Longrightarrow>
      get_row_var_base s1 = Some r \<Longrightarrow> get_row_var_base s2 = Some v \<Longrightarrow> r \<noteq> v \<Longrightarrow>
      stack_depth s1 \<le> stack_depth s2 \<Longrightarrow>
      \<exists>st. subst_rows s = [r \<mapsto> st] \<and> get_row_var_base st = Some v \<and>
        stack_depth st = stack_depth s2 - stack_depth s1"
begin

lemma outputs_on_rest:
  assumes "unify i st = Some (Ok s)" "flat_stack i" "flat_stack st" "get_row_var_base i = Some r"
    "get_row_var_base st = Some v" "r \<noteq> v" "stack_depth i \<le> stack_depth st" "get_row_var_base o' = Some r"
  shows "get_row_var_base (apply_stack s o') = Some v"
    and "stack_depth (apply_stack s o') + stack_depth i = stack_depth st + stack_depth o'"
    and "apply_stack s (SRowVar v) = SRowVar v"
proof -
  from unify_rows [OF assms(1-7)] obtain x where x: "subst_rows s = [r \<mapsto> x]" "get_row_var_base x = Some v"
    "stack_depth x = stack_depth st - stack_depth i" by blast
  have "get_row_var_base (apply_stack s u) = Some v \<and> stack_depth (apply_stack s u) = stack_depth u + stack_depth x"
    if "get_row_var_base u = Some r" for u
    using that x by (induction u rule: spine_induct) auto
  from this [OF assms(8)] x assms(6,7) show "get_row_var_base (apply_stack s o') = Some v"
    "stack_depth (apply_stack s o') + stack_depth i = stack_depth st + stack_depth o'"
    "apply_stack s (SRowVar v) = SRowVar v" by auto
qed

end

interpretation seq_unify: row_unifier "unify_stacks n" for n
proof
  show "compat_stack (apply_stack s s1) (apply_stack s s2)"
    if "unify_stacks n s1 s2 = Some (Ok s)" "flat_stack s1" "flat_stack s2" for s1 s2 s
    using unify_stacks_flat [OF that subset_refl subset_refl] by blast
qed (rule unify_stacks_rows)

section \<open>Main results\<close>

lemma apply_effect_Ok:
  assumes "apply_effect n tc e st op = Some (Ok (res, s))"
  shows "unify_stacks n (inputs e) st = Some (Ok s) \<and> res = apply_stack s (outputs e) \<and>
    (get_row_var_base st = Some ''rest'' \<longrightarrow> stack_depth (inputs e) \<le> stack_depth st)"
  using assms by (auto simp: apply_effect_def count_concrete_types_def Let_def
      split: if_splits option.splits sum.splits)

section \<open>Properties\<close>


definition demo_stack :: stack_type where
  "demo_stack = SCons (SCons (SCons (SRowVar ''rest'') TBool) TInt) TInt"

definition demo_effect :: effect where
  "demo_effect = Effect (SCons (SCons (SRowVar ''a'') TInt) TInt) (SCons (SRowVar ''a'') TInt) []"

lemma demo_apply: "\<exists>res s. apply_effect 4 checker_new demo_effect demo_stack ''i.+'' = Some (Ok (res, s))"
proof -
  let ?\<theta> = "\<lparr>subst_types = Map.empty, subst_rows = [''a'' \<mapsto> SCons (SRowVar ''rest'') TBool]\<rparr>"
  obtain s where "unify_stacks 4 (inputs demo_effect) demo_stack = Some (Ok s)"
    using unify_stacks_complete [of "inputs demo_effect" demo_stack 4 ?\<theta>]
    by (auto simp: demo_effect_def demo_stack_def)
  then show ?thesis
    by (simp add: apply_effect_def count_concrete_types_def demo_effect_def demo_stack_def)
qed


text \<open>The captures of a closure are the bottom part of its body's inputs: when the analysis succeeds, the
  body's inputs are the captured types followed by the types the caller provides, which match the
  caller's inputs one by one, type variables matching anything.\<close>

lemma calculate_captures_split:
  assumes "calculate_captures body call = Ok cs"
  shows "\<exists>provided. extract_concrete_types (inputs body) = cs @ provided \<and>
    list_all2 (\<lambda>b c. b = c \<or> is_type_var b \<or> is_type_var c) provided (extract_concrete_types (inputs call))"
proof -
  have checked: "list_all2 (\<lambda>b c. b = c \<or> is_type_var b \<or> is_type_var c) bs cs'"
    if "check_provided i (zip bs cs') = Ok ()" "length bs = length cs'" for i bs cs'
    using that by (induction bs cs' arbitrary: i rule: list_induct2') (auto split: if_splits)
  let ?b = "extract_concrete_types (inputs body)" and ?c = "extract_concrete_types (inputs call)"
  let ?k = "length ?b - length ?c"
  from assms have "length ?c \<le> length ?b" "check_provided 0 (zip (drop ?k ?b) ?c) = Ok ()" "cs = take ?k ?b"
    by (auto simp: calculate_captures_def Let_def split: if_splits sum.splits)
  then show ?thesis
    by (intro exI [of _ "drop ?k ?b"]) (auto intro: checked)
qed

definition demo_body :: effect where
  "demo_body = Effect (SCons (SCons (SRowVar ''a'') TString) TInt) (SRowVar ''a'') []"

definition demo_call :: effect where
  "demo_call = Effect (SCons (SRowVar ''b'') TInt) (SRowVar ''b'') []"

lemma calculate_captures_split_witness:
  "calculate_captures demo_body demo_call = Ok [TString] \<and>
   (\<exists>provided. extract_concrete_types (inputs demo_body) = [TString] @ provided)"
proof -
  have c: "calculate_captures demo_body demo_call = Ok [TString]"
    by (simp add: calculate_captures_def demo_body_def demo_call_def Let_def)
  from calculate_captures_split [OF c] c show ?thesis by blast
qed

text \<open>The auxiliary stack returns what was put on it: after \<open>>aux\<close> succeeds, \<open>aux>\<close> gives back the very stack
  type, and the auxiliary stack is as before.\<close>

lemma aux_round_trip:
  assumes "infer_to_aux tc st = Ok (rest, tc')"
  shows "\<exists>tc''. infer_from_aux tc' rest = Ok (st, tc'') \<and> current_aux_stack tc'' = current_aux_stack tc"
  using assms
  by (cases st) (auto simp: infer_to_aux_def infer_from_aux_def st_push_def Let_def split: option.splits if_splits)

lemma aux_round_trip_witness:
  "\<exists>rest tc'. infer_to_aux checker_new demo_stack = Ok (rest, tc') \<and>
     (\<exists>tc''. infer_from_aux tc' rest = Ok (demo_stack, tc''))"
proof -
  obtain rest tc' where r: "infer_to_aux checker_new demo_stack = Ok (rest, tc')"
    by (simp add: infer_to_aux_def demo_stack_def Let_def)
  from aux_round_trip [OF r] r show ?thesis by blast
qed

text \<open>A pop of the checker is a refinement of the stack type: either the top is concrete and nothing is
  substituted, or the stack ends in a row variable and the returned substitution turns the stack into the
  returned rest with the returned type on top.\<close>

lemma polymorphic_pop_refines:
  assumes "polymorphic_pop tc st ctx = Ok (rest, t, s, tc')"
  shows "apply_stack s st = SCons rest t \<and> get_row_var_base st \<noteq> None \<or> s = subst_empty \<and> st = SCons rest t"
  using assms by (cases st) (auto simp: Let_def split: if_splits prod.splits)

lemma polymorphic_pop_refines_witness:
  "\<exists>rest t s tc'. polymorphic_pop checker_new (SRowVar ''a'') ''if'' = Ok (rest, t, s, tc') \<and>
     apply_stack s (SRowVar ''a'') = SCons rest t"
proof -
  obtain rest t s tc' where r: "polymorphic_pop checker_new (SRowVar ''a'') ''if'' = Ok (rest, t, s, tc')"
    by (simp add: tc_fresh_def fresh_var_def Let_def)
  from polymorphic_pop_refines [OF r] r show ?thesis by auto
qed

end
