(* ===== verification/Vim_Text.thy ===== *)
theory Vim_Text
  imports Prelude "HOL-Library.Monad_Syntax"
begin

text \<open>
  The text model of the line editor: a Rust \<open>&str\<close> is its list of UTF-8 bytes (Isabelle's \<open>char\<close> is a
  byte), positions are byte offsets, and slicing at an offset that is not a character boundary, or past
  the end, panics, which is \<open>None\<close>.  A Rust \<open>char\<close> is represented by its UTF-8 encoding.
\<close>

section \<open>Character boundaries and slices\<close>

definition is_cont :: "char \<Rightarrow> bool" where
  "is_cont b \<longleftrightarrow> 128 \<le> (of_char b :: nat) \<and> (of_char b :: nat) < 192"

definition is_char_boundary :: "bytes \<Rightarrow> nat \<Rightarrow> bool" where
  "is_char_boundary t i \<longleftrightarrow> i = 0 \<or> i = length t \<or> i < length t \<and> \<not> is_cont (t ! i)"

definition slice :: "bytes \<Rightarrow> nat \<Rightarrow> nat \<Rightarrow> bytes option" where
  "slice t a b =
     (if a \<le> b \<and> is_char_boundary t a \<and> is_char_boundary t b then Some (take (b - a) (drop a t)) else None)"

abbreviation slice_to :: "bytes \<Rightarrow> nat \<Rightarrow> bytes option" where
  "slice_to t b \<equiv> slice t 0 b"

abbreviation slice_from :: "bytes \<Rightarrow> nat \<Rightarrow> bytes option" where
  "slice_from t a \<equiv> slice t a (length t)"

text \<open>\<open>String::replace_range(a..b, "")\<close> and \<open>String::insert_str\<close>.\<close>

definition delete_range :: "bytes \<Rightarrow> nat \<Rightarrow> nat \<Rightarrow> bytes option" where
  "delete_range t a b =
     (if a \<le> b \<and> is_char_boundary t a \<and> is_char_boundary t b then Some (take a t @ drop b t) else None)"

definition insert_str :: "bytes \<Rightarrow> nat \<Rightarrow> bytes \<Rightarrow> bytes option" where
  "insert_str t a s = (if is_char_boundary t a then Some (take a t @ s @ drop a t) else None)"

section \<open>Searching\<close>

abbreviation newline :: char where
  "newline \<equiv> CHR 0x0A"

fun find_byte :: "char \<Rightarrow> bytes \<Rightarrow> nat option" where
  "find_byte b [] = None"
| "find_byte b (x # xs) = (if x = b then Some 0 else map_option Suc (find_byte b xs))"

definition rfind_byte :: "char \<Rightarrow> bytes \<Rightarrow> nat option" where
  "rfind_byte b t = map_option (\<lambda>i. length t - 1 - i) (find_byte b (rev t))"

text \<open>
  The loops that walk from a position to a character boundary, backward and forward.
\<close>

fun back_to_boundary :: "bytes \<Rightarrow> nat \<Rightarrow> nat" where
  "back_to_boundary t p = (if p > 0 \<and> \<not> is_char_boundary t p then back_to_boundary t (p - 1) else p)"

function fwd_to_boundary :: "bytes \<Rightarrow> nat \<Rightarrow> nat" where
  "fwd_to_boundary t p =
     (if p < length t \<and> \<not> is_char_boundary t p then fwd_to_boundary t (p + 1) else p)"
  by pat_completeness auto
termination by (relation "measure (\<lambda>(t, p). length t - p)") auto

declare back_to_boundary.simps [simp del] fwd_to_boundary.simps [simp del]

text \<open>Iterating over the characters of a text with their byte offsets.\<close>

function char_indices_from :: "nat \<Rightarrow> bytes \<Rightarrow> (nat \<times> bytes) list" where
  "char_indices_from i [] = []"
| "char_indices_from i (b # bs) =
     (i, b # takeWhile is_cont bs) #
     char_indices_from (i + 1 + length (takeWhile is_cont bs)) (dropWhile is_cont bs)"
  by pat_completeness auto
termination by (relation "measure (\<lambda>(i, bs). length bs)") (auto simp: length_dropWhile_le le_imp_less_Suc)

abbreviation char_indices :: "bytes \<Rightarrow> (nat \<times> bytes) list" where
  "char_indices t \<equiv> char_indices_from 0 t"

section \<open>Byte classes\<close>

definition is_ascii_whitespace :: "char \<Rightarrow> bool" where
  "is_ascii_whitespace b \<longleftrightarrow> b \<in> set [CHR 0x20, CHR 0x09, CHR 0x0A, CHR 0x0C, CHR 0x0D]"

definition is_ascii_alphanumeric :: "char \<Rightarrow> bool" where
  "is_ascii_alphanumeric b \<longleftrightarrow> (let n = (of_char b :: nat) in
     48 \<le> n \<and> n \<le> 57 \<or> 65 \<le> n \<and> n \<le> 90 \<or> 97 \<le> n \<and> n \<le> 122)"

text \<open>
  \<open>char::is_whitespace\<close>: the UTF-8 encodings of the code points with the Unicode property
  \<open>White_Space\<close>: U+0009 to U+000D, U+0020, U+0085, U+00A0, U+1680, U+2000 to U+200A, U+2028, U+2029,
  U+202F, U+205F and U+3000.
\<close>

definition is_whitespace :: "bytes \<Rightarrow> bool" where
  "is_whitespace c \<longleftrightarrow> c \<in> set (
     map (\<lambda>n. [char_of (n::nat)]) [9, 10, 11, 12, 13, 32] @
     [[CHR 0xC2, CHR 0x85], [CHR 0xC2, CHR 0xA0], [CHR 0xE1, CHR 0x9A, CHR 0x80]] @
     map (\<lambda>n. [CHR 0xE2, CHR 0x80, char_of (n::nat)])
       [128, 129, 130, 131, 132, 133, 134, 135, 136, 137, 138, 168, 169, 175] @
     [[CHR 0xE2, CHR 0x81, CHR 0x9F], [CHR 0xE3, CHR 0x80, CHR 0x80]])"

section \<open>ASCII text\<close>

definition is_ascii :: "bytes \<Rightarrow> bool" where
  "is_ascii t \<longleftrightarrow> list_all (\<lambda>b. (of_char b :: nat) < 128) t"

lemma ascii_not_cont: "is_ascii t \<Longrightarrow> b \<in> set t \<Longrightarrow> \<not> is_cont b"
  by (auto simp: is_ascii_def is_cont_def list_all_iff)

lemma ascii_boundary [simp]: "is_ascii t \<Longrightarrow> is_char_boundary t i \<longleftrightarrow> i \<le> length t"
  by (auto simp: is_char_boundary_def ascii_not_cont)

lemma ascii_append [simp]: "is_ascii (s @ t) \<longleftrightarrow> is_ascii s \<and> is_ascii t"
  by (simp add: is_ascii_def)

lemma ascii_take_drop: "is_ascii t \<Longrightarrow> is_ascii (take a t)" "is_ascii t \<Longrightarrow> is_ascii (drop a t)"
  by (auto simp: is_ascii_def list_all_iff dest: in_set_takeD in_set_dropD)

lemma ascii_Nil [simp]: "is_ascii []"
  by (simp add: is_ascii_def)

lemma slice_ascii:
  "is_ascii t \<Longrightarrow> slice t a b = (if a \<le> b \<and> b \<le> length t then Some (take (b - a) (drop a t)) else None)"
  by (auto simp: slice_def)

lemma slice_ascii_result: "is_ascii t \<Longrightarrow> slice t a b = Some s \<Longrightarrow> is_ascii s"
  by (auto simp: slice_def ascii_take_drop split: if_splits)

lemma find_byte_bound: "find_byte b t = Some i \<Longrightarrow> i < length t \<and> t ! i = b"
  by (induction t arbitrary: i) (auto split: if_splits)

lemma rfind_byte_bound: "rfind_byte b t = Some i \<Longrightarrow> i < length t \<and> t ! i = b"
  unfolding rfind_byte_def using find_byte_bound [of b "rev t"]
  by (fastforce simp: rev_nth)

lemma back_to_boundary_le [bounds_intros]: "back_to_boundary t p \<le> p"
  by (induction t p rule: back_to_boundary.induct) (subst back_to_boundary.simps, auto)

lemma fwd_to_boundary_bound [bounds_intros]: "p \<le> length t \<Longrightarrow> p \<le> fwd_to_boundary t p \<and> fwd_to_boundary t p \<le> length t"
  by (induction t p rule: fwd_to_boundary.induct) (subst (1 2) fwd_to_boundary.simps, auto)

lemma back_to_boundary_ascii [simp]: "is_ascii t \<Longrightarrow> p \<le> length t \<Longrightarrow> back_to_boundary t p = p"
  by (subst back_to_boundary.simps) simp

lemma fwd_to_boundary_ascii [simp]: "is_ascii t \<Longrightarrow> p \<le> length t \<Longrightarrow> fwd_to_boundary t p = p"
  by (subst fwd_to_boundary.simps) simp

lemma char_indices_from_bound: "(j, c) \<in> set (char_indices_from i t) \<Longrightarrow> i \<le> j \<and> j < i + length t"
proof (induction i t rule: char_indices_from.induct)
  case (2 i b bs)
  have "length (takeWhile is_cont bs) + length (dropWhile is_cont bs) = length bs"
    by (metis length_append takeWhile_dropWhile_id)
  with 2 show ?case by (auto simp: length_dropWhile_le)
qed simp

end
