(* ===== verification/Vim_Motions.thy ===== *)
theory Vim_Motions
  imports Vim_Text
begin

text \<open>
  The cursor motions of the line editor, after \<open>crates/vim-line/src/vim/motions.rs\<close>.  Each takes the
  cursor's byte offset and the text and returns the new offset; a motion that slices the text returns
  an option, \<open>None\<close> for the panic of a slice at a bad offset or of an index past the end.
\<close>

section \<open>Characters and lines\<close>

definition move_left :: "nat \<Rightarrow> bytes \<Rightarrow> nat" where
  "move_left cursor text = (if cursor > 0 then back_to_boundary text (cursor - 1) else cursor)"

definition move_right :: "nat \<Rightarrow> bytes \<Rightarrow> nat" where
  "move_right cursor text = (if cursor < length text then fwd_to_boundary text (cursor + 1) else cursor)"

text \<open>\<open>rfind('\n').map(|i| i + 1).unwrap_or(0)\<close> on a prefix: the start of its last line.\<close>

definition last_line_start :: "bytes \<Rightarrow> nat" where
  "last_line_start s = (case rfind_byte newline s of Some i \<Rightarrow> i + 1 | None \<Rightarrow> 0)"

definition move_line_start :: "nat \<Rightarrow> bytes \<Rightarrow> nat option" where
  "move_line_start cursor text = do { s \<leftarrow> slice_to text cursor; Some (last_line_start s) }"

fun first_non_blank :: "(nat \<times> bytes) list \<Rightarrow> nat option" where
  "first_non_blank [] = None"
| "first_non_blank ((i, c) # cs) =
     (if c = [newline] \<or> \<not> is_whitespace c then Some i else first_non_blank cs)"

definition move_first_non_blank :: "nat \<Rightarrow> bytes \<Rightarrow> nat option" where
  "move_first_non_blank cursor text = do {
     line_start \<leftarrow> move_line_start cursor text;
     s \<leftarrow> slice_from text line_start;
     Some (case first_non_blank (char_indices s) of Some i \<Rightarrow> line_start + i | None \<Rightarrow> line_start) }"

definition line_end :: "nat \<Rightarrow> bytes \<Rightarrow> bool \<Rightarrow> nat option" where
  "line_end cursor text past_end = do {
     s \<leftarrow> slice_from text cursor;
     let le = (case find_byte newline s of Some i \<Rightarrow> cursor + i | None \<Rightarrow> length text);
     Some (if past_end \<or> le = 0 then le else back_to_boundary text (le - 1)) }"

definition move_line_end :: "nat \<Rightarrow> bytes \<Rightarrow> nat option" where
  "move_line_end cursor text = line_end cursor text False"

definition move_line_end_insert :: "nat \<Rightarrow> bytes \<Rightarrow> nat option" where
  "move_line_end_insert cursor text = line_end cursor text True"

section \<open>Words\<close>

datatype char_class = Whitespace | Keyword | Punctuation

definition class_of :: "char \<Rightarrow> char_class" where
  "class_of b =
     (if is_ascii_whitespace b then Whitespace
      else if is_ascii_alphanumeric b \<or> b = CHR ''_'' then Keyword
      else Punctuation)"

text \<open>
  The four shapes of loop the word motions use: forward while the byte at the position satisfies a
  predicate, forward while the next byte does, backward while the byte at the position does, and
  backward while the byte before it does.
\<close>

function skip_fwd :: "(char \<Rightarrow> bool) \<Rightarrow> bytes \<Rightarrow> nat \<Rightarrow> nat" where
  "skip_fwd P t p = (if p < length t \<and> P (t ! p) then skip_fwd P t (p + 1) else p)"
  by pat_completeness auto
termination by (relation "measure (\<lambda>(P, t, p). length t - p)") auto

function skip_fwd_next :: "(char \<Rightarrow> bool) \<Rightarrow> bytes \<Rightarrow> nat \<Rightarrow> nat" where
  "skip_fwd_next P t p = (if p + 1 < length t \<and> P (t ! (p + 1)) then skip_fwd_next P t (p + 1) else p)"
  by pat_completeness auto
termination by (relation "measure (\<lambda>(P, t, p). length t - p)") auto

fun skip_back :: "(char \<Rightarrow> bool) \<Rightarrow> bytes \<Rightarrow> nat \<Rightarrow> nat" where
  "skip_back P t p = (if p > 0 \<and> P (t ! p) then skip_back P t (p - 1) else p)"

fun skip_back_prev :: "(char \<Rightarrow> bool) \<Rightarrow> bytes \<Rightarrow> nat \<Rightarrow> nat" where
  "skip_back_prev P t p = (if p > 0 \<and> P (t ! (p - 1)) then skip_back_prev P t (p - 1) else p)"

declare skip_fwd.simps [simp del] skip_fwd_next.simps [simp del]
  skip_back.simps [simp del] skip_back_prev.simps [simp del]

definition move_word_forward :: "nat \<Rightarrow> bytes \<Rightarrow> nat" where
  "move_word_forward cursor t =
     (if cursor < length t
      then let start_class = class_of (t ! cursor);
               pos = (if start_class \<noteq> Whitespace then skip_fwd (\<lambda>b. class_of b = start_class) t cursor else cursor)
           in skip_fwd (\<lambda>b. class_of b = Whitespace) t pos
      else cursor)"

definition move_word_backward :: "nat \<Rightarrow> bytes \<Rightarrow> nat" where
  "move_word_backward cursor t =
     (if t = [] then 0
      else let pos = min cursor (length t - 1)
           in if pos = 0 then 0
              else let pos = skip_back (\<lambda>b. class_of b = Whitespace) t (pos - 1)
                   in if class_of (t ! pos) = Whitespace then 0
                      else let target = class_of (t ! pos) in skip_back_prev (\<lambda>b. class_of b = target) t pos)"

definition move_word_end :: "nat \<Rightarrow> bytes \<Rightarrow> nat" where
  "move_word_end cursor t =
     (if cursor \<ge> length t then cursor
      else let pos = skip_fwd (\<lambda>b. class_of b = Whitespace) t (cursor + 1)
           in if pos \<ge> length t then length t
              else let target = class_of (t ! pos) in skip_fwd_next (\<lambda>b. class_of b = target) t pos)"

definition move_word_forward_word :: "nat \<Rightarrow> bytes \<Rightarrow> nat" where
  "move_word_forward_word cursor t =
     skip_fwd is_ascii_whitespace t (skip_fwd (\<lambda>b. \<not> is_ascii_whitespace b) t cursor)"

definition move_word_backward_word :: "nat \<Rightarrow> bytes \<Rightarrow> nat option" where
  "move_word_backward_word cursor t =
     (if cursor > length t then None
      else Some (skip_back_prev (\<lambda>b. \<not> is_ascii_whitespace b) t (skip_back_prev is_ascii_whitespace t cursor)))"

definition move_word_end_word :: "nat \<Rightarrow> bytes \<Rightarrow> nat" where
  "move_word_end_word cursor t =
     (let pos = (if cursor < length t then cursor + 1 else cursor);
          pos = skip_fwd is_ascii_whitespace t pos;
          pos = skip_fwd (\<lambda>b. \<not> is_ascii_whitespace b) t pos
      in if pos > cursor + 1 then pos - 1 else pos)"

section \<open>Lines and brackets\<close>

definition is_on_first_line :: "nat \<Rightarrow> bytes \<Rightarrow> bool option" where
  "is_on_first_line cursor text = do {
     s \<leftarrow> slice_to text (min cursor (length text)); Some (newline \<notin> set s) }"

definition is_on_last_line :: "nat \<Rightarrow> bytes \<Rightarrow> bool option" where
  "is_on_last_line cursor text = do {
     s \<leftarrow> slice_from text (min cursor (length text)); Some (newline \<notin> set s) }"

definition move_up :: "nat \<Rightarrow> bytes \<Rightarrow> nat option" where
  "move_up cursor text = do {
     s \<leftarrow> slice_to text cursor;
     let line_start = last_line_start s;
     if line_start = 0 then Some cursor
     else do {
       let col = cursor - line_start;
       s' \<leftarrow> slice_to text (line_start - 1);
       let prev_line_start = last_line_start s';
       let prev_line_len = (line_start - 1) - prev_line_start;
       Some (prev_line_start + min col prev_line_len) } }"

definition move_down :: "nat \<Rightarrow> bytes \<Rightarrow> nat option" where
  "move_down cursor text = do {
     s \<leftarrow> slice_to text cursor;
     let col = cursor - last_line_start s;
     s' \<leftarrow> slice_from text cursor;
     case find_byte newline s' of
       None \<Rightarrow> Some cursor
     | Some newline_pos \<Rightarrow> do {
         let next_line_start = cursor + newline_pos + 1;
         if next_line_start \<ge> length text then Some (length text)
         else do {
           s'' \<leftarrow> slice_from text next_line_start;
           let next_line_end =
             (case find_byte newline s'' of Some i \<Rightarrow> next_line_start + i | None \<Rightarrow> length text);
           Some (next_line_start + min col (next_line_end - next_line_start)) } } }"

fun scan_brackets :: "(nat \<times> bytes) list \<Rightarrow> bytes \<Rightarrow> bytes \<Rightarrow> int \<Rightarrow> nat option" where
  "scan_brackets [] op cl depth = None"
| "scan_brackets ((i, c) # cs) op cl depth =
     (if c = op then scan_brackets cs op cl (depth + 1)
      else if c = cl then (if depth - 1 = 0 then Some i else scan_brackets cs op cl (depth - 1))
      else scan_brackets cs op cl depth)"

definition find_matching_forward :: "nat \<Rightarrow> bytes \<Rightarrow> bytes \<Rightarrow> bytes \<Rightarrow> nat option option" where
  "find_matching_forward cursor text op cl = do {
     let pos = cursor + length op;
     s \<leftarrow> slice_from text pos;
     Some (map_option (\<lambda>i. pos + i) (scan_brackets (char_indices s) op cl 1)) }"

definition find_matching_backward :: "nat \<Rightarrow> bytes \<Rightarrow> bytes \<Rightarrow> bytes \<Rightarrow> nat option option" where
  "find_matching_backward cursor text op cl = do {
     s \<leftarrow> slice_to text cursor;
     Some (scan_brackets (rev (char_indices s)) cl op 1) }"

fun match_pairs :: "(bytes \<times> bytes) list \<Rightarrow> bytes \<Rightarrow> nat \<Rightarrow> bytes \<Rightarrow> nat option" where
  "match_pairs [] c cursor text = Some cursor"
| "match_pairs ((op, cl) # ps) c cursor text =
     (if c = op then do { r \<leftarrow> find_matching_forward cursor text op cl;
                          Some (case r of Some pos \<Rightarrow> pos | None \<Rightarrow> cursor) }
      else if c = cl then do { r \<leftarrow> find_matching_backward cursor text op cl;
                               Some (case r of Some pos \<Rightarrow> pos | None \<Rightarrow> cursor) }
      else match_pairs ps c cursor text)"

definition move_to_matching_bracket :: "nat \<Rightarrow> bytes \<Rightarrow> nat option" where
  "move_to_matching_bracket cursor text =
     (if cursor \<ge> length text then Some cursor
      else do {
        s \<leftarrow> slice_from text cursor;
        case char_indices s of
          [] \<Rightarrow> Some cursor
        | (_, c) # _ \<Rightarrow>
            match_pairs [(''('', '')''), (''['', '']''), (''{'', ''}''), (''<'', ''>'')] c cursor text })"

section \<open>Bounds\<close>

lemma skip_fwd_bound [bounds_intros]: "p \<le> length t \<Longrightarrow> p \<le> skip_fwd P t p \<and> skip_fwd P t p \<le> length t"
  by (induction P t p rule: skip_fwd.induct) (subst (1 2) skip_fwd.simps, auto)

lemma skip_fwd_next_bound [bounds_intros]: "p < length t \<Longrightarrow> p \<le> skip_fwd_next P t p \<and> skip_fwd_next P t p < length t"
  by (induction P t p rule: skip_fwd_next.induct) (subst (1 2) skip_fwd_next.simps, auto)

lemma skip_back_le [bounds_intros]: "skip_back P t p \<le> p"
  by (induction P t p rule: skip_back.induct) (subst skip_back.simps, auto)

lemma skip_back_prev_le [bounds_intros]: "skip_back_prev P t p \<le> p"
  by (induction P t p rule: skip_back_prev.induct) (subst skip_back_prev.simps, auto)

lemma last_line_start_le [bounds_intros]: "last_line_start s \<le> length s"
  using rfind_byte_bound [of newline s] by (auto simp: last_line_start_def split: option.splits)

lemma first_non_blank_bound: "first_non_blank (char_indices s) = Some i \<Longrightarrow> i < length s"
proof -
  have "first_non_blank cs = Some i \<Longrightarrow> \<exists>c. (i, c) \<in> set cs" for cs
    by (induction cs rule: first_non_blank.induct) (auto split: if_splits)
  then show "first_non_blank (char_indices s) = Some i \<Longrightarrow> i < length s"
    using char_indices_from_bound [of i _ 0 s] by auto
qed

lemma scan_brackets_mem: "scan_brackets cs op cl d = Some i \<Longrightarrow> \<exists>c. (i, c) \<in> set cs"
  by (induction cs op cl d rule: scan_brackets.induct) (auto split: if_splits)

lemma scan_brackets_bound:
  "scan_brackets (char_indices s) op cl d = Some i \<Longrightarrow> i < length s"
  "scan_brackets (rev (char_indices s)) op cl d = Some i \<Longrightarrow> i < length s"
  using char_indices_from_bound [of i _ 0 s] by (auto dest!: scan_brackets_mem)

lemmas motion_defs =
  move_left_def move_right_def move_line_start_def move_first_non_blank_def line_end_def
  move_line_end_def move_line_end_insert_def move_word_forward_def move_word_backward_def
  move_word_end_def move_word_forward_word_def move_word_backward_word_def move_word_end_word_def
  move_up_def move_down_def

section \<open>The contract of a motion\<close>

text \<open>
  On ASCII text a motion never panics and keeps the cursor inside the text.  A client that deletes or
  yanks the range between the old and the new cursor may therefore slice it.
\<close>

locale cursor_motion =
  fixes motion :: "nat \<Rightarrow> bytes \<Rightarrow> nat option"
  assumes in_text: "is_ascii t \<Longrightarrow> c \<le> length t \<Longrightarrow> \<exists>p. motion c t = Some p \<and> p \<le> length t"
begin

lemma operator_range:
  assumes "is_ascii t" "c \<le> length t" "motion c t = Some p"
  shows "\<exists>s. slice t (min c p) (max c p) = Some s \<and> is_ascii s \<and> length s = max c p - min c p"
proof -
  have "p \<le> length t" using in_text [OF assms(1,2)] assms(3) by auto
  then show ?thesis using assms by (auto simp: slice_ascii ascii_take_drop min_def max_def)
qed

lemma inclusive_range:
  assumes "is_ascii t" "c \<le> length t" "motion c t = Some p"
  shows "(if p < length t then p + 1 else p) \<le> length t"
  using in_text [OF assms(1,2)] assms(3) by auto

end

interpretation m_left: cursor_motion "\<lambda>c t. Some (move_left c t)"
  by unfold_locales (auto simp: move_left_def intro: le_trans [OF back_to_boundary_le])

interpretation m_right: cursor_motion "\<lambda>c t. Some (move_right c t)"
  by unfold_locales (auto simp: move_right_def)

interpretation m_line_start: cursor_motion move_line_start
  by unfold_locales (auto simp: move_line_start_def slice_ascii intro: le_trans [OF last_line_start_le])

lemma find_line_end_le:
  "c \<le> length t \<Longrightarrow> (case find_byte newline (drop c t) of None \<Rightarrow> length t | Some i \<Rightarrow> c + i) \<le> length t"
  by (auto dest!: find_byte_bound split: option.split)

lemma line_end_bound:
  assumes "is_ascii t" "c \<le> length t"
  shows "\<exists>p. line_end c t past_end = Some p \<and> p \<le> length t"
proof -
  define le where "le = (case find_byte newline (drop c t) of None \<Rightarrow> length t | Some i \<Rightarrow> c + i)"
  have "le \<le> length t" using find_line_end_le [OF assms(2)] by (simp add: le_def)
  moreover have "back_to_boundary t (le - Suc 0) \<le> le - Suc 0" by (rule back_to_boundary_le)
  ultimately show ?thesis using assms
    by (simp add: line_end_def slice_ascii Let_def le_def [symmetric] le_diff_conv)
qed

interpretation m_line_end: cursor_motion move_line_end
  by unfold_locales (simp add: move_line_end_def line_end_bound)

interpretation m_line_end_insert: cursor_motion move_line_end_insert
  by unfold_locales (simp add: move_line_end_insert_def line_end_bound)

interpretation m_word_forward: cursor_motion "\<lambda>c t. Some (move_word_forward c t)"
  by unfold_locales (auto simp: move_word_forward_def Let_def skip_fwd_bound)

interpretation m_word_backward: cursor_motion "\<lambda>c t. Some (move_word_backward c t)"
proof unfold_locales
  fix t :: bytes and c :: nat
  assume "c \<le> length t"
  have "skip_back_prev P t (skip_back Q t (min c (length t - 1) - 1)) \<le> length t" for P Q
    using skip_back_prev_le [of P t "skip_back Q t (min c (length t - 1) - 1)"]
      skip_back_le [of Q t "min c (length t - 1) - 1"] by linarith
  then show "\<exists>p. Some (move_word_backward c t) = Some p \<and> p \<le> length t"
    by (auto simp: move_word_backward_def Let_def)
qed

interpretation m_word_end: cursor_motion "\<lambda>c t. Some (move_word_end c t)"
  by unfold_locales (auto simp: move_word_end_def Let_def skip_fwd_next_bound less_imp_le)

interpretation m_word_forward_word: cursor_motion "\<lambda>c t. Some (move_word_forward_word c t)"
  by unfold_locales (simp add: move_word_forward_word_def skip_fwd_bound)

interpretation m_word_backward_word: cursor_motion move_word_backward_word
  by unfold_locales (auto simp: move_word_backward_word_def intro!: le_trans [OF skip_back_prev_le])

interpretation m_word_end_word: cursor_motion "\<lambda>c t. Some (move_word_end_word c t)"
proof unfold_locales
  fix t :: bytes and c :: nat
  assume c: "c \<le> length t"
  define p0 where "p0 = (if c < length t then c + 1 else c)"
  define p1 where "p1 = skip_fwd is_ascii_whitespace t p0"
  define p2 where "p2 = skip_fwd (\<lambda>b. \<not> is_ascii_whitespace b) t p1"
  have "p0 \<le> length t" using c by (simp add: p0_def)
  then have "p1 \<le> length t" by (simp add: p1_def skip_fwd_bound)
  then have "p2 \<le> length t" by (simp add: p2_def skip_fwd_bound)
  moreover have "move_word_end_word c t = (if p2 > c + 1 then p2 - 1 else p2)"
    by (simp add: move_word_end_word_def Let_def p0_def p1_def p2_def)
  ultimately show "\<exists>p. Some (move_word_end_word c t) = Some p \<and> p \<le> length t" by auto
qed

interpretation m_up: cursor_motion move_up
proof unfold_locales
  fix t :: bytes and c :: nat
  assume *: "is_ascii t" "c \<le> length t"
  define ls where "ls = last_line_start (take c t)"
  define pls where "pls = last_line_start (take (ls - Suc 0) t)"
  have "ls \<le> c" "pls \<le> ls - Suc 0"
    using last_line_start_le [of "take c t"] last_line_start_le [of "take (ls - Suc 0) t"] *
    by (auto simp: ls_def [symmetric] pls_def [symmetric])
  with * show "\<exists>p. move_up c t = Some p \<and> p \<le> length t"
    by (auto simp: move_up_def slice_ascii Let_def ls_def [symmetric] pls_def [symmetric] min_def)
qed

interpretation m_down: cursor_motion move_down
proof unfold_locales
  fix t :: bytes and c :: nat
  assume *: "is_ascii t" "c \<le> length t"
  show "\<exists>p. move_down c t = Some p \<and> p \<le> length t"
  proof (cases "find_byte newline (drop c t)")
    case (Some i)
    then have "c + i < length t" using find_byte_bound [OF Some] by (auto simp: less_diff_conv add.commute)
    then have n: "Suc (c + i) \<le> length t" by simp
    show ?thesis using * Some n find_line_end_le [OF n]
      by (auto simp: move_down_def slice_ascii Let_def min_def)
  qed (use * in \<open>simp add: move_down_def slice_ascii Let_def\<close>)
qed

interpretation m_first_non_blank: cursor_motion move_first_non_blank
proof unfold_locales
  fix t :: bytes and c :: nat
  assume *: "is_ascii t" "c \<le> length t"
  with m_line_start.in_text obtain p where p: "move_line_start c t = Some p" "p \<le> length t" by blast
  with * show "\<exists>p. move_first_non_blank c t = Some p \<and> p \<le> length t"
    by (auto simp: move_first_non_blank_def slice_ascii dest!: first_non_blank_bound split: option.split)
qed

lemma find_matching_forward_bound:
  "is_ascii t \<Longrightarrow> c + length op \<le> length t \<Longrightarrow>
   \<exists>r. find_matching_forward c t op cl = Some r \<and> pred_option (\<lambda>p. p < length t) r"
  by (cases "scan_brackets (char_indices (drop (c + length op) t)) op cl 1")
    (auto simp: find_matching_forward_def slice_ascii Let_def dest!: scan_brackets_bound)

lemma find_matching_backward_bound:
  "is_ascii t \<Longrightarrow> c \<le> length t \<Longrightarrow>
   \<exists>r. find_matching_backward c t op cl = Some r \<and> pred_option (\<lambda>p. p < length t) r"
  by (cases "scan_brackets (rev (char_indices (take c t))) cl op 1")
    (auto simp: find_matching_backward_def slice_ascii dest!: scan_brackets_bound)

lemma match_pairs_bound:
  assumes "is_ascii t" "c < length t" "\<forall>(a, b) \<in> set ps. length a = 1"
  shows "\<exists>p. match_pairs ps x c t = Some p \<and> p \<le> length t"
  using assms(3)
proof (induction ps)
  case (Cons ab ps)
  obtain a b where ab: "ab = (a, b)" by force
  with Cons.prems have "c + length a \<le> length t" using assms(2) by simp
  then show ?case
    using Cons ab find_matching_forward_bound [of t c a b] find_matching_backward_bound [of t c a b] assms
    by (auto split: option.split)
qed (use assms in simp)

interpretation m_matching: cursor_motion move_to_matching_bracket
  by unfold_locales (auto simp: move_to_matching_bracket_def slice_ascii match_pairs_bound
      simp del: match_pairs.simps split: list.split)

end
