(* ===== verification/Vim_Editor.thy ===== *)
theory Vim_Editor
  imports Vim_Motions
begin

text \<open>
  The modal line editor of \<open>crates/vim-line\<close>: the types of \<open>lib.rs\<close>, the editor of \<open>vim.rs\<close>, its edits
  (\<open>vim/edits.rs\<close>) and its command line (\<open>vim/command_line.rs\<close>).  A handler takes the editor and the
  host's text and returns the new editor with the result for the host, or \<open>None\<close> where the code panics.
  Then what holds of a whole session between the editor and a host that applies its edits.
\<close>

section \<open>The interface with the host\<close>

datatype action =
    Submit
  | HistoryPrev
  | HistoryNext
  | HistorySearch bytes
  | HistoryAccept
  | HistoryCancel
  | Cancel
  | SubmitCommand bytes

datatype text_edit =
    EditDelete nat nat
  | EditInsert nat bytes

fun text_edit_apply :: "text_edit \<Rightarrow> bytes \<Rightarrow> bytes option" where
  "text_edit_apply (EditDelete start en) s = delete_range s start en"
| "text_edit_apply (EditInsert at text) s = insert_str s at text"

record edit_result =
  edits :: "text_edit list"
  yanked :: "bytes option"
  act :: "action option"

definition res_none :: edit_result where
  "res_none = \<lparr>edits = [], yanked = None, act = None\<rparr>"

definition res_action :: "action \<Rightarrow> edit_result" where
  "res_action a = res_none\<lparr>act := Some a\<rparr>"

definition res_cursor_only :: edit_result where
  "res_cursor_only = res_none"

definition res_edit :: "text_edit \<Rightarrow> edit_result" where
  "res_edit e = res_none\<lparr>edits := [e]\<rparr>"

definition res_edit_and_yank :: "text_edit \<Rightarrow> bytes \<Rightarrow> edit_result" where
  "res_edit_and_yank e y = res_none\<lparr>edits := [e], yanked := Some y\<rparr>"

text \<open>\<open>KChar c\<close> carries the UTF-8 encoding of the character.\<close>

datatype key_code =
    KChar bytes
  | KEscape | KBackspace | KDelete
  | KLeft | KRight | KUp | KDown
  | KHome | KEnd | KTab | KEnter

record key =
  code :: key_code
  ctrl :: bool
  alt :: bool
  shift :: bool

definition key_char :: "bytes \<Rightarrow> key" where
  "key_char c = \<lparr>code = KChar c, ctrl = False, alt = False, shift = False\<rparr>"

definition key_of_code :: "key_code \<Rightarrow> key" where
  "key_of_code k = \<lparr>code = k, ctrl = False, alt = False, shift = False\<rparr>"

text \<open>The host applies the edits of a result from the last to the first.\<close>

fun apply_edits :: "text_edit list \<Rightarrow> bytes \<Rightarrow> bytes option" where
  "apply_edits [] s = Some s"
| "apply_edits (e # es) s = do { s' \<leftarrow> text_edit_apply e s; apply_edits es s' }"

definition host_apply :: "edit_result \<Rightarrow> bytes \<Rightarrow> bytes option" where
  "host_apply r s = apply_edits (rev (edits r)) s"

section \<open>The editor\<close>

datatype operator = OpDelete | OpChange | OpYank

datatype mode =
    Normal
  | Insert
  | OperatorPending operator
  | Visual
  | ReplaceChar
  | CommandLine

record editor =
  cursor :: nat
  mode :: mode
  visual_anchor :: "nat option"
  yank_buffer :: bytes
  command_mode_enabled :: bool
  command_buf :: bytes
  command_cursor :: nat

definition editor_new :: editor where
  "editor_new = \<lparr>cursor = 0, mode = Normal, visual_anchor = None, yank_buffer = [],
     command_mode_enabled = False, command_buf = [], command_cursor = 0\<rparr>"

definition with_command_mode :: "editor \<Rightarrow> bool \<Rightarrow> editor" where
  "with_command_mode ed enabled = ed\<lparr>command_mode_enabled := enabled\<rparr>"

definition command_line_buffer :: "editor \<Rightarrow> bytes option" where
  "command_line_buffer ed = (if mode ed = CommandLine then Some (command_buf ed) else None)"

text \<open>Clamping an offset into a text and snapping it back to a character boundary.\<close>

definition snap :: "nat \<Rightarrow> bytes \<Rightarrow> nat" where
  "snap pos t = (let p = min pos (length t) in if is_char_boundary t p then p else back_to_boundary t p)"

definition set_command_line :: "editor \<Rightarrow> bytes \<Rightarrow> nat \<Rightarrow> editor" where
  "set_command_line ed buf c =
     (if mode ed \<noteq> CommandLine then ed
      else ed\<lparr>command_buf := buf, command_cursor := snap c buf\<rparr>)"

definition clamp_cursor :: "editor \<Rightarrow> bytes \<Rightarrow> editor" where
  "clamp_cursor ed text = ed\<lparr>cursor := min (cursor ed) (length text)\<rparr>"

definition clamp_to_last_char :: "editor \<Rightarrow> bytes \<Rightarrow> editor" where
  "clamp_to_last_char ed text =
     (if text = [] then ed\<lparr>cursor := 0\<rparr>
      else if cursor ed \<ge> length text then ed\<lparr>cursor := back_to_boundary text (length text - 1)\<rparr>
      else ed)"

text \<open>The methods \<open>move_\<dots>(&mut self, text)\<close>: a motion applied to the cursor.\<close>

definition go :: "(nat \<Rightarrow> bytes \<Rightarrow> nat option) \<Rightarrow> editor \<Rightarrow> bytes \<Rightarrow> editor option" where
  "go m ed text = do { p \<leftarrow> m (cursor ed) text; Some (ed\<lparr>cursor := p\<rparr>) }"

definition go_total :: "(nat \<Rightarrow> bytes \<Rightarrow> nat) \<Rightarrow> editor \<Rightarrow> bytes \<Rightarrow> editor option" where
  "go_total m ed text = Some (ed\<lparr>cursor := m (cursor ed) text\<rparr>)"

definition dispatch_motion :: "editor \<Rightarrow> key_code \<Rightarrow> bytes \<Rightarrow> (editor \<times> bool) option" where
  "dispatch_motion ed k text =
     (let moved = map_option (\<lambda>ed'. (ed', True)) in
      if k = KChar ''h'' \<or> k = KLeft then moved (go_total move_left ed text)
      else if k = KChar ''l'' \<or> k = KRight then moved (go_total move_right ed text)
      else if k = KChar ''j'' then moved (go move_down ed text)
      else if k = KChar ''k'' then moved (go move_up ed text)
      else if k = KChar ''0'' \<or> k = KHome then moved (go move_line_start ed text)
      else if k = KChar ''^'' then moved (go move_first_non_blank ed text)
      else if k = KChar ''$'' \<or> k = KEnd then moved (go move_line_end ed text)
      else if k = KChar ''w'' then moved (go_total move_word_forward ed text)
      else if k = KChar ''b'' then moved (go_total move_word_backward ed text)
      else if k = KChar ''e'' then moved (go_total move_word_end ed text)
      else if k = KChar ''W'' then moved (go_total move_word_forward_word ed text)
      else if k = KChar ''B'' then moved (go move_word_backward_word ed text)
      else if k = KChar ''E'' then moved (go_total move_word_end_word ed text)
      else if k = KChar ''%'' then moved (go move_to_matching_bracket ed text)
      else Some (ed, False))"

section \<open>Edits\<close>

definition delete_char :: "editor \<Rightarrow> bytes \<Rightarrow> (editor \<times> edit_result) option" where
  "delete_char ed text =
     (if cursor ed \<ge> length text then Some (ed, res_none)
      else do {
        let start = cursor ed;
        let en = fwd_to_boundary text (cursor ed + 1);
        deleted \<leftarrow> slice text start en;
        let ed' = (if en \<ge> length text \<and> cursor ed > 0 then ed\<lparr>cursor := move_left (cursor ed) text\<rparr> else ed);
        Some (ed', res_edit_and_yank (EditDelete start en) deleted) })"

definition delete_to_end :: "editor \<Rightarrow> bytes \<Rightarrow> (editor \<times> edit_result) option" where
  "delete_to_end ed text = do {
     s \<leftarrow> slice_from text (cursor ed);
     let en = (case find_byte newline s of Some i \<Rightarrow> cursor ed + i | None \<Rightarrow> length text);
     if cursor ed \<ge> en then Some (ed, res_none)
     else do {
       deleted \<leftarrow> slice text (cursor ed) en;
       Some (ed, res_edit_and_yank (EditDelete (cursor ed) en) deleted) } }"

definition delete_line :: "editor \<Rightarrow> bytes \<Rightarrow> (editor \<times> edit_result) option" where
  "delete_line ed text = do {
     s \<leftarrow> slice_to text (cursor ed);
     let line_start = last_line_start s;
     s' \<leftarrow> slice_from text (cursor ed);
     let line_en = (case find_byte newline s' of Some i \<Rightarrow> cursor ed + i + 1 | None \<Rightarrow> length text);
     let (start, en) =
       (if line_start = 0 \<and> line_en = length text then (0, length text)
        else if line_en = length text \<and> line_start > 0 then (line_start - 1, length text)
        else (line_start, line_en));
     deleted \<leftarrow> slice text start en;
     Some (ed\<lparr>cursor := start\<rparr>, res_edit_and_yank (EditDelete start en) deleted) }"

definition paste_after :: "editor \<Rightarrow> bytes \<Rightarrow> editor \<times> edit_result" where
  "paste_after ed text =
     (if yank_buffer ed = [] then (ed, res_none)
      else let insert_pos = min (cursor ed + 1) (length text);
               to_insert = yank_buffer ed;
               ed' = ed\<lparr>cursor := min (insert_pos + length to_insert - 1) (length text + length to_insert)\<rparr>
           in (ed', res_edit (EditInsert insert_pos to_insert)))"

definition paste_before :: "editor \<Rightarrow> bytes \<Rightarrow> editor \<times> edit_result" where
  "paste_before ed text =
     (if yank_buffer ed = [] then (ed, res_none)
      else let to_insert = yank_buffer ed;
               insert_pos = min (cursor ed) (length text);
               ed' = ed\<lparr>cursor := min (insert_pos + length to_insert) (length text + length to_insert)\<rparr>
           in (ed', res_edit (EditInsert insert_pos to_insert)))"

definition apply_operator ::
  "editor \<Rightarrow> operator \<Rightarrow> nat \<Rightarrow> nat \<Rightarrow> bytes \<Rightarrow> (editor \<times> edit_result) option" where
  "apply_operator ed op start en text = do {
     affected \<leftarrow> slice text start en;
     let ed' = ed\<lparr>yank_buffer := affected, cursor := start\<rparr>;
     Some (case op of
         OpDelete \<Rightarrow> (ed', res_edit_and_yank (EditDelete start en) affected)
       | OpChange \<Rightarrow> (ed'\<lparr>mode := Insert\<rparr>, res_edit_and_yank (EditDelete start en) affected)
       | OpYank \<Rightarrow> (ed', res_none\<lparr>yanked := Some affected\<rparr>)) }"

definition apply_operator_line :: "editor \<Rightarrow> operator \<Rightarrow> bytes \<Rightarrow> (editor \<times> edit_result) option" where
  "apply_operator_line ed op text = (case op of
       OpDelete \<Rightarrow> delete_line ed text
     | OpChange \<Rightarrow> do { (ed', r) \<leftarrow> delete_line ed text; Some (ed'\<lparr>mode := Insert\<rparr>, r) }
     | OpYank \<Rightarrow> do {
         s \<leftarrow> slice_to text (cursor ed);
         let line_start = last_line_start s;
         s' \<leftarrow> slice_from text (cursor ed);
         let line_en = (case find_byte newline s' of Some i \<Rightarrow> cursor ed + i + 1 | None \<Rightarrow> length text);
         line \<leftarrow> slice text line_start line_en;
         Some (ed\<lparr>yank_buffer := line\<rparr>, res_none\<lparr>yanked := Some line\<rparr>) })"

section \<open>The command line\<close>

definition exit_command_line :: "editor \<Rightarrow> editor" where
  "exit_command_line ed = ed\<lparr>command_buf := [], command_cursor := 0, mode := Normal\<rparr>"

definition handle_command_line :: "editor \<Rightarrow> key \<Rightarrow> (editor \<times> edit_result) option" where
  "handle_command_line ed key = (case code key of
       KEscape \<Rightarrow> Some (exit_command_line ed, res_none)
     | KEnter \<Rightarrow> Some (exit_command_line ed, res_action (SubmitCommand (command_buf ed)))
     | KBackspace \<Rightarrow>
         (if command_cursor ed = 0 then Some (ed, res_none)
          else do {
            let start = back_to_boundary (command_buf ed) (command_cursor ed - 1);
            buf \<leftarrow> delete_range (command_buf ed) start (command_cursor ed);
            Some (ed\<lparr>command_buf := buf, command_cursor := start\<rparr>, res_none) })
     | KDelete \<Rightarrow>
         (if command_cursor ed \<ge> length (command_buf ed) then Some (ed, res_none)
          else do {
            let en = fwd_to_boundary (command_buf ed) (command_cursor ed + 1);
            buf \<leftarrow> delete_range (command_buf ed) (command_cursor ed) en;
            Some (ed\<lparr>command_buf := buf\<rparr>, res_none) })
     | KLeft \<Rightarrow>
         Some (if command_cursor ed > 0
               then ed\<lparr>command_cursor := back_to_boundary (command_buf ed) (command_cursor ed - 1)\<rparr>
               else ed, res_none)
     | KRight \<Rightarrow>
         Some (if command_cursor ed < length (command_buf ed)
               then ed\<lparr>command_cursor := fwd_to_boundary (command_buf ed) (command_cursor ed + 1)\<rparr>
               else ed, res_none)
     | KHome \<Rightarrow> Some (ed\<lparr>command_cursor := 0\<rparr>, res_none)
     | KEnd \<Rightarrow> Some (ed\<lparr>command_cursor := length (command_buf ed)\<rparr>, res_none)
     | KChar c \<Rightarrow>
         (if c = ''c'' \<and> ctrl key then Some (exit_command_line ed, res_none)
          else if \<not> ctrl key \<and> \<not> alt key then do {
            buf \<leftarrow> insert_str (command_buf ed) (command_cursor ed) c;
            Some (ed\<lparr>command_buf := buf, command_cursor := command_cursor ed + length c\<rparr>, res_none) }
          else Some (ed, res_none))
     | _ \<Rightarrow> Some (ed, res_none))"

section \<open>The modes\<close>

definition handle_normal :: "editor \<Rightarrow> key \<Rightarrow> bytes \<Rightarrow> (editor \<times> edit_result) option" where
  "handle_normal ed key text = do {
     let k = code key;
     first \<leftarrow> (if k = KChar ''k'' then is_on_first_line (cursor ed) text else Some False);
     last \<leftarrow> (if k = KChar ''j'' then is_on_last_line (cursor ed) text else Some False);
     if first then Some (ed, res_action HistoryPrev)
     else if last then Some (ed, res_action HistoryNext)
     else do {
       (ed, moved) \<leftarrow> dispatch_motion ed k text;
       if moved then Some (clamp_to_last_char ed text, res_cursor_only)
       else if k = KChar ''i'' then Some (ed\<lparr>mode := Insert\<rparr>, res_none)
       else if k = KChar ''a'' then
         Some (ed\<lparr>mode := Insert, cursor := move_right (cursor ed) text\<rparr>, res_none)
       else if k = KChar ''A'' then do {
         ed' \<leftarrow> go move_line_end_insert (ed\<lparr>mode := Insert\<rparr>) text;
         Some (ed', res_none) }
       else if k = KChar ''I'' then do {
         ed' \<leftarrow> go move_first_non_blank (ed\<lparr>mode := Insert\<rparr>) text;
         Some (ed', res_none) }
       else if k = KChar ''o'' then do {
         ed' \<leftarrow> go move_line_end (ed\<lparr>mode := Insert\<rparr>) text;
         Some (ed'\<lparr>cursor := cursor ed' + 1\<rparr>, res_edit (EditInsert (cursor ed') [newline])) }
       else if k = KChar ''O'' then do {
         ed' \<leftarrow> go move_line_start (ed\<lparr>mode := Insert\<rparr>) text;
         Some (ed', res_edit (EditInsert (cursor ed') [newline])) }
       else if k = KChar ''v'' then
         Some (ed\<lparr>mode := Visual, visual_anchor := Some (cursor ed)\<rparr>, res_none)
       else if k = KChar ''c'' \<and> ctrl key then Some (ed, res_action Cancel)
       else if k = KChar ''d'' then Some (ed\<lparr>mode := OperatorPending OpDelete\<rparr>, res_none)
       else if k = KChar ''c'' then Some (ed\<lparr>mode := OperatorPending OpChange\<rparr>, res_none)
       else if k = KChar ''y'' then Some (ed\<lparr>mode := OperatorPending OpYank\<rparr>, res_none)
       else if k = KChar ''x'' then delete_char ed text
       else if k = KChar ''D'' then delete_to_end ed text
       else if k = KChar ''C'' then delete_to_end (ed\<lparr>mode := Insert\<rparr>) text
       else if k = KChar ''r'' then Some (ed\<lparr>mode := ReplaceChar\<rparr>, res_none)
       else if k = KChar '':'' \<and> command_mode_enabled ed then
         Some (ed\<lparr>mode := CommandLine, command_buf := [], command_cursor := 0\<rparr>, res_none)
       else if k = KChar ''p'' then Some (paste_after ed text)
       else if k = KChar ''P'' then Some (paste_before ed text)
       else if k = KUp then Some (ed, res_action HistoryPrev)
       else if k = KDown then Some (ed, res_action HistoryNext)
       else if k = KEnter \<and> \<not> shift key then Some (ed, res_action Submit)
       else if k = KEnter \<and> shift key then
         Some (ed\<lparr>mode := Insert, cursor := cursor ed + 1\<rparr>, res_edit (EditInsert (cursor ed) [newline]))
       else Some (ed, res_none) } }"

definition handle_insert :: "editor \<Rightarrow> key \<Rightarrow> bytes \<Rightarrow> (editor \<times> edit_result) option" where
  "handle_insert ed key text = (case code key of
       KEscape \<Rightarrow>
         Some (if cursor ed > 0 then ed\<lparr>mode := Normal, cursor := move_left (cursor ed) text\<rparr>
               else ed\<lparr>mode := Normal\<rparr>, res_none)
     | KChar c \<Rightarrow>
         (if c = ''c'' \<and> ctrl key then Some (ed\<lparr>mode := Normal\<rparr>, res_none)
          else if \<not> ctrl key \<and> \<not> alt key then
            Some (ed\<lparr>cursor := cursor ed + length c\<rparr>, res_edit (EditInsert (cursor ed) c))
          else Some (ed, res_none))
     | KBackspace \<Rightarrow>
         (if cursor ed = 0 then Some (ed, res_none)
          else let start = back_to_boundary text (cursor ed - 1); en = cursor ed
               in Some (ed\<lparr>cursor := start\<rparr>, res_edit (EditDelete start en)))
     | KDelete \<Rightarrow> delete_char ed text
     | KLeft \<Rightarrow> do { ed' \<leftarrow> go_total move_left ed text; Some (ed', res_cursor_only) }
     | KRight \<Rightarrow> do { ed' \<leftarrow> go_total move_right ed text; Some (ed', res_cursor_only) }
     | KUp \<Rightarrow> do { ed' \<leftarrow> go move_up ed text; Some (ed', res_cursor_only) }
     | KDown \<Rightarrow> do { ed' \<leftarrow> go move_down ed text; Some (ed', res_cursor_only) }
     | KHome \<Rightarrow> do { ed' \<leftarrow> go move_line_start ed text; Some (ed', res_cursor_only) }
     | KEnd \<Rightarrow> do { ed' \<leftarrow> go move_line_end_insert ed text; Some (ed', res_cursor_only) }
     | KEnter \<Rightarrow> Some (ed\<lparr>cursor := cursor ed + 1\<rparr>, res_edit (EditInsert (cursor ed) [newline]))
     | KTab \<Rightarrow> Some (ed, res_none))"

text \<open>\<open>if self.cursor < text.len() { self.cursor += 1; }\<close> after an inclusive motion.\<close>

definition include_cursor :: "editor \<Rightarrow> bytes \<Rightarrow> editor" where
  "include_cursor ed text = (if cursor ed < length text then ed\<lparr>cursor := cursor ed + 1\<rparr> else ed)"

definition is_line_op :: "operator \<Rightarrow> key_code \<Rightarrow> bool" where
  "is_line_op op k \<longleftrightarrow>
     op = OpDelete \<and> k = KChar ''d'' \<or> op = OpChange \<and> k = KChar ''c'' \<or> op = OpYank \<and> k = KChar ''y''"

text \<open>
  The \<open>match key.code\<close> of \<open>handle_operator_pending\<close>: the outer option is the panic, the inner one is
  \<open>None\<close> for the branch that cancels on an unknown motion.
\<close>

definition operator_motion :: "editor \<Rightarrow> operator \<Rightarrow> key_code \<Rightarrow> bytes \<Rightarrow> editor option option" where
  "operator_motion ed op k text =
     (if k = KChar ''w'' then
        (if op = OpChange
         then do { ed' \<leftarrow> go_total move_word_end ed text; Some (Some (include_cursor ed' text)) }
         else map_option Some (go_total move_word_forward ed text))
      else if k = KChar ''b'' then map_option Some (go_total move_word_backward ed text)
      else if k = KChar ''e'' then
        do { ed' \<leftarrow> go_total move_word_end ed text; Some (Some (include_cursor ed' text)) }
      else if k = KChar ''W'' then
        (if op = OpChange
         then do { ed' \<leftarrow> go_total move_word_end_word ed text; Some (Some (include_cursor ed' text)) }
         else map_option Some (go_total move_word_forward_word ed text))
      else if k = KChar ''B'' then map_option Some (go move_word_backward_word ed text)
      else if k = KChar ''E'' then
        do { ed' \<leftarrow> go_total move_word_end_word ed text; Some (Some (include_cursor ed' text)) }
      else if k = KChar ''0'' \<or> k = KHome then map_option Some (go move_line_start ed text)
      else if k = KChar ''$'' \<or> k = KEnd then map_option Some (go move_line_end ed text)
      else if k = KChar ''^'' then map_option Some (go move_first_non_blank ed text)
      else if k = KChar ''h'' \<or> k = KLeft then map_option Some (go_total move_left ed text)
      else if k = KChar ''l'' \<or> k = KRight then map_option Some (go_total move_right ed text)
      else if k = KChar ''j'' then map_option Some (go move_down ed text)
      else if k = KChar ''k'' then map_option Some (go move_up ed text)
      else Some None)"

definition handle_operator_pending ::
  "editor \<Rightarrow> operator \<Rightarrow> key \<Rightarrow> bytes \<Rightarrow> (editor \<times> edit_result) option" where
  "handle_operator_pending ed op key text =
     (if code key = KEscape then Some (ed\<lparr>mode := Normal\<rparr>, res_none)
      else if is_line_op op (code key) then apply_operator_line (ed\<lparr>mode := Normal\<rparr>) op text
      else do {
        let start = cursor ed;
        m \<leftarrow> operator_motion ed op (code key) text;
        case m of
          None \<Rightarrow> Some (ed\<lparr>mode := Normal\<rparr>, res_none)
        | Some ed' \<Rightarrow>
            let en = cursor ed'; ed'' = ed'\<lparr>mode := Normal\<rparr>
            in if start = en then Some (ed'', res_none)
               else let (range_start, range_end) = (if start < en then (start, en) else (en, start))
                    in apply_operator ed'' op range_start range_end text })"

definition selection_range :: "editor \<Rightarrow> nat \<times> nat" where
  "selection_range ed =
     (let anchor = (case visual_anchor ed of Some a \<Rightarrow> a | None \<Rightarrow> cursor ed)
      in if cursor ed < anchor then (cursor ed, anchor) else (anchor, cursor ed + 1))"

text \<open>The branch of an operator on the selection.\<close>

definition visual_operator :: "editor \<Rightarrow> operator \<Rightarrow> bytes \<Rightarrow> (editor \<times> edit_result) option" where
  "visual_operator ed op text =
     (let (start, en) = selection_range ed
      in apply_operator (ed\<lparr>mode := Normal, visual_anchor := None\<rparr>) op start en text)"

definition handle_visual :: "editor \<Rightarrow> key \<Rightarrow> bytes \<Rightarrow> (editor \<times> edit_result) option" where
  "handle_visual ed key text =
     (let k = code key; moved = map_option (\<lambda>ed'. (ed', res_cursor_only)) in
      if k = KEscape then Some (ed\<lparr>mode := Normal, visual_anchor := None\<rparr>, res_none)
      else if k = KChar ''h'' \<or> k = KLeft then moved (go_total move_left ed text)
      else if k = KChar ''l'' \<or> k = KRight then moved (go_total move_right ed text)
      else if k = KChar ''j'' then moved (go move_down ed text)
      else if k = KChar ''k'' then moved (go move_up ed text)
      else if k = KChar ''w'' then moved (go_total move_word_forward ed text)
      else if k = KChar ''b'' then moved (go_total move_word_backward ed text)
      else if k = KChar ''e'' then moved (go_total move_word_end ed text)
      else if k = KChar ''W'' then moved (go_total move_word_forward_word ed text)
      else if k = KChar ''B'' then moved (go move_word_backward_word ed text)
      else if k = KChar ''E'' then moved (go_total move_word_end_word ed text)
      else if k = KChar ''0'' \<or> k = KHome then moved (go move_line_start ed text)
      else if k = KChar ''$'' \<or> k = KEnd then moved (go move_line_end ed text)
      else if k = KChar ''d'' \<or> k = KChar ''x'' then visual_operator ed OpDelete text
      else if k = KChar ''c'' then visual_operator ed OpChange text
      else if k = KChar ''y'' then visual_operator ed OpYank text
      else Some (ed, res_none))"

definition handle_replace_char :: "editor \<Rightarrow> key \<Rightarrow> bytes \<Rightarrow> editor \<times> edit_result" where
  "handle_replace_char ed key text =
     (let ed = ed\<lparr>mode := Normal\<rparr> in
      case code key of
        KChar c \<Rightarrow>
          (if \<not> ctrl key \<and> \<not> alt key \<and> cursor ed < length text
           then let en = fwd_to_boundary text (cursor ed + 1)
                in (ed, res_none\<lparr>edits := [EditInsert (cursor ed) c, EditDelete (cursor ed) en]\<rparr>)
           else (ed, res_none))
      | _ \<Rightarrow> (ed, res_none))"

section \<open>The trait implementation\<close>

definition handle_key :: "editor \<Rightarrow> key \<Rightarrow> bytes \<Rightarrow> (editor \<times> edit_result) option" where
  "handle_key ed key text = do {
     let ed = clamp_cursor ed text;
     (ed', r) \<leftarrow> (case mode ed of
         Normal \<Rightarrow> handle_normal ed key text
       | Insert \<Rightarrow> handle_insert ed key text
       | OperatorPending op \<Rightarrow> handle_operator_pending ed op key text
       | Visual \<Rightarrow> handle_visual ed key text
       | ReplaceChar \<Rightarrow> Some (handle_replace_char ed key text)
       | CommandLine \<Rightarrow> handle_command_line ed key);
     Some (case yanked r of Some y \<Rightarrow> ed'\<lparr>yank_buffer := y\<rparr> | None \<Rightarrow> ed', r) }"

definition status :: "editor \<Rightarrow> string" where
  "status ed = (case mode ed of
       Normal \<Rightarrow> ''NORMAL''
     | Insert \<Rightarrow> ''INSERT''
     | OperatorPending OpDelete \<Rightarrow> ''d...''
     | OperatorPending OpChange \<Rightarrow> ''c...''
     | OperatorPending OpYank \<Rightarrow> ''y...''
     | Visual \<Rightarrow> ''VISUAL''
     | ReplaceChar \<Rightarrow> ''r...''
     | CommandLine \<Rightarrow> ''COMMAND'')"

definition selection :: "editor \<Rightarrow> (nat \<times> nat) option" where
  "selection ed = (if mode ed = Visual then Some (selection_range ed) else None)"

definition editor_reset :: "editor \<Rightarrow> editor" where
  "editor_reset ed = ed\<lparr>cursor := 0, mode := Normal, visual_anchor := None, command_buf := [], command_cursor := 0\<rparr>"

definition set_cursor :: "editor \<Rightarrow> nat \<Rightarrow> bytes \<Rightarrow> editor" where
  "set_cursor ed pos text = ed\<lparr>cursor := snap pos text\<rparr>"

section \<open>What a host may rely on\<close>

text \<open>
  The state of the editor beside an ASCII text: the cursor inside the text, the visual anchor too while
  a selection is on, and the command line's cursor inside its own buffer.
\<close>

definition ed_ok :: "editor \<Rightarrow> bytes \<Rightarrow> bool" where
  "ed_ok ed t \<longleftrightarrow> is_ascii t \<and> cursor ed \<le> length t \<and> is_ascii (yank_buffer ed) \<and>
     (mode ed = Visual \<longrightarrow> (case visual_anchor ed of Some a \<Rightarrow> a \<le> length t | None \<Rightarrow> False)) \<and>
     is_ascii (command_buf ed) \<and> command_cursor ed \<le> length (command_buf ed)"

definition ascii_key :: "key \<Rightarrow> bool" where
  "ascii_key key \<longleftrightarrow> (case code key of KChar c \<Rightarrow> is_ascii c | _ \<Rightarrow> True)"

text \<open>
  What an outcome must satisfy: no panic, edits that apply, yanked text that is ASCII, and a state that
  fits the text the host ends up with.
\<close>

definition good :: "bytes \<Rightarrow> (editor \<times> edit_result) option \<Rightarrow> bool" where
  "good t x \<longleftrightarrow> (case x of None \<Rightarrow> False
     | Some (ed, r) \<Rightarrow> pred_option is_ascii (yanked r) \<and>
         (case host_apply r t of None \<Rightarrow> False | Some t' \<Rightarrow> ed_ok ed t'))"

lemmas res_defs = res_none_def res_action_def res_cursor_only_def res_edit_def res_edit_and_yank_def

lemma apply_edits_one [simp]: "text_edit_apply e t \<bind> apply_edits [] = text_edit_apply e t"
  by (cases "text_edit_apply e t") simp_all

lemma host_apply_res [simp]:
  "host_apply res_none t = Some t"
  "host_apply (res_action a) t = Some t"
  "host_apply res_cursor_only t = Some t"
  "host_apply (res_edit e) t = text_edit_apply e t"
  "host_apply (res_edit_and_yank e y) t = text_edit_apply e t"
  "host_apply (res_none\<lparr>yanked := z\<rparr>) t = Some t"
  by (simp_all add: host_apply_def res_defs)

lemma yanked_res [simp]:
  "yanked res_none = None" "yanked (res_action a) = None" "yanked res_cursor_only = None"
  "yanked (res_edit e) = None" "yanked (res_edit_and_yank e y) = Some y"
  by (simp_all add: res_defs)

lemma good_simps [simp]:
  "good t (Some (ed, res_none)) \<longleftrightarrow> ed_ok ed t"
  "good t (Some (ed, res_cursor_only)) \<longleftrightarrow> ed_ok ed t"
  "good t (Some (ed, res_action a)) \<longleftrightarrow> ed_ok ed t"
  "good t None \<longleftrightarrow> False"
  by (simp_all add: good_def)

lemma good_if: "(b \<Longrightarrow> good t x) \<Longrightarrow> (\<not> b \<Longrightarrow> good t y) \<Longrightarrow> good t (if b then x else y)"
  by simp

lemma good_returns: "good t x \<Longrightarrow> x \<noteq> None"
  by (cases x) auto

lemma good_insert:
  "ed_ok ed t \<Longrightarrow> p \<le> length t \<Longrightarrow> is_ascii s \<Longrightarrow> c \<le> length t + length s \<Longrightarrow>
   mode ed' \<noteq> Visual \<Longrightarrow> cursor ed' = c \<Longrightarrow> yank_buffer ed' = yank_buffer ed \<Longrightarrow>
   command_buf ed' = command_buf ed \<Longrightarrow> command_cursor ed' = command_cursor ed \<Longrightarrow>
   good t (Some (ed', res_edit (EditInsert p s)))"
  by (auto simp: good_def ed_ok_def insert_str_def ascii_take_drop)

lemma good_delete:
  "ed_ok ed t \<Longrightarrow> a \<le> b \<Longrightarrow> b \<le> length t \<Longrightarrow> is_ascii y \<Longrightarrow> c \<le> length t - (b - a) \<Longrightarrow>
   mode ed' \<noteq> Visual \<Longrightarrow> cursor ed' = c \<Longrightarrow> is_ascii (yank_buffer ed') \<Longrightarrow>
   command_buf ed' = command_buf ed \<Longrightarrow> command_cursor ed' = command_cursor ed \<Longrightarrow>
   good t (Some (ed', res_edit_and_yank (EditDelete a b) y)) \<and>
   good t (Some (ed', res_edit (EditDelete a b)))"
  by (auto simp: good_def ed_ok_def delete_range_def ascii_take_drop min_def)

lemma ed_ok_cursor: "ed_ok ed t \<Longrightarrow> p \<le> length t \<Longrightarrow> ed_ok (ed\<lparr>cursor := p\<rparr>) t"
  by (auto simp: ed_ok_def split: option.splits)

lemma ed_ok_mode: "ed_ok ed t \<Longrightarrow> m \<noteq> Visual \<Longrightarrow> ed_ok (ed\<lparr>mode := m\<rparr>) t"
  by (simp add: ed_ok_def)

lemma ed_okD: "ed_ok ed t \<Longrightarrow> is_ascii t" "ed_ok ed t \<Longrightarrow> cursor ed \<le> length t"
  by (simp_all add: ed_ok_def)

text \<open>The motions, through the contract of \<open>cursor_motion\<close>.\<close>

context cursor_motion
begin

lemma go_ok: "ed_ok ed t \<Longrightarrow> \<exists>p. go motion ed t = Some (ed\<lparr>cursor := p\<rparr>) \<and> p \<le> length t"
  using in_text [of t "cursor ed"] by (auto simp: go_def ed_ok_def)

end

lemma go_total_go: "go_total m = go (\<lambda>c t. Some (m c t))"
  by (simp add: go_total_def go_def fun_eq_iff)

lemmas motions_ok =
  m_left.go_ok [folded go_total_go] m_right.go_ok [folded go_total_go] m_line_start.go_ok
  m_first_non_blank.go_ok m_line_end.go_ok m_line_end_insert.go_ok
  m_word_forward.go_ok [folded go_total_go] m_word_backward.go_ok [folded go_total_go]
  m_word_end.go_ok [folded go_total_go] m_word_forward_word.go_ok [folded go_total_go]
  m_word_backward_word.go_ok m_word_end_word.go_ok [folded go_total_go]
  m_up.go_ok m_down.go_ok m_matching.go_ok

lemma moved_ok:
  assumes "\<exists>p. g = Some (ed\<lparr>cursor := p\<rparr>) \<and> p \<le> length t" "ed_ok ed t"
  shows "good t (map_option (\<lambda>e. (e, res_cursor_only)) g)"
    and "good t (g \<bind> (\<lambda>e. Some (e, res_cursor_only)))"
    and "good t (g \<bind> (\<lambda>e. Some (e, res_none)))"
  using assms by (auto simp: ed_ok_cursor)

definition dispatched :: "editor \<Rightarrow> bytes \<Rightarrow> (editor \<times> bool) option \<Rightarrow> bool" where
  "dispatched ed t x \<longleftrightarrow> x = Some (ed, False) \<or> (\<exists>p. x = Some (ed\<lparr>cursor := p\<rparr>, True) \<and> p \<le> length t)"

lemma dispatched_intros:
  "(b \<Longrightarrow> dispatched ed t x) \<Longrightarrow> (\<not> b \<Longrightarrow> dispatched ed t y) \<Longrightarrow> dispatched ed t (if b then x else y)"
  "\<exists>p. g = Some (ed\<lparr>cursor := p\<rparr>) \<and> p \<le> length t \<Longrightarrow> dispatched ed t (map_option (\<lambda>e. (e, True)) g)"
  "dispatched ed t (Some (ed, False))"
  by (auto simp: dispatched_def)

lemma dispatch_motion_ok:
  assumes "ed_ok ed t"
  shows "dispatched ed t (dispatch_motion ed k t)"
  unfolding dispatch_motion_def Let_def by (intro dispatched_intros motions_ok assms)

lemma clamp_to_last_char_ok: "ed_ok ed t \<Longrightarrow> ed_ok (clamp_to_last_char ed t) t"
  using back_to_boundary_le [of t "length t - 1"]
  by (auto simp: clamp_to_last_char_def intro!: ed_ok_cursor)

section \<open>Every edit leaves a state that fits\<close>

lemma delete_char_ok:
  assumes "ed_ok ed t" "mode ed \<noteq> Visual"
  shows "good t (delete_char ed t)"
proof (cases "cursor ed < length t")
  case True
  define c where "c = (if Suc (cursor ed) \<ge> length t \<and> cursor ed > 0 then move_left (cursor ed) t else cursor ed)"
  have t: "is_ascii t" using assms by (simp add: ed_okD)
  have "c \<le> length t - 1" using True t by (auto simp: c_def move_left_def)
  then have *: "good t (Some (ed', res_edit_and_yank (EditDelete (cursor ed) (Suc (cursor ed))) y))"
    if "is_ascii y" "ed' = ed\<lparr>cursor := c\<rparr>" for y ed'
    using good_delete [OF assms(1), of "cursor ed" "Suc (cursor ed)" y c ed'] True assms that
    by (simp add: ed_ok_def)
  show ?thesis using True t
    by (auto simp: delete_char_def slice_ascii Let_def c_def ascii_take_drop intro!: *)
qed (use assms in \<open>simp add: delete_char_def\<close>)

lemma delete_to_end_ok:
  assumes "ed_ok ed t" "mode ed \<noteq> Visual"
  shows "good t (delete_to_end ed t)"
proof -
  define en where "en = (case find_byte newline (drop (cursor ed) t) of Some i \<Rightarrow> cursor ed + i | None \<Rightarrow> length t)"
  have en: "en \<le> length t" using find_line_end_le [of "cursor ed" t] assms by (simp add: en_def ed_okD)
  have "good t (Some (ed, res_edit_and_yank (EditDelete (cursor ed) en) y))"
    if "is_ascii y" "cursor ed < en" for y
    using good_delete [OF assms(1), of "cursor ed" en y "cursor ed" ed] that en assms
    by (auto simp: ed_ok_def)
  then show ?thesis using en assms
    by (auto simp: delete_to_end_def ed_okD slice_ascii Let_def en_def [symmetric] ascii_take_drop)
qed

lemma delete_line_ok:
  assumes "ed_ok ed t" "mode ed \<noteq> Visual"
  shows "good t (delete_line ed t) \<and> good t (apply_operator_line ed OpChange t)"
proof -
  define ls where "ls = last_line_start (take (cursor ed) t)"
  define le where "le = (case find_byte newline (drop (cursor ed) t) of Some i \<Rightarrow> cursor ed + i + 1 | None \<Rightarrow> length t)"
  define a where "a = (if ls = 0 \<and> le = length t then 0 else if le = length t \<and> ls > 0 then ls - 1 else ls)"
  have ls: "ls \<le> cursor ed" using last_line_start_le [of "take (cursor ed) t"] by (simp add: ls_def)
  have lt: "ls \<le> length t" using ls ed_okD(2) [OF assms(1)] by linarith
  have "cursor ed \<le> le" "le \<le> length t" using assms
    by (auto simp: le_def ed_okD dest!: find_byte_bound split: option.split)
  then have ab: "a \<le> le" "le \<le> length t" "a \<le> length t - (le - a)"
    using ls by (auto simp: a_def)
  have y: "is_ascii (take (le - a) (drop a t))" using assms by (simp add: ed_okD ascii_take_drop)
  have eq: "delete_line ed t =
      Some (ed\<lparr>cursor := a\<rparr>, res_edit_and_yank (EditDelete a le) (take (le - a) (drop a t)))"
    using assms ab ls lt
    by (auto simp: delete_line_def ed_okD slice_ascii Let_def ls_def [symmetric] le_def [symmetric] a_def)
  show ?thesis
    using good_delete [OF assms(1) ab(1,2) y ab(3), of "ed\<lparr>cursor := a\<rparr>"]
      good_delete [OF assms(1) ab(1,2) y ab(3), of "ed\<lparr>cursor := a, mode := Insert\<rparr>"] assms
    by (simp add: eq apply_operator_line_def ed_ok_def)
qed

lemma yank_line_ok:
  assumes "ed_ok ed t" "mode ed \<noteq> Visual"
  shows "good t (apply_operator_line ed OpYank t)"
proof -
  define ls where "ls = last_line_start (take (cursor ed) t)"
  define le where "le = (case find_byte newline (drop (cursor ed) t) of Some i \<Rightarrow> cursor ed + i + 1 | None \<Rightarrow> length t)"
  have "ls \<le> cursor ed" using last_line_start_le [of "take (cursor ed) t"] by (simp add: ls_def)
  moreover have "cursor ed \<le> le" "le \<le> length t" using assms
    by (auto simp: le_def ed_okD dest!: find_byte_bound split: option.split)
  ultimately have "apply_operator_line ed OpYank t = Some (ed\<lparr>yank_buffer := take (le - ls) (drop ls t)\<rparr>,
      res_none\<lparr>yanked := Some (take (le - ls) (drop ls t))\<rparr>)"
    using assms by (simp add: apply_operator_line_def ed_okD slice_ascii Let_def ls_def [symmetric] le_def [symmetric])
  then show ?thesis using assms by (simp add: good_def ed_ok_def ascii_take_drop)
qed

lemma apply_operator_ok:
  assumes "ed_ok ed t" "mode ed \<noteq> Visual" "a \<le> b" "b \<le> length t"
  shows "good t (apply_operator ed op a b t)"
proof -
  define y where "y = take (b - a) (drop a t)"
  have y: "is_ascii y" "slice t a b = Some y"
    using assms by (auto simp: y_def ed_okD ascii_take_drop slice_ascii)
  show ?thesis
    using good_delete [OF assms(1,3,4) y(1), of a "ed\<lparr>yank_buffer := y, cursor := a\<rparr>"]
      good_delete [OF assms(1,3,4) y(1), of a "ed\<lparr>yank_buffer := y, cursor := a, mode := Insert\<rparr>"] assms y
    by (cases op) (auto simp: apply_operator_def good_def ed_ok_def)
qed

lemma apply_operator_panics: "ed_ok ed t \<Longrightarrow> length t < b \<Longrightarrow> apply_operator ed op a b t = None"
  by (simp add: apply_operator_def ed_okD slice_ascii)

lemma paste_ok:
  assumes "ed_ok ed t" "mode ed \<noteq> Visual"
  shows "good t (Some (paste_after ed t))" "good t (Some (paste_before ed t))"
proof -
  show "good t (Some (paste_after ed t))"
    unfolding paste_after_def Let_def using assms
    by (auto simp: ed_ok_def min_def intro!: good_insert [OF assms(1) _ _ _ _ refl])
  show "good t (Some (paste_before ed t))"
    unfolding paste_before_def Let_def using assms
    by (auto simp: ed_ok_def min_def intro!: good_insert [OF assms(1) _ _ _ _ refl])
qed

section \<open>Every handler leaves a state that fits\<close>

lemma ed_ok_normal: "ed_ok ed t \<Longrightarrow> mode ed \<noteq> Visual \<Longrightarrow> m \<noteq> Visual \<Longrightarrow>
    ed_ok (ed\<lparr>mode := m\<rparr>) t \<and> mode (ed\<lparr>mode := m\<rparr>) \<noteq> Visual"
  by (simp add: ed_ok_def)

lemma open_line_ok:
  assumes "ed_ok ed t" "p \<le> length t" "c \<le> length t + 1"
  shows "good t (Some (ed\<lparr>mode := Insert, cursor := c\<rparr>, res_edit (EditInsert p [newline])))"
    and "mode ed \<noteq> Visual \<Longrightarrow> good t (Some (ed\<lparr>cursor := c\<rparr>, res_edit (EditInsert p [newline])))"
  using assms by (auto intro!: good_insert [OF assms(1,2) _ _ _ refl] simp: is_ascii_def)

lemma handle_command_line_ok:
  assumes "ed_ok ed t" "mode ed = CommandLine" "ascii_key key"
  shows "good t (handle_command_line ed key)"
  using assms back_to_boundary_le [of "command_buf ed" "command_cursor ed - 1"]
  by (auto simp: handle_command_line_def exit_command_line_def ed_ok_def delete_range_def insert_str_def
      ascii_key_def ascii_take_drop Let_def min_def split: key_code.splits)

lemma handle_replace_char_ok:
  assumes "ed_ok ed t" "mode ed = ReplaceChar" "ascii_key key"
  shows "good t (Some (handle_replace_char ed key t))"
proof -
  have "good t (Some (ed\<lparr>mode := Normal\<rparr>,
      res_none\<lparr>edits := [EditInsert (cursor ed) c, EditDelete (cursor ed) (Suc (cursor ed))]\<rparr>))"
    if "is_ascii c" "cursor ed < length t" for c
    using assms that
    by (auto simp: good_def host_apply_def res_none_def delete_range_def insert_str_def ed_ok_def
        ascii_take_drop min_def)
  with assms show ?thesis
    by (auto simp: handle_replace_char_def Let_def ed_ok_mode ascii_key_def ed_okD split: key_code.splits)
qed

lemma handle_insert_ok:
  assumes "ed_ok ed t" "mode ed = Insert" "ascii_key key"
  shows "good t (handle_insert ed key t)"
proof (cases "code key")
  case (KChar c)
  then have "is_ascii c" using assms(3) by (simp add: ascii_key_def)
  then show ?thesis using KChar assms(1,2) good_insert [OF assms(1), of "cursor ed" c "cursor ed + length c" "ed\<lparr>cursor := cursor ed + length c\<rparr>"]
    by (auto simp: handle_insert_def ed_ok_def)
next
  case KBackspace
  have "back_to_boundary t (cursor ed - 1) \<le> cursor ed - 1" by (rule back_to_boundary_le)
  then show ?thesis
    using KBackspace assms(1,2) good_delete [OF assms(1), of "cursor ed - 1" "cursor ed" "[]"
        "cursor ed - 1" "ed\<lparr>cursor := cursor ed - 1\<rparr>"]
    by (auto simp: handle_insert_def Let_def ed_ok_def)
next
  case KEscape
  then show ?thesis using assms(1,2)
    by (auto simp: handle_insert_def ed_ok_def move_left_def intro: le_trans [OF back_to_boundary_le])
next
  case KEnter
  then show ?thesis using assms(1,2) open_line_ok [OF assms(1), of "cursor ed" "Suc (cursor ed)"]
    by (simp add: handle_insert_def ed_ok_def)
qed (use assms in \<open>auto simp: handle_insert_def intro!: delete_char_ok moved_ok [OF _ assms(1)] motions_ok\<close>)

lemma handle_normal_ok:
  assumes "ed_ok ed t" "mode ed = Normal"
  shows "good t (handle_normal ed key t)"
proof -
  have asc: "is_ascii t" and c: "cursor ed \<le> length t" using assms by (auto simp: ed_ok_def)
  have "\<exists>b. (if code key = KChar ''k'' then is_on_first_line (cursor ed) t else Some False) = Some b"
    "\<exists>b. (if code key = KChar ''j'' then is_on_last_line (cursor ed) t else Some False) = Some b"
    using asc c by (auto simp: is_on_first_line_def is_on_last_line_def slice_ascii)
  then obtain first last where fl:
    "(if code key = KChar ''k'' then is_on_first_line (cursor ed) t else Some False) = Some first"
    "(if code key = KChar ''j'' then is_on_last_line (cursor ed) t else Some False) = Some last"
    by blast
  have nv: "mode ed \<noteq> Visual" using assms by simp
  consider "dispatch_motion ed (code key) t = Some (ed, False)"
    | p where "dispatch_motion ed (code key) t = Some (ed\<lparr>cursor := p\<rparr>, True)" "p \<le> length t"
    using dispatch_motion_ok [OF assms(1)] by (auto simp: dispatched_def)
  then show ?thesis
  proof cases
    case 1
    have ins: "ed_ok (ed\<lparr>mode := Insert\<rparr>) t" "mode (ed\<lparr>mode := Insert\<rparr>) \<noteq> Visual"
      using ed_ok_normal [OF assms(1) nv] by simp_all
    obtain p1 p2 where go:
      "go move_line_end (ed\<lparr>mode := Insert\<rparr>) t = Some (ed\<lparr>mode := Insert, cursor := p1\<rparr>)" "p1 \<le> length t"
      "go move_line_start (ed\<lparr>mode := Insert\<rparr>) t = Some (ed\<lparr>mode := Insert, cursor := p2\<rparr>)" "p2 \<le> length t"
      using m_line_end.go_ok [OF ins(1)] m_line_start.go_ok [OF ins(1)] by auto
    have right: "move_right (cursor ed) t \<le> length t"
      using m_right.in_text [OF asc c] by simp
    show ?thesis
      unfolding handle_normal_def Let_def fl 1 bind.bind_lunit if_False split_conv
      using assms right
      by (intro good_if)
        (simp_all add: ed_ok_cursor ed_ok_mode moved_ok [OF _ ins(1)] motions_ok [OF ins(1)] go
          open_line_ok delete_char_ok delete_to_end_ok paste_ok ins c le_SucI,
         simp_all add: ed_ok_def)
  next
    case 2
    then show ?thesis
      unfolding handle_normal_def Let_def fl
      by (simp add: assms clamp_to_last_char_ok ed_ok_cursor)
  qed
qed

definition motion_outcome :: "editor \<Rightarrow> bytes \<Rightarrow> editor option option \<Rightarrow> bool" where
  "motion_outcome ed t x \<longleftrightarrow> x = Some None \<or> (\<exists>p. x = Some (Some (ed\<lparr>cursor := p\<rparr>)) \<and> p \<le> length t)"

lemma include_cursor_ok:
  "p \<le> length t \<Longrightarrow> \<exists>q. include_cursor (ed\<lparr>cursor := p\<rparr>) t = ed\<lparr>cursor := q\<rparr> \<and> q \<le> length t"
  by (rule exI [of _ "if p < length t then p + 1 else p"]) (simp add: include_cursor_def)

lemma motion_outcome_intros:
  "(b \<Longrightarrow> motion_outcome ed t x) \<Longrightarrow> (\<not> b \<Longrightarrow> motion_outcome ed t y) \<Longrightarrow> motion_outcome ed t (if b then x else y)"
  "\<exists>p. g = Some (ed\<lparr>cursor := p\<rparr>) \<and> p \<le> length t \<Longrightarrow> motion_outcome ed t (map_option Some g)"
  "\<exists>p. g = Some (ed\<lparr>cursor := p\<rparr>) \<and> p \<le> length t \<Longrightarrow>
   motion_outcome ed t (g \<bind> (\<lambda>e. Some (Some (include_cursor e t))))"
  "motion_outcome ed t (Some None)"
  using include_cursor_ok by (fastforce simp: motion_outcome_def)+

lemma operator_motion_ok: "ed_ok ed t \<Longrightarrow> motion_outcome ed t (operator_motion ed op k t)"
  unfolding operator_motion_def by (intro motion_outcome_intros motions_ok)

lemma handle_operator_pending_ok:
  assumes "ed_ok ed t" "mode ed = OperatorPending op"
  shows "good t (handle_operator_pending ed op key t)"
proof -
  have n: "ed_ok (ed\<lparr>mode := Normal\<rparr>) t" "mode (ed\<lparr>mode := Normal\<rparr>) \<noteq> Visual"
    using ed_ok_mode [OF assms(1)] by simp_all
  have line: "good t (apply_operator_line (ed\<lparr>mode := Normal\<rparr>) op t)"
    using delete_line_ok [OF n] yank_line_ok [OF n] by (cases op) (simp_all add: apply_operator_line_def)
  have oper: "good t (apply_operator (ed\<lparr>cursor := p, mode := Normal\<rparr>) op (min (cursor ed) p) (max (cursor ed) p) t)"
    if "p \<le> length t" for p
    using that assms by (intro apply_operator_ok) (auto simp: ed_ok_def)
  consider "operator_motion ed op (code key) t = Some None"
    | p where "operator_motion ed op (code key) t = Some (Some (ed\<lparr>cursor := p\<rparr>))" "p \<le> length t"
    using operator_motion_ok [OF assms(1)] by (auto simp: motion_outcome_def)
  then show ?thesis
  proof cases
    case 1
    then show ?thesis using n line by (simp add: handle_operator_pending_def)
  next
    case 2
    have "ed_ok (ed\<lparr>cursor := p, mode := Normal\<rparr>) t"
      using ed_ok_mode [OF ed_ok_cursor [OF assms(1) 2(2)]] by simp
    then show ?thesis using n line oper [OF 2(2)] 2
      by (auto simp: handle_operator_pending_def Let_def min_def max_def)
  qed
qed

text \<open>
  The one panic: an operator on a selection whose end, one past the cursor, lies outside the text.
\<close>

definition visual_overrun :: "editor \<Rightarrow> key \<Rightarrow> bytes \<Rightarrow> bool" where
  "visual_overrun ed key t \<longleftrightarrow> mode ed = Visual \<and>
     code key \<in> set [KChar ''d'', KChar ''x'', KChar ''c'', KChar ''y''] \<and> cursor ed = length t"

lemma selection_range_bounds:
  assumes "ed_ok ed t" "mode ed = Visual" "selection_range ed = (a, b)"
  shows "a \<le> b" "a \<le> length t" "b \<le> length t + 1" "length t < b \<longleftrightarrow> cursor ed = length t"
  using assms by (auto simp: selection_range_def ed_ok_def split: option.splits if_splits)

lemma visual_operator_ok:
  assumes "ed_ok ed t" "mode ed = Visual"
  shows "visual_operator ed op t = None \<longleftrightarrow> cursor ed = length t"
    and "cursor ed \<noteq> length t \<Longrightarrow> good t (visual_operator ed op t)"
proof -
  obtain a b where ab: "selection_range ed = (a, b)" by force
  note bnd = selection_range_bounds [OF assms ab]
  have n: "ed_ok (ed\<lparr>mode := Normal, visual_anchor := None\<rparr>) t" using assms by (simp add: ed_ok_def)
  have ok: "good t (visual_operator ed op t)" if "b \<le> length t"
    using apply_operator_ok [OF n _ bnd(1) that] by (simp add: visual_operator_def ab)
  then show "cursor ed \<noteq> length t \<Longrightarrow> good t (visual_operator ed op t)" using bnd by linarith
  show "visual_operator ed op t = None \<longleftrightarrow> cursor ed = length t"
    using ok bnd apply_operator_panics [OF n, of b op a]
    by (cases "b \<le> length t") (auto simp: visual_operator_def ab dest: good_returns)
qed

lemma handle_visual_ok:
  assumes "ed_ok ed t" "mode ed = Visual"
  shows "handle_visual ed key t = None \<longleftrightarrow> visual_overrun ed key t"
    and "\<not> visual_overrun ed key t \<Longrightarrow> good t (handle_visual ed key t)"
proof -
  have esc: "ed_ok (ed\<lparr>mode := Normal, visual_anchor := None\<rparr>) t" using assms by (simp add: ed_ok_def)
  show ok: "good t (handle_visual ed key t)" if "\<not> visual_overrun ed key t"
    unfolding handle_visual_def Let_def
    by (intro good_if moved_ok [OF _ assms(1)] motions_ok [OF assms(1)] visual_operator_ok(2) [OF assms])
      (use that assms esc in \<open>auto simp: visual_overrun_def\<close>)
  show "handle_visual ed key t = None \<longleftrightarrow> visual_overrun ed key t"
  proof (cases "visual_overrun ed key t")
    case True
    then show ?thesis using visual_operator_ok(1) [OF assms]
      by (auto simp: visual_overrun_def handle_visual_def Let_def)
  qed (use good_returns [OF ok] in simp)
qed

lemma clamp_cursor_id: "ed_ok ed t \<Longrightarrow> clamp_cursor ed t = ed"
  by (simp add: clamp_cursor_def ed_ok_def min_def)

lemma handle_key_ok:
  assumes "ed_ok ed t" "ascii_key key"
  shows "handle_key ed key t = None \<longleftrightarrow> visual_overrun ed key t"
    and "\<not> visual_overrun ed key t \<Longrightarrow> good t (handle_key ed key t)"
proof -
  define x where "x = (case mode ed of
         Normal \<Rightarrow> handle_normal ed key t
       | Insert \<Rightarrow> handle_insert ed key t
       | OperatorPending op \<Rightarrow> handle_operator_pending ed op key t
       | Visual \<Rightarrow> handle_visual ed key t
       | ReplaceChar \<Rightarrow> Some (handle_replace_char ed key t)
       | CommandLine \<Rightarrow> handle_command_line ed key)"
  have eq: "handle_key ed key t =
      x \<bind> (\<lambda>(ed', r). Some (case yanked r of Some y \<Rightarrow> ed'\<lparr>yank_buffer := y\<rparr> | None \<Rightarrow> ed', r))"
    by (simp add: handle_key_def clamp_cursor_id [OF assms(1)] x_def)
  have x: "x = None \<longleftrightarrow> visual_overrun ed key t" "\<not> visual_overrun ed key t \<Longrightarrow> good t x"
    using handle_visual_ok [OF assms(1)] handle_normal_ok [OF assms(1)] handle_insert_ok [OF assms(1) _ assms(2)]
      handle_operator_pending_ok [OF assms(1)] handle_replace_char_ok [OF assms(1) _ assms(2)]
      handle_command_line_ok [OF assms(1) _ assms(2)]
    by (cases "mode ed"; force simp: x_def visual_overrun_def dest: good_returns)+
  show "handle_key ed key t = None \<longleftrightarrow> visual_overrun ed key t"
    using x(1) by (cases x) (auto simp: eq)
  show "good t (handle_key ed key t)" if "\<not> visual_overrun ed key t"
    using x(2) [OF that] by (auto simp: eq good_def ed_ok_def split: option.splits)
qed

section \<open>The trait as a contract, and sessions\<close>

text \<open>A host feeding keys to an editor and applying the edits it returns.\<close>

fun host_run :: "('e \<Rightarrow> key \<Rightarrow> bytes \<Rightarrow> ('e \<times> edit_result) option) \<Rightarrow> 'e \<Rightarrow> bytes \<Rightarrow> key list \<Rightarrow>
    ('e \<times> bytes) option" where
  "host_run h e t [] = Some (e, t)"
| "host_run h e t (k # ks) = do { (e', r) \<leftarrow> h e k t; t' \<leftarrow> host_apply r t; host_run h e' t' ks }"

text \<open>
  The contract of the \<open>LineEditor\<close> trait: from a state that fits the text, a key either leads to a
  state that fits the edited text or is one of the keys that crash.
\<close>

locale line_editor =
  fixes handle :: "'e \<Rightarrow> key \<Rightarrow> bytes \<Rightarrow> ('e \<times> edit_result) option"
    and ok :: "'e \<Rightarrow> bytes \<Rightarrow> bool"
    and bad :: "'e \<Rightarrow> key \<Rightarrow> bytes \<Rightarrow> bool"
  assumes step_ok: "ok e t \<Longrightarrow> ascii_key k \<Longrightarrow> \<not> bad e k t \<Longrightarrow>
      \<exists>e' r t'. handle e k t = Some (e', r) \<and> host_apply r t = Some t' \<and> ok e' t'"
    and crash: "ok e t \<Longrightarrow> ascii_key k \<Longrightarrow> bad e k t \<Longrightarrow> handle e k t = None"
begin

lemma run_ok: "ok e t \<Longrightarrow> list_all ascii_key ks \<Longrightarrow> host_run handle e t ks = Some (e', t') \<Longrightarrow> ok e' t'"
proof (induction ks arbitrary: e t)
  case (Cons k ks)
  then have "\<not> bad e k t" using crash by fastforce
  with Cons.prems step_ok [of e t k] obtain e1 r t1
    where "handle e k t = Some (e1, r)" "host_apply r t = Some t1" "ok e1 t1" by auto
  with Cons show ?case by auto
qed simp

lemma run_fails_iff:
  "ok e t \<Longrightarrow> list_all ascii_key ks \<Longrightarrow>
   host_run handle e t ks = None \<longleftrightarrow>
   (\<exists>i < length ks. \<exists>e' t'. host_run handle e t (take i ks) = Some (e', t') \<and> bad e' (ks ! i) t')"
proof (induction ks arbitrary: e t)
  case (Cons k ks)
  show ?case
  proof (cases "bad e k t")
    case True
    with Cons.prems crash [of e t k] have "host_run handle e t (k # ks) = None" by simp
    moreover have "host_run handle e t (take 0 (k # ks)) = Some (e, t)" by simp
    ultimately show ?thesis using True by (metis length_greater_0_conv list.distinct(1) nth_Cons_0)
  next
    case False
    with Cons.prems step_ok [of e t k] obtain e1 r t1
      where h: "handle e k t = Some (e1, r)" "host_apply r t = Some t1" "ok e1 t1" by auto
    have sh: "(\<exists>i < length (k # ks). P i) \<longleftrightarrow> P 0 \<or> (\<exists>i < length ks. P (Suc i))" for P :: "nat \<Rightarrow> bool"
      by (metis Suc_less_eq length_Cons not0_implies_Suc zero_less_Suc)
    show ?thesis using Cons.IH [OF h(3)] Cons.prems h False by (subst sh) auto
  qed
qed simp

end

interpretation vim: line_editor handle_key ed_ok visual_overrun
proof unfold_locales
  fix e k t assume *: "ed_ok e t" "ascii_key k"
  show "\<exists>e' r t'. handle_key e k t = Some (e', r) \<and> host_apply r t = Some t' \<and> ed_ok e' t'"
    if "\<not> visual_overrun e k t"
    using handle_key_ok(2) [OF * that] by (auto simp: good_def split: option.splits)
  show "handle_key e k t = None" if "visual_overrun e k t"
    using handle_key_ok(1) [OF *] that by simp
qed

text \<open>
  The states a host can reach: it feeds keys and applies the edits, resets the editor with a new input,
  moves the cursor, or replaces the text outside a selection, as the REPL does when it recalls history.
\<close>

inductive session :: "editor \<Rightarrow> bytes \<Rightarrow> bool" where
  start: "is_ascii t \<Longrightarrow> session (with_command_mode editor_new b) t"
| key: "session ed t \<Longrightarrow> ascii_key k \<Longrightarrow> handle_key ed k t = Some (ed', r) \<Longrightarrow>
    host_apply r t = Some t' \<Longrightarrow> session ed' t'"
| reset: "session ed t \<Longrightarrow> is_ascii t' \<Longrightarrow> session (editor_reset ed) t'"
| move: "session ed t \<Longrightarrow> session (set_cursor ed p t) t"
| replace: "session ed t \<Longrightarrow> mode ed \<noteq> Visual \<Longrightarrow> is_ascii t' \<Longrightarrow> session (set_cursor ed p t') t'"
| complete: "session ed t \<Longrightarrow> is_ascii buf \<Longrightarrow> session (set_command_line ed buf p) t"

inductive_cases sessionE: "session ed t"

lemma snap_le: "snap p t \<le> length t"
  using back_to_boundary_le [of t "min p (length t)"] by (simp add: snap_def Let_def)

lemma session_ed_ok: "session ed t \<Longrightarrow> ed_ok ed t"
proof (induction rule: session.induct)
  case (key ed t k ed' r t')
  then have "\<not> visual_overrun ed k t" using vim.crash by fastforce
  with vim.step_ok [OF key.IH key.hyps(2)] key.hyps(3,4) show ?case by auto
qed (auto simp: ed_ok_def with_command_mode_def editor_new_def editor_reset_def set_cursor_def
    set_command_line_def snap_le split: option.splits)

section \<open>Properties\<close>

text \<open>C9: In every session between the editor and a host that applies its edits to ASCII text, the cursor stays
  inside the text, in visual mode there is an anchor and it is inside the text, the cursor of the command line stays
  inside the command line, and the only keys that make \<open>handle_key\<close> panic are the operators \<open>d\<close>, \<open>x\<close>, \<open>c\<close> and \<open>y\<close> on
  a visual selection while the cursor is past the last character; for every other key the edits apply and
  the session goes on.\<close>

theorem session_safe:
  assumes "session ed t" "ascii_key k"
  shows "cursor ed \<le> length t \<and> (mode ed = Visual \<longrightarrow> (\<exists>a. visual_anchor ed = Some a \<and> a \<le> length t)) \<and>
    command_cursor ed \<le> length (command_buf ed) \<and> (handle_key ed k t = None \<longleftrightarrow> visual_overrun ed k t) \<and>
    (\<not> visual_overrun ed k t \<longrightarrow>
      (\<exists>ed' r t'. handle_key ed k t = Some (ed', r) \<and> host_apply r t = Some t' \<and> session ed' t'))"
proof -
  note ok = session_ed_ok [OF assms(1)]
  have "\<exists>ed' r t'. handle_key ed k t = Some (ed', r) \<and> host_apply r t = Some t' \<and> session ed' t'"
    if "\<not> visual_overrun ed k t"
    using vim.step_ok [OF ok assms(2) that] session.key [OF assms] by blast
  moreover have "cursor ed \<le> length t" "mode ed = Visual \<longrightarrow> (\<exists>a. visual_anchor ed = Some a \<and> a \<le> length t)"
    "command_cursor ed \<le> length (command_buf ed)"
    using ok by (auto simp: ed_ok_def split: option.splits)
  ultimately show ?thesis using handle_key_ok(1) [OF ok assms(2)] by blast
qed

theorem session_safe_witness:
  "session (with_command_mode editor_new False) ''ab'' \<and> ascii_key (key_char ''x'') \<and>
   (\<exists>ed' r. handle_key (with_command_mode editor_new False) (key_char ''x'') ''ab'' = Some (ed', r))"
proof -
  have s: "session (with_command_mode editor_new False) ''ab''" by (rule session.start) (simp add: is_ascii_def)
  have k: "ascii_key (key_char ''x'')" by (simp add: ascii_key_def key_char_def is_ascii_def)
  have "\<not> visual_overrun (with_command_mode editor_new False) (key_char ''x'') ''ab''"
    by (simp add: visual_overrun_def with_command_mode_def editor_new_def)
  with session_safe [OF s k] s k show ?thesis by blast
qed

text \<open>C22: A sequence of keys crashes the editor exactly when, at some point of the run, the next key is a visual
  operator with the cursor past the last character.\<close>

theorem key_sequence_crashes_iff:
  assumes "ed_ok ed t" "list_all ascii_key ks"
  shows "host_run handle_key ed t ks = None \<longleftrightarrow>
    (\<exists>i < length ks. \<exists>ed' t'. host_run handle_key ed t (take i ks) = Some (ed', t') \<and> visual_overrun ed' (ks ! i) t')"
  by (rule vim.run_fails_iff [OF assms])

theorem key_sequence_crashes_iff_witness:
  "host_run handle_key editor_new ''ab'' [key_char ''v'', key_char ''w'', key_char ''d''] = None"
proof -
  let ?ks = "[key_char ''v'', key_char ''w'', key_char ''d'']"
  have ok: "ed_ok editor_new ''ab''" by (simp add: ed_ok_def editor_new_def is_ascii_def)
  have ks: "list_all ascii_key ?ks" by (simp add: ascii_key_def key_char_def is_ascii_def)
  have "case host_run handle_key editor_new ''ab'' (take 2 ?ks) of None \<Rightarrow> False
      | Some (ed', t') \<Rightarrow> visual_overrun ed' (?ks ! 2) t'"
    by code_simp
  then have "\<exists>i < length ?ks. \<exists>ed' t'. host_run handle_key editor_new ''ab'' (take i ?ks) = Some (ed', t') \<and>
      visual_overrun ed' (?ks ! i) t'" by (intro exI [of _ 2]) (auto split: option.splits)
  with key_sequence_crashes_iff [OF ok ks] show ?thesis by simp
qed

end
