(* ===== verification/Vim_Unicode.thy ===== *)
theory Vim_Unicode
  imports Vim_Editor
begin

text \<open>
  The line editor on text outside ASCII: which motions keep the cursor on a character boundary, and
  that typing in Insert mode and on the command line never leaves one.  The motions \<open>e\<close>, \<open>E\<close>, \<open>j\<close> and
  \<open>k\<close>, which count bytes, are the exceptions.
\<close>

section \<open>UTF-8 text\<close>

text \<open>
  What the motions need of UTF-8: a continuation byte is never first and never follows an ASCII byte.
\<close>

fun utf8_from :: "bool \<Rightarrow> bytes \<Rightarrow> bool" where
  "utf8_from hi [] = True"
| "utf8_from hi (b # bs) = ((is_cont b \<longrightarrow> hi) \<and> utf8_from (128 \<le> (of_char b :: nat)) bs)"

definition utf8_ok :: "bytes \<Rightarrow> bool" where
  "utf8_ok t \<longleftrightarrow> utf8_from False t"

lemma utf8_from_iff:
  "utf8_from hi t \<longleftrightarrow> (\<forall>i < length t. is_cont (t ! i) \<longrightarrow> (if i = 0 then hi else 128 \<le> (of_char (t ! (i - 1)) :: nat)))"
proof (induction t arbitrary: hi)
  case (Cons b t)
  show ?case by (simp add: Cons All_less_Suc2 nth_Cons')
qed simp

lemma utf8_ok_iff: "utf8_ok t \<longleftrightarrow> (\<forall>i < length t. is_cont (t ! i) \<longrightarrow> i > 0 \<and> 128 \<le> (of_char (t ! (i - 1)) :: nat))"
  unfolding utf8_ok_def utf8_from_iff by (intro all_cong1) auto

lemma utf8_from_mono: "utf8_from False t \<Longrightarrow> utf8_from hi t"
  by (cases t) auto

lemma utf8_Nil [simp]: "utf8_ok []"
  by (simp add: utf8_ok_def)

lemma utf8_append: "utf8_ok s \<Longrightarrow> utf8_ok t \<Longrightarrow> utf8_ok (s @ t)"
proof -
  have "utf8_from hi s \<Longrightarrow> utf8_from False t \<Longrightarrow> utf8_from hi (s @ t)" for hi
    by (induction s arbitrary: hi) (auto intro: utf8_from_mono)
  then show "utf8_ok s \<Longrightarrow> utf8_ok t \<Longrightarrow> utf8_ok (s @ t)" by (simp add: utf8_ok_def)
qed

lemma utf8_take: "utf8_ok t \<Longrightarrow> utf8_ok (take n t)"
proof -
  have "utf8_from hi t \<Longrightarrow> utf8_from hi (take n t)" for hi
    by (induction t arbitrary: hi n) (auto simp: take_Cons' )
  then show "utf8_ok t \<Longrightarrow> utf8_ok (take n t)" by (simp add: utf8_ok_def)
qed

lemma utf8_hd: "utf8_ok t \<Longrightarrow> t \<noteq> [] \<Longrightarrow> \<not> is_cont (t ! 0)"
  by (cases t) (auto simp: utf8_ok_def)

lemma boundaryI: "i \<le> length t \<Longrightarrow> (i < length t \<Longrightarrow> \<not> is_cont (t ! i)) \<Longrightarrow> is_char_boundary t i"
  by (auto simp: is_char_boundary_def)

lemma boundary_after_ascii:
  "utf8_ok t \<Longrightarrow> 0 < i \<Longrightarrow> i \<le> length t \<Longrightarrow> (of_char (t ! (i - 1)) :: nat) < 128 \<Longrightarrow> is_char_boundary t i"
  by (rule boundaryI) (auto simp: utf8_ok_iff)

lemma boundary_at_ascii: "i < length t \<Longrightarrow> (of_char (t ! i) :: nat) < 128 \<Longrightarrow> is_char_boundary t i"
  by (rule boundaryI) (auto simp: is_cont_def)

lemma boundary_ends [simp]: "is_char_boundary t 0" "is_char_boundary t (length t)"
  by (simp_all add: is_char_boundary_def)

lemma boundary_le: "is_char_boundary t i \<Longrightarrow> i \<le> length t"
  by (auto simp: is_char_boundary_def)

lemma back_to_boundary_is: "is_char_boundary t (back_to_boundary t p)"
proof (induction t p rule: back_to_boundary.induct)
  case (1 t p)
  then show ?case by (subst back_to_boundary.simps) auto
qed

lemma fwd_to_boundary_is: "p \<le> length t \<Longrightarrow> is_char_boundary t (fwd_to_boundary t p)"
proof (induction t p rule: fwd_to_boundary.induct)
  case (1 t p)
  then show ?case by (subst fwd_to_boundary.simps) auto
qed

lemma snap_boundary: "is_char_boundary t (snap p t)"
  by (simp add: snap_def Let_def back_to_boundary_is)

lemma boundary_not_cont: "utf8_ok t \<Longrightarrow> is_char_boundary t i \<Longrightarrow> i < length t \<Longrightarrow> \<not> is_cont (t ! i)"
  by (auto simp: is_char_boundary_def utf8_ok_iff)

lemma boundary_drop:
  "utf8_ok t \<Longrightarrow> is_char_boundary t c \<Longrightarrow> is_char_boundary (drop c t) i \<Longrightarrow> is_char_boundary t (c + i)"
  using boundary_not_cont [of t c] boundary_le [of t c]
  by (auto simp: is_char_boundary_def [of "drop c t"] intro!: boundaryI)

lemma boundary_take: "is_char_boundary t i \<Longrightarrow> i \<le> c \<Longrightarrow> is_char_boundary (take c t) i"
  by (auto simp: is_char_boundary_def)

lemma boundary_of_take: "is_char_boundary (take c t) i \<Longrightarrow> is_char_boundary t c \<Longrightarrow> is_char_boundary t i"
  by (auto simp: is_char_boundary_def min_def split: if_splits)

lemma slice_boundary:
  "a \<le> b \<Longrightarrow> is_char_boundary t a \<Longrightarrow> is_char_boundary t b \<Longrightarrow> slice t a b = Some (take (b - a) (drop a t))"
  by (simp add: slice_def)

lemma ws_ascii: "is_ascii_whitespace b \<Longrightarrow> (of_char b :: nat) < 128"
  by (auto simp: is_ascii_whitespace_def)

lemma class_of_ascii: "class_of b \<noteq> Punctuation \<Longrightarrow> (of_char b :: nat) < 128"
proof -
  have "is_ascii_alphanumeric b \<Longrightarrow> (of_char b :: nat) < 128"
    by (simp add: is_ascii_alphanumeric_def Let_def) linarith
  then show "class_of b \<noteq> Punctuation \<Longrightarrow> (of_char b :: nat) < 128"
    using ws_ascii [of b] by (auto simp: class_of_def split: if_splits)
qed

section \<open>Where the loops stop\<close>

lemma skip_fwd_stop:
  "skip_fwd P t p < length t \<Longrightarrow> \<not> P (t ! skip_fwd P t p)"
  "p < skip_fwd P t p \<Longrightarrow> P (t ! (skip_fwd P t p - 1))"
proof (induction P t p rule: skip_fwd.induct)
  case (1 P t p)
  { case 1 then show ?case using "1.IH" by (subst skip_fwd.simps, subst (asm) skip_fwd.simps) (auto split: if_splits) }
  { case 2
    show ?case
    proof (cases "p < length t \<and> P (t ! p)")
      case True
      then have "skip_fwd P t p = skip_fwd P t (p + 1)" by (subst skip_fwd.simps) simp
      moreover have "p + 1 \<le> skip_fwd P t (p + 1)" using True skip_fwd_bound [of "p + 1" t P] by simp
      ultimately show ?thesis using True "1.IH"(2) by (cases "skip_fwd P t (p + 1) = p + 1") auto
    next
      case False
      then have "skip_fwd P t p = p" by (subst skip_fwd.simps) auto
      with 2 show ?thesis by simp
    qed }
qed

lemma skip_back_prev_stop:
  "0 < skip_back_prev P t p \<Longrightarrow> \<not> P (t ! (skip_back_prev P t p - 1))"
  "skip_back_prev P t p < p \<Longrightarrow> P (t ! skip_back_prev P t p)"
proof (induction P t p rule: skip_back_prev.induct)
  case (1 P t p)
  { case 1 then show ?case using "1.IH" by (subst skip_back_prev.simps, subst (asm) skip_back_prev.simps) (auto split: if_splits) }
  { case 2
    show ?case
    proof (cases "p > 0 \<and> P (t ! (p - 1))")
      case True
      then have "skip_back_prev P t p = skip_back_prev P t (p - 1)" by (subst skip_back_prev.simps) simp
      moreover have "skip_back_prev P t (p - 1) \<le> p - 1" by (rule skip_back_prev_le)
      ultimately show ?thesis using True "1.IH"(2) by (cases "skip_back_prev P t (p - 1) = p - 1") auto
    next
      case False
      then have "skip_back_prev P t p = p" by (subst skip_back_prev.simps) auto
      with 2 show ?thesis by simp
    qed }
qed

lemma char_indices_from_boundary:
  "(j, c) \<in> set (char_indices_from i s) \<Longrightarrow> is_char_boundary s (j - i)"
proof (induction i s rule: char_indices_from.induct)
  case (2 i b bs)
  let ?n = "length (takeWhile is_cont bs)"
  show ?case
  proof (cases "(j, c) \<in> set (char_indices_from (i + 1 + ?n) (dropWhile is_cont bs))")
    case True
    then have j: "i + 1 + ?n \<le> j" "j < i + 1 + ?n + length (dropWhile is_cont bs)"
      using char_indices_from_bound by blast+
    have d: "dropWhile is_cont bs = drop ?n bs" by (rule dropWhile_eq_drop)
    have l: "length (drop ?n bs) = length bs - ?n" "?n \<le> length bs" by (simp_all add: length_takeWhile_le)
    have "\<not> is_cont (drop ?n bs ! (j - (i + 1 + ?n)))"
    proof (cases "j = i + 1 + ?n")
      case True
      then show ?thesis using j hd_dropWhile [of is_cont bs] by (simp add: d hd_conv_nth)
    next
      case False
      then show ?thesis using "2.IH" True j by (auto simp: d is_char_boundary_def)
    qed
    then have "\<not> is_cont ((b # bs) ! (j - i))" using j l by (simp add: nth_Cons' d)
    then show ?thesis using j l by (intro boundaryI) (simp_all add: d)
  qed (use 2 in simp)
qed simp

section \<open>The motions that keep to boundaries\<close>

locale boundary_motion =
  fixes motion :: "nat \<Rightarrow> bytes \<Rightarrow> nat option"
  assumes on_boundary: "utf8_ok t \<Longrightarrow> is_char_boundary t c \<Longrightarrow> \<exists>p. motion c t = Some p \<and> is_char_boundary t p"
begin

lemma range_slices:
  assumes "utf8_ok t" "is_char_boundary t c" "motion c t = Some p"
  shows "slice t (min c p) (max c p) = Some (take (max c p - min c p) (drop (min c p) t))"
proof -
  have "is_char_boundary t p" using on_boundary [OF assms(1,2)] assms(3) by auto
  then show ?thesis using assms by (auto simp: slice_def min_def max_def)
qed

end

lemma move_left_boundary: "is_char_boundary t c \<Longrightarrow> is_char_boundary t (move_left c t)"
  by (simp add: move_left_def back_to_boundary_is)

lemma move_right_boundary: "is_char_boundary t c \<Longrightarrow> is_char_boundary t (move_right c t)"
  by (simp add: move_right_def fwd_to_boundary_is)

lemma last_line_start_boundary:
  assumes "utf8_ok t" "c \<le> length t" shows "is_char_boundary t (last_line_start (take c t))"
proof (cases "rfind_byte newline (take c t)")
  case (Some i)
  then have i: "i < c" "t ! i = newline" using rfind_byte_bound [OF Some] by auto
  then show ?thesis using Some assms boundary_after_ascii [of t "i + 1"] by (simp add: last_line_start_def)
qed (simp add: last_line_start_def)

interpretation b_line_start: boundary_motion move_line_start
  by unfold_locales (simp add: move_line_start_def slice_boundary last_line_start_boundary boundary_le)

lemma find_newline_boundary:
  assumes "c \<le> length t"
  shows "is_char_boundary t (case find_byte newline (drop c t) of Some i \<Rightarrow> c + i | None \<Rightarrow> length t)"
proof (cases "find_byte newline (drop c t)")
  case (Some i)
  then have "c + i < length t" "t ! (c + i) = newline" using find_byte_bound [OF Some] assms
    by (auto simp: less_diff_conv add.commute)
  then show ?thesis using Some by (simp add: boundary_at_ascii)
qed simp

lemma line_end_boundary:
  "is_char_boundary t c \<Longrightarrow> \<exists>p. line_end c t past_end = Some p \<and> is_char_boundary t p"
  by (simp add: line_end_def slice_boundary boundary_le Let_def back_to_boundary_is find_newline_boundary)

interpretation b_line_end: boundary_motion move_line_end
  by unfold_locales (simp add: move_line_end_def line_end_boundary)

interpretation b_line_end_insert: boundary_motion move_line_end_insert
  by unfold_locales (simp add: move_line_end_insert_def line_end_boundary)

lemma first_non_blank_mem: "first_non_blank cs = Some i \<Longrightarrow> \<exists>c. (i, c) \<in> set cs"
  by (induction cs rule: first_non_blank.induct) (auto split: if_splits)

interpretation b_first_non_blank: boundary_motion move_first_non_blank
proof unfold_locales
  fix t c assume *: "utf8_ok t" "is_char_boundary t c"
  then obtain p where p: "move_line_start c t = Some p" "is_char_boundary t p"
    using b_line_start.on_boundary by blast
  have "is_char_boundary t (p + i)" if "first_non_blank (char_indices (drop p t)) = Some i" for i
    using first_non_blank_mem [OF that] char_indices_from_boundary [of i _ 0 "drop p t"] boundary_drop [OF *(1) p(2)]
    by auto
  with p show "\<exists>p. move_first_non_blank c t = Some p \<and> is_char_boundary t p"
    by (auto simp: move_first_non_blank_def slice_boundary boundary_le split: option.split)
qed

lemma move_word_forward_boundary:
  assumes "utf8_ok t" "is_char_boundary t c" shows "is_char_boundary t (move_word_forward c t)"
proof (cases "c < length t")
  case True
  define cl where "cl = class_of (t ! c)"
  define p where "p = (if cl \<noteq> Whitespace then skip_fwd (\<lambda>b. class_of b = cl) t c else c)"
  define q where "q = skip_fwd (\<lambda>b. class_of b = Whitespace) t p"
  have p: "c \<le> p" "p \<le> length t" using skip_fwd_bound [of c t] True by (simp_all add: p_def)
  have q: "p \<le> q" "q \<le> length t" using skip_fwd_bound [OF p(2)] by (simp_all add: q_def)
  have eq: "move_word_forward c t = q" using True by (simp add: move_word_forward_def Let_def p_def q_def cl_def)
  show ?thesis
  proof (cases "q = p")
    case False
    then have "class_of (t ! (q - 1)) = Whitespace"
      using skip_fwd_stop(2) [of p "\<lambda>b. class_of b = Whitespace" t] q by (simp add: q_def)
    then show ?thesis unfolding eq using False q assms(1)
      by (intro boundary_after_ascii class_of_ascii) auto
  next
    case qp: True
    show ?thesis
    proof (cases "p = c")
      case False
      then have ws: "cl \<noteq> Whitespace" "p = skip_fwd (\<lambda>b. class_of b = cl) t c" by (auto simp: p_def split: if_splits)
      have last: "class_of (t ! (p - 1)) = cl"
        using skip_fwd_stop(2) [of c "\<lambda>b. class_of b = cl" t] p False by (simp add: ws(2))
      have stop: "p < length t \<Longrightarrow> class_of (t ! p) \<noteq> cl"
        using skip_fwd_stop(1) [of "\<lambda>b. class_of b = cl" t c] by (simp add: ws(2))
      show ?thesis unfolding eq qp
      proof (cases "cl = Punctuation")
        case True
        then show "is_char_boundary t p" using stop p
          by (cases "p = length t") (auto intro!: boundary_at_ascii class_of_ascii)
      next
        case cl: False
        then show "is_char_boundary t p" using last p False assms(1)
          by (intro boundary_after_ascii class_of_ascii) auto
      qed
    qed (use assms eq qp in simp)
  qed
qed (use assms in \<open>simp add: move_word_forward_def\<close>)

lemma move_word_backward_boundary:
  assumes "utf8_ok t" shows "is_char_boundary t (move_word_backward c t)"
proof (cases "t = [] \<or> min c (length t - 1) = 0")
  case False
  define p where "p = skip_back (\<lambda>b. class_of b = Whitespace) t (min c (length t - 1) - 1)"
  define cl where "cl = class_of (t ! p)"
  define q where "q = skip_back_prev (\<lambda>b. class_of b = cl) t p"
  have p: "p < length t" using skip_back_le [of "\<lambda>b. class_of b = Whitespace" t "min c (length t - 1) - 1"] False
    by (auto simp: p_def)
  have q: "q \<le> p" unfolding q_def by (rule skip_back_prev_le)
  have prev: "0 < q \<Longrightarrow> class_of (t ! (q - 1)) \<noteq> cl"
    using skip_back_prev_stop(1) [of "\<lambda>b. class_of b = cl" t p] by (simp add: q_def)
  have cur: "class_of (t ! q) = cl"
    using skip_back_prev_stop(2) [of "\<lambda>b. class_of b = cl" t p] q by (cases "q = p") (auto simp: q_def cl_def)
  have "is_char_boundary t q"
  proof (cases "cl = Punctuation")
    case True
    then show ?thesis using prev p q assms
      by (cases "q = 0") (auto intro!: boundary_after_ascii class_of_ascii)
  next
    case False
    then show ?thesis using cur p q by (intro boundary_at_ascii class_of_ascii) auto
  qed
  then show ?thesis using False by (auto simp: move_word_backward_def Let_def p_def q_def cl_def)
qed (auto simp: move_word_backward_def Let_def)

lemma move_word_forward_word_boundary:
  assumes "utf8_ok t" "is_char_boundary t c" shows "is_char_boundary t (move_word_forward_word c t)"
proof -
  define p where "p = skip_fwd (\<lambda>b. \<not> is_ascii_whitespace b) t c"
  define q where "q = skip_fwd is_ascii_whitespace t p"
  have p: "p \<le> length t" using skip_fwd_bound [of c t] assms boundary_le by (simp add: p_def)
  have q: "p \<le> q" "q \<le> length t" using skip_fwd_bound [OF p] by (simp_all add: q_def)
  have "is_char_boundary t q"
  proof (cases "q = p")
    case False
    then show ?thesis using skip_fwd_stop(2) [of p is_ascii_whitespace t] q assms(1)
      by (intro boundary_after_ascii ws_ascii) (auto simp: q_def)
  next
    case True
    then show ?thesis using skip_fwd_stop(1) [of "\<lambda>b. \<not> is_ascii_whitespace b" t c] p
      by (cases "p = length t") (auto simp: p_def intro!: boundary_at_ascii ws_ascii)
  qed
  then show ?thesis by (simp add: move_word_forward_word_def p_def q_def)
qed

interpretation b_word_backward_word: boundary_motion move_word_backward_word
proof unfold_locales
  fix t c assume *: "utf8_ok t" "is_char_boundary t c"
  define p where "p = skip_back_prev is_ascii_whitespace t c"
  define q where "q = skip_back_prev (\<lambda>b. \<not> is_ascii_whitespace b) t p"
  have q: "q \<le> p" "p \<le> c" unfolding p_def q_def by (rule skip_back_prev_le)+
  have "is_char_boundary t q"
  proof (cases "q = 0")
    case False
    then show ?thesis using skip_back_prev_stop(1) [of "\<lambda>b. \<not> is_ascii_whitespace b" t p] * q boundary_le [OF *(2)]
      by (intro boundary_after_ascii ws_ascii) (auto simp: q_def)
  qed simp
  then show "\<exists>p. move_word_backward_word c t = Some p \<and> is_char_boundary t p"
    using boundary_le [OF *(2)] by (simp add: move_word_backward_word_def p_def q_def)
qed

interpretation b_left: boundary_motion "\<lambda>c t. Some (move_left c t)"
  by unfold_locales (simp add: move_left_boundary)

interpretation b_right: boundary_motion "\<lambda>c t. Some (move_right c t)"
  by unfold_locales (simp add: move_right_boundary)

interpretation b_word_forward: boundary_motion "\<lambda>c t. Some (move_word_forward c t)"
  by unfold_locales (simp add: move_word_forward_boundary)

interpretation b_word_backward: boundary_motion "\<lambda>c t. Some (move_word_backward c t)"
  by unfold_locales (simp add: move_word_backward_boundary)

interpretation b_word_forward_word: boundary_motion "\<lambda>c t. Some (move_word_forward_word c t)"
  by unfold_locales (simp add: move_word_forward_word_boundary)

lemma scan_brackets_boundary:
  "scan_brackets (char_indices s) op cl d = Some i \<Longrightarrow> is_char_boundary s i"
  "scan_brackets (rev (char_indices s)) op cl d = Some i \<Longrightarrow> is_char_boundary s i"
  using char_indices_from_boundary [of i _ 0 s] by (auto dest!: scan_brackets_mem)

lemma match_pairs_boundary:
  assumes t: "utf8_ok t" "is_char_boundary t c" "c < length t" and x: "x = t ! c # takeWhile is_cont (drop (Suc c) t)"
    and ps: "\<forall>(a, b) \<in> set ps. \<exists>y. a = [y] \<and> (of_char y :: nat) < 128"
  shows "\<exists>p. match_pairs ps x c t = Some p \<and> is_char_boundary t p"
  using ps
proof (induction ps)
  case (Cons ab ps)
  obtain y b where ab: "ab = ([y], b)" "(of_char y :: nat) < 128" using Cons.prems by force
  have fwd: "\<exists>r. find_matching_forward c t [y] b = Some r \<and> pred_option (is_char_boundary t) r" if "x = [y]"
  proof -
    have "is_char_boundary t (c + 1)" using that ab t x by (intro boundary_after_ascii) auto
    then show ?thesis using boundary_drop [OF t(1), of "Suc c"] scan_brackets_boundary(1)
      by (cases "scan_brackets (char_indices (drop (Suc c) t)) [y] b 1")
        (auto simp: find_matching_forward_def slice_boundary boundary_le Let_def)
  qed
  have bwd: "\<exists>r. find_matching_backward c t [y] b = Some r \<and> pred_option (is_char_boundary t) r"
  proof -
    have "pred_option (is_char_boundary t) (scan_brackets (rev (char_indices (take c t))) b [y] 1)"
      using boundary_of_take [OF scan_brackets_boundary(2) t(2)]
      by (cases "scan_brackets (rev (char_indices (take c t))) b [y] 1") simp_all
    then show ?thesis using t(2) by (simp add: find_matching_backward_def slice_boundary)
  qed
  show ?case using Cons fwd bwd t by (auto simp: ab split: option.split)
qed (use t in simp)

interpretation b_matching: boundary_motion move_to_matching_bracket
proof unfold_locales
  fix t c assume *: "utf8_ok t" "is_char_boundary t c"
  show "\<exists>p. move_to_matching_bracket c t = Some p \<and> is_char_boundary t p"
  proof (cases "c < length t")
    case True
    then have d: "drop c t = t ! c # drop (Suc c) t" by (simp add: Cons_nth_drop_Suc)
    show ?thesis
      using match_pairs_boundary [OF * True refl,
          of "[(''('', '')''), (''['', '']''), (''{'', ''}''), (''<'', ''>'')]"] True *
      by (simp add: move_to_matching_bracket_def slice_boundary d del: match_pairs.simps)
  qed (use * in \<open>simp add: move_to_matching_bracket_def\<close>)
qed

section \<open>Edits on UTF-8 text\<close>

lemma utf8_drop: "utf8_ok t \<Longrightarrow> is_char_boundary t n \<Longrightarrow> utf8_ok (drop n t)"
proof -
  have "utf8_from hi t \<Longrightarrow> utf8_from True (drop n t)" for hi
  proof (induction t arbitrary: hi n)
    case (Cons b t)
    then show ?case by (cases n) (auto intro: Cons.IH)
  qed simp
  moreover have "utf8_from True s \<Longrightarrow> (s \<noteq> [] \<Longrightarrow> \<not> is_cont (s ! 0)) \<Longrightarrow> utf8_ok s" for s
    by (cases s) (auto simp: utf8_ok_def)
  moreover have "utf8_ok t \<Longrightarrow> is_char_boundary t n \<Longrightarrow> drop n t \<noteq> [] \<Longrightarrow> \<not> is_cont (drop n t ! 0)"
    using boundary_not_cont [of t n] by simp
  ultimately show "utf8_ok t \<Longrightarrow> is_char_boundary t n \<Longrightarrow> utf8_ok (drop n t)"
    unfolding utf8_ok_def by blast
qed

lemma boundary_append: "utf8_ok t \<Longrightarrow> is_char_boundary (s @ t) (length s)"
  using utf8_hd [of t] by (intro boundaryI) (auto simp: nth_append)

lemma boundary_prefix: "is_char_boundary s i \<Longrightarrow> utf8_ok t \<Longrightarrow> is_char_boundary (s @ t) i"
  using utf8_hd [of t] by (auto simp: is_char_boundary_def nth_append)

text \<open>An editing cursor on a boundary of well-formed text.\<close>

definition on_text :: "nat \<Rightarrow> bytes \<Rightarrow> bool" where
  "on_text c t \<longleftrightarrow> utf8_ok t \<and> is_char_boundary t c"

definition utf8_key :: "key \<Rightarrow> bool" where
  "utf8_key key \<longleftrightarrow> (case code key of KChar c \<Rightarrow> utf8_ok c | _ \<Rightarrow> True)"

lemma insert_on_text:
  assumes "on_text c t" "utf8_ok s"
  shows "\<exists>t'. insert_str t c s = Some t' \<and> on_text (c + length s) t'"
proof -
  have c: "c \<le> length t" "utf8_ok (take c t)" "utf8_ok (drop c t)"
    using assms by (auto simp: on_text_def boundary_le utf8_take utf8_drop)
  then have "on_text (length (take c t @ s)) ((take c t @ s) @ drop c t)"
    unfolding on_text_def using assms(2) by (intro conjI utf8_append boundary_append)
  moreover have "length (take c t @ s) = c + length s" using c by simp
  ultimately show ?thesis using assms by (simp add: insert_str_def on_text_def)
qed

lemma delete_on_text:
  assumes "utf8_ok t" "is_char_boundary t a" "is_char_boundary t b" "a \<le> b" "c \<le> a" "is_char_boundary t c"
  shows "\<exists>t'. delete_range t a b = Some t' \<and> on_text c t'"
proof -
  have "on_text c (take a t @ drop b t)"
    unfolding on_text_def using assms
    by (intro conjI utf8_append boundary_prefix utf8_take utf8_drop boundary_take)
  then show ?thesis using assms by (simp add: delete_range_def)
qed

lemma on_textD: "on_text c t \<Longrightarrow> utf8_ok t" "on_text c t \<Longrightarrow> is_char_boundary t c" "on_text c t \<Longrightarrow> c \<le> length t"
  by (auto simp: on_text_def boundary_le)

lemma back_one:
  assumes "on_text c t" "c > 0"
  shows "\<exists>t'. delete_range t (back_to_boundary t (c - 1)) c = Some t' \<and> on_text (back_to_boundary t (c - 1)) t'"
  using assms back_to_boundary_le [of t "c - 1"]
  by (intro delete_on_text) (auto simp: on_textD back_to_boundary_is)

lemma fwd_one:
  assumes "on_text c t" "c < length t"
  shows "\<exists>t'. delete_range t c (fwd_to_boundary t (c + 1)) = Some t' \<and> on_text c t'"
  using assms fwd_to_boundary_bound [of "c + 1" t]
  by (intro delete_on_text) (auto simp: on_textD fwd_to_boundary_is)

lemma insert_delete_char:
  assumes "on_text (cursor ed) t"
  shows "\<exists>ed' r t'. delete_char ed t = Some (ed', r) \<and> host_apply r t = Some t' \<and> on_text (cursor ed') t'"
proof (cases "cursor ed < length t")
  case True
  define en where "en = fwd_to_boundary t (Suc (cursor ed))"
  define c where "c = (if en \<ge> length t \<and> cursor ed > 0 then move_left (cursor ed) t else cursor ed)"
  have en: "cursor ed \<le> en" "is_char_boundary t en"
    using True fwd_to_boundary_bound [of "Suc (cursor ed)" t] by (simp_all add: en_def fwd_to_boundary_is)
  have c: "c \<le> cursor ed" "is_char_boundary t c"
    using assms back_to_boundary_le [of t "cursor ed - 1"]
    by (auto simp: c_def move_left_def back_to_boundary_is on_textD)
  obtain t' where t': "delete_range t (cursor ed) en = Some t'" "on_text c t'"
    using delete_on_text [of t "cursor ed" en c] assms en c by (auto simp: on_textD)
  have "delete_char ed t = Some (if en \<ge> length t \<and> cursor ed > 0 then ed\<lparr>cursor := c\<rparr> else ed,
      res_edit_and_yank (EditDelete (cursor ed) en) (take (en - cursor ed) (drop (cursor ed) t)))"
    using True en assms
    by (simp add: delete_char_def slice_boundary on_textD Let_def en_def [symmetric] c_def)
  with t' show ?thesis by (auto simp: c_def split: if_splits)
qed (use assms in \<open>simp add: delete_char_def\<close>)

lemma insert_mode_on_text:
  assumes "mode ed = Insert" "on_text (cursor ed) t" "utf8_key key" "code key \<notin> {KUp, KDown}"
  shows "\<exists>ed' r t'. handle_insert ed key t = Some (ed', r) \<and> host_apply r t = Some t' \<and> on_text (cursor ed') t'"
proof (cases "code key")
  case (KChar c)
  then show ?thesis using assms insert_on_text [OF assms(2), of c]
    by (auto simp: handle_insert_def utf8_key_def)
next
  case KBackspace
  then show ?thesis using assms back_one [OF assms(2)] by (auto simp: handle_insert_def Let_def)
next
  case KEnter
  have "utf8_ok [newline]" by (simp add: utf8_ok_def is_cont_def)
  then show ?thesis using KEnter insert_on_text [OF assms(2), of "[newline]"]
    by (auto simp: handle_insert_def)
next
  case KHome
  then show ?thesis using assms(2) b_line_start.on_boundary [of t "cursor ed"]
    by (auto simp: handle_insert_def go_def on_text_def)
next
  case KEnd
  then show ?thesis using assms(2) b_line_end_insert.on_boundary [of t "cursor ed"]
    by (auto simp: handle_insert_def go_def on_text_def)
next
  case KDelete
  then show ?thesis using insert_delete_char [OF assms(2)] by (simp add: handle_insert_def)
qed (use assms in \<open>auto simp: handle_insert_def go_total_def on_text_def move_left_boundary
      move_right_boundary\<close>)

lemma command_line_on_text:
  assumes "on_text (command_cursor ed) (command_buf ed)" "utf8_key key"
  shows "\<exists>ed' r. handle_command_line ed key = Some (ed', r) \<and> on_text (command_cursor ed') (command_buf ed')"
proof (cases "code key")
  case (KChar c)
  then show ?thesis using assms insert_on_text [OF assms(1), of c]
    by (auto simp: handle_command_line_def exit_command_line_def utf8_key_def on_text_def)
next
  case KBackspace
  then show ?thesis using assms back_one [OF assms(1)] by (auto simp: handle_command_line_def Let_def)
next
  case KDelete
  then show ?thesis using assms fwd_one [OF assms(1)] by (auto simp: handle_command_line_def Let_def)
qed (use assms in \<open>auto simp: handle_command_line_def exit_command_line_def on_text_def
      back_to_boundary_is fwd_to_boundary_is\<close>)

text \<open>Cutting a range and pasting it back where the cursor is left.\<close>

lemma cut_paste:
  assumes "apply_operator ed op a b t = Some (ed', r)" "host_apply r t = Some t'" "op \<noteq> OpYank"
  shows "host_apply (snd (paste_before ed' t')) t' = Some t"
proof -
  have b: "a \<le> b" "is_char_boundary t a" "is_char_boundary t b" "b \<le> length t"
    using assms(1) by (auto simp: apply_operator_def slice_def boundary_le split: if_splits)
  have t': "t' = take a t @ drop b t" "yank_buffer ed' = take (b - a) (drop a t)" "cursor ed' = a"
    using assms b by (auto simp: apply_operator_def slice_def Let_def delete_range_def split: operator.splits)
  have glue: "take a t @ take (b - a) (drop a t) @ drop b t = t"
    using b by (metis append_assoc append_take_drop_id le_add_diff_inverse take_add)
  have "is_char_boundary t' a" if "a < b"
  proof (cases "drop b t = []")
    case True
    then show ?thesis using b by (simp add: t'(1) is_char_boundary_def)
  next
    case False
    then show ?thesis using b that by (intro boundaryI) (auto simp: t'(1) nth_append is_char_boundary_def)
  qed
  then show ?thesis using b glue t'
    by (cases "a = b") (auto simp: paste_before_def Let_def insert_str_def min_def)
qed

section \<open>Properties\<close>

text \<open>C20: On UTF-8 text the motions \<open>h\<close>, \<open>l\<close>, \<open>0\<close>, \<open>^\<close>, \<open>$\<close>, \<open>w\<close>, \<open>b\<close>, \<open>W\<close>, \<open>B\<close> and \<open>%\<close>, and the line end of
  Insert mode, take a cursor on a character boundary to one on a character boundary, and never panic.\<close>

theorem motions_keep_boundaries:
  assumes "utf8_ok t" "is_char_boundary t c"
  shows "is_char_boundary t (move_left c t) \<and> is_char_boundary t (move_right c t) \<and>
    is_char_boundary t (move_word_forward c t) \<and> is_char_boundary t (move_word_backward c t) \<and>
    is_char_boundary t (move_word_forward_word c t) \<and>
    list_all (\<lambda>m. \<exists>p. m c t = Some p \<and> is_char_boundary t p)
      [move_line_start, move_first_non_blank, move_line_end, move_line_end_insert,
       move_word_backward_word, move_to_matching_bracket]"
  using assms b_line_start.on_boundary b_first_non_blank.on_boundary b_line_end.on_boundary
    b_line_end_insert.on_boundary b_word_backward_word.on_boundary b_matching.on_boundary
  by (simp add: move_left_boundary move_right_boundary move_word_forward_boundary
      move_word_backward_boundary move_word_forward_word_boundary)

text \<open>A two-byte character between two ASCII ones: \<open>a\<close>, U+00E9, \<open>b\<close>.\<close>

definition demo_text :: bytes where
  "demo_text = [CHR ''a'', CHR 0xC3, CHR 0xA9, CHR ''b'']"

lemma demo_text_utf8: "utf8_ok demo_text" "is_char_boundary demo_text 1" "is_char_boundary demo_text 3"
  by code_simp+

theorem motions_keep_boundaries_witness:
  "is_char_boundary demo_text 1 \<and> is_char_boundary demo_text (move_right 1 demo_text)"
  using motions_keep_boundaries [OF demo_text_utf8(1,2)] demo_text_utf8 by simp

text \<open>The end-of-word motion counts bytes: on a text with a two-byte character it leaves the cursor inside
  that character, from a cursor on a boundary.\<close>

lemma word_end_leaves_boundary:
  "is_char_boundary demo_text 0 \<and> \<not> is_char_boundary demo_text (move_word_end 0 demo_text)"
  by code_simp

text \<open>C21: Typing in Insert mode is safe on UTF-8 text: from a cursor on a character boundary every key but Up and
  Down is handled without a panic, its edits apply, the text stays well formed and the cursor ends on a
  boundary of the new text.\<close>

theorem insert_mode_utf8:
  assumes "mode ed = Insert" "utf8_ok t" "is_char_boundary t (cursor ed)" "utf8_key key" "code key \<notin> {KUp, KDown}"
  shows "\<exists>ed' r t'. handle_insert ed key t = Some (ed', r) \<and> host_apply r t = Some t' \<and>
    utf8_ok t' \<and> is_char_boundary t' (cursor ed')"
  using insert_mode_on_text [OF assms(1) _ assms(4,5)] assms(2,3) by (simp add: on_text_def)

theorem insert_mode_utf8_witness:
  "\<exists>ed' r t'. handle_insert (editor_new\<lparr>mode := Insert, cursor := 3\<rparr>) (key_of_code KBackspace) demo_text = Some (ed', r) \<and>
     host_apply r demo_text = Some t' \<and> utf8_ok t' \<and> is_char_boundary t' (cursor ed')"
  by (rule insert_mode_utf8) (simp_all add: demo_text_utf8 key_of_code_def utf8_key_def)

text \<open>The command line keeps its own cursor on a character boundary of its own buffer: every key is handled
  without a panic and keeps that.\<close>

lemma command_line_utf8:
  assumes "utf8_ok (command_buf ed)" "is_char_boundary (command_buf ed) (command_cursor ed)" "utf8_key key"
  shows "\<exists>ed' r. handle_command_line ed key = Some (ed', r) \<and> utf8_ok (command_buf ed') \<and>
    is_char_boundary (command_buf ed') (command_cursor ed')"
  using command_line_on_text [OF _ assms(3)] assms(1,2) by (simp add: on_text_def)

lemma command_line_utf8_witness:
  "\<exists>ed' r. handle_command_line (editor_new\<lparr>command_buf := demo_text, command_cursor := 1\<rparr>) (key_of_code KDelete) = Some (ed', r) \<and>
     utf8_ok (command_buf ed') \<and> is_char_boundary (command_buf ed') (command_cursor ed')"
  by (rule command_line_utf8) (simp_all add: demo_text_utf8 demo_text_utf8(2) [unfolded One_nat_def] key_of_code_def utf8_key_def)

text \<open>Cut and paste: after a delete or change operator on a range and the host's edit, \<open>P\<close> pastes the range
  back where it was and the host ends up with the original text.\<close>

lemma cut_paste_round_trip:
  assumes "apply_operator ed op a b t = Some (ed', r)" "host_apply r t = Some t'" "op \<noteq> OpYank"
  shows "host_apply (snd (paste_before ed' t')) t' = Some t"
  by (rule cut_paste [OF assms])

lemma cut_paste_round_trip_witness:
  "\<exists>ed' r t'. apply_operator editor_new OpDelete 1 3 demo_text = Some (ed', r) \<and> host_apply r demo_text = Some t' \<and>
     t' = ''ab'' \<and> host_apply (snd (paste_before ed' t')) t' = Some demo_text"
proof -
  have "\<exists>ed' r. apply_operator editor_new OpDelete 1 3 demo_text = Some (ed', r) \<and> host_apply r demo_text = Some ''ab''"
    by (simp add: apply_operator_def slice_def is_char_boundary_def demo_text_def is_cont_def delete_range_def Let_def)
  then obtain ed' r where r: "apply_operator editor_new OpDelete 1 3 demo_text = Some (ed', r)"
    "host_apply r demo_text = Some ''ab''" by blast
  from cut_paste_round_trip [OF r] r show ?thesis by simp
qed

text \<open>Setting the cursor from outside lands on a character boundary inside the text, whatever the position
  asked for and whatever the text.\<close>

lemma set_cursor_boundary: "is_char_boundary t (cursor (set_cursor ed p t)) \<and> cursor (set_cursor ed p t) \<le> p"
  using snap_boundary [of t p] back_to_boundary_le [of t "min p (length t)"]
  by (simp add: set_cursor_def snap_def Let_def)

end
