(* ===== verification/Tagged_Values.thy ===== *)
theory Tagged_Values
  imports Prelude "HOL-Library.Signed_Division"
begin

unbundle bit_operations_syntax

text \<open>
  The values of the language (\<open>crates/core/src/value.rs\<close>) and their 8-byte tagged encoding
  (\<open>crates/core/src/tagged_stack.rs\<close>): an odd word is a 63-bit integer, 0 and 2 are the booleans, every
  other even word is a pointer to a reference-counted heap value.
\<close>

section \<open>Values\<close>

text \<open>
  An \<open>f64\<close> is its 64 bits; a \<open>HashMap\<close> is an association list in iteration order; a channel is the
  identity of its \<open>Arc\<close>, which is what its equality compares.
\<close>

datatype map_key =
    MKInt i64
  | MKString bytes
  | MKBool bool

datatype val =
    VInt i64
  | VFloat u64
  | VBool bool
  | VString bytes
  | VSymbol bytes
  | VVariant bytes "val list"
  | VMap "(map_key \<times> val) list"
  | VQuotation u64 u64
  | VClosure u64 "val list"
  | VChannel nat
  | VWeaveCtx nat nat

fun map_key_from_value :: "val \<Rightarrow> map_key option" where
  "map_key_from_value (VInt n) = Some (MKInt n)"
| "map_key_from_value (VString s) = Some (MKString s)"
| "map_key_from_value (VBool b) = Some (MKBool b)"
| "map_key_from_value _ = None"

fun map_key_to_value :: "map_key \<Rightarrow> val" where
  "map_key_to_value (MKInt n) = VInt n"
| "map_key_to_value (MKString s) = VString s"
| "map_key_to_value (MKBool b) = VBool b"

section \<open>The tagged encoding\<close>

definition TAG_FALSE :: u64 where
  "TAG_FALSE = 0"

definition TAG_TRUE :: u64 where
  "TAG_TRUE = 2"

definition is_tagged_int :: "u64 \<Rightarrow> bool" where
  "is_tagged_int tagged \<longleftrightarrow> tagged AND 1 \<noteq> 0"

definition is_tagged_heap :: "u64 \<Rightarrow> bool" where
  "is_tagged_heap tagged \<longleftrightarrow> tagged AND 1 = 0 \<and> tagged > TAG_TRUE"

definition tag_int :: "i64 \<Rightarrow> u64" where
  "tag_int value = push_bit 1 value OR 1"

definition untag_int :: "u64 \<Rightarrow> i64" where
  "untag_int tagged = signed_drop_bit 1 tagged"

definition is_inline :: "u64 \<Rightarrow> bool" where
  "is_inline sv \<longleftrightarrow> is_tagged_int sv \<or> sv = TAG_FALSE \<or> sv = TAG_TRUE"

text \<open>The range of the language's integers, \<open>I63_MIN\<close> and \<open>I63_MAX\<close> in \<open>bitwise.rs\<close>.\<close>

definition I63_MIN :: i64 where
  "I63_MIN = - push_bit 62 1"

definition I63_MAX :: i64 where
  "I63_MAX = push_bit 62 1 - 1"

definition fits_in_i63 :: "i64 \<Rightarrow> bool" where
  "fits_in_i63 v \<longleftrightarrow> I63_MIN \<le>s v \<and> v \<le>s I63_MAX"

section \<open>What the encoding keeps\<close>

lemma bit_tag_int [simp]: "bit (tag_int v) n \<longleftrightarrow> n = 0 \<or> n < 64 \<and> bit v (n - 1)"
  unfolding tag_int_def bit_or_iff bit_push_bit_iff bit_1_iff possible_bit_word by auto

lemma bit_untag_int [simp]: "bit (untag_int t) n \<longleftrightarrow> n < 64 \<and> bit t (min (n + 1) 63)"
  by (auto simp: untag_int_def bit_simps min_def dest: bit_imp_le_length)

lemma is_tagged_int_iff [simp]: "is_tagged_int t \<longleftrightarrow> bit t 0"
  by (simp add: is_tagged_int_def and_one_eq odd_iff_mod_2_eq_one bit_0)

lemma is_tagged_int_tag: "is_tagged_int (tag_int v)"
  by simp

lemma not_inline_iff: "\<not> is_inline sv \<longleftrightarrow> is_tagged_heap sv"
proof -
  have "sv = 0 \<or> sv = 1 \<or> sv = 2 \<or> sv > 2"
    unfolding word_less_nat_alt word_unat_eq_iff by auto
  moreover have "bit (1 :: u64) 0" "\<not> (2 :: u64) > 2" "\<not> (0 :: u64) > 2" by simp_all
  ultimately show ?thesis
    by (auto simp: is_inline_def is_tagged_heap_def TAG_FALSE_def TAG_TRUE_def
        and_one_eq bit_0 even_iff_mod_2_eq_zero)
qed

lemma tag_not_heap [simp]: "\<not> is_tagged_heap (tag_int v)" "\<not> is_tagged_heap TAG_FALSE" "\<not> is_tagged_heap TAG_TRUE"
  by (simp_all add: not_inline_iff [symmetric] is_inline_def)

lemma tag_bools [simp]: "TAG_TRUE \<noteq> TAG_FALSE" "\<not> bit TAG_FALSE 0" "\<not> bit TAG_TRUE 0"
  by (simp_all add: TAG_FALSE_def TAG_TRUE_def bit_0)

text \<open>Untagging is the inverse of tagging on 63 bits: the sign of the result is bit 62.\<close>

definition wrap63 :: "i64 \<Rightarrow> i64" where
  "wrap63 v = word_of_int (signed_take_bit 62 (sint v))"

lemma untag_tag: "untag_int (tag_int v) = wrap63 v"
  by (rule bit_eqI) (auto simp: wrap63_def bit_simps min_def not_less le_Suc_eq)

lemma tag_untag: "is_tagged_int t \<Longrightarrow> tag_int (untag_int t) = t"
proof (rule bit_eqI)
  fix n assume "is_tagged_int t"
  then show "bit (tag_int (untag_int t)) n \<longleftrightarrow> bit t n"
    by (cases n) (auto simp: min_def dest: bit_imp_le_length)
qed

lemma sint_wrap63: "sint (wrap63 v) = signed_take_bit 62 (sint v)"
  by (simp add: wrap63_def signed_of_int)

lemma fits_in_i63_iff: "fits_in_i63 v \<longleftrightarrow> - (2 ^ 62) \<le> sint v \<and> sint v < 2 ^ 62"
proof -
  have "sint I63_MIN = - (2 ^ 62)" "sint I63_MAX = 2 ^ 62 - 1"
    by (simp_all add: I63_MIN_def I63_MAX_def)
  then show ?thesis by (auto simp: fits_in_i63_def word_sle_eq)
qed

lemma wrap63_id_iff: "wrap63 v = v \<longleftrightarrow> fits_in_i63 v"
proof -
  have "wrap63 v = v \<longleftrightarrow> sint (wrap63 v) = sint v" by (rule word_eq_iff_signed)
  then show ?thesis by (simp add: sint_wrap63 fits_in_i63_iff signed_take_bit_int_eq_self_iff)
qed

lemma sint_wrap63_mod: "sint (wrap63 v) = (sint v + 2 ^ 62) mod 2 ^ 63 - 2 ^ 62"
  by (simp add: sint_wrap63 signed_take_bit_eq_take_bit_shift take_bit_eq_mod)

section \<open>Properties\<close>

text \<open>C14: Tagging and untagging an integer keeps its low 63 bits with their sign, so the round trip is the identity
  exactly on the integers from \<open>-2^62\<close> to \<open>2^62 - 1\<close>; other integers wrap around modulo \<open>2^63\<close>.\<close>

theorem tag_round_trip:
  "sint (untag_int (tag_int v)) = (sint v + 2 ^ 62) mod 2 ^ 63 - 2 ^ 62 \<and>
   (untag_int (tag_int v) = v \<longleftrightarrow> fits_in_i63 v)"
  by (simp only: untag_tag sint_wrap63_mod wrap63_id_iff)

text \<open>The encoding is unambiguous: every word is exactly one of a tagged integer, \<open>false\<close>, \<open>true\<close> and a heap
  pointer, and a tagged integer is the encoding of the integer it decodes to.\<close>

lemma tagged_word_classes:
  "(is_tagged_heap sv \<longleftrightarrow> \<not> is_inline sv) \<and>
   length (filter id [is_tagged_int sv, sv = TAG_FALSE, sv = TAG_TRUE, is_tagged_heap sv]) = 1 \<and>
   (is_tagged_int sv \<longleftrightarrow> tag_int (untag_int sv) = sv)"
proof -
  have "is_tagged_int sv \<longleftrightarrow> tag_int (untag_int sv) = sv"
    using tag_untag [of sv] is_tagged_int_tag [of "untag_int sv"] by metis
  moreover have "length (filter id [is_tagged_int sv, sv = TAG_FALSE, sv = TAG_TRUE, is_tagged_heap sv]) = 1"
    using not_inline_iff [of sv] tag_bools(1) [symmetric] by (auto simp: is_inline_def)
  ultimately show ?thesis using not_inline_iff [of sv] by blast
qed

end
