(* ===== verification/Runtime_Stack.thy ===== *)
theory Runtime_Stack
  imports Tagged_Values "HOL-Library.Multiset"
begin

text \<open>
  The runtime's value stack, after \<open>crates/core/src/stack.rs\<close> and \<open>crates/core/src/tagged_stack.rs\<close>: a
  buffer of 8-byte slots, a heap of reference-counted values, and the operations that shuffle the slots.
  Then the ownership invariant, that the count of every heap value is the number of references to it,
  and the refinement of each operation to one on a list of values.
\<close>

section \<open>Memory\<close>

text \<open>
  \<open>Undefined\<close> is what the safety comments exclude: an access outside the buffer, a read of a slot never
  written, a pointer to a freed value.  \<open>Panic\<close> is a Rust panic; \<open>OutOfMemory\<close> an allocation failure.
\<close>

datatype fault = Undefined | Panic string | OutOfMemory

text \<open>
  The heap maps the address of an \<open>Arc<Value>\<close> to the value and its strong count; \<open>avail\<close> holds the
  addresses the allocator will hand out next, and a freed block goes back to it.
\<close>

record heap =
  blocks :: "u64 \<Rightarrow> (val \<times> nat) option"
  avail :: "u64 list"

definition arc_new :: "val \<Rightarrow> heap \<Rightarrow> fault + (u64 \<times> heap)" where
  "arc_new v h = (case avail h of
       [] \<Rightarrow> Err OutOfMemory
     | a # as \<Rightarrow> Ok (a, h\<lparr>blocks := (blocks h)(a \<mapsto> (v, 1)), avail := as\<rparr>))"

definition arc_clone :: "u64 \<Rightarrow> heap \<Rightarrow> fault + heap" where
  "arc_clone a h = (case blocks h a of
       None \<Rightarrow> Err Undefined
     | Some (v, n) \<Rightarrow> Ok (h\<lparr>blocks := (blocks h)(a \<mapsto> (v, n + 1))\<rparr>))"

text \<open>Dropping an \<open>Arc\<close>, with the value it pointed to.\<close>

definition arc_drop :: "u64 \<Rightarrow> heap \<Rightarrow> fault + (val \<times> heap)" where
  "arc_drop a h = (case blocks h a of
       None \<Rightarrow> Err Undefined
     | Some (v, n) \<Rightarrow>
         if n \<le> 1 then Ok (v, h\<lparr>blocks := (blocks h)(a := None), avail := a # avail h\<rparr>)
         else Ok (v, h\<lparr>blocks := (blocks h)(a \<mapsto> (v, n - 1))\<rparr>))"

text \<open>
  A strand's memory: the slots of its stack buffer (\<open>None\<close> where nothing was written yet), the address
  of the buffer in slots, the stack base that is set for the strand, the heap, and the pending runtime
  error.  A \<open>Stack\<close> pointer is an index into the buffer.
\<close>

record machine =
  cells :: "u64 option list"
  origin :: nat
  stack_base :: "nat option"
  hp :: heap
  last_error :: "string option"

type_synonym strand = "machine \<times> nat"

definition read_slot :: "machine \<Rightarrow> nat \<Rightarrow> fault + u64" where
  "read_slot m p = (if p < length (cells m) then (case cells m ! p of Some sv \<Rightarrow> Ok sv | None \<Rightarrow> Err Undefined)
                    else Err Undefined)"

definition write_slot :: "machine \<Rightarrow> nat \<Rightarrow> u64 \<Rightarrow> fault + machine" where
  "write_slot m p sv = (if p < length (cells m) then Ok (m\<lparr>cells := (cells m)[p := Some sv]\<rparr>) else Err Undefined)"

definition ptr_sub :: "nat \<Rightarrow> nat \<Rightarrow> fault + nat" where
  "ptr_sub p n = (if n \<le> p then Ok (p - n) else Err Undefined)"

text \<open>\<open>*stack.sub(n)\<close> as a value and as a place.\<close>

definition read_sub :: "strand \<Rightarrow> nat \<Rightarrow> fault + u64" where
  "read_sub s n = try_bind (ptr_sub (snd s) n) (read_slot (fst s))"

definition write_sub :: "strand \<Rightarrow> nat \<Rightarrow> u64 \<Rightarrow> fault + strand" where
  "write_sub s n sv =
     try_bind (ptr_sub (snd s) n) (\<lambda>p. try_bind (write_slot (fst s) p sv) (\<lambda>m. Ok (m, snd s)))"

section \<open>Conversions\<close>

fun value_to_stack_value :: "val \<Rightarrow> heap \<Rightarrow> fault + (u64 \<times> heap)" where
  "value_to_stack_value (VInt i) h = Ok (tag_int i, h)"
| "value_to_stack_value (VBool b) h = Ok (if b then TAG_TRUE else TAG_FALSE, h)"
| "value_to_stack_value v h = arc_new v h"

definition stack_value_to_value :: "u64 \<Rightarrow> heap \<Rightarrow> fault + (val \<times> heap)" where
  "stack_value_to_value sv h =
     (if is_tagged_int sv then Ok (VInt (untag_int sv), h)
      else if sv = TAG_FALSE then Ok (VBool False, h)
      else if sv = TAG_TRUE then Ok (VBool True, h)
      else arc_drop sv h)"

definition clone_stack_value :: "u64 \<Rightarrow> heap \<Rightarrow> fault + (u64 \<times> heap)" where
  "clone_stack_value sv h =
     (if is_inline sv then Ok (sv, h) else try_bind (arc_clone sv h) (\<lambda>h. Ok (sv, h)))"

definition drop_stack_value :: "u64 \<Rightarrow> heap \<Rightarrow> fault + heap" where
  "drop_stack_value sv h =
     (if is_inline sv then Ok h else try_bind (arc_drop sv h) (\<lambda>(_, h). Ok h))"

text \<open>The conversions on a strand's heap.\<close>

definition clone_sv :: "u64 \<Rightarrow> strand \<Rightarrow> fault + (u64 \<times> strand)" where
  "clone_sv sv s =
     try_bind (clone_stack_value sv (hp (fst s))) (\<lambda>(c, h). Ok (c, ((fst s)\<lparr>hp := h\<rparr>, snd s)))"

definition drop_sv :: "u64 \<Rightarrow> strand \<Rightarrow> fault + strand" where
  "drop_sv sv s = try_bind (drop_stack_value sv (hp (fst s))) (\<lambda>h. Ok ((fst s)\<lparr>hp := h\<rparr>, snd s))"

section \<open>Core operations\<close>

definition push_sv :: "strand \<Rightarrow> u64 \<Rightarrow> fault + strand" where
  "push_sv s sv = try_bind (write_slot (fst s) (snd s) sv) (\<lambda>m. Ok (m, snd s + 1))"

definition push :: "strand \<Rightarrow> val \<Rightarrow> fault + strand" where
  "push s v = try_bind (value_to_stack_value v (hp (fst s)))
     (\<lambda>(sv, h). push_sv ((fst s)\<lparr>hp := h\<rparr>, snd s) sv)"

definition pop_sv :: "strand \<Rightarrow> fault + (strand \<times> u64)" where
  "pop_sv s = try_bind (read_sub s 1) (\<lambda>sv. Ok ((fst s, snd s - 1), sv))"

definition pop :: "strand \<Rightarrow> fault + (strand \<times> val)" where
  "pop s = try_bind (pop_sv s) (\<lambda>(s, sv).
     try_bind (stack_value_to_value sv (hp (fst s))) (\<lambda>(v, h). Ok (((fst s)\<lparr>hp := h\<rparr>, snd s), v)))"

definition pop_two :: "strand \<Rightarrow> fault + (strand \<times> val \<times> val)" where
  "pop_two s = try_bind (pop s) (\<lambda>(s, b). try_bind (pop s) (\<lambda>(s, a). Ok (s, a, b)))"

definition peek :: "strand \<Rightarrow> fault + (strand \<times> val)" where
  "peek s = try_bind (read_sub s 1) (\<lambda>sv. try_bind (clone_sv sv s) (\<lambda>(c, s).
     try_bind (stack_value_to_value c (hp (fst s))) (\<lambda>(v, h). Ok (((fst s)\<lparr>hp := h\<rparr>, snd s), v))))"

definition peek_sv :: "strand \<Rightarrow> fault + u64" where
  "peek_sv s = read_sub s 1"

section \<open>Shuffle operations\<close>

definition patch_seq_dup :: "strand \<Rightarrow> fault + strand" where
  "patch_seq_dup s = try_bind (peek_sv s) (\<lambda>sv. try_bind (clone_sv sv s) (\<lambda>(c, s). push_sv s c))"

definition drop_top :: "strand \<Rightarrow> fault + strand" where
  "drop_top s = try_bind (pop_sv s) (\<lambda>(s, sv). drop_sv sv s)"

definition patch_seq_drop_op :: "strand \<Rightarrow> fault + strand" where
  "patch_seq_drop_op s = drop_top s"

definition patch_seq_swap :: "strand \<Rightarrow> fault + strand" where
  "patch_seq_swap s =
     try_bind (read_sub s 2) (\<lambda>a. try_bind (read_sub s 1) (\<lambda>b.
     try_bind (write_sub s 2 b) (\<lambda>s. write_sub s 1 a)))"

definition patch_seq_over :: "strand \<Rightarrow> fault + strand" where
  "patch_seq_over s = try_bind (read_sub s 2) (\<lambda>a. try_bind (clone_sv a s) (\<lambda>(c, s). push_sv s c))"

definition patch_seq_rot :: "strand \<Rightarrow> fault + strand" where
  "patch_seq_rot s =
     try_bind (read_sub s 3) (\<lambda>a. try_bind (read_sub s 2) (\<lambda>b. try_bind (read_sub s 1) (\<lambda>c.
     try_bind (write_sub s 3 b) (\<lambda>s. try_bind (write_sub s 2 c) (\<lambda>s. write_sub s 1 a)))))"

definition patch_seq_nip :: "strand \<Rightarrow> fault + strand" where
  "patch_seq_nip s =
     try_bind (read_sub s 2) (\<lambda>a. try_bind (read_sub s 1) (\<lambda>b.
     try_bind (drop_sv a s) (\<lambda>s. try_bind (write_sub s 2 b) (\<lambda>(m, sp). Ok (m, sp - 1)))))"

definition patch_seq_tuck :: "strand \<Rightarrow> fault + strand" where
  "patch_seq_tuck s =
     try_bind (read_sub s 2) (\<lambda>a. try_bind (read_sub s 1) (\<lambda>b.
     try_bind (clone_sv b s) (\<lambda>(c, s).
     try_bind (write_sub s 2 b) (\<lambda>s. try_bind (write_sub s 1 a) (\<lambda>s. push_sv s c)))))"

definition patch_seq_2dup :: "strand \<Rightarrow> fault + strand" where
  "patch_seq_2dup s =
     try_bind (read_sub s 2) (\<lambda>a. try_bind (read_sub s 1) (\<lambda>b.
     try_bind (clone_sv a s) (\<lambda>(ca, s). try_bind (clone_sv b s) (\<lambda>(cb, s).
     try_bind (push_sv s ca) (\<lambda>s. push_sv s cb)))))"

section \<open>Indexed operations\<close>

definition set_runtime_error :: "string \<Rightarrow> strand \<Rightarrow> strand" where
  "set_runtime_error msg s = ((fst s)\<lparr>last_error := Some msg\<rparr>, snd s)"

definition dec_int :: "int \<Rightarrow> string" where
  "dec_int i = (if i < 0 then ''-'' @ dec (nat (- i)) else dec (nat i))"

text \<open>\<open>Inl\<close> is the early return with the pointer after the pop.\<close>

definition pop_and_validate_index :: "strand \<Rightarrow> string \<Rightarrow> fault + (strand + (strand \<times> nat))" where
  "pop_and_validate_index s op_name = try_bind (pop s) (\<lambda>(s, n_val).
     case n_val of
       VInt n_raw \<Rightarrow>
         if sint n_raw < 0
         then Ok (Inl (set_runtime_error (op_name @ '': index cannot be negative (got '' @ dec_int (sint n_raw) @ '')'') s))
         else Ok (Inr (s, unat n_raw))
     | _ \<Rightarrow> Ok (Inl (set_runtime_error (op_name @ '': expected Int index on top of stack'') s)))"

text \<open>The depth is the distance to the base; with no base set it is counted from address 0.\<close>

definition stack_depth_of :: "strand \<Rightarrow> fault + nat" where
  "stack_depth_of s = (case stack_base (fst s) of
       Some b \<Rightarrow> if b \<le> snd s then Ok (snd s - b) else Err (Panic ''attempt to subtract with overflow'')
     | None \<Rightarrow> Ok (origin (fst s) + snd s))"

definition depth_error :: "string \<Rightarrow> nat \<Rightarrow> nat \<Rightarrow> string" where
  "depth_error op_name n depth =
     op_name @ '': index '' @ dec n @ '' exceeds stack depth '' @ dec depth @
     '' (need at least '' @ dec (n + 1) @ '' values)''"

definition check_depth_for_index :: "strand \<Rightarrow> nat \<Rightarrow> string \<Rightarrow> fault + (strand \<times> bool)" where
  "check_depth_for_index s n op_name = try_bind (stack_depth_of s) (\<lambda>depth.
     if n \<ge> depth
     then Ok (set_runtime_error (depth_error op_name n depth) s, False)
     else Ok (s, True))"

definition patch_seq_pick_op :: "strand \<Rightarrow> fault + strand" where
  "patch_seq_pick_op s = try_bind (pop_and_validate_index s ''pick'') (\<lambda>r. case r of
       Inl s \<Rightarrow> Ok s
     | Inr (s, n) \<Rightarrow> try_bind (check_depth_for_index s n ''pick'') (\<lambda>(s, ok).
         if \<not> ok then Ok s
         else try_bind (read_sub s (n + 1)) (\<lambda>sv. try_bind (clone_sv sv s) (\<lambda>(c, s). push_sv s c))))"

text \<open>\<open>ptr::copy(src.add(1), src, n)\<close>: the \<open>n\<close> slots above \<open>src\<close> move down by one.\<close>

definition copy_down :: "machine \<Rightarrow> nat \<Rightarrow> nat \<Rightarrow> fault + machine" where
  "copy_down m src n =
     (if src + n < length (cells m)
      then Ok (m\<lparr>cells := take src (cells m) @ take n (drop (src + 1) (cells m)) @ drop (src + n) (cells m)\<rparr>)
      else Err Undefined)"

definition patch_seq_roll :: "strand \<Rightarrow> fault + strand" where
  "patch_seq_roll s = try_bind (pop_and_validate_index s ''roll'') (\<lambda>r. case r of
       Inl s \<Rightarrow> Ok s
     | Inr (s, n) \<Rightarrow>
         if n = 0 then Ok s
         else if n = 1 then patch_seq_swap s
         else if n = 2 then patch_seq_rot s
         else try_bind (check_depth_for_index s n ''roll'') (\<lambda>(s, ok).
           if \<not> ok then Ok s
           else try_bind (ptr_sub (snd s) (n + 1)) (\<lambda>src.
                try_bind (read_slot (fst s) src) (\<lambda>saved.
                try_bind (copy_down (fst s) src n) (\<lambda>m. write_sub (m, snd s) 1 saved)))))"

definition patch_seq_set_stack_base :: "strand \<Rightarrow> nat \<Rightarrow> strand" where
  "patch_seq_set_stack_base s b = ((fst s)\<lparr>stack_base := Some b\<rparr>, snd s)"

text \<open>
  \<open>clone_stack_with_base\<close>: the slots of the new buffer, whose base is its first slot, and the heap after
  the values have been cloned one by one from the base up.
\<close>

fun clone_slots :: "u64 option list \<Rightarrow> heap \<Rightarrow> fault + (u64 option list \<times> heap)" where
  "clone_slots [] h = Ok ([], h)"
| "clone_slots (None # ss) h = Err Undefined"
| "clone_slots (Some sv # ss) h = try_bind (clone_stack_value sv h) (\<lambda>(c, h).
     try_bind (clone_slots ss h) (\<lambda>(cs, h). Ok (Some c # cs, h)))"

definition DEFAULT_STACK_CAPACITY :: nat where
  "DEFAULT_STACK_CAPACITY = 4096"

definition clone_stack_with_base :: "strand \<Rightarrow> fault + (u64 option list \<times> nat \<times> heap)" where
  "clone_stack_with_base s = (case stack_base (fst s) of
       None \<Rightarrow> Err (Panic ''clone_stack: stack base not set'')
     | Some b \<Rightarrow>
         if b \<le> snd s then
           let depth = snd s - b in
           if depth = 0 then Ok (replicate DEFAULT_STACK_CAPACITY None, 0, hp (fst s))
           else if snd s \<le> length (cells (fst s)) then
             let capacity = max depth DEFAULT_STACK_CAPACITY in
             try_bind (clone_slots (take depth (drop b (cells (fst s)))) (hp (fst s)))
               (\<lambda>(cs, h). Ok (cs @ replicate (capacity - depth) None, depth, h))
           else Err Undefined
         else Err Undefined)"

section \<open>Ownership\<close>

text \<open>
  \<open>heap_ok h rc\<close>: the strong count of every live block is the number \<open>rc\<close> of references to it, no block
  is live without a reference, a block never holds an inline value, and the allocator's addresses are
  distinct, unused and tagged as heap pointers.
\<close>

fun boxed :: "val \<Rightarrow> bool" where
  "boxed (VInt i) = False"
| "boxed (VBool b) = False"
| "boxed v = True"

fun block_ok :: "(val \<times> nat) option \<Rightarrow> nat \<Rightarrow> bool" where
  "block_ok None k = (k = 0)"
| "block_ok (Some (v, n)) k = (n = k \<and> 0 < n \<and> boxed v)"

definition heap_ok :: "heap \<Rightarrow> (u64 \<Rightarrow> nat) \<Rightarrow> bool" where
  "heap_ok h rc \<longleftrightarrow>
     (\<forall>a. is_tagged_heap a \<longrightarrow> block_ok (blocks h a) (rc a)) \<and>
     (\<forall>a. blocks h a \<noteq> None \<longrightarrow> is_tagged_heap a) \<and>
     distinct (avail h) \<and> (\<forall>a \<in> set (avail h). is_tagged_heap a \<and> blocks h a = None)"

definition decode :: "heap \<Rightarrow> u64 \<Rightarrow> val option" where
  "decode h sv =
     (if is_tagged_int sv then Some (VInt (untag_int sv))
      else if sv = TAG_FALSE then Some (VBool False)
      else if sv = TAG_TRUE then Some (VBool True)
      else map_option fst (blocks h sv))"

text \<open>The live slots, from the top of the stack down.\<close>

definition live :: "strand \<Rightarrow> u64 list \<Rightarrow> bool" where
  "live s svs \<longleftrightarrow> snd s \<le> length (cells (fst s)) \<and> take (snd s) (cells (fst s)) = rev (map Some svs)"

text \<open>
  A strand that owns its slots: \<open>ext\<close> counts the references held elsewhere (other strands, captured
  environments), which no operation on this strand may touch.
\<close>

definition owns :: "strand \<Rightarrow> (u64 \<Rightarrow> nat) \<Rightarrow> u64 list \<Rightarrow> bool" where
  "owns s ext svs \<longleftrightarrow> live s svs \<and> heap_ok (hp (fst s)) (\<lambda>a. count_list svs a + ext a)"

definition represents :: "strand \<Rightarrow> (u64 \<Rightarrow> nat) \<Rightarrow> val list \<Rightarrow> bool" where
  "represents s ext vs \<longleftrightarrow> (\<exists>svs. owns s ext svs \<and> map (decode (hp (fst s))) svs = map Some vs)"

definition room :: "strand \<Rightarrow> nat \<Rightarrow> bool" where
  "room s n \<longleftrightarrow> snd s + n \<le> length (cells (fst s))"

text \<open>What no shuffle operation changes.\<close>

definition frame :: "machine \<Rightarrow> machine \<Rightarrow> bool" where
  "frame m m' \<longleftrightarrow> length (cells m') = length (cells m) \<and> origin m' = origin m \<and>
     stack_base m' = stack_base m \<and> last_error m' = last_error m"

lemma frame_refl [simp]: "frame m m" "frame m (m\<lparr>hp := h\<rparr>)"
  by (simp_all add: frame_def)

lemma frame_trans [trans]: "frame a b \<Longrightarrow> frame b c \<Longrightarrow> frame a c"
  by (simp add: frame_def)

lemma live_length: "live s svs \<Longrightarrow> length svs = snd s"
  by (auto simp: live_def dest!: arg_cong [of _ _ length])

lemma live_nth: "live s svs \<Longrightarrow> k < length svs \<Longrightarrow> cells (fst s) ! (snd s - Suc k) = Some (svs ! k)"
proof -
  assume l: "live s svs" "k < length svs"
  then have n: "length svs = snd s" by (simp add: live_length)
  have "cells (fst s) ! (snd s - Suc k) = take (snd s) (cells (fst s)) ! (snd s - Suc k)"
    using l n by simp
  also have "\<dots> = rev (map Some svs) ! (snd s - Suc k)" using l by (simp add: live_def)
  also have "\<dots> = Some (svs ! k)" using l n by (simp add: rev_nth)
  finally show ?thesis .
qed

lemma read_sub_live: "live s svs \<Longrightarrow> k < length svs \<Longrightarrow> read_sub s (Suc k) = Ok (svs ! k)"
  using live_nth [of s svs k] live_length [of s svs]
  by (auto simp: read_sub_def ptr_sub_def read_slot_def live_def)

lemma write_sub_live:
  assumes "live s svs" "k < length svs"
  shows "\<exists>m. write_sub s (Suc k) x = Ok (m, snd s) \<and> hp m = hp (fst s) \<and> frame (fst s) m \<and>
    live (m, snd s) (svs[k := x])"
proof -
  have n: "length svs = snd s" using assms by (simp add: live_length)
  then have "take (snd s) ((cells (fst s))[snd s - Suc k := Some x]) = (rev (map Some svs))[snd s - Suc k := Some x]"
    using assms by (simp add: live_def take_update_swap)
  also have "\<dots> = rev (map Some (svs[k := x]))" using assms n by (simp add: rev_update map_update)
  finally show ?thesis using assms n
    by (auto simp: write_sub_def ptr_sub_def write_slot_def live_def frame_def)
qed

lemma push_sv_live:
  assumes "live s svs" "room s 1"
  shows "\<exists>m. push_sv s x = Ok (m, Suc (snd s)) \<and> hp m = hp (fst s) \<and> frame (fst s) m \<and>
    live (m, Suc (snd s)) (x # svs)"
  using assms by (auto simp: push_sv_def write_slot_def live_def room_def frame_def take_Suc_conv_app_nth)

lemma pop_sv_live: "live s (x # svs) \<Longrightarrow> pop_sv s = Ok ((fst s, snd s - 1), x) \<and> live (fst s, snd s - 1) svs"
proof -
  assume l: "live s (x # svs)"
  then have n: "snd s = Suc (length svs)" using live_length [OF l] by simp
  have "take (length svs) (cells (fst s)) = take (length svs) (take (snd s) (cells (fst s)))" by (simp add: n)
  also have "\<dots> = rev (map Some svs)" using l by (simp add: live_def)
  finally show ?thesis using l n read_sub_live [OF l, of 0] by (auto simp: pop_sv_def live_def)
qed

section \<open>The heap operations\<close>

lemma decode_inline: "is_inline sv \<Longrightarrow> decode h sv = decode h' sv"
  by (auto simp: decode_def is_inline_def)

lemma decode_heap: "is_tagged_heap sv \<Longrightarrow> decode h sv = map_option fst (blocks h sv)"
  using not_inline_iff [of sv] by (auto simp: decode_def is_inline_def)

lemma heap_okD:
  assumes "heap_ok h rc" "is_tagged_heap a" "0 < rc a"
  obtains v where "blocks h a = Some (v, rc a)" "boxed v"
proof -
  have "block_ok (blocks h a) (rc a)" using assms by (simp add: heap_ok_def)
  then show ?thesis using assms(3) that by (cases "blocks h a") auto
qed

lemma arc_clone_ok:
  assumes "heap_ok h rc" "is_tagged_heap a" "0 < rc a"
  shows "\<exists>h'. arc_clone a h = Ok h' \<and> heap_ok h' (rc(a := rc a + 1)) \<and> decode h' = decode h"
proof -
  obtain v where v: "blocks h a = Some (v, rc a)" "boxed v" by (rule heap_okD [OF assms])
  let ?h = "h\<lparr>blocks := (blocks h)(a \<mapsto> (v, rc a + 1))\<rparr>"
  have "heap_ok ?h (rc(a := rc a + 1))" using assms v by (auto simp: heap_ok_def)
  moreover have "decode ?h = decode h" using v by (auto simp: decode_def fun_eq_iff)
  ultimately show ?thesis using v by (simp add: arc_clone_def)
qed

lemma arc_drop_ok:
  assumes "heap_ok h rc" "is_tagged_heap a" "0 < rc a"
  shows "\<exists>v h'. arc_drop a h = Ok (v, h') \<and> decode h a = Some v \<and> heap_ok h' (rc(a := rc a - 1)) \<and>
    (\<forall>b. b \<noteq> a \<or> 1 < rc a \<longrightarrow> decode h' b = decode h b)"
proof -
  obtain v where v: "blocks h a = Some (v, rc a)" "boxed v" by (rule heap_okD [OF assms])
  have d: "decode h a = Some v" using v assms(2) by (simp add: decode_heap)
  show ?thesis
  proof (cases "rc a = 1")
    case True
    let ?h = "h\<lparr>blocks := (blocks h)(a := None), avail := a # avail h\<rparr>"
    have "heap_ok ?h (rc(a := rc a - 1))" using assms v True by (auto simp: heap_ok_def)
    moreover have "b \<noteq> a \<Longrightarrow> decode ?h b = decode h b" for b by (auto simp: decode_def)
    ultimately show ?thesis using v d True by (auto simp: arc_drop_def)
  next
    case False
    let ?h = "h\<lparr>blocks := (blocks h)(a \<mapsto> (v, rc a - 1))\<rparr>"
    have "heap_ok ?h (rc(a := rc a - 1))" using assms v False by (auto simp: heap_ok_def)
    moreover have "decode ?h b = decode h b" for b using v by (auto simp: decode_def)
    ultimately show ?thesis using v d False assms(3) by (auto simp: arc_drop_def)
  qed
qed

lemma arc_new_ok:
  assumes "heap_ok h rc" "avail h = a # as" "boxed v"
  shows "\<exists>h'. arc_new v h = Ok (a, h') \<and> is_tagged_heap a \<and> rc a = 0 \<and> heap_ok h' (rc(a := 1)) \<and>
    decode h' a = Some v \<and> (\<forall>b. b \<noteq> a \<longrightarrow> decode h' b = decode h b) \<and> avail h' = as"
proof -
  let ?h = "h\<lparr>blocks := (blocks h)(a \<mapsto> (v, 1)), avail := as\<rparr>"
  have a: "is_tagged_heap a" "blocks h a = None" using assms by (auto simp: heap_ok_def)
  then have "rc a = 0" using assms(1) by (auto simp: heap_ok_def dest!: spec [of _ a])
  moreover have "heap_ok ?h (rc(a := 1))" using assms a by (auto simp: heap_ok_def)
  moreover have "decode ?h a = Some v" using a by (simp add: decode_heap)
  moreover have "b \<noteq> a \<Longrightarrow> decode ?h b = decode h b" for b by (auto simp: decode_def)
  ultimately show ?thesis using assms a by (auto simp: arc_new_def)
qed

text \<open>Reference counts of inline words do not matter.\<close>

lemma heap_ok_cong: "(\<And>a. is_tagged_heap a \<Longrightarrow> rc a = rc' a) \<Longrightarrow> heap_ok h rc \<Longrightarrow> heap_ok h rc'"
  by (simp add: heap_ok_def)

lemma clone_stack_value_ok:
  assumes "heap_ok h rc" "is_tagged_heap sv \<Longrightarrow> 0 < rc sv"
  shows "\<exists>h'. clone_stack_value sv h = Ok (sv, h') \<and> heap_ok h' (rc(sv := rc sv + 1)) \<and> decode h' = decode h"
proof (cases "is_tagged_heap sv")
  case True
  then show ?thesis using arc_clone_ok [OF assms(1) True assms(2) [OF True]] not_inline_iff [of sv]
    by (auto simp: clone_stack_value_def)
next
  case False
  then have "heap_ok h (rc(sv := rc sv + 1))" by (intro heap_ok_cong [OF _ assms(1)]) auto
  then show ?thesis using False not_inline_iff [of sv] by (auto simp: clone_stack_value_def)
qed

lemma stack_value_to_value_ok:
  assumes "heap_ok h rc" "is_tagged_heap sv \<Longrightarrow> 0 < rc sv"
  shows "\<exists>v h'. stack_value_to_value sv h = Ok (v, h') \<and> decode h sv = Some v \<and> heap_ok h' (rc(sv := rc sv - 1)) \<and>
    (\<forall>b. is_inline b \<or> b \<noteq> sv \<or> 1 < rc sv \<longrightarrow> decode h' b = decode h b)"
proof (cases "is_tagged_heap sv")
  case True
  then have "\<not> is_inline sv" using not_inline_iff [of sv] by simp
  then have "stack_value_to_value sv h = arc_drop sv h"
    by (simp add: stack_value_to_value_def is_inline_def)
  then show ?thesis using arc_drop_ok [OF assms(1) True assms(2) [OF True]] decode_inline by metis
next
  case False
  then have "heap_ok h (rc(sv := rc sv - 1))" by (intro heap_ok_cong [OF _ assms(1)]) auto
  moreover have "\<exists>v. stack_value_to_value sv h = Ok (v, h) \<and> decode h sv = Some v"
    using False not_inline_iff [of sv] by (auto simp: stack_value_to_value_def decode_def is_inline_def)
  ultimately show ?thesis by blast
qed

lemma drop_stack_value_ok:
  assumes "heap_ok h rc" "is_tagged_heap sv \<Longrightarrow> 0 < rc sv"
  shows "\<exists>h'. drop_stack_value sv h = Ok h' \<and> heap_ok h' (rc(sv := rc sv - 1)) \<and>
    (\<forall>b. is_inline b \<or> b \<noteq> sv \<or> 1 < rc sv \<longrightarrow> decode h' b = decode h b)"
proof (cases "is_inline sv")
  case True
  then have "heap_ok h (rc(sv := rc sv - 1))"
    using not_inline_iff [of sv] by (intro heap_ok_cong [OF _ assms(1)]) auto
  then show ?thesis using True by (simp add: drop_stack_value_def)
next
  case False
  then have "stack_value_to_value sv h = arc_drop sv h"
    by (simp add: stack_value_to_value_def is_inline_def)
  then show ?thesis using stack_value_to_value_ok [OF assms] False by (auto simp: drop_stack_value_def)
qed

section \<open>The operations keep ownership\<close>

text \<open>
  \<open>moves s s' keep\<close>: the outcome of an operation, its frame and that the slots \<open>keep\<close> still denote what they did.
\<close>

definition same_values :: "strand \<Rightarrow> strand \<Rightarrow> u64 list \<Rightarrow> bool" where
  "same_values s s' keep \<longleftrightarrow> frame (fst s) (fst s') \<and>
     (\<forall>sv \<in> set keep. decode (hp (fst s')) sv = decode (hp (fst s)) sv)"

lemma ownsD:
  "owns s ext svs \<Longrightarrow> live s svs" "owns s ext svs \<Longrightarrow> heap_ok (hp (fst s)) (\<lambda>a. count_list svs a + ext a)"
  by (simp_all add: owns_def)

lemma live_hp [simp]: "live (m\<lparr>hp := h\<rparr>, n) svs \<longleftrightarrow> live (m, n) svs"
  by (simp add: live_def)

lemma count_pos: "x \<in> set xs \<Longrightarrow> 0 < count_list xs x"
  by (metis count_list_0_iff gr0I)

lemma clone_sv_ok:
  assumes "live s svs" "heap_ok (hp (fst s)) rc" "is_tagged_heap x \<Longrightarrow> 0 < rc x"
  shows "\<exists>s'. clone_sv x s = Ok (x, s') \<and> live s' svs \<and> snd s' = snd s \<and> frame (fst s) (fst s') \<and>
    heap_ok (hp (fst s')) (rc(x := rc x + 1)) \<and> decode (hp (fst s')) = decode (hp (fst s))"
proof -
  obtain h' where "clone_stack_value x (hp (fst s)) = Ok (x, h')" "heap_ok h' (rc(x := rc x + 1))"
    "decode h' = decode (hp (fst s))"
    using clone_stack_value_ok [of "hp (fst s)" rc x] assms by blast
  then show ?thesis using assms(1) by (auto simp: clone_sv_def)
qed

lemma drop_sv_ok:
  assumes "live s svs" "heap_ok (hp (fst s)) rc" "is_tagged_heap x \<Longrightarrow> 0 < rc x"
  shows "\<exists>s'. drop_sv x s = Ok s' \<and> live s' svs \<and> snd s' = snd s \<and> frame (fst s) (fst s') \<and>
    heap_ok (hp (fst s')) (rc(x := rc x - 1)) \<and>
    (\<forall>b. is_inline b \<or> b \<noteq> x \<or> 1 < rc x \<longrightarrow> decode (hp (fst s')) b = decode (hp (fst s)) b)"
proof -
  obtain h' where "drop_stack_value x (hp (fst s)) = Ok h'" "heap_ok h' (rc(x := rc x - 1))"
    "\<forall>b. is_inline b \<or> b \<noteq> x \<or> 1 < rc x \<longrightarrow> decode h' b = decode (hp (fst s)) b"
    using drop_stack_value_ok [of "hp (fst s)" rc x] assms by blast
  then show ?thesis using assms(1) by (auto simp: drop_sv_def)
qed

lemma clone_push_ok:
  assumes "owns s ext svs" "x \<in> set svs" "room s 1"
  shows "\<exists>s'. try_bind (clone_sv x s) (\<lambda>(c, s). push_sv s c) = Ok s' \<and> owns s' ext (x # svs) \<and>
    same_values s s' svs \<and> snd s' = Suc (snd s)"
proof -
  note o = ownsD [OF assms(1)]
  obtain s1 where s1: "clone_sv x s = Ok (x, s1)" "live s1 svs" "snd s1 = snd s" "frame (fst s) (fst s1)"
    "heap_ok (hp (fst s1)) ((\<lambda>a. count_list svs a + ext a)(x := count_list svs x + ext x + 1))"
    "decode (hp (fst s1)) = decode (hp (fst s))"
    using clone_sv_ok [OF o, of x] count_pos [OF assms(2)] by auto
  have "room s1 1" using assms(3) s1(3,4) by (simp add: room_def frame_def)
  then obtain m where m: "push_sv s1 x = Ok (m, Suc (snd s1))" "hp m = hp (fst s1)" "frame (fst s1) m"
    "live (m, Suc (snd s1)) (x # svs)"
    using push_sv_live [OF s1(2)] by blast
  have "heap_ok (hp m) (\<lambda>a. count_list (x # svs) a + ext a)"
    unfolding m(2) by (rule heap_ok_cong [OF _ s1(5)]) simp
  then show ?thesis using s1 m frame_trans [OF s1(4) m(3)] by (auto simp: owns_def same_values_def)
qed

lemma drop_top_ok:
  assumes "owns s ext (x # svs)"
  shows "\<exists>s'. drop_top s = Ok s' \<and> owns s' ext svs \<and> same_values s s' svs \<and> snd s' = snd s - 1"
proof -
  note o = ownsD [OF assms]
  note p = pop_sv_live [OF o(1)]
  obtain s1 where s1: "drop_sv x (fst s, snd s - 1) = Ok s1" "live s1 svs" "snd s1 = snd s - 1"
    "frame (fst s) (fst s1)"
    "heap_ok (hp (fst s1)) ((\<lambda>a. count_list (x # svs) a + ext a)(x := count_list (x # svs) x + ext x - 1))"
    "\<forall>b. is_inline b \<or> b \<noteq> x \<or> 1 < count_list (x # svs) x + ext x \<longrightarrow> decode (hp (fst s1)) b = decode (hp (fst s)) b"
    using drop_sv_ok [of "(fst s, snd s - 1)" svs "\<lambda>a. count_list (x # svs) a + ext a" x] p o(2) by auto
  have "heap_ok (hp (fst s1)) (\<lambda>a. count_list svs a + ext a)"
    by (rule heap_ok_cong [OF _ s1(5)]) simp
  moreover have "decode (hp (fst s1)) b = decode (hp (fst s)) b" if "b \<in> set svs" for b
    using s1(6) count_pos [OF that] by auto
  ultimately show ?thesis using p s1 by (auto simp: drop_top_def owns_def same_values_def)
qed

lemma pop_ok:
  assumes "owns s ext (x # svs)"
  shows "\<exists>v s'. pop s = Ok (s', v) \<and> decode (hp (fst s)) x = Some v \<and> owns s' ext svs \<and>
    same_values s s' svs \<and> snd s' = snd s - 1"
proof -
  note o = ownsD [OF assms]
  note p = pop_sv_live [OF o(1)]
  let ?rc = "\<lambda>a. count_list (x # svs) a + ext a"
  obtain v h where v: "stack_value_to_value x (hp (fst s)) = Ok (v, h)" "decode (hp (fst s)) x = Some v"
    "heap_ok h (?rc(x := ?rc x - 1))"
    "\<forall>b. is_inline b \<or> b \<noteq> x \<or> 1 < ?rc x \<longrightarrow> decode h b = decode (hp (fst s)) b"
    using stack_value_to_value_ok [OF o(2), of x] by auto
  have "heap_ok h (\<lambda>a. count_list svs a + ext a)" by (rule heap_ok_cong [OF _ v(3)]) simp
  moreover have "decode h b = decode (hp (fst s)) b" if "b \<in> set svs" for b
    using v(4) count_pos [OF that] by auto
  ultimately show ?thesis using p v(1,2) by (auto simp: pop_def owns_def same_values_def)
qed

text \<open>The value as the tagged encoding keeps it.\<close>

fun norm_value :: "val \<Rightarrow> val" where
  "norm_value (VInt i) = VInt (wrap63 i)"
| "norm_value v = v"

lemma push_ok:
  assumes "owns s ext svs" "room s 1" "boxed v \<Longrightarrow> avail (hp (fst s)) \<noteq> []"
  shows "\<exists>sv s'. push s v = Ok s' \<and> owns s' ext (sv # svs) \<and> decode (hp (fst s')) sv = Some (norm_value v) \<and>
    same_values s s' svs \<and> snd s' = Suc (snd s) \<and> (\<not> boxed v \<longrightarrow> avail (hp (fst s')) = avail (hp (fst s)))"
proof -
  note o = ownsD [OF assms(1)]
  let ?rc = "\<lambda>a. count_list svs a + ext a"
  have "\<exists>sv h. value_to_stack_value v (hp (fst s)) = Ok (sv, h) \<and> decode h sv = Some (norm_value v) \<and>
      heap_ok h (\<lambda>a. count_list (sv # svs) a + ext a) \<and> (\<forall>b \<in> set svs. decode h b = decode (hp (fst s)) b) \<and>
      (\<not> boxed v \<longrightarrow> avail h = avail (hp (fst s)))"
  proof (cases "boxed v")
    case True
    obtain a as where a: "avail (hp (fst s)) = a # as" using assms(3) [OF True] by (cases "avail (hp (fst s))") auto
    obtain h where h: "arc_new v (hp (fst s)) = Ok (a, h)" "?rc a = 0" "heap_ok h (?rc(a := 1))"
      "decode h a = Some v" "\<forall>b. b \<noteq> a \<longrightarrow> decode h b = decode (hp (fst s)) b"
      using arc_new_ok [OF o(2) a True] by auto
    have "heap_ok h (\<lambda>b. count_list (a # svs) b + ext b)"
      by (rule heap_ok_cong [OF _ h(3)]) (use h(2) in auto)
    moreover have "a \<notin> set svs" using h(2) count_pos [of a svs] by auto
    moreover have "value_to_stack_value v (hp (fst s)) = arc_new v (hp (fst s))" "norm_value v = v"
      using True by (cases v; simp)+
    ultimately show ?thesis using h True by (intro exI [of _ a] exI [of _ h]) auto
  next
    case False
    then have "\<exists>sv. value_to_stack_value v (hp (fst s)) = Ok (sv, hp (fst s)) \<and> \<not> is_tagged_heap sv \<and>
      decode (hp (fst s)) sv = Some (norm_value v)"
      by (cases v) (auto simp: decode_def untag_tag)
    then obtain sv where sv: "value_to_stack_value v (hp (fst s)) = Ok (sv, hp (fst s))" "\<not> is_tagged_heap sv"
      "decode (hp (fst s)) sv = Some (norm_value v)" by blast
    have "heap_ok (hp (fst s)) (\<lambda>a. count_list (sv # svs) a + ext a)"
      by (rule heap_ok_cong [OF _ o(2)]) (use sv(2) in auto)
    then show ?thesis using sv by auto
  qed
  then obtain sv h where h: "value_to_stack_value v (hp (fst s)) = Ok (sv, h)" "decode h sv = Some (norm_value v)"
    "heap_ok h (\<lambda>a. count_list (sv # svs) a + ext a)" "\<forall>b \<in> set svs. decode h b = decode (hp (fst s)) b"
    "\<not> boxed v \<longrightarrow> avail h = avail (hp (fst s))" by blast
  have l: "live ((fst s)\<lparr>hp := h\<rparr>, snd s) svs" using o(1) by simp
  have r: "room ((fst s)\<lparr>hp := h\<rparr>, snd s) 1" using assms(2) by (simp add: room_def)
  obtain m where "push_sv ((fst s)\<lparr>hp := h\<rparr>, snd s) sv = Ok (m, Suc (snd s))" "hp m = h"
    "frame ((fst s)\<lparr>hp := h\<rparr>) m" "live (m, Suc (snd s)) (sv # svs)"
    using push_sv_live [OF l r, of sv] by auto
  then show ?thesis using h by (auto simp: push_def owns_def same_values_def frame_def)
qed

text \<open>Operations that only permute slots leave the heap alone.\<close>

lemma owns_permute:
  assumes "owns s ext svs" "live s' svs'" "mset svs' = mset svs" "hp (fst s') = hp (fst s)"
  shows "owns s' ext svs'"
  using assms by (auto simp: owns_def count_mset [symmetric])

lemma write_two:
  assumes "live s svs" "i < length svs" "j < length svs"
  shows "\<exists>m. try_bind (write_sub s (Suc i) x) (\<lambda>s. write_sub s (Suc j) y) = Ok (m, snd s) \<and>
    hp m = hp (fst s) \<and> frame (fst s) m \<and> live (m, snd s) (svs[i := x, j := y])"
proof -
  obtain m1 where m1: "write_sub s (Suc i) x = Ok (m1, snd s)" "hp m1 = hp (fst s)" "frame (fst s) m1"
    "live (m1, snd s) (svs[i := x])" using write_sub_live [OF assms(1,2), of x] by auto
  obtain m2 where "write_sub (m1, snd s) (Suc j) y = Ok (m2, snd s)" "hp m2 = hp m1" "frame m1 m2"
    "live (m2, snd s) (svs[i := x, j := y])"
    using write_sub_live [OF m1(4), of j y] assms(3) by auto
  then show ?thesis using m1 frame_trans [OF m1(3)] by auto
qed

lemma swap_live:
  assumes "live s (b # a # svs)"
  shows "\<exists>m. patch_seq_swap s = Ok (m, snd s) \<and> hp m = hp (fst s) \<and> frame (fst s) m \<and> live (m, snd s) (a # b # svs)"
  using write_two [OF assms, of 1 0 b a] read_sub_live [OF assms, of 0] read_sub_live [OF assms, of 1]
  by (auto simp: patch_seq_swap_def numeral_2_eq_2)

lemma rot_live:
  assumes "live s (c # b # a # svs)"
  shows "\<exists>m. patch_seq_rot s = Ok (m, snd s) \<and> hp m = hp (fst s) \<and> frame (fst s) m \<and> live (m, snd s) (a # c # b # svs)"
proof -
  obtain m1 where m1: "write_sub s 3 b = Ok (m1, snd s)" "hp m1 = hp (fst s)" "frame (fst s) m1"
    "live (m1, snd s) (c # b # b # svs)"
    using write_sub_live [OF assms, of 2 b] by (auto simp: numeral_3_eq_3 numeral_2_eq_2)
  obtain m2 where m2: "try_bind (write_sub (m1, snd s) 2 c) (\<lambda>s. write_sub s 1 a) = Ok (m2, snd s)" "hp m2 = hp m1"
    "frame m1 m2" "live (m2, snd s) (a # c # b # svs)"
    using write_two [OF m1(4), of 1 0 c a] by (auto simp: numeral_2_eq_2)
  show ?thesis
    using m1 m2 read_sub_live [OF assms, of 0] read_sub_live [OF assms, of 1] read_sub_live [OF assms, of 2]
      frame_trans [OF m1(3) m2(3)]
    by (auto simp: patch_seq_rot_def numeral_3_eq_3 numeral_2_eq_2)
qed

lemma swap_ok:
  assumes "owns s ext (b # a # svs)"
  shows "\<exists>s'. patch_seq_swap s = Ok s' \<and> owns s' ext (a # b # svs) \<and> same_values s s' (a # b # svs) \<and> snd s' = snd s"
proof -
  obtain m where m: "patch_seq_swap s = Ok (m, snd s)" "hp m = hp (fst s)" "frame (fst s) m" "live (m, snd s) (a # b # svs)"
    using swap_live [OF ownsD(1) [OF assms]] by blast
  have "owns (m, snd s) ext (a # b # svs)" by (rule owns_permute [OF assms m(4)]) (auto simp: m(2))
  then show ?thesis using m by (auto simp: same_values_def)
qed

lemma rot_ok:
  assumes "owns s ext (c # b # a # svs)"
  shows "\<exists>s'. patch_seq_rot s = Ok s' \<and> owns s' ext (a # c # b # svs) \<and> same_values s s' (a # c # b # svs) \<and> snd s' = snd s"
proof -
  obtain m where m: "patch_seq_rot s = Ok (m, snd s)" "hp m = hp (fst s)" "frame (fst s) m" "live (m, snd s) (a # c # b # svs)"
    using rot_live [OF ownsD(1) [OF assms]] by blast
  have "owns (m, snd s) ext (a # c # b # svs)" by (rule owns_permute [OF assms m(4)]) (auto simp: m(2))
  then show ?thesis using m by (auto simp: same_values_def)
qed

lemma nip_ok:
  assumes "owns s ext (b # a # svs)"
  shows "\<exists>s'. patch_seq_nip s = Ok s' \<and> owns s' ext (b # svs) \<and> same_values s s' (b # svs) \<and> snd s' = snd s - 1"
proof -
  note o = ownsD [OF assms]
  let ?rc = "\<lambda>x. count_list (b # a # svs) x + ext x"
  have pos: "is_tagged_heap a \<Longrightarrow> 0 < ?rc a" "is_tagged_heap b \<Longrightarrow> 0 < ?rc b" by auto
  obtain s1 where s1: "drop_sv a s = Ok s1" "live s1 (b # a # svs)" "snd s1 = snd s" "frame (fst s) (fst s1)"
    "heap_ok (hp (fst s1)) (?rc(a := ?rc a - 1))"
    "\<forall>x. is_inline x \<or> x \<noteq> a \<or> 1 < ?rc a \<longrightarrow> decode (hp (fst s1)) x = decode (hp (fst s)) x"
    using drop_sv_ok [OF o pos(1)] by blast
  obtain m where m: "write_sub s1 2 b = Ok (m, snd s)" "hp m = hp (fst s1)" "frame (fst s1) m"
    "live (m, snd s) (b # b # svs)"
    using write_sub_live [OF s1(2), of 1 b] s1(3) by (auto simp: numeral_2_eq_2)
  have "heap_ok (hp m) (\<lambda>x. count_list (b # svs) x + ext x)"
    unfolding m(2) by (rule heap_ok_cong [OF _ s1(5)]) auto
  moreover have "decode (hp m) x = decode (hp (fst s)) x" if "x \<in> set (b # svs)" for x
    using s1(6) count_pos [OF that] by (auto simp: m(2) split: if_splits)
  moreover have "live (m, snd s - 1) (b # svs)" using pop_sv_live [OF m(4)] by simp
  ultimately show ?thesis
    using s1 m read_sub_live [OF o(1), of 0] read_sub_live [OF o(1), of 1] frame_trans [OF s1(4) m(3)]
    by (auto simp: patch_seq_nip_def numeral_2_eq_2 owns_def same_values_def)
qed

lemma tuck_ok:
  assumes "owns s ext (b # a # svs)" "room s 1"
  shows "\<exists>s'. patch_seq_tuck s = Ok s' \<and> owns s' ext (b # a # b # svs) \<and> same_values s s' (b # a # svs) \<and> snd s' = Suc (snd s)"
proof -
  note o = ownsD [OF assms(1)]
  let ?rc = "\<lambda>x. count_list (b # a # svs) x + ext x"
  have pos: "is_tagged_heap a \<Longrightarrow> 0 < ?rc a" "is_tagged_heap b \<Longrightarrow> 0 < ?rc b" by auto
  obtain s1 where s1: "clone_sv b s = Ok (b, s1)" "live s1 (b # a # svs)" "snd s1 = snd s" "frame (fst s) (fst s1)"
    "heap_ok (hp (fst s1)) (?rc(b := ?rc b + 1))" "decode (hp (fst s1)) = decode (hp (fst s))"
    using clone_sv_ok [OF o pos(2)] by blast
  obtain m where m: "try_bind (write_sub s1 2 b) (\<lambda>s. write_sub s 1 a) = Ok (m, snd s1)" "hp m = hp (fst s1)"
    "frame (fst s1) m" "live (m, snd s1) (a # b # svs)"
    using write_two [OF s1(2), of 1 0 b a] by (auto simp: numeral_2_eq_2)
  have "room (m, snd s1) 1" using assms(2) s1(3,4) m(3) by (simp add: room_def frame_def)
  then obtain m' where m': "push_sv (m, snd s1) b = Ok (m', Suc (snd s1))" "hp m' = hp m" "frame m m'"
    "live (m', Suc (snd s1)) (b # a # b # svs)"
    using push_sv_live [OF m(4)] by auto
  have "heap_ok (hp m') (\<lambda>x. count_list (b # a # b # svs) x + ext x)"
    unfolding m'(2) m(2) by (rule heap_ok_cong [OF _ s1(5)]) auto
  moreover have "frame (fst s) m'" using s1(4) m(3) m'(3) by (blast intro: frame_trans)
  moreover obtain m0 where "write_sub s1 2 b = Ok m0" "write_sub m0 1 a = Ok (m, snd s1)"
    using m(1) by (cases "write_sub s1 2 b") auto
  ultimately show ?thesis
    using s1 m m' read_sub_live [OF o(1), of 0] read_sub_live [OF o(1), of 1]
    by (auto simp: patch_seq_tuck_def numeral_2_eq_2 owns_def same_values_def)
qed

lemma two_dup_ok:
  assumes "owns s ext (b # a # svs)" "room s 2"
  shows "\<exists>s'. patch_seq_2dup s = Ok s' \<and> owns s' ext (b # a # b # a # svs) \<and> same_values s s' (b # a # svs) \<and>
    snd s' = Suc (Suc (snd s))"
proof -
  note o = ownsD [OF assms(1)]
  let ?rc = "\<lambda>x. count_list (b # a # svs) x + ext x"
  have pos: "is_tagged_heap a \<Longrightarrow> 0 < ?rc a" "is_tagged_heap b \<Longrightarrow> 0 < ?rc b" by auto
  obtain s1 where s1: "clone_sv a s = Ok (a, s1)" "live s1 (b # a # svs)" "snd s1 = snd s" "frame (fst s) (fst s1)"
    "heap_ok (hp (fst s1)) (?rc(a := ?rc a + 1))" "decode (hp (fst s1)) = decode (hp (fst s))"
    using clone_sv_ok [OF o pos(1)] by blast
  have pos2: "is_tagged_heap b \<Longrightarrow> 0 < (?rc(a := ?rc a + 1)) b" by auto
  obtain s2 where s2: "clone_sv b s1 = Ok (b, s2)" "live s2 (b # a # svs)" "snd s2 = snd s" "frame (fst s1) (fst s2)"
    "heap_ok (hp (fst s2)) ((?rc(a := ?rc a + 1))(b := (?rc(a := ?rc a + 1)) b + 1))"
    "decode (hp (fst s2)) = decode (hp (fst s1))"
    using clone_sv_ok [OF s1(2,5) pos2] unfolding s1(3) by blast
  have r: "room s2 1" using assms(2) s1(4) s2(3,4) by (simp add: room_def frame_def)
  obtain m3 where m3: "push_sv s2 a = Ok (m3, Suc (snd s))" "hp m3 = hp (fst s2)" "frame (fst s2) m3"
    "live (m3, Suc (snd s)) (a # b # a # svs)"
    using push_sv_live [OF s2(2) r] s2(3) by auto
  have "room (m3, Suc (snd s)) 1" using assms(2) s1(4) s2(4) m3(3) by (simp add: room_def frame_def)
  then obtain m4 where m4: "push_sv (m3, Suc (snd s)) b = Ok (m4, Suc (Suc (snd s)))" "hp m4 = hp m3" "frame m3 m4"
    "live (m4, Suc (Suc (snd s))) (b # a # b # a # svs)"
    using push_sv_live [OF m3(4)] by auto
  have "heap_ok (hp m4) (\<lambda>x. count_list (b # a # b # a # svs) x + ext x)"
    unfolding m4(2) m3(2) by (rule heap_ok_cong [OF _ s2(5)]) auto
  moreover have "frame (fst s) m4" using s1(4) s2(4) m3(3) m4(3) by (blast intro: frame_trans)
  ultimately show ?thesis
    using s1 s2 m3 m4 read_sub_live [OF o(1), of 0] read_sub_live [OF o(1), of 1]
    by (auto simp: patch_seq_2dup_def numeral_2_eq_2 owns_def same_values_def)
qed

section \<open>The abstract stack\<close>

text \<open>
  What the shuffle words mean on a list of values, the top first: the stack effects of the comments.
\<close>

datatype shuffle = Dup | Drop | Swap | Over | Rot | Nip | Tuck | TwoDup | Pick | Roll

fun shuffle_fixed :: "shuffle \<Rightarrow> 'a list \<Rightarrow> 'a list option" where
  "shuffle_fixed Dup (a # r) = Some (a # a # r)"
| "shuffle_fixed Drop (a # r) = Some r"
| "shuffle_fixed Swap (b # a # r) = Some (a # b # r)"
| "shuffle_fixed Over (b # a # r) = Some (a # b # a # r)"
| "shuffle_fixed Rot (c # b # a # r) = Some (a # c # b # r)"
| "shuffle_fixed Nip (b # a # r) = Some (b # r)"
| "shuffle_fixed Tuck (b # a # r) = Some (b # a # b # r)"
| "shuffle_fixed TwoDup (b # a # r) = Some (b # a # b # a # r)"
| "shuffle_fixed _ _ = None"

definition roll_list :: "nat \<Rightarrow> 'a list \<Rightarrow> 'a list" where
  "roll_list n xs = xs ! n # take n xs @ drop (Suc n) xs"

definition shuffle_spec :: "shuffle \<Rightarrow> val list \<Rightarrow> val list option" where
  "shuffle_spec op vs = (case (op, vs) of
       (Pick, VInt n # r) \<Rightarrow> if 0 \<le> sint n \<and> unat n < length r then Some (r ! unat n # r) else None
     | (Roll, VInt n # r) \<Rightarrow> if 0 \<le> sint n \<and> unat n < length r then Some (roll_list (unat n) r) else None
     | _ \<Rightarrow> shuffle_fixed op vs)"

lemma shuffle_fixed_map: "shuffle_fixed op (map f xs) = map_option (map f) (shuffle_fixed op xs)"
  by (cases "(op, xs)" rule: shuffle_fixed.cases) auto

lemma roll_list_map: "n < length xs \<Longrightarrow> roll_list n (map f xs) = map f (roll_list n xs)"
  by (simp add: roll_list_def take_map drop_map)

fun run_shuffle :: "shuffle \<Rightarrow> strand \<Rightarrow> fault + strand" where
  "run_shuffle Dup = patch_seq_dup"
| "run_shuffle Drop = patch_seq_drop_op"
| "run_shuffle Swap = patch_seq_swap"
| "run_shuffle Over = patch_seq_over"
| "run_shuffle Rot = patch_seq_rot"
| "run_shuffle Nip = patch_seq_nip"
| "run_shuffle Tuck = patch_seq_tuck"
| "run_shuffle TwoDup = patch_seq_2dup"
| "run_shuffle Pick = patch_seq_pick_op"
| "run_shuffle Roll = patch_seq_roll"

lemma pop_represents:
  assumes "represents s ext (v # vs)"
  shows "\<exists>s'. pop s = Ok (s', v) \<and> represents s' ext vs \<and> frame (fst s) (fst s') \<and> snd s = Suc (snd s')"
proof -
  obtain x svs where x: "owns s ext (x # svs)" "decode (hp (fst s)) x = Some v"
    "map (decode (hp (fst s))) svs = map Some vs"
    using assms by (auto simp: represents_def map_eq_Cons_conv)
  obtain s' where s': "pop s = Ok (s', v)" "owns s' ext svs" "same_values s s' svs" "snd s' = snd s - 1"
    using pop_ok [OF x(1)] x(2) by auto
  have "map (decode (hp (fst s'))) svs = map Some vs"
    using s'(3) x(3) by (simp add: same_values_def cong: map_cong)
  then show ?thesis using s' live_length [OF ownsD(1) [OF x(1)]] by (auto simp: represents_def same_values_def)
qed

lemma push_represents:
  assumes "represents s ext vs" "room s 1" "boxed v \<Longrightarrow> avail (hp (fst s)) \<noteq> []"
  shows "\<exists>s'. push s v = Ok s' \<and> represents s' ext (norm_value v # vs) \<and> frame (fst s) (fst s') \<and> snd s' = Suc (snd s)"
proof -
  obtain svs where o: "owns s ext svs" "map (decode (hp (fst s))) svs = map Some vs"
    using assms(1) by (auto simp: represents_def)
  obtain sv s' where s': "push s v = Ok s'" "owns s' ext (sv # svs)" "decode (hp (fst s')) sv = Some (norm_value v)"
    "same_values s s' svs" "snd s' = Suc (snd s)" using push_ok [OF o(1) assms(2,3)] by blast
  have "map (decode (hp (fst s'))) (sv # svs) = map Some (norm_value v # vs)"
    using s'(3,4) o(2) by (simp add: same_values_def cong: map_cong)
  then show ?thesis using s' unfolding represents_def same_values_def by blast
qed

lemma representsI:
  assumes "owns s' ext svs'" "same_values s s' svs'" "map (decode (hp (fst s))) svs' = map Some vs'"
  shows "represents s' ext vs'"
proof -
  have "map (decode (hp (fst s'))) svs' = map Some vs'"
    using assms(2,3) by (simp add: same_values_def cong: map_cong)
  then show ?thesis using assms(1) by (auto simp: represents_def)
qed

lemma represents_split:
  assumes "represents s ext vs"
  obtains svs where "owns s ext svs" "map (decode (hp (fst s))) svs = map Some vs" "length svs = length vs"
  using assms unfolding represents_def by (metis length_map)

lemma index_after_pop:
  assumes "represents s ext (VInt n # vs)" "0 \<le> sint n"
  shows "\<exists>s'. pop_and_validate_index s op = Ok (Inr (s', unat n)) \<and> represents s' ext vs \<and> frame (fst s) (fst s') \<and>
    snd s = Suc (snd s')"
  using pop_represents [OF assms(1)] assms(2) by (auto simp: pop_and_validate_index_def not_less)

lemma represents_depth: "represents s ext vs \<Longrightarrow> snd s = length vs"
  by (metis represents_def ownsD(1) live_length length_map)

lemma check_depth_ok:
  assumes "represents s ext vs" "stack_base (fst s) = Some 0" "n < length vs"
  shows "check_depth_for_index s n op = Ok (s, True)"
  using assms represents_depth [OF assms(1)] by (simp add: check_depth_for_index_def stack_depth_of_def)

lemma clone_at_ok:
  assumes "represents s ext vs" "n < length vs" "room s 1"
  shows "\<exists>s'. try_bind (read_sub s (Suc n)) (\<lambda>sv. try_bind (clone_sv sv s) (\<lambda>(c, s). push_sv s c)) = Ok s' \<and>
    represents s' ext (vs ! n # vs) \<and> frame (fst s) (fst s') \<and> snd s' = Suc (snd s)"
proof -
  obtain svs where o: "owns s ext svs" "map (decode (hp (fst s))) svs = map Some vs" "length svs = length vs"
    by (rule represents_split [OF assms(1)])
  then have mem: "svs ! n \<in> set svs" "n < length svs" using assms(2) by simp_all
  then obtain s' where s': "try_bind (clone_sv (svs ! n) s) (\<lambda>(c, s). push_sv s c) = Ok s'"
    "owns s' ext (svs ! n # svs)" "same_values s s' svs" "snd s' = Suc (snd s)"
    using clone_push_ok [OF o(1) _ assms(3)] by blast
  have "map (decode (hp (fst s))) (svs ! n # svs) = map Some (vs ! n # vs)"
    using o(2,3) assms(2) by simp (metis nth_map)
  then have "represents s' ext (vs ! n # vs)"
    by (rule representsI [OF s'(2), rotated]) (use s'(3) mem in \<open>auto simp: same_values_def\<close>)
  then show ?thesis
    using s' read_sub_live [OF ownsD(1) [OF o(1)] mem(2)] by (auto simp: same_values_def)
qed

text \<open>The block move of \<open>roll\<close>.\<close>

lemma roll_slots:
  assumes "live s svs" "n < length svs" "0 < n"
  shows "\<exists>m. try_bind (ptr_sub (snd s) (Suc n)) (\<lambda>src. try_bind (read_slot (fst s) src) (\<lambda>saved.
      try_bind (copy_down (fst s) src n) (\<lambda>m. write_sub (m, snd s) 1 saved))) = Ok (m, snd s) \<and>
    hp m = hp (fst s) \<and> frame (fst s) m \<and> live (m, snd s) (roll_list n svs)"
proof -
  define C where "C = cells (fst s)"
  define src where "src = snd s - Suc n"
  have len: "length svs = snd s" "snd s \<le> length C" using assms by (auto simp: live_length live_def C_def)
  then have src: "snd s = src + Suc n" "src + n < length C" using assms(2) by (auto simp: src_def)
  have L: "take (snd s) C = rev (map Some svs)" using assms(1) by (simp add: live_def C_def)
  define C' where "C' = take src C @ take n (drop (Suc src) C) @ drop (src + n) C"
  have low: "take src C = rev (map Some (drop (Suc n) svs))"
  proof -
    have "take src C = take src (take (snd s) C)" using src by simp
    also have "\<dots> = rev (map Some (drop (Suc n) svs))"
      unfolding L using len src by (simp add: take_rev drop_map)
    finally show ?thesis .
  qed
  have mid: "take n (drop (Suc src) C) = rev (map Some (take n svs))"
  proof -
    have "take n (drop (Suc src) C) = drop (Suc src) (take (snd s) C)" using src by (simp add: take_drop add.commute)
    also have "\<dots> = rev (map Some (take n svs))"
      unfolding L using len src by (simp add: drop_rev take_map)
    finally show ?thesis .
  qed
  have len': "length C' = length C" "length (take src C) = src" "length (take n (drop (Suc src) C)) = n"
    using src by (auto simp: C'_def)
  have "take (snd s) (C'[src + n := Some (svs ! n)]) = take src C @ take n (drop (Suc src) C) @ [Some (svs ! n)]"
    using src len' by (simp add: C'_def list_update_append take_Suc_conv_app_nth)
  also have "\<dots> = rev (map Some (svs ! n # take n svs @ drop (Suc n) svs))" by (simp add: low mid)
  finally have live': "live ((fst s)\<lparr>cells := C'[src + n := Some (svs ! n)]\<rparr>, snd s)
      (roll_list n svs)"
    using len len' by (simp add: live_def roll_list_def)
  have "read_slot (fst s) src = Ok (svs ! n)"
    using live_nth [OF assms(1,2)] src(2) by (simp add: read_slot_def C_def flip: src_def)
  moreover have "copy_down (fst s) src n = Ok ((fst s)\<lparr>cells := C'\<rparr>)"
    using src by (simp add: copy_down_def C'_def C_def)
  moreover have "write_sub ((fst s)\<lparr>cells := C'\<rparr>, snd s) 1 (svs ! n) =
      Ok ((fst s)\<lparr>cells := C'[src + n := Some (svs ! n)]\<rparr>, snd s)"
    using src len' by (simp add: write_sub_def ptr_sub_def write_slot_def)
  ultimately show ?thesis using live' src len' by (auto simp: ptr_sub_def frame_def C_def)
qed

lemma mset_roll: "n < length xs \<Longrightarrow> mset (roll_list n xs) = mset xs"
  unfolding roll_list_def
  by (metis append_take_drop_id Cons_nth_drop_Suc mset_append mset.simps(2) union_mset_add_mset_right)

text \<open>\<open>roll\<close> once the index has been popped.\<close>

definition roll_by :: "nat \<Rightarrow> strand \<Rightarrow> fault + strand" where
  "roll_by n s =
     (if n = 0 then Ok s
      else if n = 1 then patch_seq_swap s
      else if n = 2 then patch_seq_rot s
      else try_bind (check_depth_for_index s n ''roll'') (\<lambda>(s, ok).
        if \<not> ok then Ok s
        else try_bind (ptr_sub (snd s) (n + 1)) (\<lambda>src.
             try_bind (read_slot (fst s) src) (\<lambda>saved.
             try_bind (copy_down (fst s) src n) (\<lambda>m. write_sub (m, snd s) 1 saved)))))"

lemma roll_unfold:
  "patch_seq_roll s = try_bind (pop_and_validate_index s ''roll'') (\<lambda>r. case r of
       Inl s \<Rightarrow> Ok s | Inr (s, n) \<Rightarrow> roll_by n s)"
  unfolding patch_seq_roll_def roll_by_def ..

lemma list_two: "1 < length xs \<Longrightarrow> \<exists>b a r. xs = b # a # r"
  by (cases xs; cases "tl xs"; auto)

lemma list_three: "2 < length xs \<Longrightarrow> \<exists>c b a r. xs = c # b # a # r"
  by (cases xs; cases "tl xs"; cases "tl (tl xs)"; auto)

lemma roll_by_live:
  assumes "live s svs" "n < length svs" "check_depth_for_index s n ''roll'' = Ok (s, True)"
  shows "\<exists>m. roll_by n s = Ok (m, snd s) \<and> hp m = hp (fst s) \<and> frame (fst s) m \<and>
    live (m, snd s) (roll_list n svs)"
proof -
  consider "n = 0" | "n = 1" | "n = 2" | "n \<noteq> 0" "n \<noteq> 1" "n \<noteq> 2" by blast
  then show ?thesis
  proof cases
    case 1
    then have "roll_list n svs = svs" using assms(2) by (cases svs) (auto simp: roll_list_def)
    then show ?thesis using 1 assms(1) by (simp add: roll_by_def) (metis frame_refl(1) prod.collapse)
  next
    case 2
    then obtain b a r where "svs = b # a # r" using list_two [of svs] assms(2) by auto
    then show ?thesis using swap_live [of s b a r] assms(1) 2 by (simp add: roll_by_def roll_list_def)
  next
    case 3
    then obtain c b a r where "svs = c # b # a # r" using list_three [of svs] assms(2) by auto
    then show ?thesis using rot_live [of s c b a r] assms(1) 3 by (simp add: roll_by_def roll_list_def numeral_2_eq_2)
  next
    case 4
    then show ?thesis using roll_slots [OF assms(1,2)] assms(3) by (simp add: roll_by_def)
  qed
qed

lemma roll_ok:
  assumes "represents s ext (VInt n # vs)" "0 \<le> sint n" "unat n < length vs" "stack_base (fst s) = Some 0"
  shows "\<exists>s'. patch_seq_roll s = Ok s' \<and> represents s' ext (roll_list (unat n) vs) \<and>
    frame (fst s) (fst s') \<and> snd s' \<le> snd s"
proof -
  obtain s1 where s1: "pop_and_validate_index s ''roll'' = Ok (Inr (s1, unat n))" "represents s1 ext vs"
    "frame (fst s) (fst s1)" "snd s = Suc (snd s1)" using index_after_pop [OF assms(1,2)] by blast
  obtain svs where o: "owns s1 ext svs" "map (decode (hp (fst s1))) svs = map Some vs" "length svs = length vs"
    by (rule represents_split [OF s1(2)])
  then have n: "unat n < length svs" using assms(3) by simp
  have "stack_base (fst s1) = Some 0" using assms(4) s1(3) by (simp add: frame_def)
  then have chk: "check_depth_for_index s1 (unat n) ''roll'' = Ok (s1, True)"
    by (rule check_depth_ok [OF s1(2) _ assms(3)])
  obtain m where m: "roll_by (unat n) s1 = Ok (m, snd s1)" "hp m = hp (fst s1)" "frame (fst s1) m"
    "live (m, snd s1) (roll_list (unat n) svs)"
    using roll_by_live [OF ownsD(1) [OF o(1)] n chk] by blast
  have "owns (m, snd s1) ext (roll_list (unat n) svs)"
    by (rule owns_permute [OF o(1) m(4) mset_roll [OF n]]) (simp add: m(2))
  moreover have "map (decode (hp (fst s1))) (roll_list (unat n) svs) = map Some (roll_list (unat n) vs)"
    using roll_list_map [OF n] roll_list_map [OF assms(3)] o(2) by metis
  ultimately have "represents (m, snd s1) ext (roll_list (unat n) vs)"
    using m by (auto intro: representsI simp: same_values_def)
  then show ?thesis using m(1) s1 frame_trans [OF s1(3) m(3)] by (auto simp: roll_unfold)
qed

lemma pick_ok:
  assumes "represents s ext (VInt n # vs)" "0 \<le> sint n" "unat n < length vs" "stack_base (fst s) = Some 0"
  shows "\<exists>s'. patch_seq_pick_op s = Ok s' \<and> represents s' ext (vs ! unat n # vs) \<and>
    frame (fst s) (fst s') \<and> snd s' \<le> snd s"
proof -
  obtain s1 where s1: "pop_and_validate_index s ''pick'' = Ok (Inr (s1, unat n))" "represents s1 ext vs"
    "frame (fst s) (fst s1)" "snd s = Suc (snd s1)" using index_after_pop [OF assms(1,2)] by blast
  have "stack_base (fst s1) = Some 0" using assms(4) s1(3) by (simp add: frame_def)
  then have chk: "check_depth_for_index s1 (unat n) ''pick'' = Ok (s1, True)"
    by (rule check_depth_ok [OF s1(2) _ assms(3)])
  have "snd s \<le> length (cells (fst s))" using assms(1) by (auto simp: represents_def owns_def live_def)
  then have "room s1 1" using s1(3,4) by (simp add: room_def frame_def)
  then obtain s' where "try_bind (read_sub s1 (Suc (unat n))) (\<lambda>sv. try_bind (clone_sv sv s1) (\<lambda>(c, s). push_sv s c)) = Ok s'"
    "represents s' ext (vs ! unat n # vs)" "frame (fst s1) (fst s')" "snd s' = Suc (snd s1)"
    using clone_at_ok [OF s1(2) assms(3)] by blast
  then show ?thesis using s1 chk frame_trans [OF s1(3)] by (auto simp: patch_seq_pick_op_def)
qed

section \<open>Refinement\<close>

lemma fixed_shuffle_step:
  assumes "owns s ext svs" "shuffle_fixed op svs = Some svs'" "room s 2"
  shows "\<exists>s'. run_shuffle op s = Ok s' \<and> owns s' ext svs' \<and> same_values s s' svs' \<and> snd s' \<le> snd s + 2"
proof -
  have r1: "room s 1" using assms(3) by (simp add: room_def)
  note l = ownsD(1) [OF assms(1)]
  show ?thesis using assms
  proof (cases "(op, svs)" rule: shuffle_fixed.cases)
    case (1 a r)
    with assms r1 l clone_push_ok [of s ext svs a] read_sub_live [OF l, of 0] show ?thesis
      by (fastforce simp: patch_seq_dup_def peek_sv_def same_values_def)
  next
    case (2 a r)
    with assms drop_top_ok [of s ext a r] show ?thesis by (fastforce simp: patch_seq_drop_op_def)
  next
    case (3 b a r)
    with assms swap_ok [of s ext b a r] show ?thesis by fastforce
  next
    case (4 b a r)
    with assms r1 clone_push_ok [of s ext svs a] read_sub_live [OF l, of 1] show ?thesis
      by (fastforce simp: patch_seq_over_def numeral_2_eq_2 same_values_def)
  next
    case (5 c b a r)
    with assms rot_ok [of s ext c b a r] show ?thesis by fastforce
  next
    case (6 b a r)
    with assms nip_ok [of s ext b a r] show ?thesis by fastforce
  next
    case (7 b a r)
    with assms r1 tuck_ok [of s ext b a r] show ?thesis by (fastforce simp: same_values_def)
  next
    case (8 b a r)
    with assms two_dup_ok [of s ext b a r] show ?thesis by (fastforce simp: same_values_def)
  qed auto
qed

lemma shuffle_step:
  assumes "represents s ext vs" "shuffle_spec op vs = Some vs'" "room s 2" "stack_base (fst s) = Some 0"
  shows "\<exists>s'. run_shuffle op s = Ok s' \<and> represents s' ext vs' \<and> frame (fst s) (fst s') \<and> snd s' \<le> snd s + 2"
proof -
  consider (pick) n r where "op = Pick" "vs = VInt n # r" | (roll) n r where "op = Roll" "vs = VInt n # r"
    | (fixed) "shuffle_spec op vs = shuffle_fixed op vs"
    unfolding shuffle_spec_def by (cases op; cases vs; cases "hd vs") auto
  then show ?thesis
  proof cases
    case pick
    with assms pick_ok [of s ext n r] show ?thesis
      by (fastforce simp: shuffle_spec_def split: if_splits)
  next
    case roll
    with assms roll_ok [of s ext n r] show ?thesis
      by (fastforce simp: shuffle_spec_def split: if_splits)
  next
    case fixed
    obtain svs where o: "owns s ext svs" "map (decode (hp (fst s))) svs = map Some vs"
      by (rule represents_split [OF assms(1)])
    have "shuffle_fixed op (map (decode (hp (fst s))) svs) = Some (map Some vs')"
      using assms(2) fixed by (simp add: o(2) shuffle_fixed_map)
    then obtain svs' where svs': "shuffle_fixed op svs = Some svs'" "map (decode (hp (fst s))) svs' = map Some vs'"
      by (auto simp: shuffle_fixed_map)
    then show ?thesis using fixed_shuffle_step [OF o(1) svs'(1) assms(3)] representsI
      by (fastforce simp: same_values_def)
  qed
qed

text \<open>Sequences of shuffle words, on the memory and on lists.\<close>

fun run_shuffles :: "shuffle list \<Rightarrow> strand \<Rightarrow> fault + strand" where
  "run_shuffles [] s = Ok s"
| "run_shuffles (op # ops) s = try_bind (run_shuffle op s) (run_shuffles ops)"

fun shuffles_spec :: "shuffle list \<Rightarrow> val list \<Rightarrow> val list option" where
  "shuffles_spec [] vs = Some vs"
| "shuffles_spec (op # ops) vs = Option.bind (shuffle_spec op vs) (shuffles_spec ops)"

lemma shuffles_refine:
  "represents s ext vs \<Longrightarrow> shuffles_spec ops vs = Some vs' \<Longrightarrow> room s (2 * length ops) \<Longrightarrow>
   stack_base (fst s) = Some 0 \<Longrightarrow> \<exists>s'. run_shuffles ops s = Ok s' \<and> represents s' ext vs' \<and> frame (fst s) (fst s')"
proof (induction ops arbitrary: s vs)
  case (Cons op ops)
  then obtain vs1 where vs1: "shuffle_spec op vs = Some vs1" "shuffles_spec ops vs1 = Some vs'"
    by (auto split: Option.bind_splits)
  have "room s 2" using Cons.prems(3) by (simp add: room_def)
  then obtain s1 where s1: "run_shuffle op s = Ok s1" "represents s1 ext vs1" "frame (fst s) (fst s1)" "snd s1 \<le> snd s + 2"
    using shuffle_step [OF Cons.prems(1) vs1(1) _ Cons.prems(4)] by blast
  have "room s1 (2 * length ops)" "stack_base (fst s1) = Some 0"
    using Cons.prems(3,4) s1(3,4) by (auto simp: room_def frame_def)
  then obtain s' where "run_shuffles ops s1 = Ok s'" "represents s' ext vs'" "frame (fst s1) (fst s')"
    using Cons.IH [OF s1(2) vs1(2)] by blast
  then show ?case using s1 frame_trans [OF s1(3)] by auto
qed auto

section \<open>The interface of the stack\<close>

text \<open>
  What the operations built on \<open>push\<close> and \<open>pop\<close> rely on: popping returns the top value and frees a
  slot, pushing a value that needs no allocation succeeds while there is space and leaves the value as
  the encoding keeps it.
\<close>

locale value_stack =
  fixes rep :: "'s \<Rightarrow> val list \<Rightarrow> bool"
    and space :: "'s \<Rightarrow> nat \<Rightarrow> bool"
    and put :: "'s \<Rightarrow> val \<Rightarrow> fault + 's"
    and take_top :: "'s \<Rightarrow> fault + ('s \<times> val)"
  assumes take_law: "rep s (v # vs) \<Longrightarrow> space s n \<Longrightarrow>
      \<exists>s'. take_top s = Ok (s', v) \<and> rep s' vs \<and> space s' (Suc n)"
    and put_law: "rep s vs \<Longrightarrow> space s (Suc n) \<Longrightarrow> \<not> boxed v \<Longrightarrow>
      \<exists>s'. put s v = Ok s' \<and> rep s' (norm_value v # vs) \<and> space s' n"
    and space_0: "rep s vs \<Longrightarrow> space s 0"
begin

definition take_two :: "'s \<Rightarrow> fault + ('s \<times> val \<times> val)" where
  "take_two s = try_bind (take_top s) (\<lambda>(s, b). try_bind (take_top s) (\<lambda>(s, a). Ok (s, a, b)))"

lemma take_two_law:
  assumes "rep s (b # a # vs)"
  shows "\<exists>s'. take_two s = Ok (s', a, b) \<and> rep s' vs \<and> space s' 2"
proof -
  obtain s1 where s1: "take_top s = Ok (s1, b)" "rep s1 (a # vs)" "space s1 (Suc 0)"
    using take_law [OF assms space_0 [OF assms]] by blast
  then show ?thesis using take_law [OF s1(2,3)] by (auto simp: take_two_def numeral_2_eq_2)
qed

lemma put_two_law:
  assumes "rep s vs" "space s 2" "\<not> boxed v" "\<not> boxed w"
  shows "\<exists>s'. try_bind (put s v) (\<lambda>s. put s w) = Ok s' \<and> rep s' (norm_value w # norm_value v # vs)"
proof -
  obtain s1 where s1: "put s v = Ok s1" "rep s1 (norm_value v # vs)" "space s1 (Suc 0)"
    using put_law [OF assms(1) _ assms(3), of 1] assms(2) by (auto simp: numeral_2_eq_2)
  then show ?thesis using put_law [OF s1(2,3) assms(4)] by auto
qed

lemma replace_one:
  assumes "rep s (a # vs)" "\<not> boxed (f a)"
  shows "\<exists>s'. try_bind (take_top s) (\<lambda>(s, a). put s (f a)) = Ok s' \<and> rep s' (norm_value (f a) # vs)"
proof -
  obtain s1 where s1: "take_top s = Ok (s1, a)" "rep s1 vs" "space s1 (Suc 0)"
    using take_law [OF assms(1) space_0 [OF assms(1)]] by blast
  then show ?thesis using put_law [OF s1(2,3) assms(2)] by auto
qed

lemma replace_two:
  assumes "rep s (b # a # vs)" "\<not> boxed (f a b)"
  shows "\<exists>s'. try_bind (take_two s) (\<lambda>(s, a, b). put s (f a b)) = Ok s' \<and> rep s' (norm_value (f a b) # vs)"
proof -
  obtain s1 where s1: "take_two s = Ok (s1, a, b)" "rep s1 vs" "space s1 (Suc 1)"
    using take_two_law [OF assms(1)] by (auto simp: numeral_2_eq_2)
  then show ?thesis using put_law [OF s1(2,3) assms(2)] by auto
qed

end

interpretation rs: value_stack "\<lambda>s vs. represents s ext vs" room push pop for ext
proof unfold_locales
  fix s v vs n
  assume *: "represents s ext (v # vs)" "room s n"
  then show "\<exists>s'. pop s = Ok (s', v) \<and> represents s' ext vs \<and> room s' (Suc n)"
    using pop_represents [OF *(1)] by (auto simp: room_def frame_def)
next
  fix s v vs n
  assume *: "represents s ext vs" "room s (Suc n)" "\<not> boxed v"
  then have "room s 1" by (simp add: room_def)
  then show "\<exists>s'. push s v = Ok s' \<and> represents s' ext (norm_value v # vs) \<and> room s' n"
    using push_represents [OF *(1), of v] * by (auto simp: room_def frame_def)
next
  fix s vs assume "represents s ext vs"
  then show "room s 0" by (auto simp: room_def represents_def owns_def live_def)
qed

lemma pop_two_eq: "pop_two = rs.take_two"
  by (simp add: fun_eq_iff pop_two_def rs.take_two_def)

section \<open>Indices out of range\<close>

lemma index_rejected:
  assumes "represents s ext (VInt n # vs)" "sint n < 0"
  shows "\<exists>s' msg. pop_and_validate_index s op = Ok (Inl s') \<and> represents s' ext vs \<and> last_error (fst s') = Some msg"
proof -
  obtain s1 where s1: "pop s = Ok (s1, VInt n)" "represents s1 ext vs" using pop_represents [OF assms(1)] by blast
  have "represents (set_runtime_error msg s1) ext vs" for msg
    using s1(2) by (simp add: represents_def owns_def live_def set_runtime_error_def)
  then show ?thesis using s1(1) assms(2) by (auto simp: pop_and_validate_index_def set_runtime_error_def)
qed

lemma represents_error [simp]: "represents (set_runtime_error msg s) ext vs \<longleftrightarrow> represents s ext vs"
  by (simp add: represents_def owns_def live_def set_runtime_error_def)

lemma last_error_set [simp]: "last_error (fst (set_runtime_error msg s)) = Some msg"
  by (simp add: set_runtime_error_def)

lemma check_depth_fails:
  assumes "represents s ext vs" "stack_base (fst s) = Some 0" "length vs \<le> n"
  shows "check_depth_for_index s n op = Ok (set_runtime_error (depth_error op n (length vs)) s, False)"
  using assms represents_depth [OF assms(1)] by (simp add: check_depth_for_index_def stack_depth_of_def)

lemma pick_rejects:
  assumes "represents s ext (VInt n # vs)" "stack_base (fst s) = Some 0" "sint n < 0 \<or> length vs \<le> unat n"
  shows "\<exists>s' msg. patch_seq_pick_op s = Ok s' \<and> represents s' ext vs \<and> last_error (fst s') = Some msg"
proof (cases "sint n < 0")
  case True
  then show ?thesis using index_rejected [OF assms(1) True, of "''pick''"] by (auto simp: patch_seq_pick_op_def)
next
  case False
  then obtain s1 where s1: "pop_and_validate_index s ''pick'' = Ok (Inr (s1, unat n))" "represents s1 ext vs"
    "frame (fst s) (fst s1)" using index_after_pop [OF assms(1)] by (meson not_less)
  have "stack_base (fst s1) = Some 0" using assms(2) s1(3) by (simp add: frame_def)
  then have "check_depth_for_index s1 (unat n) ''pick'' = Ok (set_runtime_error (depth_error ''pick'' (unat n) (length vs)) s1, False)"
    using check_depth_fails [OF s1(2)] assms(3) False by blast
  then show ?thesis using s1 by (auto simp: patch_seq_pick_op_def)
qed

lemma roll_rejects:
  assumes "represents s ext (VInt n # vs)" "stack_base (fst s) = Some 0" "sint n < 0 \<or> length vs \<le> unat n \<and> 2 < unat n"
  shows "\<exists>s' msg. patch_seq_roll s = Ok s' \<and> represents s' ext vs \<and> last_error (fst s') = Some msg"
proof (cases "sint n < 0")
  case True
  then show ?thesis using index_rejected [OF assms(1) True, of "''roll''"] by (auto simp: roll_unfold)
next
  case False
  then obtain s1 where s1: "pop_and_validate_index s ''roll'' = Ok (Inr (s1, unat n))" "represents s1 ext vs"
    "frame (fst s) (fst s1)" using index_after_pop [OF assms(1)] by (meson not_less)
  have "stack_base (fst s1) = Some 0" using assms(2) s1(3) by (simp add: frame_def)
  then have "check_depth_for_index s1 (unat n) ''roll'' = Ok (set_runtime_error (depth_error ''roll'' (unat n) (length vs)) s1, False)"
    using check_depth_fails [OF s1(2)] assms(3) False by blast
  then show ?thesis using s1 assms(3) False by (auto simp: roll_unfold roll_by_def)
qed

section \<open>Cloning a stack\<close>

lemma clone_slots_ok:
  "heap_ok h rc \<Longrightarrow> (\<forall>sv \<in> set svs. is_tagged_heap sv \<longrightarrow> 0 < rc sv) \<Longrightarrow>
   \<exists>h'. clone_slots (map Some svs) h = Ok (map Some svs, h') \<and> heap_ok h' (\<lambda>a. count_list svs a + rc a) \<and>
     decode h' = decode h"
proof (induction svs arbitrary: h rc)
  case (Cons sv svs)
  obtain h1 where h1: "clone_stack_value sv h = Ok (sv, h1)" "heap_ok h1 (rc(sv := rc sv + 1))" "decode h1 = decode h"
    using clone_stack_value_ok [of h rc sv] Cons.prems by auto
  have "\<forall>x \<in> set svs. is_tagged_heap x \<longrightarrow> 0 < (rc(sv := rc sv + 1)) x" using Cons.prems(2) by auto
  then obtain h2 where h2: "clone_slots (map Some svs) h1 = Ok (map Some svs, h2)"
    "heap_ok h2 (\<lambda>a. count_list svs a + (rc(sv := rc sv + 1)) a)" "decode h2 = decode h1"
    using Cons.IH [OF h1(2)] by blast
  have "heap_ok h2 (\<lambda>a. count_list (sv # svs) a + rc a)"
    by (rule heap_ok_cong [OF _ h2(2)]) auto
  then show ?case using h1 h2 by auto
qed auto

text \<open>
  The clone and the original both own their slots afterwards: each counts the other's references as
  external.
\<close>

lemma clone_stack_ok:
  assumes "owns s ext svs" "stack_base (fst s) = Some 0" "svs \<noteq> []"
  shows "\<exists>cs h. clone_stack_with_base s = Ok (cs, snd s, h) \<and> DEFAULT_STACK_CAPACITY \<le> length cs \<and>
    owns ((fst s)\<lparr>hp := h\<rparr>, snd s) (\<lambda>a. count_list svs a + ext a) svs \<and>
    owns ((fst s)\<lparr>cells := cs, hp := h\<rparr>, snd s) (\<lambda>a. count_list svs a + ext a) svs \<and>
    decode h = decode (hp (fst s))"
proof -
  note o = ownsD [OF assms(1)]
  have n: "snd s = length svs" "snd s \<noteq> 0" "snd s \<le> length (cells (fst s))"
    using live_length [OF o(1)] assms(3) o(1) by (auto simp: live_def simp flip: length_greater_0_conv)
  have pos: "\<forall>sv \<in> set (rev svs). is_tagged_heap sv \<longrightarrow> 0 < count_list svs sv + ext sv"
    by (auto simp: count_pos)
  obtain h where h: "clone_slots (map Some (rev svs)) (hp (fst s)) = Ok (map Some (rev svs), h)"
    "heap_ok h (\<lambda>a. count_list (rev svs) a + (count_list svs a + ext a))" "decode h = decode (hp (fst s))"
    using clone_slots_ok [OF o(2) pos] by blast
  let ?cs = "map Some (rev svs) @ replicate (max (snd s) DEFAULT_STACK_CAPACITY - snd s) None"
  have "clone_stack_with_base s = Ok (?cs, snd s, h)"
    using n o(1) h(1) assms(2) by (simp add: clone_stack_with_base_def Let_def live_def rev_map)
  moreover have "live ((fst s)\<lparr>cells := ?cs, hp := h\<rparr>, snd s) svs"
    using n by (simp add: live_def rev_map)
  moreover have "live ((fst s)\<lparr>hp := h\<rparr>, snd s) svs" using o(1) by simp
  ultimately show ?thesis using h n by (auto simp: owns_def)
qed

section \<open>Properties\<close>

text \<open>A strand that holds the given integers, the first on top, and \<open>n\<close> free slots.\<close>

definition int_strand :: "i64 list \<Rightarrow> nat \<Rightarrow> strand" where
  "int_strand is n =
     (\<lparr>cells = rev (map (\<lambda>i. Some (tag_int i)) is) @ replicate n None, origin = 0, stack_base = Some 0,
       hp = \<lparr>blocks = (\<lambda>_. None), avail = [8, 16]\<rparr>, last_error = None\<rparr>, length is)"

lemma int_strand_simps [simp]:
  "stack_base (fst (int_strand is n)) = Some 0" "room (int_strand is n) k \<longleftrightarrow> k \<le> n"
  "avail (hp (fst (int_strand is n))) = [8, 16]"
  by (simp_all add: int_strand_def room_def)

lemma int_strand_owns: "owns (int_strand is n) (\<lambda>_. 0) (map tag_int is)"
proof -
  have "is_tagged_heap 8" "is_tagged_heap 16" by (simp_all add: is_tagged_heap_def TAG_TRUE_def)
  moreover have "count_list (map tag_int is) a = 0" if "is_tagged_heap a" for a
    using that by (auto simp: count_list_0_iff)
  ultimately show ?thesis
    by (auto simp: owns_def live_def heap_ok_def int_strand_def rev_map comp_def)
qed

lemma int_strand_represents: "represents (int_strand is n) (\<lambda>_. 0) (map (\<lambda>i. VInt (wrap63 i)) is)"
  using int_strand_owns [of "is" n]
  by (auto simp: represents_def decode_def untag_tag intro!: exI [of _ "map tag_int is"])

lemma wrap63_small [simp]: "wrap63 0 = 0" "wrap63 1 = 1" "wrap63 (numeral k) = word_of_int (signed_take_bit 62 (sint (numeral k :: i64)))"
  by (simp_all add: wrap63_def)

text \<open>C2: The shuffle words refine operations on a list of values.  From memory that represents a list of values
  and owns its heap references, with space for two values per word, any sequence of \<open>dup\<close>, \<open>drop\<close>, \<open>swap\<close>,
  \<open>over\<close>, \<open>rot\<close>, \<open>nip\<close>, \<open>tuck\<close>, \<open>2dup\<close>, \<open>pick\<close> and \<open>roll\<close> whose stack effects apply runs without touching
  memory outside the live slots or a freed value, and ends in memory that represents the shuffled list, every
  reference count still being the number of references.\<close>

theorem shuffle_words_refine:
  assumes "represents s ext vs" "shuffles_spec ops vs = Some vs'" "room s (2 * length ops)"
    and "stack_base (fst s) = Some 0"
  shows "\<exists>s'. run_shuffles ops s = Ok s' \<and> represents s' ext vs' \<and> frame (fst s) (fst s')"
  by (rule shuffles_refine [OF assms])

theorem shuffle_words_refine_witness:
  "\<exists>s'. run_shuffles [Roll, Swap, Dup] (int_strand [2, 10, 20, 30] 6) = Ok s' \<and>
     represents s' (\<lambda>_. 0) [VInt 10, VInt 10, VInt 30, VInt 20]"
proof -
  have r: "represents (int_strand [2, 10, 20, 30] 6) (\<lambda>_. 0) [VInt 2, VInt 10, VInt 20, VInt 30]"
    using int_strand_represents [of "[2, 10, 20, 30]" 6] by simp
  have "shuffles_spec [Roll, Swap, Dup] [VInt 2, VInt 10, VInt 20, VInt 30] =
      Some [VInt 10, VInt 10, VInt 30, VInt 20]"
    by code_simp
  from shuffle_words_refine [OF r this] show ?thesis by auto
qed

text \<open>C11: A value pushed is the value popped, as the encoding keeps it: pushing any value, heap-allocated ones
  included, and popping it returns it with integers cut to 63 bits, and leaves the stack and all reference
  counts as they were.\<close>

theorem push_pop_round_trip:
  assumes "represents s ext vs" "room s 1" "boxed v \<longrightarrow> avail (hp (fst s)) \<noteq> []"
  shows "\<exists>s1 s2. push s v = Ok s1 \<and> represents s1 ext (norm_value v # vs) \<and>
    pop s1 = Ok (s2, norm_value v) \<and> represents s2 ext vs"
proof -
  obtain s1 where s1: "push s v = Ok s1" "represents s1 ext (norm_value v # vs)"
    using push_represents [OF assms(1,2)] assms(3) by blast
  then show ?thesis using pop_represents [OF s1(2)] by blast
qed

theorem push_pop_round_trip_witness:
  "\<exists>s1 s2. push (int_strand [5] 3) (VString ''hi'') = Ok s1 \<and> pop s1 = Ok (s2, VString ''hi'') \<and>
     represents s2 (\<lambda>_. 0) [VInt 5]"
  using push_pop_round_trip [OF int_strand_represents, of "[5]" 3 "VString ''hi''"] by auto

text \<open>C23: A bad index is reported, not followed: for a negative index or one beyond the stack, \<open>pick\<close> returns the
  stack without the index and sets a runtime error, and \<open>roll\<close> does the same for a negative index and for
  indices from 3 on.\<close>

theorem pick_roll_reject_bad_index:
  assumes "represents s ext (VInt n # vs)" "stack_base (fst s) = Some 0"
  shows "(sint n < 0 \<or> length vs \<le> unat n \<longrightarrow>
      (\<exists>s' msg. patch_seq_pick_op s = Ok s' \<and> represents s' ext vs \<and> last_error (fst s') = Some msg)) \<and>
    (sint n < 0 \<or> length vs \<le> unat n \<and> 2 < unat n \<longrightarrow>
      (\<exists>s' msg. patch_seq_roll s = Ok s' \<and> represents s' ext vs \<and> last_error (fst s') = Some msg))"
  using pick_rejects [OF assms] roll_rejects [OF assms] by blast

theorem pick_roll_reject_bad_index_witness:
  "\<exists>s' msg. patch_seq_pick_op (int_strand [4, 7] 3) = Ok s' \<and> represents s' (\<lambda>_. 0) [VInt 7] \<and>
     last_error (fst s') = Some msg"
proof -
  have r: "represents (int_strand [4, 7] 3) (\<lambda>_. 0) [VInt 4, VInt 7]"
    using int_strand_represents [of "[4, 7]" 3] by simp
  from pick_roll_reject_bad_index [OF r] show ?thesis by simp
qed

text \<open>With index 1 or 2 and too few values below it, \<open>roll\<close> takes the shortcut to \<open>swap\<close> or \<open>rot\<close> before any
  depth check and reads below the bottom of the stack: undefined behaviour, where \<open>pick\<close> reports an error.\<close>

lemma roll_small_index_underflow:
  assumes "represents s ext (VInt n # vs)" "0 < sint n" "length vs \<le> unat n" "unat n \<le> 2"
  shows "patch_seq_roll s = Err Undefined"
proof -
  have "0 \<le> sint n" using assms(2) by simp
  then obtain s1 where s1: "pop_and_validate_index s ''roll'' = Ok (Inr (s1, unat n))" "represents s1 ext vs"
    using index_after_pop [OF assms(1)] by blast
  have d: "snd s1 = length vs" by (rule represents_depth [OF s1(2)])
  have "unat n \<noteq> 0" using assms(2) by (metis unat_eq_zero signed_0 less_irrefl)
  then have "unat n = 1 \<or> unat n = 2" using assms(4) by linarith
  then have "roll_by (unat n) s1 = Err Undefined"
    using d assms(3)
    by (auto simp: roll_by_def patch_seq_swap_def patch_seq_rot_def read_sub_def ptr_sub_def)
  then show ?thesis using s1 by (simp add: roll_unfold)
qed

lemma roll_small_index_underflow_witness: "patch_seq_roll (int_strand [1, 7] 3) = Err Undefined"
proof -
  have r: "represents (int_strand [1, 7] 3) (\<lambda>_. 0) (VInt 1 # [VInt 7])"
    using int_strand_represents [of "[1, 7]" 3] by simp
  from roll_small_index_underflow [OF r] show ?thesis by simp
qed

text \<open>C13: Cloning a stack for a new strand shares the heap soundly: both buffers hold the same words, both own
  their slots when each counts the other's references as external, and all values are unchanged.\<close>

theorem clone_stack_shares_ownership:
  assumes "owns s ext svs" "stack_base (fst s) = Some 0" "svs \<noteq> []"
  shows "\<exists>cs h. clone_stack_with_base s = Ok (cs, snd s, h) \<and> DEFAULT_STACK_CAPACITY \<le> length cs \<and>
    owns ((fst s)\<lparr>hp := h\<rparr>, snd s) (\<lambda>a. count_list svs a + ext a) svs \<and>
    owns ((fst s)\<lparr>cells := cs, hp := h\<rparr>, snd s) (\<lambda>a. count_list svs a + ext a) svs \<and>
    decode h = decode (hp (fst s))"
  by (rule clone_stack_ok [OF assms])

theorem clone_stack_shares_ownership_witness:
  "\<exists>cs h. clone_stack_with_base (int_strand [1, 7] 3) = Ok (cs, 2, h) \<and> DEFAULT_STACK_CAPACITY \<le> length cs"
  using clone_stack_shares_ownership [OF int_strand_owns, of "[1, 7]" 3]
  by (auto simp: int_strand_def)

end
