(* ===== verification/Arithmetic.thy ===== *)
theory Arithmetic
  imports Runtime_Stack
begin

unbundle bit_operations_syntax

text \<open>
  The integer operations of the runtime, after \<open>crates/runtime/src/arithmetic/\<close>: \<open>arith.rs\<close>,
  \<open>bitwise.rs\<close>, \<open>compare.rs\<close> and \<open>peek.rs\<close>.  Each pops its operands, computes on \<open>i64\<close> and pushes
  the result, which the tagged encoding cuts to 63 bits.  The specification is over the mathematical
  integers.
\<close>

section \<open>Rust's integer primitives\<close>

definition i64_wrapping_div :: "i64 \<Rightarrow> i64 \<Rightarrow> i64" where
  "i64_wrapping_div a b = word_of_int (sint a sdiv sint b)"

definition i64_wrapping_rem :: "i64 \<Rightarrow> i64 \<Rightarrow> i64" where
  "i64_wrapping_rem a b = word_of_int (sint a smod sint b)"

definition i64_checked_pow :: "i64 \<Rightarrow> nat \<Rightarrow> i64 option" where
  "i64_checked_pow base e = (let r = sint base ^ e in
     if - (2 ^ 63) \<le> r \<and> r < 2 ^ 63 then Some (word_of_int r) else None)"

definition count_ones :: "u64 \<Rightarrow> nat" where
  "count_ones v = length (filter (bit v) [0..<64])"

definition leading_zeros :: "i64 \<Rightarrow> nat" where
  "leading_zeros v = length (takeWhile (\<lambda>i. \<not> bit v i) (rev [0..<64]))"

definition trailing_zeros :: "i64 \<Rightarrow> nat" where
  "trailing_zeros v = length (takeWhile (\<lambda>i. \<not> bit v i) [0..<64])"

text \<open>\<open>saturating_sub(1)\<close> on an \<open>i64\<close> saturates at the least \<open>i64\<close>.\<close>

definition i64_saturating_sub :: "int \<Rightarrow> int \<Rightarrow> int" where
  "i64_saturating_sub a b = max (- (2 ^ 63)) (min (2 ^ 63 - 1) (a - b))"

section \<open>The operations\<close>

definition patch_seq_push_int :: "strand \<Rightarrow> i64 \<Rightarrow> fault + strand" where
  "patch_seq_push_int stack value = push stack (VInt value)"

definition patch_seq_push_bool :: "strand \<Rightarrow> bool \<Rightarrow> fault + strand" where
  "patch_seq_push_bool stack value = push stack (VBool value)"

text \<open>The \<open>match\<close> on two popped integers, with the panic of the other cases.\<close>

definition on_two_ints :: "string \<Rightarrow> strand \<Rightarrow> (strand \<Rightarrow> i64 \<Rightarrow> i64 \<Rightarrow> fault + strand) \<Rightarrow> fault + strand" where
  "on_two_ints msg stack k = try_bind (pop_two stack) (\<lambda>(rest, a, b). case (a, b) of
       (VInt a_val, VInt b_val) \<Rightarrow> k rest a_val b_val
     | _ \<Rightarrow> Err (Panic msg))"

definition on_int :: "string \<Rightarrow> strand \<Rightarrow> (strand \<Rightarrow> i64 \<Rightarrow> fault + strand) \<Rightarrow> fault + strand" where
  "on_int msg stack k = try_bind (pop stack) (\<lambda>(rest, a). case a of
       VInt a_val \<Rightarrow> k rest a_val
     | _ \<Rightarrow> Err (Panic msg))"

definition patch_seq_add :: "strand \<Rightarrow> fault + strand" where
  "patch_seq_add stack = on_two_ints ''add: expected two integers on stack'' stack
     (\<lambda>rest a b. push rest (VInt (a + b)))"

definition patch_seq_subtract :: "strand \<Rightarrow> fault + strand" where
  "patch_seq_subtract stack = on_two_ints ''subtract: expected two integers on stack'' stack
     (\<lambda>rest a b. push rest (VInt (a - b)))"

definition patch_seq_multiply :: "strand \<Rightarrow> fault + strand" where
  "patch_seq_multiply stack = on_two_ints ''multiply: expected two integers on stack'' stack
     (\<lambda>rest a b. push rest (VInt (a * b)))"

text \<open>A result and its success flag.\<close>

definition push_flagged :: "strand \<Rightarrow> i64 \<Rightarrow> bool \<Rightarrow> fault + strand" where
  "push_flagged rest v ok = try_bind (push rest (VInt v)) (\<lambda>stack. push stack (VBool ok))"

definition patch_seq_divide :: "strand \<Rightarrow> fault + strand" where
  "patch_seq_divide stack = on_two_ints ''divide: expected two integers on stack'' stack
     (\<lambda>rest a b. if b = 0 then push_flagged rest 0 False else push_flagged rest (i64_wrapping_div a b) True)"

definition patch_seq_pow :: "strand \<Rightarrow> fault + strand" where
  "patch_seq_pow stack = on_two_ints ''pow: expected two integers on stack'' stack
     (\<lambda>rest base e.
        case (if 0 \<le> sint e \<and> sint e \<le> 2 ^ 32 - 1 then i64_checked_pow base (nat (sint e)) else None) of
          Some v \<Rightarrow> push_flagged rest v True
        | None \<Rightarrow> push_flagged rest 0 False)"

definition patch_seq_modulo :: "strand \<Rightarrow> fault + strand" where
  "patch_seq_modulo stack = on_two_ints ''modulo: expected two integers on stack'' stack
     (\<lambda>rest a b. if b = 0 then push_flagged rest 0 False else push_flagged rest (i64_wrapping_rem a b) True)"

definition patch_seq_band :: "strand \<Rightarrow> fault + strand" where
  "patch_seq_band stack = on_two_ints ''band: expected two integers on stack'' stack
     (\<lambda>rest a b. push rest (VInt (a AND b)))"

definition patch_seq_bor :: "strand \<Rightarrow> fault + strand" where
  "patch_seq_bor stack = on_two_ints ''bor: expected two integers on stack'' stack
     (\<lambda>rest a b. push rest (VInt (a OR b)))"

definition patch_seq_bxor :: "strand \<Rightarrow> fault + strand" where
  "patch_seq_bxor stack = on_two_ints ''bxor: expected two integers on stack'' stack
     (\<lambda>rest a b. push rest (VInt (a XOR b)))"

definition patch_seq_bnot :: "strand \<Rightarrow> fault + strand" where
  "patch_seq_bnot stack = on_int ''bnot: expected integer on stack'' stack (\<lambda>rest a. push rest (VInt (NOT a)))"

definition shl_result :: "i64 \<Rightarrow> i64 \<Rightarrow> i64" where
  "shl_result v c =
     (if \<not> (0 \<le> sint c \<and> sint c < 64) then 0
      else let raw = push_bit (nat (sint c)) v in if fits_in_i63 raw then raw else 0)"

definition patch_seq_shl :: "strand \<Rightarrow> fault + strand" where
  "patch_seq_shl stack = on_two_ints ''shl: expected two integers on stack'' stack
     (\<lambda>rest v c. push rest (VInt (shl_result v c)))"

definition shr_result :: "i64 \<Rightarrow> i64 \<Rightarrow> i64" where
  "shr_result v c =
     (if \<not> (0 \<le> sint c \<and> sint c < 64) then 0
      else let raw = drop_bit (nat (sint c)) v in if fits_in_i63 raw then raw else 0)"

definition patch_seq_shr :: "strand \<Rightarrow> fault + strand" where
  "patch_seq_shr stack = on_two_ints ''shr: expected two integers on stack'' stack
     (\<lambda>rest v c. push rest (VInt (shr_result v c)))"

definition I63_MASK :: u64 where
  "I63_MASK = push_bit 63 1 - 1"

definition patch_seq_popcount :: "strand \<Rightarrow> fault + strand" where
  "patch_seq_popcount stack = on_int ''popcount: expected integer on stack'' stack
     (\<lambda>rest v. push rest (VInt (of_nat (count_ones (v AND I63_MASK)))))"

definition patch_seq_clz :: "strand \<Rightarrow> fault + strand" where
  "patch_seq_clz stack = on_int ''clz: expected integer on stack'' stack
     (\<lambda>rest v. push rest (VInt (word_of_int (i64_saturating_sub (int (leading_zeros v)) 1))))"

definition patch_seq_ctz :: "strand \<Rightarrow> fault + strand" where
  "patch_seq_ctz stack = on_int ''ctz: expected integer on stack'' stack
     (\<lambda>rest v. push rest (VInt (if v = 0 then 63 else of_nat (trailing_zeros v))))"

definition patch_seq_int_bits :: "strand \<Rightarrow> fault + strand" where
  "patch_seq_int_bits stack = push stack (VInt 63)"

definition patch_seq_eq :: "strand \<Rightarrow> fault + strand" where
  "patch_seq_eq stack = on_two_ints ''=: expected two integers on stack'' stack
     (\<lambda>rest a b. push rest (VBool (a = b)))"

definition patch_seq_lt :: "strand \<Rightarrow> fault + strand" where
  "patch_seq_lt stack = on_two_ints ''<: expected two integers on stack'' stack
     (\<lambda>rest a b. push rest (VBool (a <s b)))"

definition patch_seq_gt :: "strand \<Rightarrow> fault + strand" where
  "patch_seq_gt stack = on_two_ints ''>: expected two integers on stack'' stack
     (\<lambda>rest a b. push rest (VBool (b <s a)))"

definition patch_seq_lte :: "strand \<Rightarrow> fault + strand" where
  "patch_seq_lte stack = on_two_ints ''<=: expected two integers on stack'' stack
     (\<lambda>rest a b. push rest (VBool (a \<le>s b)))"

definition patch_seq_gte :: "strand \<Rightarrow> fault + strand" where
  "patch_seq_gte stack = on_two_ints ''>=: expected two integers on stack'' stack
     (\<lambda>rest a b. push rest (VBool (b \<le>s a)))"

definition patch_seq_neq :: "strand \<Rightarrow> fault + strand" where
  "patch_seq_neq stack = on_two_ints ''<>: expected two integers on stack'' stack
     (\<lambda>rest a b. push rest (VBool (a \<noteq> b)))"

definition patch_seq_and :: "strand \<Rightarrow> fault + strand" where
  "patch_seq_and stack = on_two_ints ''and: expected two integers on stack'' stack
     (\<lambda>rest a b. push rest (VInt (if a \<noteq> 0 \<and> b \<noteq> 0 then 1 else 0)))"

definition patch_seq_or :: "strand \<Rightarrow> fault + strand" where
  "patch_seq_or stack = on_two_ints ''or: expected two integers on stack'' stack
     (\<lambda>rest a b. push rest (VInt (if a \<noteq> 0 \<or> b \<noteq> 0 then 1 else 0)))"

definition patch_seq_not :: "strand \<Rightarrow> fault + strand" where
  "patch_seq_not stack = on_int ''not: expected integer on stack'' stack
     (\<lambda>rest a. push rest (VInt (if a = 0 then 1 else 0)))"

definition patch_seq_peek_int_value :: "strand \<Rightarrow> fault + (strand \<times> i64)" where
  "patch_seq_peek_int_value stack = try_bind (peek stack) (\<lambda>(stack, v). case v of
       VInt i \<Rightarrow> Ok (stack, i)
     | _ \<Rightarrow> Err (Panic ''peek_int_value: expected Int on stack''))"

definition patch_seq_peek_bool_value :: "strand \<Rightarrow> fault + (strand \<times> bool)" where
  "patch_seq_peek_bool_value stack = try_bind (peek stack) (\<lambda>(stack, v). case v of
       VBool b \<Rightarrow> Ok (stack, b)
     | _ \<Rightarrow> Err (Panic ''peek_bool_value: expected Bool on stack''))"

definition patch_seq_pop_stack :: "strand \<Rightarrow> fault + strand" where
  "patch_seq_pop_stack stack = try_bind (pop stack) (\<lambda>(rest, _). Ok rest)"

section \<open>The specification\<close>

text \<open>Cutting an integer to 63 bits, and the words of the language on integers.\<close>

definition wrap :: "int \<Rightarrow> int" where
  "wrap i = (i + 2 ^ 62) mod 2 ^ 63 - 2 ^ 62"

definition vint :: "int \<Rightarrow> val" where
  "vint i = VInt (word_of_int i)"

datatype int_op2 =
    Add | Subtract | Multiply | Divide | Modulo | Pow | Band | Bor | Bxor | Shl | Shr
  | Eq | Lt | Gt | Lte | Gte | Neq | And2 | Or2

definition clip63 :: "int \<Rightarrow> int" where
  "clip63 i = (if - (2 ^ 62) \<le> i \<and> i < 2 ^ 62 then i else 0)"

definition wrap64 :: "int \<Rightarrow> int" where
  "wrap64 i = (i + 2 ^ 63) mod 2 ^ 64 - 2 ^ 63"

fun int_op2_spec :: "int_op2 \<Rightarrow> int \<Rightarrow> int \<Rightarrow> val list" where
  "int_op2_spec Add a b = [vint (wrap (a + b))]"
| "int_op2_spec Subtract a b = [vint (wrap (a - b))]"
| "int_op2_spec Multiply a b = [vint (wrap (a * b))]"
| "int_op2_spec Divide a b =
     (if b = 0 then [VBool False, vint 0] else [VBool True, vint (wrap (a sdiv b))])"
| "int_op2_spec Modulo a b =
     (if b = 0 then [VBool False, vint 0] else [VBool True, vint (a smod b)])"
| "int_op2_spec Pow a b =
     (if 0 \<le> b \<and> b < 2 ^ 32 \<and> - (2 ^ 63) \<le> a ^ nat b \<and> a ^ nat b < 2 ^ 63
      then [VBool True, vint (wrap (a ^ nat b))] else [VBool False, vint 0])"
| "int_op2_spec Band a b = [vint (and a b)]"
| "int_op2_spec Bor a b = [vint (or a b)]"
| "int_op2_spec Bxor a b = [vint (xor a b)]"
| "int_op2_spec Shl a b = [vint (if 0 \<le> b \<and> b < 64 then clip63 (wrap64 (a * 2 ^ nat b)) else 0)]"
| "int_op2_spec Shr a b = [vint (if 0 \<le> b \<and> b < 64 then clip63 (wrap64 (a mod 2 ^ 64 div 2 ^ nat b)) else 0)]"
| "int_op2_spec Eq a b = [VBool (a = b)]"
| "int_op2_spec Lt a b = [VBool (a < b)]"
| "int_op2_spec Gt a b = [VBool (a > b)]"
| "int_op2_spec Lte a b = [VBool (a \<le> b)]"
| "int_op2_spec Gte a b = [VBool (a \<ge> b)]"
| "int_op2_spec Neq a b = [VBool (a \<noteq> b)]"
| "int_op2_spec And2 a b = [vint (if a \<noteq> 0 \<and> b \<noteq> 0 then 1 else 0)]"
| "int_op2_spec Or2 a b = [vint (if a \<noteq> 0 \<or> b \<noteq> 0 then 1 else 0)]"

fun run_int_op2 :: "int_op2 \<Rightarrow> strand \<Rightarrow> fault + strand" where
  "run_int_op2 Add = patch_seq_add"
| "run_int_op2 Subtract = patch_seq_subtract"
| "run_int_op2 Multiply = patch_seq_multiply"
| "run_int_op2 Divide = patch_seq_divide"
| "run_int_op2 Modulo = patch_seq_modulo"
| "run_int_op2 Pow = patch_seq_pow"
| "run_int_op2 Band = patch_seq_band"
| "run_int_op2 Bor = patch_seq_bor"
| "run_int_op2 Bxor = patch_seq_bxor"
| "run_int_op2 Shl = patch_seq_shl"
| "run_int_op2 Shr = patch_seq_shr"
| "run_int_op2 Eq = patch_seq_eq"
| "run_int_op2 Lt = patch_seq_lt"
| "run_int_op2 Gt = patch_seq_gt"
| "run_int_op2 Lte = patch_seq_lte"
| "run_int_op2 Gte = patch_seq_gte"
| "run_int_op2 Neq = patch_seq_neq"
| "run_int_op2 And2 = patch_seq_and"
| "run_int_op2 Or2 = patch_seq_or"

datatype int_op1 = Bnot | Popcount | Ctz | Clz | Not1

text \<open>
  The bit-counting words on the 63 value bits, the most significant first for \<open>clz\<close>.
\<close>

definition bits63 :: "int \<Rightarrow> bool list" where
  "bits63 a = map (bit a) (rev [0..<63])"

fun int_op1_spec :: "int_op1 \<Rightarrow> int \<Rightarrow> val" where
  "int_op1_spec Bnot a = vint (- a - 1)"
| "int_op1_spec Popcount a = vint (int (length (filter id (bits63 a))))"
| "int_op1_spec Clz a = vint (if a < 0 then - 1 else int (length (takeWhile Not (bits63 a))))"
| "int_op1_spec Ctz a = vint (int (length (takeWhile Not (rev (bits63 a)))))"
| "int_op1_spec Not1 a = vint (if a = 0 then 1 else 0)"

fun run_int_op1 :: "int_op1 \<Rightarrow> strand \<Rightarrow> fault + strand" where
  "run_int_op1 Bnot = patch_seq_bnot"
| "run_int_op1 Popcount = patch_seq_popcount"
| "run_int_op1 Clz = patch_seq_clz"
| "run_int_op1 Ctz = patch_seq_ctz"
| "run_int_op1 Not1 = patch_seq_not"

section \<open>63-bit results\<close>

lemma wrap_eq: "wrap i = signed_take_bit 62 i"
  by (simp add: wrap_def signed_take_bit_eq_take_bit_shift take_bit_eq_mod)

lemma wrap64_eq: "wrap64 i = signed_take_bit 63 i"
  by (simp add: wrap64_def signed_take_bit_eq_take_bit_shift take_bit_eq_mod)

lemma wrap_id: "- (2 ^ 62) \<le> i \<Longrightarrow> i < 2 ^ 62 \<Longrightarrow> wrap i = i"
  by (simp add: wrap_eq signed_take_bit_int_eq_self_iff)

lemma bit_wrap63: "bit (wrap63 v) n \<longleftrightarrow> n < 64 \<and> bit v (min n 62)"
  by (auto simp: untag_tag [symmetric] min_def not_le less_Suc_eq_le)

lemma wrap63_word_of_int: "wrap63 (word_of_int i) = word_of_int (wrap i)"
  by (simp add: wrap63_def wrap_eq signed_of_int)

lemma norm_vint: "norm_value (vint i) = vint (wrap i)"
  by (simp add: vint_def wrap63_word_of_int)

lemma norm_fits: "fits_in_i63 v \<Longrightarrow> norm_value (VInt v) = VInt v"
  by (simp add: wrap63_id_iff)

lemma fits_bits: "fits_in_i63 v \<longleftrightarrow> (bit v 63 \<longleftrightarrow> bit v 62)"
proof -
  have "wrap63 v = v \<longleftrightarrow> (bit v 63 \<longleftrightarrow> bit v 62)"
  proof
    assume "wrap63 v = v"
    then show "bit v 63 \<longleftrightarrow> bit v 62" using bit_wrap63 [of v 63] by simp
  next
    assume eq: "bit v 63 \<longleftrightarrow> bit v 62"
    show "wrap63 v = v"
    proof (rule bit_eqI)
      fix n :: nat
      consider "n \<le> 62" | "n = 63" | "64 \<le> n" by linarith
      then show "bit (wrap63 v) n \<longleftrightarrow> bit v n"
        using eq by cases (auto simp: bit_wrap63 min_def dest: bit_imp_le_length)
    qed
  qed
  then show ?thesis by (simp add: wrap63_id_iff)
qed

lemma fits_bitops:
  "fits_in_i63 a \<Longrightarrow> fits_in_i63 b \<Longrightarrow> fits_in_i63 (a AND b)"
  "fits_in_i63 a \<Longrightarrow> fits_in_i63 b \<Longrightarrow> fits_in_i63 (a OR b)"
  "fits_in_i63 a \<Longrightarrow> fits_in_i63 b \<Longrightarrow> fits_in_i63 (a XOR b)"
  "fits_in_i63 a \<Longrightarrow> fits_in_i63 (NOT a)"
  by (auto simp: fits_bits bit_simps)

lemma represents_fits:
  assumes "represents s ext vs" "VInt x \<in> set vs"
  shows "fits_in_i63 x"
proof -
  obtain svs where o: "owns s ext svs" "map (decode (hp (fst s))) svs = map Some vs"
    by (rule represents_split [OF assms(1)])
  have "Some (VInt x) \<in> set (map (decode (hp (fst s))) svs)" unfolding o(2) using assms(2) by simp
  then obtain sv where sv: "sv \<in> set svs" "decode (hp (fst s)) sv = Some (VInt x)" by auto
  show ?thesis
  proof (cases "is_tagged_heap sv")
    case True
    then obtain v where "blocks (hp (fst s)) sv = Some (v, count_list svs sv + ext sv)" "boxed v"
      using heap_okD [OF ownsD(2) [OF o(1)] True] count_pos [OF sv(1)] by auto
    then show ?thesis using sv(2) True by (simp add: decode_heap)
  next
    case False
    then have "x = untag_int sv"
      using sv(2) not_inline_iff [of sv] by (auto simp: decode_def is_inline_def split: if_splits)
    then show ?thesis by (simp add: fits_bits)
  qed
qed

text \<open>The values of the operations on integers of 63 bits.\<close>

lemma word_arith_vint:
  "VInt (a + b) = vint (sint a + sint b)" "VInt (a - b) = vint (sint a - sint b)"
  "VInt (a * b) = vint (sint a * sint b)"
  "VInt (a AND b) = vint (and (sint a) (sint b))" "VInt (a OR b) = vint (or (sint a) (sint b))"
  "VInt (a XOR b) = vint (xor (sint a) (sint b))" "VInt (NOT a) = vint (- sint a - 1)"
  for a b :: i64
  by (simp_all add: vint_def of_int_and_eq of_int_or_eq of_int_xor_eq not_eq_complement)

lemma smod_fits:
  assumes "fits_in_i63 b" "b \<noteq> 0"
  shows "- (2 ^ 62) \<le> sint a smod sint b" "sint a smod sint b < 2 ^ 62"
proof -
  have "sint b \<noteq> 0" using assms(2) by (metis signed_0 word_eq_iff_signed)
  then have "sint a smod sint b \<in> {- \<bar>sint b\<bar> + 1..\<bar>sint b\<bar> - 1}" by (rule smod_int_range)
  moreover have "\<bar>sint b\<bar> \<le> 2 ^ 62" using assms(1) by (auto simp: fits_in_i63_iff)
  ultimately show "- (2 ^ 62) \<le> sint a smod sint b" "sint a smod sint b < 2 ^ 62" by auto
qed

lemma clip_word: "sint raw = k \<Longrightarrow> (if fits_in_i63 raw then raw else 0) = word_of_int (clip63 k)" for raw :: i64
  by (auto simp: clip63_def fits_in_i63_iff)

lemma shl_result_vint:
  "VInt (shl_result a c) =
   vint (if 0 \<le> sint c \<and> sint c < 64 then clip63 (wrap64 (sint a * 2 ^ nat (sint c))) else 0)"
proof (cases "0 \<le> sint c \<and> sint c < 64")
  case True
  define raw where "raw = push_bit (nat (sint c)) a"
  have "raw = word_of_int (sint a * 2 ^ nat (sint c))" by (simp add: raw_def push_bit_eq_mult)
  then have "sint raw = wrap64 (sint a * 2 ^ nat (sint c))"
    unfolding wrap64_eq by (simp only: signed_of_int) simp
  then have "(if fits_in_i63 raw then raw else 0) = word_of_int (clip63 (wrap64 (sint a * 2 ^ nat (sint c))))"
    by (rule clip_word)
  then show ?thesis using True by (simp add: shl_result_def Let_def vint_def flip: raw_def)
qed (auto simp: shl_result_def vint_def)

lemma shr_result_vint:
  "VInt (shr_result a c) =
   vint (if 0 \<le> sint c \<and> sint c < 64 then clip63 (wrap64 (sint a mod 2 ^ 64 div 2 ^ nat (sint c))) else 0)"
proof (cases "0 \<le> sint c \<and> sint c < 64")
  case True
  define raw where "raw = drop_bit (nat (sint c)) a"
  have "uint a = sint a mod 2 ^ 64" by (simp add: uint_sint take_bit_eq_mod)
  then have "uint raw = sint a mod 2 ^ 64 div 2 ^ nat (sint c)" 
    unfolding raw_def unsigned_drop_bit_eq by (simp add: drop_bit_eq_div take_bit_eq_mod)
  then have "sint raw = wrap64 (sint a mod 2 ^ 64 div 2 ^ nat (sint c))"
    by (simp add: wrap64_eq sint_uint)
  then have "(if fits_in_i63 raw then raw else 0) =
      word_of_int (clip63 (wrap64 (sint a mod 2 ^ 64 div 2 ^ nat (sint c))))"
    by (rule clip_word)
  then show ?thesis using True by (simp add: shr_result_def Let_def vint_def flip: raw_def)
qed (auto simp: shr_result_def vint_def)

section \<open>The operations refine the specification\<close>

declare split_paired_Ex [simp del] split_paired_All [simp del]

lemma scalar_ints [simp]: "\<not> boxed (vint i)" "\<not> boxed (VInt x)" "\<not> boxed (VBool b)"
  by (simp_all add: vint_def)

lemma on_two_ints_ok:
  assumes "represents s ext (VInt b # VInt a # vs)"
    and "\<And>rest. represents rest ext vs \<Longrightarrow> room rest 2 \<Longrightarrow> \<exists>s'. k rest a b = Ok s' \<and> represents s' ext vs'"
  shows "\<exists>s'. on_two_ints msg s k = Ok s' \<and> represents s' ext vs'"
  using rs.take_two_law [OF assms(1)] assms(2) by (auto simp: on_two_ints_def pop_two_eq)

lemma two_ints_push:
  assumes "represents s ext (VInt b # VInt a # vs)" "\<not> boxed (f a b)" "norm_value (f a b) = v"
  shows "\<exists>s'. on_two_ints msg s (\<lambda>rest a b. push rest (f a b)) = Ok s' \<and> represents s' ext (v # vs)"
proof (rule on_two_ints_ok [OF assms(1)])
  fix rest assume "represents rest ext vs" "room rest 2"
  then show "\<exists>s'. push rest (f a b) = Ok s' \<and> represents s' ext (v # vs)"
    using rs.put_law [of rest ext vs 1 "f a b"] assms(2,3) by (auto simp: numeral_2_eq_2)
qed

lemma push_flagged_ok:
  assumes "represents rest ext vs" "room rest 2" "norm_value (VInt v) = w"
  shows "\<exists>s'. push_flagged rest v ok = Ok s' \<and> represents s' ext (VBool ok # w # vs)"
  using rs.put_two_law [OF assms(1,2), of "VInt v" "VBool ok"] assms(3) by (auto simp: push_flagged_def)

lemma norm_zero: "norm_value (VInt 0) = vint 0"
  by (simp add: vint_def wrap63_def)

lemma on_int_ok:
  assumes "represents s ext (VInt a # vs)" "\<not> boxed (f a)" "norm_value (f a) = v"
  shows "\<exists>s'. on_int msg s (\<lambda>rest a. push rest (f a)) = Ok s' \<and> represents s' ext (v # vs)"
proof -
  obtain s1 where s1: "pop s = Ok (s1, VInt a)" "represents s1 ext vs" "room s1 (Suc 0)"
    using rs.take_law [OF assms(1) rs.space_0 [OF assms(1)]] by blast
  then show ?thesis using rs.put_law [OF s1(2,3) assms(2)] assms(3) by (auto simp: on_int_def)
qed

lemma norm_vint_id: "- (2 ^ 62) \<le> i \<Longrightarrow> i < 2 ^ 62 \<Longrightarrow> norm_value (vint i) = vint i"
  by (simp add: norm_vint wrap_id)

lemma norm_vint_fits: "fits_in_i63 v \<Longrightarrow> VInt v = vint i \<Longrightarrow> norm_value (vint i) = vint i"
  using norm_fits [of v] by simp

lemma norm_bool: "norm_value (VInt (if p then 1 else 0)) = vint (if p then 1 else 0)"
  by (simp add: vint_def wrap63_def)

lemma clip63_bounds: "- (2 ^ 62) \<le> clip63 i" "clip63 i < 2 ^ 62"
  by (auto simp: clip63_def)

lemma signed_compare: "a = b \<longleftrightarrow> sint a = sint b" "a = 0 \<longleftrightarrow> sint a = 0" for a b :: i64
  by (auto simp: signed_eq_0_iff intro: signed_word_eqI)

lemma int_op2_refines:
  assumes "represents s ext (VInt b # VInt a # vs)"
  shows "\<exists>s'. run_int_op2 op s = Ok s' \<and> represents s' ext (int_op2_spec op (sint a) (sint b) @ vs)"
proof -
  have fa: "fits_in_i63 a" and fb: "fits_in_i63 b" using represents_fits [OF assms] by simp_all
  note push = two_ints_push [OF assms] and two = on_two_ints_ok [OF assms]
  show ?thesis
  proof (cases op)
    case Divide
    have "norm_value (VInt (i64_wrapping_div a b)) = vint (wrap (sint a sdiv sint b))"
      by (simp add: i64_wrapping_div_def norm_vint flip: vint_def)
    then show ?thesis using Divide push_flagged_ok norm_zero
      by (auto simp: patch_seq_divide_def signed_eq_0_iff intro!: two)
  next
    case Modulo
    have "norm_value (VInt (i64_wrapping_rem a b)) = vint (sint a smod sint b)" if "b \<noteq> 0"
      using norm_vint_id [OF smod_fits [OF fb that]] by (simp add: i64_wrapping_rem_def flip: vint_def)
    then show ?thesis using Modulo push_flagged_ok norm_zero
      by (auto simp: patch_seq_modulo_def signed_eq_0_iff intro!: two)
  next
    case Pow
    let ?r = "sint a ^ nat (sint b)"
    have "norm_value (VInt (word_of_int ?r)) = vint (wrap ?r)"
      unfolding vint_def by (rule norm_vint [unfolded vint_def])
    then show ?thesis using Pow push_flagged_ok norm_zero
      by (auto simp: patch_seq_pow_def i64_checked_pow_def Let_def intro!: two)
  next
    case Shl
    then show ?thesis using norm_vint_id [OF clip63_bounds] norm_vint_id [of 0]
      by (auto simp: patch_seq_shl_def shl_result_vint intro!: push)
  next
    case Shr
    then show ?thesis using norm_vint_id [OF clip63_bounds] norm_vint_id [of 0]
      by (auto simp: patch_seq_shr_def shr_result_vint intro!: push)
  next
    case And2
    then show ?thesis using push [of "\<lambda>a b. VInt (if a \<noteq> 0 \<and> b \<noteq> 0 then 1 else 0)", OF _ norm_bool]
      by (simp add: patch_seq_and_def signed_eq_0_iff)
  next
    case Or2
    then show ?thesis using push [of "\<lambda>a b. VInt (if a \<noteq> 0 \<or> b \<noteq> 0 then 1 else 0)", OF _ norm_bool]
      by (simp add: patch_seq_or_def signed_eq_0_iff)
  qed (use push norm_vint_fits [OF fits_bitops(1) [OF fa fb] word_arith_vint(4)]
      norm_vint_fits [OF fits_bitops(2) [OF fa fb] word_arith_vint(5)]
      norm_vint_fits [OF fits_bitops(3) [OF fa fb] word_arith_vint(6)]
    in \<open>auto simp: patch_seq_add_def patch_seq_subtract_def patch_seq_multiply_def patch_seq_band_def
      patch_seq_bor_def patch_seq_bxor_def patch_seq_eq_def patch_seq_lt_def patch_seq_gt_def patch_seq_lte_def
      patch_seq_gte_def patch_seq_neq_def word_arith_vint norm_vint
      signed_compare word_sless_alt word_sle_eq\<close>)
qed

section \<open>Bit counting\<close>

lemma bits63_sint: "bits63 (sint v) = map (bit v) (rev [0..<63])" for v :: i64
  by (auto simp: bits63_def bit_sint_iff)

lemma bit_mask63: "bit I63_MASK n \<longleftrightarrow> n < 63"
proof -
  have eq: "I63_MASK = mask 63" by (simp add: I63_MASK_def mask_eq_exp_minus_1)
  show ?thesis unfolding eq bit_mask_iff by auto
qed

lemma upt_64: "[0..<64] = [0..<63] @ [63]"
  by (simp add: upt_conv_Cons)

lemma popcount_bits: "count_ones (v AND I63_MASK) = length (filter id (bits63 (sint v)))"
proof -
  have "count_ones (v AND I63_MASK) = length (filter (bit v) [0..<63])"
    unfolding count_ones_def upt_64
    by (simp add: bit_and_iff bit_mask63)
      (rule arg_cong [of _ _ length], rule filter_cong, auto simp: bit_and_iff bit_mask63)
  also have "\<dots> = length (filter (bit v) (rev [0..<63]))" by (simp add: rev_filter [symmetric])
  finally show ?thesis by (simp only: bits63_sint filter_map comp_def length_map id_def)
qed

lemma leading_bits:
  "int (leading_zeros v) - 1 = (if sint v < 0 then - 1 else int (length (takeWhile Not (bits63 (sint v)))))"
proof -
  have "bit v 63 \<longleftrightarrow> sint v < 0" using bit_last_iff [of v] by simp
  then show ?thesis
    unfolding leading_zeros_def upt_64 by (simp add: bits63_sint takeWhile_map comp_def)
qed

lemma trailing_bits:
  assumes "fits_in_i63 v"
  shows "(if v = 0 then 63 else trailing_zeros v) = length (takeWhile Not (rev (bits63 (sint v))))"
proof (cases "\<forall>i \<in> set [0..<63]. \<not> bit v i")
  case True
  have "v = 0"
  proof (rule bit_eqI)
    fix n :: nat
    have "\<not> bit v 62" using True by simp
    then have "\<not> bit v 63" using assms by (simp add: fits_bits)
    then show "bit v n \<longleftrightarrow> bit 0 n" using True by (cases "n < 63"; cases "n = 63") (auto dest: bit_imp_le_length)
  qed
  moreover have "takeWhile (\<lambda>x. True) xs = xs" for xs :: "nat list" by simp
  ultimately show ?thesis by (simp add: bits63_def takeWhile_map comp_def rev_map del: takeWhile_eq_all_conv)
next
  case False
  then have "v \<noteq> 0" by auto
  moreover obtain i where "i \<in> set [0..<63]" "\<not> \<not> bit v i" using False by blast
  then have "takeWhile (\<lambda>i. \<not> bit v i) ([0..<63] @ [63]) = takeWhile (\<lambda>i. \<not> bit v i) [0..<63]"
    by (rule takeWhile_append1)
  ultimately show ?thesis
    unfolding trailing_zeros_def upt_64 by (simp add: bits63_sint takeWhile_map comp_def rev_map)
qed

lemma int_op1_refines:
  assumes "represents s ext (VInt a # vs)"
  shows "\<exists>s'. run_int_op1 op s = Ok s' \<and> represents s' ext (int_op1_spec op (sint a) # vs)"
proof -
  have fa: "fits_in_i63 a" using represents_fits [OF assms] by simp
  note one = on_int_ok [OF assms]
  have small: "norm_value (vint i) = vint i" if "- 1 \<le> i" "i \<le> 63" for i
    using that by (intro norm_vint_id) auto
  have len: "length (filter P (bits63 i)) \<le> 63" "length (takeWhile P (bits63 i)) \<le> 63"
    "length (takeWhile P (rev (bits63 i))) \<le> 63" for P i
    using length_filter_le [of P "bits63 i"] length_takeWhile_le [of P "bits63 i"]
      length_takeWhile_le [of P "rev (bits63 i)"] by (simp_all add: bits63_def)
  show ?thesis
  proof (cases op)
    case Bnot
    then show ?thesis using norm_vint_fits [OF fits_bitops(4) [OF fa] word_arith_vint(7)]
      by (auto simp: patch_seq_bnot_def word_arith_vint intro!: one)
  next
    case Popcount
    have "VInt (of_nat n) = vint (int n)" for n by (simp add: vint_def)
    then show ?thesis using Popcount small [of "int (length (filter id (bits63 (sint a))))"] len(1) [of id]
      by (auto simp: patch_seq_popcount_def popcount_bits intro!: one)
  next
    case Clz
    let ?n = "int (length (takeWhile Not (bits63 (sint a))))"
    have "i64_saturating_sub (int (leading_zeros a)) 1 = (if sint a < 0 then - 1 else ?n)"
      using len(2) [of Not "sint a"] by (simp add: i64_saturating_sub_def leading_bits)
    then show ?thesis using Clz small [of ?n] small [of "-1"] len(2) [of Not "sint a"]
      by (auto simp: patch_seq_clz_def simp flip: vint_def intro!: one)
  next
    case Ctz
    let ?n = "int (length (takeWhile Not (rev (bits63 (sint a)))))"
    have "VInt (if a = 0 then 63 else of_nat (trailing_zeros a)) = vint ?n"
      unfolding trailing_bits [OF fa, symmetric] by (simp add: vint_def)
    then show ?thesis using Ctz small [of ?n] len(3) [of Not "sint a"]
      by (auto simp: patch_seq_ctz_def intro!: one)
  next
    case Not1
    then show ?thesis using one [of "\<lambda>a. VInt (if a = 0 then 1 else 0)", OF _ norm_bool]
      by (simp add: patch_seq_not_def signed_eq_0_iff)
  qed
qed

section \<open>Properties\<close>

text \<open>C4: The binary integer words compute what their specification over the mathematical integers says, on any
  stack with two integers on top: \<open>add\<close>, \<open>subtract\<close> and \<open>multiply\<close> wrap modulo \<open>2^63\<close>, division and remainder
  truncate towards zero and report a zero divisor by a flag, \<open>pow\<close> reports an overflow of 64 bits by a flag,
  the bitwise words, shifts, comparisons and logical words as listed in \<open>int_op2_spec\<close>.\<close>

theorem binary_words_refine:
  assumes "represents s ext (VInt b # VInt a # vs)"
  shows "\<exists>s'. run_int_op2 op s = Ok s' \<and> represents s' ext (int_op2_spec op (sint a) (sint b) @ vs)"
  by (rule int_op2_refines [OF assms])

lemma two_ints_strand: "represents (int_strand [b, a] n) (\<lambda>_. 0) [VInt (wrap63 b), VInt (wrap63 a)]"
  using int_strand_represents [of "[b, a]" n] by simp

theorem binary_words_refine_witness:
  "\<exists>s'. patch_seq_divide (int_strand [0, 7] 2) = Ok s' \<and> represents s' (\<lambda>_. 0) [VBool False, vint 0]"
  using binary_words_refine [OF two_ints_strand [of 0 7 2], of Divide] by simp

text \<open>C18: The unary integer words compute their specification on any stack with an integer on top: complement,
  the number of set bits, of leading and of trailing zeros among the 63 value bits, and logical not; but
  \<open>clz\<close> of a negative integer is -1, because \<open>saturating_sub\<close> on a signed zero does not stop at zero.\<close>

theorem unary_words_refine:
  assumes "represents s ext (VInt a # vs)"
  shows "\<exists>s'. run_int_op1 op s = Ok s' \<and> represents s' ext (int_op1_spec op (sint a) # vs)"
  by (rule int_op1_refines [OF assms])

theorem unary_words_refine_witness:
  "\<exists>s'. patch_seq_clz (int_strand [- 5] 2) = Ok s' \<and> represents s' (\<lambda>_. 0) [vint (- 1)]"
proof -
  have r: "represents (int_strand [- 5] 2) (\<lambda>_. 0) [VInt (- 5)]"
    using int_strand_represents [of "[- 5]" 2] by (simp add: wrap63_def)
  from unary_words_refine [OF r, of Clz] show ?thesis by simp
qed

text \<open>C24: An integer word on operands that are not both integers panics.\<close>

theorem binary_words_type_error:
  assumes "represents s ext (b # a # vs)" "\<not> (\<exists>x y. a = VInt x \<and> b = VInt y)"
  shows "\<exists>msg. run_int_op2 op s = Err (Panic msg)"
proof -
  obtain s' where s': "pop_two s = Ok (s', a, b)"
    using rs.take_two_law [OF assms(1)] by (auto simp: pop_two_eq)
  have "on_two_ints msg s k = Err (Panic msg)" for msg k
    using assms(2) by (cases a; cases b) (auto simp: on_two_ints_def s')
  then show ?thesis
    by (cases op) (auto simp: patch_seq_add_def patch_seq_subtract_def patch_seq_multiply_def patch_seq_divide_def
        patch_seq_modulo_def patch_seq_pow_def patch_seq_band_def patch_seq_bor_def patch_seq_bxor_def
        patch_seq_shl_def patch_seq_shr_def patch_seq_eq_def patch_seq_lt_def patch_seq_gt_def patch_seq_lte_def
        patch_seq_gte_def patch_seq_neq_def patch_seq_and_def patch_seq_or_def)
qed

definition bool_strand :: strand where
  "bool_strand = (\<lparr>cells = [Some TAG_TRUE, Some (tag_int 3)], origin = 0, stack_base = Some 0,
     hp = \<lparr>blocks = (\<lambda>_. None), avail = []\<rparr>, last_error = None\<rparr>, 2)"

lemma bool_strand_represents: "represents bool_strand (\<lambda>_. 0) [VInt 3, VBool True]"
proof -
  have "owns bool_strand (\<lambda>_. 0) [tag_int 3, TAG_TRUE]"
    by (auto simp: owns_def live_def heap_ok_def bool_strand_def)
  then show ?thesis
    by (auto simp: represents_def bool_strand_def decode_def untag_tag intro!: exI [of _ "[tag_int 3, TAG_TRUE]"])
qed

theorem binary_words_type_error_witness: "\<exists>msg. patch_seq_add bool_strand = Err (Panic msg)"
  using binary_words_type_error [OF bool_strand_represents, of Add] by auto

text \<open>\<open>pow\<close> reports success for results that do not fit the language's integers: 2 to the 62 leaves \<open>-2^62\<close>
  with the flag \<open>true\<close>.\<close>

lemma pow_flags_truncated_result:
  assumes "represents s ext (VInt 62 # VInt 2 # vs)"
  shows "\<exists>s'. patch_seq_pow s = Ok s' \<and> represents s' ext (VBool True # vint (- (2 ^ 62)) # vs)"
  using int_op2_refines [OF assms, of Pow] by (simp add: wrap_def)

lemma pow_flags_truncated_result_witness:
  "\<exists>s'. patch_seq_pow (int_strand [62, 2] 2) = Ok s' \<and> represents s' (\<lambda>_. 0) [VBool True, vint (- (2 ^ 62))]"
  using pow_flags_truncated_result [OF two_ints_strand [of 62 2 2, simplified]] by simp

text \<open>\<open>shl\<close> returns 0 for a result outside the 63-bit range only when the 64-bit result, its high bits already
  lost, is outside: shifting \<open>2^61 + 1\<close> left by 3 gives 8, not 0.\<close>

lemma shl_keeps_low_bits_of_overflow:
  assumes "represents s ext (VInt 3 # VInt (2 ^ 61 + 1) # vs)"
  shows "\<exists>s'. patch_seq_shl s = Ok s' \<and> represents s' ext (vint 8 # vs)"
  using int_op2_refines [OF assms, of Shl] by (simp add: wrap64_def clip63_def)

lemma shl_keeps_low_bits_of_overflow_witness:
  "\<exists>s'. patch_seq_shl (int_strand [3, 2 ^ 61 + 1] 2) = Ok s' \<and> represents s' (\<lambda>_. 0) [vint 8]"
proof -
  have r: "represents (int_strand [3, 2 ^ 61 + 1] 2) (\<lambda>_. 0) [VInt 3, VInt (2 ^ 61 + 1)]"
    using int_strand_represents [of "[3, 2 ^ 61 + 1]" 2] by simp
  from shl_keeps_low_bits_of_overflow [OF r] show ?thesis by simp
qed

end
