(* ===== verification/Builtins.thy ===== *)
theory Builtins
  imports Seq_Types
begin

text \<open>
  The stack effects of the built-in words: \<open>crates/compiler/src/builtins.rs\<close> and the tables of its
  sub-modules, one definition per category in the order of \<open>CATEGORIES\<close>.
\<close>

section \<open>The macros\<close>

text \<open>\<open>stack!\<close>: types pushed on a row variable.\<close>

definition row :: "name \<Rightarrow> ty list \<Rightarrow> stack_type" where
  "row r ts = foldl st_push (SRowVar r) ts"

text \<open>\<open>builtin!\<close>: both sides are based on the row variable \<open>a\<close>.\<close>

definition sg :: "ty list \<Rightarrow> ty list \<Rightarrow> effect" where
  "sg ins outs = effect_new (row ''a'' ins) (row ''a'' outs)"

text \<open>The loops for the variant constructors with 5 to 12 fields.\<close>

definition make_signatures :: "name \<Rightarrow> (name \<times> effect) list" where
  "make_signatures prefix =
     map (\<lambda>n. (prefix @ dec n,
            effect_new (st_push (row ''a'' (map (\<lambda>i. TVar (''T'' @ dec i)) [1..<Suc n])) TSymbol) (row ''a'' [TVariant])))
       [5..<13]"

section \<open>The tables\<close>

definition io_signatures :: "(name \<times> effect) list" where
  "io_signatures =
     [(''io.write'', sg [TString] []),
      (''io.write-line'', sg [TString] []),
      (''io.read-line'', sg [] [TString, TBool]),
      (''io.read-n'', sg [TInt] [TString, TInt]),
      (''args.count'', sg [] [TInt]),
      (''args.at'', sg [TInt] [TString]),
      (''int->string'', sg [TInt] [TString]),
      (''int->float'', sg [TInt] [TFloat]),
      (''float->int'', sg [TFloat] [TInt]),
      (''float->string'', sg [TFloat] [TString]),
      (''string->int'', sg [TString] [TInt, TBool]),
      (''string->float'', sg [TString] [TFloat, TBool]),
      (''char->string'', sg [TInt] [TString]),
      (''symbol->string'', sg [TSymbol] [TString]),
      (''string->symbol'', sg [TString] [TSymbol]),
      (''int.to-bytes-i32-be'', sg [TInt] [TString]),
      (''float.to-bytes-f32-be'', sg [TFloat] [TString])]"

definition fs_signatures :: "(name \<times> effect) list" where
  "fs_signatures =
     [(''file.slurp'', sg [TString] [TString, TBool]),
      (''file.exists?'', sg [TString] [TBool]),
      (''file.spit'', sg [TString, TString] [TBool]),
      (''file.append'', sg [TString, TString] [TBool]),
      (''file.delete'', sg [TString] [TBool]),
      (''file.size'', sg [TString] [TInt, TBool]),
      (''dir.exists?'', sg [TString] [TBool]),
      (''dir.make'', sg [TString] [TBool]),
      (''dir.delete'', sg [TString] [TBool]),
      (''dir.list'', sg [TString] [TVar ''V'', TBool]),
      (''file.for-each-line'', effect_new (row ''a'' [TString, TQuotation (effect_new (row ''a'' [TString]) (row ''a'' []))]) (row ''a'' [TBool]))]"

definition arith_signatures :: "(name \<times> effect) list" where
  "arith_signatures =
     [(''i.add'', sg [TInt, TInt] [TInt]),
      (''i.subtract'', sg [TInt, TInt] [TInt]),
      (''i.multiply'', sg [TInt, TInt] [TInt]),
      (''i.+'', sg [TInt, TInt] [TInt]),
      (''i.-'', sg [TInt, TInt] [TInt]),
      (''i.*'', sg [TInt, TInt] [TInt]),
      (''i.divide'', sg [TInt, TInt] [TInt, TBool]),
      (''i.modulo'', sg [TInt, TInt] [TInt, TBool]),
      (''i./'', sg [TInt, TInt] [TInt, TBool]),
      (''i.%'', sg [TInt, TInt] [TInt, TBool]),
      (''i.pow'', sg [TInt, TInt] [TInt, TBool]),
      (''i.='', sg [TInt, TInt] [TBool]),
      (''i.<'', sg [TInt, TInt] [TBool]),
      (''i.>'', sg [TInt, TInt] [TBool]),
      (''i.<='', sg [TInt, TInt] [TBool]),
      (''i.>='', sg [TInt, TInt] [TBool]),
      (''i.<>'', sg [TInt, TInt] [TBool]),
      (''i.eq'', sg [TInt, TInt] [TBool]),
      (''i.lt'', sg [TInt, TInt] [TBool]),
      (''i.gt'', sg [TInt, TInt] [TBool]),
      (''i.lte'', sg [TInt, TInt] [TBool]),
      (''i.gte'', sg [TInt, TInt] [TBool]),
      (''i.neq'', sg [TInt, TInt] [TBool]),
      (''and'', sg [TBool, TBool] [TBool]),
      (''or'', sg [TBool, TBool] [TBool]),
      (''not'', sg [TBool] [TBool]),
      (''band'', sg [TInt, TInt] [TInt]),
      (''bor'', sg [TInt, TInt] [TInt]),
      (''bxor'', sg [TInt, TInt] [TInt]),
      (''shl'', sg [TInt, TInt] [TInt]),
      (''shr'', sg [TInt, TInt] [TInt]),
      (''bnot'', sg [TInt] [TInt]),
      (''popcount'', sg [TInt] [TInt]),
      (''clz'', sg [TInt] [TInt]),
      (''ctz'', sg [TInt] [TInt]),
      (''i.neg'', sg [TInt] [TInt]),
      (''negate'', sg [TInt] [TInt]),
      (''int-bits'', sg [] [TInt])]"

definition stack_signatures :: "(name \<times> effect) list" where
  "stack_signatures =
     [(''dup'', sg [TVar ''T''] [TVar ''T'', TVar ''T'']),
      (''drop'', sg [TVar ''T''] []),
      (''swap'', sg [TVar ''T'', TVar ''U''] [TVar ''U'', TVar ''T'']),
      (''over'', sg [TVar ''T'', TVar ''U''] [TVar ''T'', TVar ''U'', TVar ''T'']),
      (''rot'', sg [TVar ''T'', TVar ''U'', TVar ''V''] [TVar ''U'', TVar ''V'', TVar ''T'']),
      (''nip'', sg [TVar ''T'', TVar ''U''] [TVar ''U'']),
      (''tuck'', sg [TVar ''T'', TVar ''U''] [TVar ''U'', TVar ''T'', TVar ''U'']),
      (''2dup'', sg [TVar ''T'', TVar ''U''] [TVar ''T'', TVar ''U'', TVar ''T'', TVar ''U'']),
      (''3drop'', sg [TVar ''T'', TVar ''U'', TVar ''V''] []),
      (''pick'', sg [TVar ''T'', TInt] [TVar ''T'', TVar ''T'']),
      (''roll'', sg [TVar ''T'', TInt] [TVar ''T'']),
      (''>aux'', sg [TVar ''T''] []),
      (''aux>'', sg [] [TVar ''T''])]"

definition concurrency_signatures :: "(name \<times> effect) list" where
  "concurrency_signatures =
     [(''chan.make'', sg [] [TChannel]),
      (''chan.send'', sg [TVar ''T'', TChannel] [TBool]),
      (''chan.receive'', sg [TChannel] [TVar ''T'', TBool]),
      (''chan.close'', sg [TChannel] []),
      (''chan.yield'', effect_new (row ''a'' []) (row ''a'' [])),
      (''strand.spawn'', effect_new (row ''a'' [TQuotation (effect_new (row ''spawn_in'' []) (row ''spawn_out'' []))]) (row ''a'' [TInt])),
      (''strand.weave'', effect_new (row ''a'' [TQuotation (effect_new (row ''weave_in'' []) (row ''weave_out'' []))]) (row ''a'' [TVar ''handle''])),
      (''strand.resume'', effect_new (row ''a'' [TVar ''handle'', TVar ''b'']) (row ''a'' [TVar ''handle'', TVar ''b'', TBool])),
      (''yield'', effect_with_effects (row ''a'' [TVar ''ctx'', TVar ''b'']) (row ''a'' [TVar ''ctx'', TVar ''b'']) [Yield (TVar ''b'')]),
      (''strand.weave-cancel'', effect_new (row ''a'' [TVar ''handle'']) (row ''a'' []))]"

definition callable_signatures :: "(name \<times> effect) list" where
  "callable_signatures =
     [(''call'', effect_new (row ''a'' [TVar ''Q'']) (row ''b'' [])),
      (''dip'', effect_new (row ''a'' [TVar ''T'', TVar ''Q'']) (row ''b'' [TVar ''T''])),
      (''keep'', effect_new (row ''a'' [TVar ''T'', TVar ''Q'']) (row ''b'' [TVar ''T''])),
      (''bi'', effect_new (row ''a'' [TVar ''T'', TVar ''Q1'', TVar ''Q2'']) (row ''b'' [])),
      (''if'', effect_new (row ''a'' [TBool, TVar ''Q1'', TVar ''Q2'']) (row ''b'' [])),
      (''cond'', effect_new (row ''a'' []) (row ''b'' []))]"

definition tcp_signatures :: "(name \<times> effect) list" where
  "tcp_signatures =
     [(''net.tcp.listen'', sg [TInt] [TSocket, TBool]),
      (''net.tcp.connect'', sg [TString, TInt] [TSocket, TBool]),
      (''net.tcp.accept'', sg [TSocket] [TSocket, TBool]),
      (''net.tcp.local-port'', sg [TSocket] [TInt, TBool]),
      (''net.tcp.read'', sg [TSocket] [TString, TBool]),
      (''net.tcp.write'', sg [TString, TSocket] [TBool]),
      (''net.tcp.close'', sg [TSocket] [TBool]),
      (''fd->socket'', sg [TInt] [TSocket]),
      (''socket->fd'', sg [TSocket] [TInt])]"

definition udp_signatures :: "(name \<times> effect) list" where
  "udp_signatures =
     [(''net.udp.bind'', sg [TInt] [TSocket, TInt, TBool]),
      (''net.udp.send-to'', sg [TString, TString, TInt, TSocket] [TBool]),
      (''net.udp.receive-from'', sg [TSocket] [TString, TString, TInt, TBool]),
      (''net.udp.close'', sg [TSocket] [TBool])]"

definition dns_signatures :: "(name \<times> effect) list" where
  "dns_signatures =
     [(''net.dns.resolve'', sg [TString] [TVar ''V'', TBool])]"

definition tls_signatures :: "(name \<times> effect) list" where
  "tls_signatures =
     [(''net.tls.client'', sg [TSocket, TString] [TSocket, TBool])]"

definition http_signatures :: "(name \<times> effect) list" where
  "http_signatures =
     [(''net.http.get'', sg [TString] [TVar ''M'']),
      (''net.http.post'', sg [TString, TString, TString] [TVar ''M'']),
      (''net.http.put'', sg [TString, TString, TString] [TVar ''M'']),
      (''net.http.delete'', sg [TString] [TVar ''M''])]"

definition os_signatures :: "(name \<times> effect) list" where
  "os_signatures =
     [(''os.getenv'', sg [TString] [TString, TBool]),
      (''os.home-dir'', sg [] [TString, TBool]),
      (''os.current-dir'', sg [] [TString, TBool]),
      (''os.path-exists'', sg [TString] [TBool]),
      (''os.path-is-file'', sg [TString] [TBool]),
      (''os.path-is-dir'', sg [TString] [TBool]),
      (''os.path-join'', sg [TString, TString] [TString]),
      (''os.path-parent'', sg [TString] [TString, TBool]),
      (''os.path-filename'', sg [TString] [TString, TBool]),
      (''os.exit'', sg [TInt] []),
      (''os.name'', sg [] [TString]),
      (''os.arch'', sg [] [TString]),
      (''signal.trap'', sg [TInt] []),
      (''signal.received?'', sg [TInt] [TBool]),
      (''signal.pending?'', sg [TInt] [TBool]),
      (''signal.default'', sg [TInt] []),
      (''signal.ignore'', sg [TInt] []),
      (''signal.clear'', sg [TInt] []),
      (''signal.SIGINT'', sg [] [TInt]),
      (''signal.SIGTERM'', sg [] [TInt]),
      (''signal.SIGHUP'', sg [] [TInt]),
      (''signal.SIGPIPE'', sg [] [TInt]),
      (''signal.SIGUSR1'', sg [] [TInt]),
      (''signal.SIGUSR2'', sg [] [TInt]),
      (''signal.SIGCHLD'', sg [] [TInt]),
      (''signal.SIGALRM'', sg [] [TInt]),
      (''signal.SIGCONT'', sg [] [TInt]),
      (''terminal.raw-mode'', sg [TBool] []),
      (''terminal.read-char'', sg [] [TInt]),
      (''terminal.read-char?'', sg [] [TInt]),
      (''terminal.width'', sg [] [TInt]),
      (''terminal.height'', sg [] [TInt]),
      (''terminal.flush'', effect_new (row ''a'' []) (row ''a'' []))]"

definition text_signatures :: "(name \<times> effect) list" where
  "text_signatures =
     [(''string.concat'', sg [TString, TString] [TString]),
      (''string.length'', sg [TString] [TInt]),
      (''string.byte-length'', sg [TString] [TInt]),
      (''string.char-at'', sg [TString, TInt] [TInt]),
      (''string.substring'', sg [TString, TInt, TInt] [TString]),
      (''string.find'', sg [TString, TString] [TInt]),
      (''string.split'', sg [TString, TString] [TVar ''V'']),
      (''string.contains'', sg [TString, TString] [TBool]),
      (''string.starts-with'', sg [TString, TString] [TBool]),
      (''string.empty?'', sg [TString] [TBool]),
      (''string.equal?'', sg [TString, TString] [TBool]),
      (''string.join'', sg [TVar ''V'', TString] [TString]),
      (''symbol.='', sg [TSymbol, TSymbol] [TBool]),
      (''string.trim'', sg [TString] [TString]),
      (''string.chomp'', sg [TString] [TString]),
      (''string.to-upper'', sg [TString] [TString]),
      (''string.to-lower'', sg [TString] [TString]),
      (''string.json-escape'', sg [TString] [TString]),
      (''encoding.base64-encode'', sg [TString] [TString]),
      (''encoding.base64-decode'', sg [TString] [TString, TBool]),
      (''encoding.base64url-encode'', sg [TString] [TString]),
      (''encoding.base64url-decode'', sg [TString] [TString, TBool]),
      (''encoding.hex-encode'', sg [TString] [TString]),
      (''encoding.hex-decode'', sg [TString] [TString, TBool]),
      (''crypto.sha256'', sg [TString] [TString]),
      (''crypto.hmac-sha256'', sg [TString, TString] [TString]),
      (''crypto.constant-time-eq'', sg [TString, TString] [TBool]),
      (''crypto.random-bytes'', sg [TInt] [TString]),
      (''crypto.random-int'', sg [TInt, TInt] [TInt]),
      (''crypto.uuid4'', sg [] [TString]),
      (''crypto.aes-gcm-encrypt'', sg [TString, TString] [TString, TBool]),
      (''crypto.aes-gcm-decrypt'', sg [TString, TString] [TString, TBool]),
      (''crypto.pbkdf2-sha256'', sg [TString, TString, TInt] [TString, TBool]),
      (''crypto.ed25519-keypair'', sg [] [TString, TString]),
      (''crypto.ed25519-sign'', sg [TString, TString] [TString, TBool]),
      (''crypto.ed25519-verify'', sg [TString, TString, TString] [TBool]),
      (''regex.match?'', sg [TString, TString] [TBool]),
      (''regex.find'', sg [TString, TString] [TString, TBool]),
      (''regex.find-all'', sg [TString, TString] [TVar ''V'', TBool]),
      (''regex.replace'', sg [TString, TString, TString] [TString, TBool]),
      (''regex.replace-all'', sg [TString, TString, TString] [TString, TBool]),
      (''regex.captures'', sg [TString, TString] [TVar ''V'', TBool]),
      (''regex.split'', sg [TString, TString] [TVar ''V'', TBool]),
      (''regex.valid?'', sg [TString] [TBool]),
      (''compress.gzip'', sg [TString] [TString, TBool]),
      (''compress.gzip-level'', sg [TString, TInt] [TString, TBool]),
      (''compress.gunzip'', sg [TString] [TString, TBool]),
      (''compress.zstd'', sg [TString] [TString, TBool]),
      (''compress.zstd-level'', sg [TString, TInt] [TString, TBool]),
      (''compress.unzstd'', sg [TString] [TString, TBool])]"

definition adt_signatures :: "(name \<times> effect) list" where
  "adt_signatures =
     [(''variant.field-count'', sg [TVariant] [TInt]),
      (''variant.tag'', sg [TVariant] [TSymbol]),
      (''variant.field-at'', sg [TVariant, TInt] [TVar ''T'']),
      (''variant.append'', sg [TVariant, TVar ''T''] [TVariant]),
      (''variant.first'', sg [TVariant] [TVar ''T'']),
      (''variant.last'', sg [TVariant] [TVar ''T'']),
      (''variant.init'', sg [TVariant] [TVariant]),
      (''variant.make-0'', sg [TSymbol] [TVariant]),
      (''variant.make-1'', sg [TVar ''T1'', TSymbol] [TVariant]),
      (''variant.make-2'', sg [TVar ''T1'', TVar ''T2'', TSymbol] [TVariant]),
      (''variant.make-3'', sg [TVar ''T1'', TVar ''T2'', TVar ''T3'', TSymbol] [TVariant]),
      (''variant.make-4'', sg [TVar ''T1'', TVar ''T2'', TVar ''T3'', TVar ''T4'', TSymbol] [TVariant])] @
     make_signatures ''variant.make-'' @
     [(''wrap-0'', sg [TSymbol] [TVariant]),
      (''wrap-1'', sg [TVar ''T1'', TSymbol] [TVariant]),
      (''wrap-2'', sg [TVar ''T1'', TVar ''T2'', TSymbol] [TVariant]),
      (''wrap-3'', sg [TVar ''T1'', TVar ''T2'', TVar ''T3'', TSymbol] [TVariant]),
      (''wrap-4'', sg [TVar ''T1'', TVar ''T2'', TVar ''T3'', TVar ''T4'', TSymbol] [TVariant])] @
     make_signatures ''wrap-''"

definition list_signatures :: "(name \<times> effect) list" where
  "list_signatures =
     [(''list.make'', sg [] [TVar ''V'']),
      (''list.push'', sg [TVar ''V'', TVar ''T''] [TVar ''V'']),
      (''list.get'', sg [TVar ''V'', TInt] [TVar ''T'', TBool]),
      (''list.set'', sg [TVar ''V'', TInt, TVar ''T''] [TVar ''V'', TBool]),
      (''list.length'', sg [TVar ''V''] [TInt]),
      (''list.empty?'', sg [TVar ''V''] [TBool]),
      (''list.reverse'', sg [TVar ''V''] [TVar ''V'']),
      (''list.first'', sg [TVar ''V''] [TVar ''T'', TBool]),
      (''list.last'', sg [TVar ''V''] [TVar ''T'', TBool]),
      (''list.map'', effect_new (row ''a'' [TVar ''V'', TQuotation (effect_new (row ''b'' [TVar ''T'']) (row ''b'' [TVar ''U'']))]) (row ''a'' [TVar ''V2''])),
      (''list.filter'', effect_new (row ''a'' [TVar ''V'', TQuotation (effect_new (row ''b'' [TVar ''T'']) (row ''b'' [TBool]))]) (row ''a'' [TVar ''V2''])),
      (''list.fold'', effect_new (row ''a'' [TVar ''V'', TVar ''Acc'', TQuotation (effect_new (row ''b'' [TVar ''Acc'', TVar ''T'']) (row ''b'' [TVar ''Acc'']))]) (row ''a'' [TVar ''Acc''])),
      (''list.each'', effect_new (row ''a'' [TVar ''V'', TQuotation (effect_new (row ''b'' [TVar ''T'']) (row ''b'' []))]) (row ''a'' []))]"

definition map_signatures :: "(name \<times> effect) list" where
  "map_signatures =
     [(''map.make'', sg [] [TVar ''M'']),
      (''map.get'', sg [TVar ''M'', TVar ''K''] [TVar ''V'', TBool]),
      (''map.set'', sg [TVar ''M'', TVar ''K'', TVar ''V''] [TVar ''M2'']),
      (''map.has?'', sg [TVar ''M'', TVar ''K''] [TBool]),
      (''map.remove'', sg [TVar ''M'', TVar ''K''] [TVar ''M2'']),
      (''map.keys'', sg [TVar ''M''] [TVar ''V'']),
      (''map.values'', sg [TVar ''M''] [TVar ''V'']),
      (''map.size'', sg [TVar ''M''] [TInt]),
      (''map.empty?'', sg [TVar ''M''] [TBool]),
      (''map.each'', effect_new (row ''a'' [TVar ''M'', TQuotation (effect_new (row ''b'' [TVar ''K'', TVar ''V'']) (row ''b'' []))]) (row ''a'' [])),
      (''map.fold'', effect_new (row ''a'' [TVar ''M'', TVar ''Acc'', TQuotation (effect_new (row ''b'' [TVar ''Acc'', TVar ''K'', TVar ''V'']) (row ''b'' [TVar ''Acc'']))]) (row ''a'' [TVar ''Acc'']))]"

definition float_signatures :: "(name \<times> effect) list" where
  "float_signatures =
     [(''f.add'', sg [TFloat, TFloat] [TFloat]),
      (''f.subtract'', sg [TFloat, TFloat] [TFloat]),
      (''f.multiply'', sg [TFloat, TFloat] [TFloat]),
      (''f.divide'', sg [TFloat, TFloat] [TFloat]),
      (''f.+'', sg [TFloat, TFloat] [TFloat]),
      (''f.-'', sg [TFloat, TFloat] [TFloat]),
      (''f.*'', sg [TFloat, TFloat] [TFloat]),
      (''f./'', sg [TFloat, TFloat] [TFloat]),
      (''f.='', sg [TFloat, TFloat] [TBool]),
      (''f.<'', sg [TFloat, TFloat] [TBool]),
      (''f.>'', sg [TFloat, TFloat] [TBool]),
      (''f.<='', sg [TFloat, TFloat] [TBool]),
      (''f.>='', sg [TFloat, TFloat] [TBool]),
      (''f.<>'', sg [TFloat, TFloat] [TBool]),
      (''f.eq'', sg [TFloat, TFloat] [TBool]),
      (''f.lt'', sg [TFloat, TFloat] [TBool]),
      (''f.gt'', sg [TFloat, TFloat] [TBool]),
      (''f.lte'', sg [TFloat, TFloat] [TBool]),
      (''f.gte'', sg [TFloat, TFloat] [TBool]),
      (''f.neq'', sg [TFloat, TFloat] [TBool]),
      (''f.sqrt'', sg [TFloat] [TFloat]),
      (''f.cbrt'', sg [TFloat] [TFloat]),
      (''f.pow'', sg [TFloat, TFloat] [TFloat]),
      (''f.exp'', sg [TFloat] [TFloat]),
      (''f.ln'', sg [TFloat] [TFloat]),
      (''f.log10'', sg [TFloat] [TFloat]),
      (''f.log2'', sg [TFloat] [TFloat]),
      (''f.sin'', sg [TFloat] [TFloat]),
      (''f.cos'', sg [TFloat] [TFloat]),
      (''f.tan'', sg [TFloat] [TFloat]),
      (''f.asin'', sg [TFloat] [TFloat]),
      (''f.acos'', sg [TFloat] [TFloat]),
      (''f.atan'', sg [TFloat] [TFloat]),
      (''f.atan2'', sg [TFloat, TFloat] [TFloat]),
      (''f.floor'', sg [TFloat] [TFloat]),
      (''f.ceil'', sg [TFloat] [TFloat]),
      (''f.round'', sg [TFloat] [TFloat]),
      (''f.trunc'', sg [TFloat] [TFloat]),
      (''f.pi'', sg [] [TFloat]),
      (''f.e'', sg [] [TFloat]),
      (''f.tau'', sg [] [TFloat])]"

definition diagnostics_signatures :: "(name \<times> effect) list" where
  "diagnostics_signatures =
     [(''test.init'', sg [TString] []),
      (''test.set-name'', sg [TString] []),
      (''test.finish'', effect_new (row ''a'' []) (row ''a'' [])),
      (''test.has-failures'', sg [] [TBool]),
      (''test.assert'', sg [TBool] []),
      (''test.assert-not'', sg [TBool] []),
      (''test.assert-eq'', sg [TInt, TInt] []),
      (''test.assert-eq-str'', sg [TString, TString] []),
      (''test.fail'', sg [TString] []),
      (''test.pass-count'', sg [] [TInt]),
      (''test.fail-count'', sg [] [TInt]),
      (''time.now'', sg [] [TInt]),
      (''time.nanos'', sg [] [TInt]),
      (''time.sleep-ms'', sg [TInt] []),
      (''son.dump'', sg [TVar ''T''] [TString]),
      (''son.dump-pretty'', sg [TVar ''T''] [TString]),
      (''stack.dump'', effect_new (row ''a'' []) (row ''b'' []))]"

section \<open>The map of all signatures\<close>

text \<open>A later row replaces an earlier one of the same name.\<close>

definition builtin_signatures :: "(name \<times> effect) list" where
  "builtin_signatures =
     io_signatures @ fs_signatures @ arith_signatures @ stack_signatures @ concurrency_signatures @ callable_signatures @ tcp_signatures @ udp_signatures @ dns_signatures @
     tls_signatures @ http_signatures @ os_signatures @ text_signatures @ adt_signatures @ list_signatures @ map_signatures @ float_signatures @ diagnostics_signatures"

definition builtin_signature :: "name \<Rightarrow> effect option" where
  "builtin_signature n = map_of (rev builtin_signatures) n"

section \<open>Looking a word up\<close>

text \<open>The tables after the arithmetic and stack words have none of their names.\<close>

definition later_signatures :: "(name \<times> effect) list" where
  "later_signatures =
     concurrency_signatures @ callable_signatures @ tcp_signatures @ udp_signatures @ dns_signatures @
     tls_signatures @ http_signatures @ os_signatures @ text_signatures @ adt_signatures @ list_signatures @ map_signatures @ float_signatures @ diagnostics_signatures"

fun absent :: "name \<Rightarrow> (name \<times> effect) list \<Rightarrow> bool" where
  "absent w [] \<longleftrightarrow> True"
| "absent w (x # xs) \<longleftrightarrow> fst x \<noteq> w \<and> absent w xs"

lemma absent_append: "absent w (xs @ ys) \<longleftrightarrow> absent w xs \<and> absent w ys"
  by (induction xs) auto

lemma absent_map_of: "absent w xs \<Longrightarrow> map_of (rev xs) w = None"
  by (induction xs) (auto simp: map_add_def)

lemma absent_make: "take (length p) w \<noteq> p \<Longrightarrow> absent w (make_signatures p)"
proof -
  assume "take (length p) w \<noteq> p"
  then have "absent w (map (\<lambda>n. (p @ dec n, f n)) xs)" for f and xs :: "nat list"
    by (induction xs) auto
  then show ?thesis unfolding make_signatures_def .
qed

lemmas later_tables =
  concurrency_signatures_def callable_signatures_def tcp_signatures_def udp_signatures_def dns_signatures_def
  tls_signatures_def http_signatures_def os_signatures_def text_signatures_def adt_signatures_def
  list_signatures_def map_signatures_def float_signatures_def diagnostics_signatures_def

lemma core_words_absent: "list_all (\<lambda>w. absent w later_signatures) (map fst (arith_signatures @ stack_signatures))"
  by (simp add: arith_signatures_def stack_signatures_def later_signatures_def later_tables absent_make absent_append)

lemma builtin_signature_core:
  assumes "map_of (rev (arith_signatures @ stack_signatures)) w = Some e"
  shows "builtin_signature w = Some e"
proof -
  have "w \<in> set (map fst (arith_signatures @ stack_signatures))"
    using map_of_SomeD [OF assms] by force
  then have "map_of (rev later_signatures) w = None"
    using core_words_absent by (intro absent_map_of) (simp only: list_all_iff)
  moreover have "rev builtin_signatures = rev later_signatures @ rev (arith_signatures @ stack_signatures) @
      rev (io_signatures @ fs_signatures)"
    by (simp add: builtin_signatures_def later_signatures_def)
  ultimately show ?thesis
    using assms by (simp only: builtin_signature_def map_of_append map_add_Some_iff) simp
qed

end
