(* ===== verification/Inference.thy ===== *)
theory Inference
  imports Stack_Utils Builtins
begin

text \<open>
  Statement-level inference of the type checker: word calls (\<open>typechecker/words.rs\<close>), the dataflow
  combinators (\<open>combinators.rs\<close>), conditionals and matches (\<open>control_flow.rs\<close>), quotations
  (\<open>quotations.rs\<close>) and the loop over a statement list (\<open>driver.rs\<close>).  The checker's cells are threaded as
  a record; a result is \<open>None\<close> when the unifier's fuel \<open>n\<close> runs out, and otherwise a sum with the error
  on the left.  The state is dropped on errors: an error ends the check of the program.
\<close>

type_synonym inferred = "(check_error + stack_type \<times> subst \<times> side_effect list \<times> checker) option"

section \<open>Bookkeeping\<close>

definition tc_freshen :: "effect \<Rightarrow> checker \<Rightarrow> effect \<times> checker" where
  "tc_freshen e tc = (let (e', c) = freshen_effect e (tc_counter tc) in (e', tc\<lparr>tc_counter := c\<rparr>))"

definition merge_effects :: "side_effect list \<Rightarrow> side_effect list \<Rightarrow> side_effect list" where
  "merge_effects acc es = foldl (\<lambda>acc e. if e \<in> set acc then acc else acc @ [e]) acc es"

definition record_sugar :: "span option \<Rightarrow> name \<Rightarrow> checker \<Rightarrow> checker" where
  "record_sugar sp r tc =
     (case sp of
        Some s \<Rightarrow> tc\<lparr>resolved_sugar := (resolved_sugar tc)((sp_line s, sp_column s) \<mapsto> r)\<rparr>
      | None \<Rightarrow> tc)"

definition capture_statement_type :: "name \<Rightarrow> nat \<Rightarrow> stack_type \<Rightarrow> checker \<Rightarrow> checker" where
  "capture_statement_type w i st tc =
     (case get_trivially_copyable_top st of
        Some t \<Rightarrow> tc\<lparr>statement_top_types := (statement_top_types tc)((w, i) \<mapsto> t)\<rparr>
      | None \<Rightarrow> tc)"

text \<open>The unions are searched in the order of the list; the map of the code has no fixed order.\<close>

fun find_variant_in :: "(name \<times> union_type_info) list \<Rightarrow> name \<Rightarrow> (name \<times> variant_info) option" where
  "find_variant_in [] v = None"
| "find_variant_in ((u, info) # us) v =
     (case find (\<lambda>vi. vi_name vi = v) (ut_variants info) of
        Some vi \<Rightarrow> Some (u, vi)
      | None \<Rightarrow> find_variant_in us v)"

definition find_variant :: "checker \<Rightarrow> name \<Rightarrow> (name \<times> variant_info) option" where
  "find_variant tc v = find_variant_in (unions tc) v"

section \<open>Quotation slots and combinators\<close>

datatype quot_effect = QConcrete effect | QFallback stack_type subst

fun extract_quotation_effect ::
  "nat \<Rightarrow> checker \<Rightarrow> ty \<Rightarrow> name \<Rightarrow> name \<Rightarrow> stack_type \<Rightarrow> (check_error + quot_effect \<times> checker) option" where
  "extract_quotation_effect n tc (TQuotation e) w slot st = Some (Ok (QConcrete e, tc))"
| "extract_quotation_effect n tc (TClosure e _) w slot st = Some (Ok (QConcrete e, tc))"
| "extract_quotation_effect n tc (TVar _) w slot st =
     (case lookup_word_effect builtin_signature tc w of
        None \<Rightarrow> Some (Err (UnknownWord w))
      | Some e \<Rightarrow>
          (let (fresh, tc1) = tc_freshen e tc
           in and_then (apply_effect n tc1 fresh st w) (\<lambda>(r, s). Some (Ok (QFallback r s, tc1)))))"
| "extract_quotation_effect n tc t w slot st = Some (Err (NotAQuotation w slot t))"

definition infer_dip :: "nat \<Rightarrow> checker \<Rightarrow> stack_type \<Rightarrow> inferred" where
  "infer_dip n tc st =
     (case st_pop st of
        None \<Rightarrow> Some (Err (QuotationUnderflow ''dip'' ''quotation''))
      | Some (after_quot, quot) \<Rightarrow>
          and_then (extract_quotation_effect n tc quot ''dip'' ''on top of stack'' st) (\<lambda>(q, tc1).
          case q of
            QFallback r s \<Rightarrow> Some (Ok (r, s, [], tc1))
          | QConcrete e \<Rightarrow>
              if has_yield e then Some (Err (YieldInQuotation ''dip''))
              else and_then (Some (polymorphic_pop tc1 after_quot ''dip: expected a value below the quotation''))
                (\<lambda>(rest, preserved, pop_subst, tc2).
                   let (fresh, tc3) = tc_freshen e tc2
                   in and_then (apply_effect n tc3 fresh rest ''dip (quotation)'') (\<lambda>(r, app).
                      let s = compose pop_subst app
                      in Some (Ok (st_push r (apply_type s preserved), s, effects fresh, tc3))))))"

definition infer_keep :: "nat \<Rightarrow> checker \<Rightarrow> stack_type \<Rightarrow> inferred" where
  "infer_keep n tc st =
     (case st_pop st of
        None \<Rightarrow> Some (Err (QuotationUnderflow ''keep'' ''quotation''))
      | Some (after_quot, quot) \<Rightarrow>
          and_then (extract_quotation_effect n tc quot ''keep'' ''on top of stack'' st) (\<lambda>(q, tc1).
          case q of
            QFallback r s \<Rightarrow> Some (Ok (r, s, [], tc1))
          | QConcrete e \<Rightarrow>
              if has_yield e then Some (Err (YieldInQuotation ''keep''))
              else and_then (Some (polymorphic_pop tc1 after_quot ''keep: expected a value below the quotation''))
                (\<lambda>(_, preserved, peek_subst, tc2).
                   let quot_input = apply_stack peek_subst after_quot;
                       (fresh, tc3) = tc_freshen e tc2
                   in and_then (apply_effect n tc3 fresh quot_input ''keep (quotation)'') (\<lambda>(r, app).
                      let s = compose peek_subst app
                      in Some (Ok (st_push r (apply_type s preserved), s, effects fresh, tc3))))))"

definition infer_bi :: "nat \<Rightarrow> checker \<Rightarrow> stack_type \<Rightarrow> inferred" where
  "infer_bi n tc st =
     (case st_pop st of
        None \<Rightarrow> Some (Err (QuotationUnderflow ''bi'' ''second quotation''))
      | Some (stack1, quot2) \<Rightarrow>
     (case st_pop stack1 of
        None \<Rightarrow> Some (Err (QuotationUnderflow ''bi'' ''first quotation''))
      | Some (stack2, quot1) \<Rightarrow>
          and_then (extract_quotation_effect n tc quot1 ''bi'' ''as first quotation'' st) (\<lambda>(q1, tc1).
          case q1 of
            QFallback r s \<Rightarrow> Some (Ok (r, s, [], tc1))
          | QConcrete e1 \<Rightarrow>
          and_then (extract_quotation_effect n tc1 quot2 ''bi'' ''as second quotation'' st) (\<lambda>(q2, tc2).
          case q2 of
            QFallback r s \<Rightarrow> Some (Ok (r, s, [], tc2))
          | QConcrete e2 \<Rightarrow>
              if has_yield e1 \<or> has_yield e2 then Some (Err (YieldInQuotation ''bi''))
              else and_then (Some (polymorphic_pop tc2 stack2 ''bi: expected a value below the quotations''))
                (\<lambda>(_, preserved, peek_subst, tc3).
                   let quot1_input = apply_stack peek_subst stack2;
                       (fresh1, tc4) = tc_freshen e1 tc3
                   in and_then (apply_effect n tc4 fresh1 quot1_input ''bi (first quotation)'') (\<lambda>(r1, app1).
                      let s1 = compose peek_subst app1;
                          with_x = st_push r1 (apply_type s1 preserved);
                          (fresh2, tc5) = tc_freshen e2 tc4
                      in and_then (apply_effect n tc5 fresh2 with_x ''bi (second quotation)'') (\<lambda>(r, s2).
                         Some (Ok (r, compose s1 s2, merge_effects (effects fresh1) (effects fresh2), tc5)))))))))"

text \<open>The condition of a conditional is unified with \<open>Bool\<close> as one-element stacks.\<close>

definition unify_condition :: "nat \<Rightarrow> ty \<Rightarrow> (check_error + subst) option" where
  "unify_condition n t =
     (case unify_stacks n (st_singleton TBool) (st_singleton t) of
        None \<Rightarrow> None
      | Some (Inl e) \<Rightarrow> Some (Err (ConditionNotBool e))
      | Some (Inr s) \<Rightarrow> Some (Ok s))"

definition unify_branches :: "nat \<Rightarrow> stack_type \<Rightarrow> stack_type \<Rightarrow> (check_error + subst) option" where
  "unify_branches n s1 s2 =
     (case unify_stacks n s1 s2 of
        None \<Rightarrow> None
      | Some (Inl e) \<Rightarrow> Some (Err (BranchMismatch s1 s2 e))
      | Some (Inr s) \<Rightarrow> Some (Ok s))"

definition infer_if_combinator :: "nat \<Rightarrow> checker \<Rightarrow> stack_type \<Rightarrow> inferred" where
  "infer_if_combinator n tc st =
     (case st_pop st of
        None \<Rightarrow> Some (Err (QuotationUnderflow ''if'' ''else-quotation''))
      | Some (stack1, else_quot) \<Rightarrow>
     (case st_pop stack1 of
        None \<Rightarrow> Some (Err (QuotationUnderflow ''if'' ''then-quotation''))
      | Some (stack2, then_quot) \<Rightarrow>
          and_then (Some (polymorphic_pop tc stack2 ''if: expected Bool below the two quotations''))
            (\<lambda>(after_cond0, cond, pop_subst, tc0).
          and_then (unify_condition n cond) (\<lambda>unify_subst.
          let cond_subst = compose pop_subst unify_subst;
              after_cond = apply_stack cond_subst after_cond0
          in and_then (extract_quotation_effect n tc0 then_quot ''if'' ''as then-branch'' st) (\<lambda>(q1, tc1).
          case q1 of
            QFallback r s \<Rightarrow> Some (Ok (r, s, [], tc1))
          | QConcrete then_effect \<Rightarrow>
          and_then (extract_quotation_effect n tc1 else_quot ''if'' ''as else-branch'' st) (\<lambda>(q2, tc2).
          case q2 of
            QFallback r s \<Rightarrow> Some (Ok (r, s, [], tc2))
          | QConcrete else_effect \<Rightarrow>
              let (fresh_then, tc3) = tc_freshen then_effect tc2
              in and_then (apply_effect n tc3 fresh_then after_cond ''if (then branch)'') (\<lambda>(then_result, then_subst).
              let (fresh_else, tc4) = tc_freshen else_effect tc3
              in and_then (apply_effect n tc4 fresh_else (apply_stack then_subst after_cond) ''if (else branch)'')
                (\<lambda>(else_result, else_subst).
              and_then (unify_branches n (apply_stack else_subst then_result) else_result) (\<lambda>merge_subst.
              Some (Ok (apply_stack merge_subst else_result,
                        compose (compose (compose cond_subst then_subst) else_subst) merge_subst,
                        merge_effects (effects fresh_then) (effects fresh_else), tc4)))))))))))"

section \<open>Word calls\<close>

definition infer_call :: "nat \<Rightarrow> checker \<Rightarrow> stack_type \<Rightarrow> inferred" where
  "infer_call n tc st =
     (case st_pop st of
        None \<Rightarrow> Some (Err (QuotationUnderflow ''call'' ''quotation''))
      | Some (remaining, quot) \<Rightarrow>
          and_then (extract_quotation_effect n tc quot ''call'' ''on stack'' st) (\<lambda>(q, tc1).
          case q of
            QFallback r s \<Rightarrow> Some (Ok (r, s, [], tc1))
          | QConcrete e \<Rightarrow>
              if has_yield e then Some (Err (YieldInQuotation ''call''))
              else let (fresh, tc2) = tc_freshen e tc1
                   in and_then (apply_effect n tc2 fresh remaining ''call'') (\<lambda>(r, s).
                      Some (Ok (r, s, effects fresh, tc2)))))"

text \<open>The loop of \<open>adjust_stack_for_spawn\<close> that drops \<open>k\<close> captured values.\<close>

fun drop_captured :: "nat \<Rightarrow> nat \<Rightarrow> stack_type \<Rightarrow> check_error + stack_type" where
  "drop_captured want 0 st = Ok st"
| "drop_captured want (Suc k) (SCons rest _) = drop_captured want k rest"
| "drop_captured want (Suc k) _ = Err (SpawnCaptures want)"

definition adjust_stack_for_spawn :: "stack_type \<Rightarrow> effect \<Rightarrow> check_error + stack_type" where
  "adjust_stack_for_spawn st spawn_effect =
     (case inputs spawn_effect of
        SCons _ (TQuotation expected) \<Rightarrow>
          (case st of
             SCons rest (TQuotation actual) \<Rightarrow>
               if inputs actual \<noteq> SEmpty
               then try_bind (calculate_captures actual expected) (\<lambda>captures.
                    try_bind (drop_captured (length captures) (length captures) rest) (\<lambda>adjusted.
                    Ok (st_push adjusted (TClosure expected captures))))
               else Ok st
           | _ \<Rightarrow> Ok st)
      | _ \<Rightarrow> Ok st)"

text \<open>The part of \<open>infer_word_call\<close> after the sugar has been resolved.\<close>

definition infer_named_call :: "nat \<Rightarrow> checker \<Rightarrow> name \<Rightarrow> stack_type \<Rightarrow> inferred" where
  "infer_named_call n tc w st =
     (if w = ''>aux'' then and_then (Some (infer_to_aux tc st)) (\<lambda>(r, tc1). Some (Ok (r, subst_empty, [], tc1)))
      else if w = ''aux>'' then and_then (Some (infer_from_aux tc st)) (\<lambda>(r, tc1). Some (Ok (r, subst_empty, [], tc1)))
      else if w = ''call'' then infer_call n tc st
      else if w = ''dip'' then infer_dip n tc st
      else if w = ''keep'' then infer_keep n tc st
      else if w = ''bi'' then infer_bi n tc st
      else if w = ''if'' then infer_if_combinator n tc st
      else case lookup_word_effect builtin_signature tc w of
             None \<Rightarrow> Some (Err (UnknownWord w))
           | Some e \<Rightarrow>
               (let (fresh, tc1) = tc_freshen e tc
                in and_then (if w = ''strand.spawn'' then Some (adjust_stack_for_spawn st fresh) else Some (Ok st))
                   (\<lambda>adjusted.
                   and_then (apply_effect n tc1 fresh adjusted w) (\<lambda>(r, s).
                   Some (Ok (r, s, effects fresh, tc1))))))"

definition describe_top :: "stack_type \<Rightarrow> string" where
  "describe_top st = (case st_pop st of Some (_, t) \<Rightarrow> display_type t | None \<Rightarrow> ''empty'')"

definition describe_second :: "stack_type \<Rightarrow> string" where
  "describe_second st = (case st_pop st of Some (r, _) \<Rightarrow> describe_top r | None \<Rightarrow> ''empty'')"

text \<open>A resolved name is never sugar itself, so the recursion of the code is one level deep.\<close>

definition infer_word_call :: "nat \<Rightarrow> checker \<Rightarrow> name \<Rightarrow> span option \<Rightarrow> stack_type \<Rightarrow> inferred" where
  "infer_word_call n tc w sp st =
     (if w \<in> set sugar_ops
      then (case resolve_arithmetic_sugar w st of
              Some r \<Rightarrow> infer_named_call n (record_sugar sp r tc) r st
            | None \<Rightarrow>
                if describe_top st = ''empty'' \<and> describe_second st = ''empty''
                then Some (Err (SugarOutOfScope w))
                else Some (Err (SugarMismatch w (describe_second st) (describe_top st))))
      else infer_named_call n tc w st)"

lemma resolved_not_sugar: "resolve_arithmetic_sugar w st = Some r \<Longrightarrow> r \<notin> set sugar_ops"
  by (auto simp: resolve_arithmetic_sugar_def sugar_ops_def split: stack_type.splits ty.splits if_splits)

section \<open>Branches and arms\<close>

definition is_divergent_branch :: "checker \<Rightarrow> statement list \<Rightarrow> bool" where
  "is_divergent_branch tc ss =
     (case current_word tc of
        None \<Rightarrow> False
      | Some (cur, _) \<Rightarrow>
          (if ss = [] then False
           else case last ss of
             WordCall w _ \<Rightarrow>
               (if w = cur then True
                else case tc_call_graph tc of
                  Some g \<Rightarrow> are_mutually_recursive g cur w
                | None \<Rightarrow> False)
           | _ \<Rightarrow> False))"

fun push_bound_fields :: "variant_info \<Rightarrow> name \<Rightarrow> name list \<Rightarrow> stack_type \<Rightarrow> check_error + stack_type" where
  "push_bound_fields vi v [] st = Ok st"
| "push_bound_fields vi v (b # bs) st =
     (case find (\<lambda>f. vf_name f = b) (vi_fields vi) of
        None \<Rightarrow> Err (UnknownField b v (map vf_name (vi_fields vi)))
      | Some f \<Rightarrow> push_bound_fields vi v bs (st_push st (field_type f)))"

fun push_variant_fields :: "stack_type \<Rightarrow> pattern \<Rightarrow> variant_info \<Rightarrow> name \<Rightarrow> check_error + stack_type" where
  "push_variant_fields st (PVariant _) vi v = Ok (foldl (\<lambda>st f. st_push st (field_type f)) st (vi_fields vi))"
| "push_variant_fields st (PVariantWithBindings _ bs) vi v = push_bound_fields vi v bs st"

text \<open>After the arms: equal aux stacks, then unification of the results from the first on.\<close>

fun check_arm_aux :: "stack_type \<Rightarrow> nat \<Rightarrow> stack_type list \<Rightarrow> check_error + unit" where
  "check_arm_aux first i [] = Ok ()"
| "check_arm_aux first i (a # as) =
     (if a \<noteq> first then Err (ArmAuxMismatch i first a) else check_arm_aux first (i + 1) as)"

fun unify_arms :: "nat \<Rightarrow> nat \<Rightarrow> stack_type \<Rightarrow> subst \<Rightarrow> stack_type list \<Rightarrow> (check_error + stack_type \<times> subst) option" where
  "unify_arms n i final comb [] = Some (Ok (final, comb))"
| "unify_arms n i final comb (r # rs) =
     (case unify_stacks n final r of
        None \<Rightarrow> None
      | Some (Inl e) \<Rightarrow> Some (Err (ArmMismatch i final r e))
      | Some (Inr s) \<Rightarrow> unify_arms n (i + 1) (apply_stack s final) (compose comb s) rs)"

definition finish_match :: "nat \<Rightarrow> stack_type list \<Rightarrow> stack_type list \<Rightarrow> subst \<Rightarrow> side_effect list \<Rightarrow> checker \<Rightarrow> inferred" where
  "finish_match n results auxs comb effs tc =
     (case (results, auxs) of
        (r # rs, a # as) \<Rightarrow>
          and_then (Some (check_arm_aux a 1 as)) (\<lambda>_.
          and_then (unify_arms n 1 r comb rs) (\<lambda>(final, s).
          Some (Ok (final, s, effs, tc\<lparr>current_aux_stack := a\<rparr>))))
      | _ \<Rightarrow> Some (Err EmptyMatch))"

text \<open>After the branches of a conditional.\<close>

definition finish_if ::
  "nat \<Rightarrow> bool \<Rightarrow> bool \<Rightarrow> subst \<Rightarrow> (stack_type \<times> subst \<times> side_effect list \<times> stack_type) \<Rightarrow>
   (stack_type \<times> subst \<times> side_effect list \<times> stack_type) \<Rightarrow> checker \<Rightarrow> inferred" where
  "finish_if n then_diverges else_diverges cond_subst then_out else_out tc =
     (let (then_result, then_subst, then_effects, aux_then) = then_out;
          (else_result, else_subst, else_effects, aux_else) = else_out
      in if \<not> then_diverges \<and> \<not> else_diverges \<and> aux_then \<noteq> aux_else
         then Some (Err (BranchAuxMismatch aux_then aux_else))
         else let tc1 = tc\<lparr>current_aux_stack := (if then_diverges \<and> \<not> else_diverges then aux_else else aux_then)\<rparr>;
                  merged = merge_effects then_effects else_effects
              in and_then
                  (if then_diverges \<and> \<not> else_diverges then Some (Ok (else_result, subst_empty))
                   else if else_diverges \<and> \<not> then_diverges then Some (Ok (then_result, subst_empty))
                   else and_then (unify_branches n then_result else_result) (\<lambda>s. Some (Ok (apply_stack s then_result, s))))
                  (\<lambda>(result, branch_subst).
                   Some (Ok (result, compose (compose (compose cond_subst then_subst) else_subst) branch_subst, merged, tc1))))"

section \<open>Quotations\<close>

fun pop_captures :: "nat \<Rightarrow> stack_type \<Rightarrow> ty list \<Rightarrow> check_error + stack_type \<times> ty list" where
  "pop_captures 0 st acc = Ok (st, acc)"
| "pop_captures (Suc k) st acc =
     try_bind (pop_type st ''closure capture'') (\<lambda>(rest, t). pop_captures k rest (t # acc))"

definition pop_actual_capture_types :: "nat \<Rightarrow> stack_type \<Rightarrow> check_error + stack_type \<times> ty list" where
  "pop_actual_capture_types k st = pop_captures k st []"

definition analyze_captures :: "nat \<Rightarrow> checker \<Rightarrow> effect \<Rightarrow> (check_error + ty) option" where
  "analyze_captures n tc body =
     (case expected_quotation_type tc of
        Some (TClosure e _) \<Rightarrow>
          and_then (Some (calculate_captures body e)) (\<lambda>cs. Some (Ok (TClosure e cs)))
      | Some (TQuotation expected) \<Rightarrow>
          (let body_inputs = extract_concrete_types (inputs body);
               expected_inputs = extract_concrete_types (inputs expected);
               should_capture =
                 (if inputs expected = SEmpty then body_inputs \<noteq> []
                  else if expected_inputs \<noteq> [] then length body_inputs > length expected_inputs
                  else False)
           in if should_capture
              then and_then (Some (calculate_captures body expected)) (\<lambda>cs. Some (Ok (TClosure expected cs)))
              else (case unify_types n (TQuotation body) (TQuotation expected) of
                      None \<Rightarrow> None
                    | Some (Inl e) \<Rightarrow> Some (Err (QuotationMismatch expected body e))
                    | Some (Inr _) \<Rightarrow> Some (Ok (TQuotation expected))))
      | _ \<Rightarrow> Some (Ok (TQuotation body)))"

text \<open>The end of \<open>infer_quotation\<close>: the type is recorded and pushed, the captures are popped.\<close>

definition finish_quotation :: "nat \<Rightarrow> checker \<Rightarrow> nat \<Rightarrow> effect \<Rightarrow> stack_type \<Rightarrow> inferred" where
  "finish_quotation n tc qid body_effect st =
     and_then (analyze_captures n tc body_effect) (\<lambda>t.
     case t of
       TClosure e cs \<Rightarrow>
         and_then (Some (pop_actual_capture_types (length cs) st)) (\<lambda>(rest, actual).
         let t' = TClosure e actual
         in Some (Ok (st_push rest t', subst_empty, [],
                      tc\<lparr>quotation_types := (quotation_types tc)(qid \<mapsto> t')\<rparr>)))
     | _ \<Rightarrow> Some (Ok (st_push st t, subst_empty, [],
                      tc\<lparr>quotation_types := (quotation_types tc)(qid \<mapsto> t)\<rparr>)))"

fun expected_effect :: "ty option \<Rightarrow> effect option" where
  "expected_effect (Some (TQuotation e)) = Some e"
| "expected_effect (Some (TClosure e _)) = Some e"
| "expected_effect _ = None"

text \<open>
  The stack the body of a quotation is inferred from: the fresh inputs of the expected effect, or the row
  variable \<open>input\<close>.
\<close>

definition quotation_start :: "checker \<Rightarrow> stack_type \<times> checker" where
  "quotation_start tc =
     (let tc1 = tc\<lparr>expected_quotation_type := None, current_aux_stack := SEmpty\<rparr>
      in case expected_effect (expected_quotation_type tc) of
           Some e \<Rightarrow> (let (fresh, tc2) = tc_freshen e tc1 in (inputs fresh, tc2))
         | None \<Rightarrow> (SRowVar ''input'', tc1))"

section \<open>Statements\<close>

text \<open>An integer literal followed by \<open>pick\<close> or \<open>roll\<close> is one operation.\<close>

fun literal_index :: "statement \<Rightarrow> statement list \<Rightarrow> (name \<times> i64) option" where
  "literal_index (IntLiteral k) (WordCall w _ # _) = (if w = ''pick'' \<or> w = ''roll'' then Some (w, k) else None)"
| "literal_index _ _ = None"

definition handle_literal_index :: "checker \<Rightarrow> name \<Rightarrow> i64 \<Rightarrow> stack_type \<Rightarrow> check_error + stack_type \<times> subst \<times> checker" where
  "handle_literal_index tc w k st =
     (if w = ''pick'' then handle_literal_pick tc (sint k) st else handle_literal_roll tc (sint k) st)"

fun is_quotation :: "statement \<Rightarrow> bool" where
  "is_quotation (Quotation _ _ _) = True"
| "is_quotation _ = False"

text \<open>The type that the word after a quotation expects is set while the quotation is inferred.\<close>

definition expect_from_next :: "statement \<Rightarrow> statement list \<Rightarrow> checker \<Rightarrow> checker" where
  "expect_from_next stmt rest tc =
     (if is_quotation stmt
      then (case rest of
              WordCall w _ # _ \<Rightarrow>
                (case lookup_word_effect builtin_signature tc w of
                   Some e \<Rightarrow>
                     (case st_pop (inputs e) of
                        Some (_, TQuotation q) \<Rightarrow> tc\<lparr>expected_quotation_type := Some (TQuotation q)\<rparr>
                      | _ \<Rightarrow> tc)
                 | None \<Rightarrow> tc)
            | _ \<Rightarrow> tc)
      else tc)"

definition capture_before :: "bool \<Rightarrow> nat \<Rightarrow> stack_type \<Rightarrow> checker \<Rightarrow> checker" where
  "capture_before cap i st tc =
     (if cap then (case current_word tc of Some (w, _) \<Rightarrow> capture_statement_type w i st tc | None \<Rightarrow> tc) else tc)"

definition restore_expected :: "statement \<Rightarrow> ty option \<Rightarrow> checker \<Rightarrow> checker" where
  "restore_expected stmt saved tc = (if is_quotation stmt then tc\<lparr>expected_quotation_type := saved\<rparr> else tc)"

lemma literal_index_tl: "literal_index s ss = Some x \<Longrightarrow> size_list size (tl ss) < Suc (size s + size_list size ss)"
  by (cases ss) auto

text \<open>
  \<open>infer_loop\<close> is the loop of \<open>infer_statements_from\<close>: \<open>i\<close> is the index of the first statement left, \<open>s\<close> and
  \<open>effs\<close> are what has been accumulated.  \<open>infer_arms\<close> is the loop of \<open>infer_match\<close> over its arms, with the
  results, aux stacks, substitution and effects gathered so far.
\<close>

function (sequential) infer_loop ::
  "nat \<Rightarrow> checker \<Rightarrow> bool \<Rightarrow> nat \<Rightarrow> statement list \<Rightarrow> stack_type \<Rightarrow> subst \<Rightarrow> side_effect list \<Rightarrow> inferred"
and infer_statement :: "nat \<Rightarrow> checker \<Rightarrow> statement \<Rightarrow> stack_type \<Rightarrow> inferred"
and infer_arms ::
  "nat \<Rightarrow> checker \<Rightarrow> match_arm list \<Rightarrow> stack_type \<Rightarrow> stack_type \<Rightarrow> stack_type list \<Rightarrow> stack_type list \<Rightarrow> subst \<Rightarrow>
   side_effect list \<Rightarrow> inferred" where
  "infer_loop n tc cap i [] st s effs = Some (Ok (st, s, effs, tc))"
| "infer_loop n tc cap i (stmt # rest) st s effs =
     (case literal_index stmt rest of
        Some (w, k) \<Rightarrow>
          and_then (Some (handle_literal_index tc w k st)) (\<lambda>(st1, s1, tc1).
          infer_loop n tc1 cap (i + 2) (tl rest) st1 (compose s s1) effs)
      | None \<Rightarrow>
          and_then (infer_statement n (capture_before cap i st (expect_from_next stmt rest tc)) stmt st)
            (\<lambda>(st1, s1, effs1, tc1).
          infer_loop n (restore_expected stmt (expected_quotation_type tc) tc1) cap (i + 1) rest st1 (compose s s1)
            (merge_effects effs effs1)))"
| "infer_statement n tc (IntLiteral _) st = Some (Ok (st_push st TInt, subst_empty, [], tc))"
| "infer_statement n tc (BoolLiteral _) st = Some (Ok (st_push st TBool, subst_empty, [], tc))"
| "infer_statement n tc (StringLiteral _) st = Some (Ok (st_push st TString, subst_empty, [], tc))"
| "infer_statement n tc (FloatLiteral _) st = Some (Ok (st_push st TFloat, subst_empty, [], tc))"
| "infer_statement n tc (Symbol _) st = Some (Ok (st_push st TSymbol, subst_empty, [], tc))"
| "infer_statement n tc (WordCall w sp) st = infer_word_call n tc w sp st"
| "infer_statement n tc (Match arms sp) st =
     (if arms = [] then Some (Err EmptyMatch)
      else and_then (Some (pop_type st ''match expression'')) (\<lambda>(after_match, _).
           infer_arms n tc arms (current_aux_stack tc) after_match [] [] subst_empty []))"
| "infer_statement n tc (If then_branch else_branch sp) st =
     and_then (Some (polymorphic_pop tc st ''if condition'')) (\<lambda>(after_cond0, cond, pop_subst, tc1).
     and_then (unify_condition n cond) (\<lambda>unify_subst.
     let cond_subst = compose pop_subst unify_subst;
         after_cond = apply_stack cond_subst after_cond0
     in and_then (infer_loop n tc1 False 0 then_branch after_cond subst_empty [])
          (\<lambda>(then_result, then_subst, then_effects, tc2).
     let aux_then = current_aux_stack tc2;
         tc3 = tc2\<lparr>current_aux_stack := current_aux_stack tc1\<rparr>
     in and_then (case else_branch of
                    Some ss \<Rightarrow> infer_loop n tc3 False 0 ss after_cond subst_empty []
                  | None \<Rightarrow> Some (Ok (after_cond, subst_empty, [], tc3)))
          (\<lambda>(else_result, else_subst, else_effects, tc4).
     finish_if n (is_divergent_branch tc1 then_branch)
       (case else_branch of Some ss \<Rightarrow> is_divergent_branch tc1 ss | None \<Rightarrow> False) cond_subst
       (then_result, then_subst, then_effects, aux_then)
       (else_result, else_subst, else_effects, current_aux_stack tc4) tc4))))"
| "infer_statement n tc (Quotation qid body sp) st =
     (let (start, tc1) = quotation_start tc;
          tc2 = tc1\<lparr>quotation_id_stack := quotation_id_stack tc1 @ [qid]\<rparr>
      in and_then (infer_loop n tc2 False 0 body start subst_empty []) (\<lambda>(result, s, effs, tc3).
         if current_aux_stack tc3 \<noteq> SEmpty then Some (Err (QuotationAux (current_aux_stack tc3)))
         else finish_quotation n
                (tc3\<lparr>current_aux_stack := current_aux_stack tc, quotation_id_stack := butlast (quotation_id_stack tc3),
                     expected_quotation_type := expected_quotation_type tc\<rparr>)
                qid (effect_with_effects (apply_stack s start) (apply_stack s result) effs) st))"
| "infer_arms n tc [] aux0 after_match results auxs comb effs = finish_match n results auxs comb effs tc"
| "infer_arms n tc (MatchArm p body sp # arms) aux0 after_match results auxs comb effs =
     (case find_variant tc (pattern_name p) of
        None \<Rightarrow> Some (Err (UnknownVariant (pattern_name p)))
      | Some (_, vi) \<Rightarrow>
          and_then (Some (push_variant_fields after_match p vi (pattern_name p))) (\<lambda>arm_stack.
          and_then (infer_loop n (tc\<lparr>current_aux_stack := aux0\<rparr>) False 0 body arm_stack subst_empty [])
            (\<lambda>(r, s, effs1, tc1).
          infer_arms n tc1 arms aux0 after_match (results @ [r]) (auxs @ [current_aux_stack tc1]) (compose comb s)
            (merge_effects effs effs1))))"
  by pat_completeness auto

termination
  by (relation "measure (\<lambda>x. case x of
      Inl (_, _, _, _, ss, _, _, _) \<Rightarrow> 2 * size_list size ss
    | Inr (Inl (_, _, stmt, _)) \<Rightarrow> 2 * size stmt + 1
    | Inr (Inr (_, _, arms, _)) \<Rightarrow> 2 * size_list size arms)")
     (auto dest: literal_index_tl)

text \<open>\<open>infer_statements_from\<close> and \<open>infer_statements\<close>.\<close>

definition infer_statements_from :: "nat \<Rightarrow> checker \<Rightarrow> statement list \<Rightarrow> stack_type \<Rightarrow> bool \<Rightarrow> inferred" where
  "infer_statements_from n tc ss st cap = infer_loop n tc cap 0 ss st subst_empty []"

definition infer_statements :: "nat \<Rightarrow> checker \<Rightarrow> statement list \<Rightarrow> (check_error + effect \<times> checker) option" where
  "infer_statements n tc ss =
     (let start = SRowVar ''input''
      in and_then (infer_statements_from n tc ss start False) (\<lambda>(result, s, effs, tc1).
         Some (Ok (effect_with_effects (apply_stack s start) (apply_stack s result) effs, tc1))))"

end
