(* ===== verification/Edit_Distance.thy ===== *)
theory Edit_Distance
  imports Prelude
begin

text \<open>
  The edit distance of \<open>crates/compiler/src/parser/type_parse.rs\<close>, which ranks the suggestions for a
  misspelt type name: a dynamic program over two rows, and the proof that it computes the least number of
  single-character edits.
\<close>

section \<open>The code\<close>

text \<open>
  The inner loop: \<open>curr[j]\<close> from \<open>prev[j - 1]\<close>, \<open>prev[j]\<close> and \<open>curr[j - 1]\<close>.
\<close>

fun edit_cells :: "'a \<Rightarrow> 'a list \<Rightarrow> nat list \<Rightarrow> nat \<Rightarrow> nat list" where
  "edit_cells x (y # ys) (p # q # prev) left =
     (let cost = (if x = y then 0 else 1);
          c = min (min (q + 1) (left + 1)) (p + cost)
      in c # edit_cells x ys (q # prev) c)"
| "edit_cells x _ _ left = []"

text \<open>The outer loop, from row \<open>i\<close> on.\<close>

fun edit_rows :: "'a list \<Rightarrow> 'a list \<Rightarrow> nat \<Rightarrow> nat list \<Rightarrow> nat list" where
  "edit_rows [] b i prev = prev"
| "edit_rows (x # a) b i prev = edit_rows a b (i + 1) (i # edit_cells x b prev i)"

definition edit_distance :: "'a list \<Rightarrow> 'a list \<Rightarrow> nat" where
  "edit_distance a b =
     (let n = length a; m = length b
      in if n = 0 then m else if m = 0 then n
         else edit_rows a b 1 [0..<Suc m] ! m)"

section \<open>The recurrence\<close>

text \<open>The distance by recursion on the last characters, that is, on the reversed strings.\<close>

fun lev :: "'a list \<Rightarrow> 'a list \<Rightarrow> nat" where
  "lev [] ys = length ys"
| "lev xs [] = length xs"
| "lev (x # xs) (y # ys) =
     min (min (lev xs (y # ys) + 1) (lev (x # xs) ys + 1)) (lev xs ys + (if x = y then 0 else 1))"

lemma lev_Nil2 [simp]: "lev xs [] = length xs"
  by (cases xs) auto

definition lev_row :: "'a list \<Rightarrow> 'a list \<Rightarrow> nat list" where
  "lev_row xs b = map (\<lambda>j. lev xs (rev (take j b))) [0..<Suc (length b)]"

lemma edit_cells_map:
  assumes "\<And>j. j < length ys \<Longrightarrow>
    g (Suc (d + j)) = min (min (f (Suc (d + j)) + 1) (g (d + j) + 1)) (f (d + j) + (if x = ys ! j then 0 else 1))"
  shows "edit_cells x ys (map f [d..<Suc (d + length ys)]) (g d) = map g [Suc d..<Suc (d + length ys)]"
  using assms
proof (induction ys arbitrary: d)
  case (Cons y ys)
  have up: "[d..<Suc (d + length (y # ys))] = d # Suc d # [Suc (Suc d)..<Suc (d + length (y # ys))]"
    "[Suc d..<Suc (d + length (y # ys))] = Suc d # [Suc (Suc d)..<Suc (d + length (y # ys))]"
    by (simp_all add: upt_conv_Cons del: upt_Suc)
  have c: "min (min (f (Suc d) + 1) (g d + 1)) (f d + (if x = y then 0 else 1)) = g (Suc d)"
    using Cons.prems [of 0] by simp
  have "edit_cells x ys (map f [Suc d..<Suc (Suc d + length ys)]) (g (Suc d)) =
      map g [Suc (Suc d)..<Suc (Suc d + length ys)]"
    using Cons.prems [of "Suc _"] by (intro Cons.IH) simp
  then show ?case unfolding up list.map edit_cells.simps Let_def c by (simp add: upt_conv_Cons del: upt_Suc)
qed simp

lemma edit_cells_row: "Suc (length xs) # edit_cells x b (lev_row xs b) (Suc (length xs)) = lev_row (x # xs) b"
proof -
  have "rev (take (Suc j) b) = b ! j # rev (take j b)" if "j < length b" for j
    using that by (simp add: take_Suc_conv_app_nth)
  then have "edit_cells x b (map (\<lambda>j. lev xs (rev (take j b))) [0..<Suc (0 + length b)]) (lev (x # xs) (rev (take 0 b))) =
      map (\<lambda>j. lev (x # xs) (rev (take j b))) [Suc 0..<Suc (0 + length b)]"
    by (intro edit_cells_map) (simp only: lev.simps add_0)
  then show ?thesis by (simp add: lev_row_def upt_conv_Cons del: upt_Suc)
qed

lemma edit_rows_lev: "edit_rows a b (Suc (length xs)) (lev_row xs b) = lev_row (rev a @ xs) b"
proof (induction a arbitrary: xs)
  case (Cons x a)
  show ?case using Cons.IH [of "x # xs"] by (simp add: edit_cells_row)
qed simp

lemma edit_distance_lev: "edit_distance a b = lev (rev a) (rev b)"
proof -
  have "lev_row [] b = [0..<Suc (length b)]"
    by (auto simp: lev_row_def intro!: nth_equalityI simp del: upt_Suc)
  with edit_rows_lev [of a b "[]"] have "edit_rows a b 1 [0..<Suc (length b)] = lev_row (rev a) b" by simp
  then show ?thesis by (simp add: edit_distance_def Let_def lev_row_def nth_append del: upt_Suc)
qed

section \<open>Single-character edits\<close>

inductive edit1 :: "'a list \<Rightarrow> 'a list \<Rightarrow> bool" where
  insertion: "edit1 (u @ v) (u @ x # v)"
| deletion: "edit1 (u @ x # v) (u @ v)"
| replacement: "edit1 (u @ x # v) (u @ y # v)"

lemma edit1_append: "edit1 a b \<Longrightarrow> edit1 (w @ a) (w @ b)"
  by (induction rule: edit1.induct) (metis append_assoc edit1.intros)+

lemma edit1_rev: "edit1 a b \<Longrightarrow> edit1 (rev a) (rev b)"
  by (induction rule: edit1.induct) (auto simp: edit1.intros)

lemma edits_Cons: "(edit1 ^^ k) a b \<Longrightarrow> (edit1 ^^ k) (x # a) (x # b)"
proof (induction k arbitrary: b)
  case (Suc k)
  then obtain c where "(edit1 ^^ k) (x # a) (x # c)" "edit1 (x # c) (x # b)"
    using edit1_append [of _ _ "[x]"] by (metis append_Cons append_Nil relpowp_Suc_E)
  then show ?case by (rule relpowp_Suc_I)
qed simp

lemma edits_rev: "(edit1 ^^ k) a b \<Longrightarrow> (edit1 ^^ k) (rev a) (rev b)"
proof (induction k arbitrary: b)
  case (Suc k)
  then show ?case by (metis edit1_rev relpowp_Suc_E relpowp_Suc_I)
qed simp

lemma edits_all_inserted: "(edit1 ^^ length ys) [] ys"
proof (induction ys)
  case (Cons y ys)
  have "edit1 ys (y # ys)" using insertion [of "[]"] by simp
  from relpowp_Suc_I [OF Cons this] show ?case by (simp del: relpowp.simps)
qed simp

lemma edits_all_deleted: "(edit1 ^^ length xs) xs []"
proof (induction xs)
  case (Cons x xs)
  have "edit1 (x # xs) xs" using deletion [of "[]"] by simp
  from relpowp_Suc_I2 [OF this Cons] show ?case by (simp del: relpowp.simps)
qed simp

lemma lev_reached: "(edit1 ^^ lev xs ys) xs ys"
proof (induction xs ys rule: lev.induct)
  case (1 ys)
  show ?case by (simp add: edits_all_inserted)
next
  case (2 x xs)
  show ?case using edits_all_deleted [of "x # xs"] by simp
next
  case (3 x xs y ys)
  have d: "(edit1 ^^ Suc (lev xs (y # ys))) (x # xs) (y # ys)"
    by (rule relpowp_Suc_I2 [OF _ 3(1)]) (use deletion [of "[]" x xs] in simp)
  have i: "(edit1 ^^ Suc (lev (x # xs) ys)) (x # xs) (y # ys)"
    by (rule relpowp_Suc_I [OF 3(2)]) (use insertion [of "[]" ys y] in simp)
  have r: "(edit1 ^^ (lev xs ys + (if x = y then 0 else 1))) (x # xs) (y # ys)"
  proof (cases "x = y")
    case True
    with edits_Cons [OF 3(3)] show ?thesis by simp
  next
    case False
    have "edit1 (x # xs) (y # xs)" using replacement [of "[]" x xs y] by simp
    from relpowp_Suc_I2 [OF this edits_Cons [OF 3(3)]] False show ?thesis by (simp del: relpowp.simps)
  qed
  show ?case
    unfolding lev.simps min_def using d i r by (simp del: relpowp.simps lev.simps)
qed

lemma lev_drop1: "lev v c \<le> lev (x # v) c + 1"
proof (induction c arbitrary: v x)
  case (Cons y ys)
  have "lev v (y # ys) \<le> lev v ys + 1" by (cases v) auto
  with Cons [of v x] show ?case by auto
qed auto

lemma lev_add1: "lev (x # v) c \<le> lev v c + 1"
  by (cases c) auto

lemma lev_replace1: "lev (x # v) c \<le> lev (y # v) c + 1"
proof (induction c)
  case (Cons z zs)
  then show ?case by auto
qed auto

lemma lev_Cons_mono:
  assumes "\<And>c. lev a c \<le> lev b c + 1"
  shows "lev (z # a) c \<le> lev (z # b) c + 1"
proof (induction c)
  case Nil
  show ?case using assms [of "[]"] by simp
next
  case (Cons y ys)
  with assms [of "y # ys"] assms [of ys] show ?case by auto
qed

lemma lev_append_mono: "(\<And>c. lev a c \<le> lev b c + 1) \<Longrightarrow> lev (u @ a) c \<le> lev (u @ b) c + 1"
  by (induction u arbitrary: c) (simp_all only: append_Nil append_Cons lev_Cons_mono)

lemma lev_edit1: "edit1 a b \<Longrightarrow> lev a c \<le> lev b c + 1"
  by (induction rule: edit1.induct) (rule lev_append_mono, rule lev_drop1 lev_add1 lev_replace1)+

lemma lev_refl: "lev xs xs = 0"
  by (induction xs) auto

lemma lev_least: "(edit1 ^^ k) a b \<Longrightarrow> lev a b \<le> k"
proof (induction k arbitrary: a)
  case 0
  then show ?case by (simp add: lev_refl)
next
  case (Suc k)
  then obtain c where "edit1 a c" "(edit1 ^^ k) c b" by (meson relpowp_Suc_E2)
  with Suc.IH [of c] lev_edit1 [of a c b] show ?case by simp
qed

section \<open>Property\<close>

text \<open>C17: The two-row dynamic program computes the Levenshtein distance: the strings are that many
  single-character insertions, deletions and replacements apart, and no fewer edits lead from one to the
  other.\<close>

theorem edit_distance_least:
  "(edit1 ^^ edit_distance a b) a b \<and> (LEAST k. (edit1 ^^ k) a b) = edit_distance a b"
proof -
  have r: "(edit1 ^^ edit_distance a b) a b"
    using edits_rev [OF lev_reached [of "rev a" "rev b"]] by (simp add: edit_distance_lev)
  moreover have "edit_distance a b \<le> k" if "(edit1 ^^ k) a b" for k
    using lev_least [OF edits_rev [OF that]] by (simp add: edit_distance_lev)
  ultimately show ?thesis by (auto intro: Least_equality)
qed

end
