(* ===== verification/Checker.thy ===== *)
theory Checker
  imports Inference Edit_Distance
begin

text \<open>
  The driver of the type checker: \<open>typechecker/validation.rs\<close>, \<open>typechecker/driver.rs\<close>, the registration
  functions of \<open>typechecker/state.rs\<close> and the check of \<open>main\<close> in \<open>typechecker.rs\<close>.  The names of types are
  taken to be ASCII where the code asks whether a character is upper case.
\<close>

section \<open>Validation\<close>

definition parse_type_name :: "name \<Rightarrow> ty" where
  "parse_type_name n =
     (if n = ''Int'' then TInt else if n = ''Float'' then TFloat else if n = ''Bool'' then TBool
      else if n = ''String'' then TString else if n = ''Channel'' then TChannel
      else if n = ''Socket'' then TSocket else TUnion n)"

definition is_valid_type_name :: "checker \<Rightarrow> name \<Rightarrow> bool" where
  "is_valid_type_name tc n \<longleftrightarrow>
     n \<in> {''Int'', ''Float'', ''Bool'', ''String'', ''Channel'', ''Socket''} \<or> n \<in> fst ` set (unions tc)"

fun validate_fields :: "checker \<Rightarrow> name \<Rightarrow> name \<Rightarrow> union_field list \<Rightarrow> check_error + unit" where
  "validate_fields tc u v [] = Ok ()"
| "validate_fields tc u v (f # fs) =
     (if \<not> is_valid_type_name tc (uf_type_name f) then Err (UnknownFieldType (uf_type_name f) (uf_name f) v u)
      else validate_fields tc u v fs)"

fun validate_variants :: "checker \<Rightarrow> name \<Rightarrow> union_variant list \<Rightarrow> check_error + unit" where
  "validate_variants tc u [] = Ok ()"
| "validate_variants tc u (v # vs) =
     try_bind (validate_fields tc u (uv_name v) (uv_fields v)) (\<lambda>_. validate_variants tc u vs)"

fun validate_unions :: "checker \<Rightarrow> union_def list \<Rightarrow> check_error + unit" where
  "validate_unions tc [] = Ok ()"
| "validate_unions tc (u # us) =
     try_bind (validate_variants tc (ud_name u) (ud_variants u)) (\<lambda>_. validate_unions tc us)"

definition validate_union_field_types :: "checker \<Rightarrow> seq_program \<Rightarrow> check_error + unit" where
  "validate_union_field_types tc p = validate_unions tc (prog_unions p)"

text \<open>The loop that keeps the first candidate of the least distance up to 2.\<close>

fun best_hint :: "name \<Rightarrow> (name \<times> nat) option \<Rightarrow> name list \<Rightarrow> (name \<times> nat) option" where
  "best_hint unknown best [] = best"
| "best_hint unknown best (c # cs) =
     (let d = edit_distance unknown c
      in best_hint unknown
           (if d \<le> 2 \<and> (case best of None \<Rightarrow> True | Some (_, bd) \<Rightarrow> d < bd) then Some (c, d) else best) cs)"

definition suggest_type_hint :: "checker \<Rightarrow> name \<Rightarrow> string" where
  "suggest_type_hint tc unknown =
     (case best_hint unknown None
        ([''Int'', ''Float'', ''Bool'', ''String'', ''Symbol'', ''Channel'', ''Socket'', ''Variant''] @ map fst (unions tc)) of
        Some (c, _) \<Rightarrow> '' Did you mean '' @ [CHR 0x27] @ c @ [CHR 0x27] @ ''?''
      | None \<Rightarrow> '''')"

definition is_ascii_uppercase :: "char \<Rightarrow> bool" where
  "is_ascii_uppercase c \<longleftrightarrow> 65 \<le> (of_char c :: nat) \<and> (of_char c :: nat) \<le> 90"

definition is_multi_upper :: "name \<Rightarrow> bool" where
  "is_multi_upper n \<longleftrightarrow> (case n of c # _ \<Rightarrow> is_ascii_uppercase c | [] \<Rightarrow> False) \<and> length n > 1"

fun validate_stack_types :: "checker \<Rightarrow> name \<Rightarrow> stack_type \<Rightarrow> check_error + unit"
and validate_effect_types :: "checker \<Rightarrow> name \<Rightarrow> effect \<Rightarrow> check_error + unit"
and validate_type :: "checker \<Rightarrow> name \<Rightarrow> ty \<Rightarrow> check_error + unit"
and validate_types :: "checker \<Rightarrow> name \<Rightarrow> ty list \<Rightarrow> check_error + unit" where
  "validate_stack_types tc w SEmpty = Ok ()"
| "validate_stack_types tc w (SRowVar _) = Ok ()"
| "validate_stack_types tc w (SCons rest t) =
     (case validate_type tc w t of Inl e \<Rightarrow> Err e | Inr _ \<Rightarrow> validate_stack_types tc w rest)"
| "validate_effect_types tc w (Effect i o' _) =
     (case validate_stack_types tc w i of Inl e \<Rightarrow> Err e | Inr _ \<Rightarrow> validate_stack_types tc w o')"
| "validate_type tc w (TVar n) =
     (if is_multi_upper n then Err (UnknownType w n (suggest_type_hint tc n)) else Ok ())"
| "validate_type tc w (TQuotation e) = validate_effect_types tc w e"
| "validate_type tc w (TClosure e cs) =
     (case validate_effect_types tc w e of Inl err \<Rightarrow> Err err | Inr _ \<Rightarrow> validate_types tc w cs)"
| "validate_type tc w (TUnion n) = (if n \<notin> fst ` set (unions tc) then Err (UnknownUnion w n) else Ok ())"
| "validate_type tc w TInt = Ok ()"
| "validate_type tc w TFloat = Ok ()"
| "validate_type tc w TBool = Ok ()"
| "validate_type tc w TString = Ok ()"
| "validate_type tc w TSymbol = Ok ()"
| "validate_type tc w TChannel = Ok ()"
| "validate_type tc w TSocket = Ok ()"
| "validate_type tc w TVariant = Ok ()"
| "validate_types tc w [] = Ok ()"
| "validate_types tc w (t # ts) =
     (case validate_type tc w t of Inl e \<Rightarrow> Err e | Inr _ \<Rightarrow> validate_types tc w ts)"

section \<open>Registration\<close>

text \<open>A union replaces an earlier one of its name.\<close>

fun insert_union :: "name \<Rightarrow> union_type_info \<Rightarrow> (name \<times> union_type_info) list \<Rightarrow> (name \<times> union_type_info) list" where
  "insert_union n i [] = [(n, i)]"
| "insert_union n i ((m, j) # us) = (if m = n then (n, i) # us else (m, j) # insert_union n i us)"

definition register_union :: "checker \<Rightarrow> union_def \<Rightarrow> checker" where
  "register_union tc u =
     (let variants = map (\<lambda>v. \<lparr>vi_name = uv_name v,
            vi_fields = map (\<lambda>f. \<lparr>vf_name = uf_name f, field_type = parse_type_name (uf_type_name f)\<rparr>) (uv_fields v)\<rparr>)
            (ud_variants u)
      in tc\<lparr>unions := insert_union (ud_name u) \<lparr>ut_name = ud_name u, ut_variants = variants\<rparr> (unions tc)\<rparr>)"

definition register_external_words :: "checker \<Rightarrow> (name \<times> effect) list \<Rightarrow> checker" where
  "register_external_words tc ws = foldl (\<lambda>tc (n, e). tc\<lparr>env := (env tc)(n \<mapsto> e)\<rparr>) tc ws"

definition register_external_unions :: "checker \<Rightarrow> name list \<Rightarrow> checker" where
  "register_external_unions tc ns =
     foldl (\<lambda>tc n. tc\<lparr>unions := insert_union n \<lparr>ut_name = n, ut_variants = []\<rparr> (unions tc)\<rparr>) tc ns"

definition set_call_graph :: "checker \<Rightarrow> call_graph \<Rightarrow> checker" where
  "set_call_graph tc g = tc\<lparr>tc_call_graph := Some g\<rparr>"

definition get_union :: "checker \<Rightarrow> name \<Rightarrow> union_type_info option" where
  "get_union tc n = map_of (unions tc) n"

fun collect_signatures :: "checker \<Rightarrow> word_def list \<Rightarrow> check_error + checker" where
  "collect_signatures tc [] = Ok tc"
| "collect_signatures tc (w # ws) =
     (case wd_effect w of
        Some e \<Rightarrow>
          (case validate_effect_types tc (wd_name w) e of
             Inl err \<Rightarrow> Err err
           | Inr _ \<Rightarrow> collect_signatures (tc\<lparr>env := (env tc)(wd_name w \<mapsto> e)\<rparr>) ws)
      | None \<Rightarrow> Err (MissingEffect (wd_name w)))"

fun is_bare_row :: "stack_type \<Rightarrow> bool" where
  "is_bare_row SEmpty = True"
| "is_bare_row (SRowVar _) = True"
| "is_bare_row (SCons _ _) = False"

definition validate_main_effect :: "effect \<Rightarrow> check_error + unit" where
  "validate_main_effect e =
     (let inputs_ok = is_bare_row (inputs e);
          outputs_ok = (is_bare_row (outputs e) \<or>
            (case outputs e of SCons rest TInt \<Rightarrow> is_bare_row rest | _ \<Rightarrow> False))
      in if inputs_ok \<and> outputs_ok then Ok () else Err (BadMainEffect (inputs e) (outputs e)))"

section \<open>Checking words and programs\<close>

definition effect_matches_any :: "side_effect \<Rightarrow> side_effect list \<Rightarrow> bool" where
  "effect_matches_any inferred declared = list_ex (\<lambda>d. case (inferred, d) of (Yield _, Yield _) \<Rightarrow> True) declared"

fun check_effects :: "(side_effect \<Rightarrow> check_error) \<Rightarrow> side_effect list \<Rightarrow> side_effect list \<Rightarrow> check_error + unit" where
  "check_effects mk [] others = Ok ()"
| "check_effects mk (e # es) others =
     (if \<not> effect_matches_any e others then Err (mk e) else check_effects mk es others)"

definition expect_output :: "effect \<Rightarrow> checker \<Rightarrow> checker" where
  "expect_output e tc =
     (case st_pop (outputs e) of
        Some (_, TQuotation q) \<Rightarrow> tc\<lparr>expected_quotation_type := Some (TQuotation q)\<rparr>
      | Some (_, TClosure q cs) \<Rightarrow> tc\<lparr>expected_quotation_type := Some (TClosure q cs)\<rparr>
      | _ \<Rightarrow> tc)"

text \<open>The \<open>expect\<close> of a missing effect is the outer \<open>None\<close>; \<open>check_program\<close> has ruled it out.\<close>

definition check_word :: "nat \<Rightarrow> checker \<Rightarrow> word_def \<Rightarrow> (check_error + checker) option" where
  "check_word n tc w =
     (case wd_effect w of
        None \<Rightarrow> None
      | Some declared \<Rightarrow>
          (let line = map_option sl_start_line (wd_source w);
               tc1 = tc\<lparr>current_word := Some (wd_name w, line), current_aux_stack := SEmpty\<rparr>
           in and_then (infer_statements_from n (expect_output declared tc1) (wd_body w) (inputs declared) True)
                (\<lambda>(result, _, inferred_effects, tc2).
              let tc3 = tc2\<lparr>expected_quotation_type := None\<rparr>
              in case unify_stacks n (outputs declared) result of
                   None \<Rightarrow> None
                 | Some (Inl e) \<Rightarrow> Some (Err (OutputMismatch (wd_name w) (outputs declared) result e))
                 | Some (Inr _) \<Rightarrow>
                     and_then (Some (check_effects (UndeclaredEffect (wd_name w)) inferred_effects (effects declared)))
                       (\<lambda>_.
                     and_then (Some (check_effects (UnproducedEffect (wd_name w)) (effects declared) inferred_effects))
                       (\<lambda>_.
                     if current_aux_stack tc3 \<noteq> SEmpty
                     then Some (Err (AuxNotEmpty (wd_name w) (current_aux_stack tc3)))
                     else Some (Ok (tc3\<lparr>current_word := None\<rparr>)))))))"

fun check_words :: "nat \<Rightarrow> checker \<Rightarrow> word_def list \<Rightarrow> (check_error + checker) option" where
  "check_words n tc [] = Some (Ok tc)"
| "check_words n tc (w # ws) = and_then (check_word n tc w) (\<lambda>tc1. check_words n tc1 ws)"

definition check_program :: "nat \<Rightarrow> checker \<Rightarrow> seq_program \<Rightarrow> (check_error + checker) option" where
  "check_program n tc p =
     (let tc1 = foldl register_union tc (prog_unions p)
      in and_then (Some (validate_union_field_types tc1 p)) (\<lambda>_.
         and_then (Some (collect_signatures tc1 (prog_words p))) (\<lambda>tc2.
         and_then (Some (case env tc2 ''main'' of Some e \<Rightarrow> validate_main_effect e | None \<Rightarrow> Ok ())) (\<lambda>_.
         check_words n tc2 (prog_words p)))))"

end
