(* ===== verification/Semantics.thy ===== *)
theory Semantics
  imports Checker Arithmetic
begin

text \<open>
  What a checked body does at run time.  The tables that name the runtime function of a word
  (\<open>codegen/runtime/arith.rs\<close>, \<open>codegen/runtime/stack.rs\<close>) are given with the models of those functions, and
  an interpreter runs a body on them: literals are pushed, a conditional peeks and pops its condition
  and runs a branch, a word is its runtime function or, for a word of the program, its body.  The code
  generator emits LLVM code with the same effect for many of these words; that code is not modelled.
\<close>

section \<open>The symbol tables\<close>

definition arith_symbols :: "(name \<times> (strand \<Rightarrow> fault + strand)) list" where
  "arith_symbols =
     [(''i.add'', patch_seq_add), (''i.subtract'', patch_seq_subtract), (''i.multiply'', patch_seq_multiply),
      (''i.divide'', patch_seq_divide), (''i.modulo'', patch_seq_modulo), (''i.pow'', patch_seq_pow),
      (''i.+'', patch_seq_add), (''i.-'', patch_seq_subtract), (''i.*'', patch_seq_multiply),
      (''i./'', patch_seq_divide), (''i.%'', patch_seq_modulo),
      (''i.='', patch_seq_eq), (''i.<'', patch_seq_lt), (''i.>'', patch_seq_gt), (''i.<='', patch_seq_lte),
      (''i.>='', patch_seq_gte), (''i.<>'', patch_seq_neq),
      (''i.eq'', patch_seq_eq), (''i.lt'', patch_seq_lt), (''i.gt'', patch_seq_gt), (''i.lte'', patch_seq_lte),
      (''i.gte'', patch_seq_gte), (''i.neq'', patch_seq_neq),
      (''and'', patch_seq_and), (''or'', patch_seq_or), (''not'', patch_seq_not),
      (''band'', patch_seq_band), (''bor'', patch_seq_bor), (''bxor'', patch_seq_bxor), (''bnot'', patch_seq_bnot),
      (''shl'', patch_seq_shl), (''shr'', patch_seq_shr), (''popcount'', patch_seq_popcount),
      (''clz'', patch_seq_clz), (''ctz'', patch_seq_ctz), (''int-bits'', patch_seq_int_bits)]"

definition stack_symbols :: "(name \<times> (strand \<Rightarrow> fault + strand)) list" where
  "stack_symbols =
     [(''dup'', patch_seq_dup), (''swap'', patch_seq_swap), (''over'', patch_seq_over), (''rot'', patch_seq_rot),
      (''nip'', patch_seq_nip), (''tuck'', patch_seq_tuck), (''2dup'', patch_seq_2dup), (''drop'', patch_seq_drop_op),
      (''pick'', patch_seq_pick_op), (''roll'', patch_seq_roll)]"

definition runtime_word :: "name \<Rightarrow> (strand \<Rightarrow> fault + strand) option" where
  "runtime_word w = map_of (arith_symbols @ stack_symbols) w"

section \<open>Running a body\<close>

text \<open>
  \<open>None\<close>: the calls are nested deeper than the fuel.  Before each statement the interpreter asks for two
  free slots and stops with \<open>OutOfMemory\<close> otherwise, so that the running out of stack space, which the
  runtime does not check, is kept apart from the faults of a body.
\<close>

type_synonym bodies = "name \<rightharpoonup> statement list"

function (sequential) exec :: "nat \<Rightarrow> bodies \<Rightarrow> statement list \<Rightarrow> strand \<Rightarrow> (fault + strand) option"
and exec1 :: "nat \<Rightarrow> bodies \<Rightarrow> statement \<Rightarrow> strand \<Rightarrow> (fault + strand) option" where
  "exec k B [] s = Some (Ok s)"
| "exec k B (x # xs) s =
     (if \<not> room s 2 then Some (Err OutOfMemory) else and_then (exec1 k B x s) (exec k B xs))"
| "exec1 k B (IntLiteral i) s = Some (patch_seq_push_int s i)"
| "exec1 k B (BoolLiteral b) s = Some (patch_seq_push_bool s b)"
| "exec1 k B (WordCall w sp) s =
     (case runtime_word w of
        Some f \<Rightarrow> Some (f s)
      | None \<Rightarrow>
          (case B w of
             None \<Rightarrow> Some (Err (Panic ''unknown word''))
           | Some body \<Rightarrow> (case k of 0 \<Rightarrow> None | Suc k' \<Rightarrow> exec k' B body s)))"
| "exec1 k B (If then_branch else_branch sp) s =
     and_then (Some (patch_seq_peek_bool_value s)) (\<lambda>(s1, c).
     and_then (Some (patch_seq_pop_stack s1)) (\<lambda>s2.
     if c then exec k B then_branch s2
     else case else_branch of Some ss \<Rightarrow> exec k B ss s2 | None \<Rightarrow> Some (Ok s2)))"
| "exec1 k B _ s = Some (Err (Panic ''statement outside the modelled fragment''))"
  by pat_completeness auto

termination
  by (relation "inv_image (less_than <*lex*> less_than) (\<lambda>x. case x of
      Inl (k, _, ss, _) \<Rightarrow> (k, 2 * size_list size ss)
    | Inr (k, _, st, _) \<Rightarrow> (k, 2 * size st + 1))") auto

definition program_bodies :: "seq_program \<Rightarrow> bodies" where
  "program_bodies p = map_of (rev (map (\<lambda>w. (wd_name w, wd_body w)) (prog_words p)))"

end
