(* ===== verification/Typed_Words.thy ===== *)
theory Typed_Words
  imports Semantics
begin

text \<open>
  The types of values, and the words whose runtime function keeps the types their signature declares:
  what the soundness of the type checker needs of the unifier (applying a closed signature to a stack
  without type variables) and of the runtime (each of the words turns values of its input types into
  values of its output types).
\<close>

section \<open>Values of a stack type\<close>

definition has_type :: "val \<Rightarrow> ty \<Rightarrow> bool" where
  "has_type v t \<longleftrightarrow> (case v of
       VInt _ \<Rightarrow> t = TInt
     | VFloat _ \<Rightarrow> t = TFloat
     | VBool _ \<Rightarrow> t = TBool
     | VString _ \<Rightarrow> t = TString
     | VSymbol _ \<Rightarrow> t = TSymbol
     | VVariant _ _ \<Rightarrow> t = TVariant \<or> is_union t
     | VChannel _ \<Rightarrow> t = TChannel
     | _ \<Rightarrow> False)"

text \<open>\<open>below\<close> are the values under the part of the stack that the type describes.\<close>

fun typed :: "stack_type \<Rightarrow> val list \<Rightarrow> val list \<Rightarrow> bool" where
  "typed (SCons st t) below (v # vs) \<longleftrightarrow> has_type v t \<and> typed st below vs"
| "typed (SCons st t) below [] \<longleftrightarrow> False"
| "typed (SRowVar _) below vs \<longleftrightarrow> vs = below"
| "typed SEmpty below vs \<longleftrightarrow> vs = below"

lemma typed_SCons: "typed (SCons st t) below vs \<longleftrightarrow> (\<exists>v ws. vs = v # ws \<and> has_type v t \<and> typed st below ws)"
  by (cases vs) auto

lemma has_type_simps [simp]:
  "has_type v TInt \<longleftrightarrow> (\<exists>i. v = VInt i)" "has_type v TBool \<longleftrightarrow> (\<exists>b. v = VBool b)"
  "has_type v (TUnion n) \<longleftrightarrow> has_type v TVariant"
  by (cases v; simp add: has_type_def)+

lemma has_type_compat: "compat_type t t' \<Longrightarrow> has_type v t \<longleftrightarrow> has_type v t'"
  by (auto simp: compat_type_def elim!: is_union.elims)

lemma typed_compat: "compat_stack s1 s2 \<Longrightarrow> typed s1 below vs \<longleftrightarrow> typed s2 below vs"
proof (induction s1 s2 arbitrary: vs rule: compat_stack.induct)
  case (1 r1 t1 r2 t2)
  then show ?case using has_type_compat [of t1 t2] by (auto simp: typed_SCons)
qed auto

lemma compat_stack_tvars: "compat_stack s1 s2 \<Longrightarrow> stack_tvars s1 = stack_tvars s2"
  by (induction s1 s2 rule: compat_stack.induct) (auto simp: compat_type_def elim!: is_union.elims)

text \<open>The stack types the inference of a monomorphic word goes through.\<close>

definition ground_stack :: "stack_type \<Rightarrow> bool" where
  "ground_stack st \<longleftrightarrow> flat_stack st \<and> stack_tvars st = {} \<and> get_row_var_base st = Some ''rest''"

lemma ground_simps [simp]:
  "ground_stack (SCons st t) \<longleftrightarrow> flat_type t \<and> type_tvars t = {} \<and> ground_stack st"
  "ground_stack (SRowVar v) \<longleftrightarrow> v = ''rest''" "\<not> ground_stack SEmpty"
  by (auto simp: ground_stack_def)

lemma apply_ground: "ground_stack st \<Longrightarrow> apply_stack s (SRowVar ''rest'') = SRowVar ''rest'' \<Longrightarrow> apply_stack s st = st"
  by (induction st rule: spine_induct) (auto simp: apply_type_id)

text \<open>Unifying two ground stacks binds nothing.\<close>

lemma unify_ground:
  "unify_stacks n s1 s2 = Some (Ok s) \<Longrightarrow> ground_stack s1 \<Longrightarrow> ground_stack s2 \<Longrightarrow> s = subst_empty \<and> compat_stack s1 s2"
proof (induction n arbitrary: s1 s2 s)
  case (Suc n)
  have rest: "stack_rvars st = {''rest''}" if "ground_stack st" for st
    using that by (simp add: ground_stack_def base_iff)
  show ?case
  proof (cases s1; cases s2)
    fix r1 t1 r2 t2 assume s: "s1 = SCons r1 t1" "s2 = SCons r2 t2"
    then obtain st sr where st: "unify_types n t1 t2 = Some (Ok st)"
      and sr: "unify_stacks n (apply_stack st r1) (apply_stack st r2) = Some (Ok sr)" and c: "s = compose st sr"
      using Suc.prems(1) by auto
    have "flat_binding t1 t2 st" using st s Suc.prems(2,3) by (auto intro: unify_types_flat_Ok)
    then have st: "st = subst_empty" "compat_type t1 t2"
      using s Suc.prems(2,3) by (auto elim!: flat_binding_cases)
    with sr Suc.IH [of r1 r2 sr] s c Suc.prems(2,3) show ?thesis by simp
  next
    fix v r2 t2 assume s: "s1 = SRowVar v" "s2 = SCons r2 t2"
    with rest [OF Suc.prems(3)] Suc.prems(1,2) show ?thesis by (simp add: bind_row_var_def occurs_in_stack_iff)
  next
    fix v r1 t1 assume s: "s2 = SRowVar v" "s1 = SCons r1 t1"
    with rest [OF Suc.prems(2)] Suc.prems(1,3) show ?thesis by (simp add: bind_row_var_def occurs_in_stack_iff)
  qed (use Suc.prems in \<open>auto simp: bind_row_var_def\<close>)
qed simp

section \<open>Instances of a signature\<close>

lemma flat_deep:
  "flat_stack st \<Longrightarrow> deep_tvars st = stack_tvars st \<and> deep_rvars st = stack_rvars st"
proof (induction st rule: spine_induct)
  case (Cons rest t)
  then show ?case by (cases t) auto
qed auto

lemma flat_rename:
  assumes "flat_stack st"
  shows "flat_stack (rename_stack \<tau> \<rho> st)" "get_row_var_base (rename_stack \<tau> \<rho> st) = map_option \<rho> (get_row_var_base st)"
    "stack_depth (rename_stack \<tau> \<rho> st) = stack_depth st"
    "apply_stack s (rename_stack \<tau> \<rho> st) = apply_stack
       \<lparr>subst_types = (\<lambda>v. Some (apply_type s (TVar (\<tau> v)))), subst_rows = (\<lambda>v. Some (apply_stack s (SRowVar (\<rho> v))))\<rparr> st"
  using assms
proof (induction st rule: spine_induct)
  case (Cons rest t)
  { case 1 with Cons(1) show ?case by (cases t) auto }
  { case 2 with Cons(2) show ?case by (cases t) auto }
  { case 3 with Cons(3) show ?case by (cases t) auto }
  { case 4 with Cons(4) show ?case by (cases t) auto }
qed auto

lemma fresh_not_rest: "fresh_range c d v w \<Longrightarrow> w \<noteq> ''rest''"
proof -
  assume "fresh_range c d v w"
  then obtain k where "w = v @ CHR ''$'' # dec k" by (auto simp: fresh_range_def fresh_var_def)
  then have "CHR ''$'' \<in> set w" by simp
  then show ?thesis by auto
qed

lemma apply_tvars: "get_row_var_base st = Some a \<Longrightarrow>
    stack_tvars (apply_stack s st) = (\<Union>v \<in> stack_tvars st. type_tvars (apply_type s (TVar v))) \<union> stack_tvars (apply_stack s (SRowVar a))"
proof (induction st rule: spine_induct)
  case (Cons rest t)
  then show ?case by (cases t) auto
qed auto

text \<open>A signature whose outputs mention only what its inputs mention.\<close>

definition closed_effect :: "effect \<Rightarrow> bool" where
  "closed_effect e \<longleftrightarrow> flat_stack (inputs e) \<and> flat_stack (outputs e) \<and> stack_tvars (outputs e) \<subseteq> stack_tvars (inputs e) \<and>
     get_row_var_base (inputs e) \<noteq> None \<and> get_row_var_base (outputs e) = get_row_var_base (inputs e)"

lemma apply_effect_ground:
  assumes ok: "apply_effect n tc (fst (freshen_effect e c)) st op = Some (Ok (r, s))"
    and g: "ground_stack st" and e: "closed_effect e"
  shows "\<exists>\<theta>. compat_stack (apply_stack \<theta> (inputs e)) st \<and> r = apply_stack \<theta> (outputs e) \<and> ground_stack r"
proof -
  obtain a where a: "get_row_var_base (inputs e) = Some a" "get_row_var_base (outputs e) = Some a"
    using e by (auto simp: closed_effect_def)
  note fl = e [unfolded closed_effect_def]
  obtain \<tau> \<rho> where fe: "fst (freshen_effect e c) = rename_effect \<tau> \<rho> e"
    and R: "deep_rvars (inputs e) \<union> deep_rvars (outputs e) \<subseteq> {v. fresh_range c (snd (freshen_effect e c)) v (\<rho> v)}"
    using freshen_alpha [of e c] unfolding effect_deep_rvars_def by blast
  let ?i = "rename_stack \<tau> \<rho> (inputs e)" and ?o = "rename_stack \<tau> \<rho> (outputs e)"
  have u: "unify_stacks n ?i st = Some (Ok s)" and r: "r = apply_stack s ?o"
    and d: "stack_depth ?i \<le> stack_depth st"
    using apply_effect_Ok [OF ok] g by (auto simp: fe rename_effect_def ground_stack_def)
  have b: "get_row_var_base ?i = Some (\<rho> a)" "get_row_var_base ?o = Some (\<rho> a)"
    using fl a by (simp_all add: flat_rename)
  have "a \<in> deep_rvars (inputs e)" using a(1) fl by (simp add: flat_deep base_iff)
  then have ne: "\<rho> a \<noteq> ''rest''" using R by (auto dest: fresh_not_rest)
  have fi: "flat_stack ?i" "flat_stack ?o" "flat_stack st" using fl g by (simp_all add: flat_rename ground_stack_def)
  note rows = seq_unify.outputs_on_rest [OF u fi(1,3) b(1) _ ne d b(2)]
  have base: "get_row_var_base st = Some ''rest''" using g by (simp add: ground_stack_def)
  have st: "apply_stack s st = st" using apply_ground [OF g] rows(3) [OF base] .
  have compat: "compat_stack (apply_stack s ?i) st" using seq_unify.unify_agrees [OF u fi(1,3)] st by simp
  define \<theta> where "\<theta> = \<lparr>subst_types = (\<lambda>v. Some (apply_type s (TVar (\<tau> v)))), subst_rows = (\<lambda>v. Some (apply_stack s (SRowVar (\<rho> v))))\<rparr>"
  have \<theta>: "apply_stack s ?i = apply_stack \<theta> (inputs e)" "apply_stack s ?o = apply_stack \<theta> (outputs e)"
    using fl by (simp_all add: flat_rename(4) \<theta>_def)
  have "stack_tvars (apply_stack \<theta> (outputs e)) \<subseteq> stack_tvars (apply_stack \<theta> (inputs e))"
    using fl by (auto simp: apply_tvars [OF a(1)] apply_tvars [OF a(2)])
  also have "\<dots> = {}" using compat_stack_tvars [OF compat] g by (simp add: \<theta>(1) ground_stack_def)
  finally have "stack_tvars r = {}" by (simp add: r \<theta>(2))
  moreover have "flat_stack r"
    using apply_stack_flat [OF unify_stacks_flat [OF u fi(1,3) subset_refl subset_refl, THEN conjunct1] fi(2)] by (simp add: r)
  moreover have "get_row_var_base r = Some ''rest''" using rows(1) [OF base] by (simp add: r)
  ultimately show ?thesis using compat r \<theta> by (auto simp: ground_stack_def)
qed

section \<open>The words of the fragment\<close>

text \<open>
  The words whose runtime function agrees with their signature.  \<open>and\<close>, \<open>or\<close> and \<open>not\<close> are declared on
  booleans while their runtime functions take integers, and \<open>pick\<close> and \<open>roll\<close> with an index that is not a
  literal have approximate signatures.
\<close>

datatype prim = Prim2 int_op2 | Prim1 int_op1 | PrimBits | PrimShuffle shuffle

definition prims :: "(name \<times> prim) list" where
  "prims =
     [(''i.add'', Prim2 Add), (''i.subtract'', Prim2 Subtract), (''i.multiply'', Prim2 Multiply),
      (''i.divide'', Prim2 Divide), (''i.modulo'', Prim2 Modulo), (''i.pow'', Prim2 Pow),
      (''i.+'', Prim2 Add), (''i.-'', Prim2 Subtract), (''i.*'', Prim2 Multiply),
      (''i./'', Prim2 Divide), (''i.%'', Prim2 Modulo),
      (''i.='', Prim2 Eq), (''i.<'', Prim2 Lt), (''i.>'', Prim2 Gt), (''i.<='', Prim2 Lte),
      (''i.>='', Prim2 Gte), (''i.<>'', Prim2 Neq),
      (''i.eq'', Prim2 Eq), (''i.lt'', Prim2 Lt), (''i.gt'', Prim2 Gt), (''i.lte'', Prim2 Lte),
      (''i.gte'', Prim2 Gte), (''i.neq'', Prim2 Neq),
      (''band'', Prim2 Band), (''bor'', Prim2 Bor), (''bxor'', Prim2 Bxor), (''bnot'', Prim1 Bnot),
      (''shl'', Prim2 Shl), (''shr'', Prim2 Shr), (''popcount'', Prim1 Popcount),
      (''clz'', Prim1 Clz), (''ctz'', Prim1 Ctz), (''int-bits'', PrimBits),
      (''dup'', PrimShuffle Dup), (''swap'', PrimShuffle Swap), (''over'', PrimShuffle Over),
      (''rot'', PrimShuffle Rot), (''nip'', PrimShuffle Nip), (''tuck'', PrimShuffle Tuck),
      (''2dup'', PrimShuffle TwoDup), (''drop'', PrimShuffle Drop)]"

fun run_prim :: "prim \<Rightarrow> strand \<Rightarrow> fault + strand" where
  "run_prim (Prim2 op) = run_int_op2 op"
| "run_prim (Prim1 op) = run_int_op1 op"
| "run_prim PrimBits = patch_seq_int_bits"
| "run_prim (PrimShuffle op) = run_shuffle op"

definition prim_signature :: "name \<Rightarrow> effect option" where
  "prim_signature w = map_of (rev (arith_signatures @ stack_signatures)) w"

lemma prims_linked:
  "list_all (\<lambda>(w, p). runtime_word w = Some (run_prim p)) prims"
  by (simp add: prims_def runtime_word_def arith_symbols_def stack_symbols_def)

text \<open>The signature of each word, with the top of the stack last.\<close>

fun prim_ins :: "prim \<Rightarrow> ty list" where
  "prim_ins (Prim2 _) = [TInt, TInt]"
| "prim_ins (Prim1 _) = [TInt]"
| "prim_ins PrimBits = []"
| "prim_ins (PrimShuffle op) =
     (if op \<in> {Dup, Drop} then [TVar ''T'']
      else if op = Rot then [TVar ''T'', TVar ''U'', TVar ''V''] else [TVar ''T'', TVar ''U''])"

fun prim_outs :: "prim \<Rightarrow> ty list" where
  "prim_outs (Prim2 op) =
     (if op \<in> {Divide, Modulo, Pow} then [TInt, TBool]
      else if op \<in> {Eq, Lt, Gt, Lte, Gte, Neq} then [TBool] else [TInt])"
| "prim_outs (Prim1 _) = [TInt]"
| "prim_outs PrimBits = [TInt]"
| "prim_outs (PrimShuffle op) = (case shuffle_fixed op (rev (prim_ins (PrimShuffle op))) of Some ts \<Rightarrow> rev ts | None \<Rightarrow> [])"

lemma prims_signatures:
  "list_all (\<lambda>(w, p). prim_signature w = Some (sg (prim_ins p) (prim_outs p))) prims"
  by (simp add: prims_def prim_signature_def arith_signatures_def stack_signatures_def)

lemma prim_lookup:
  assumes "map_of prims w = Some p"
  shows "runtime_word w = Some (run_prim p)" "builtin_signature w = Some (sg (prim_ins p) (prim_outs p))"
proof -
  have "(w, p) \<in> set prims" by (rule map_of_SomeD [OF assms])
  then have p: "runtime_word w = Some (run_prim p)" "prim_signature w = Some (sg (prim_ins p) (prim_outs p))"
    using prims_linked prims_signatures unfolding list_all_iff by blast+
  show "runtime_word w = Some (run_prim p)" by (rule p(1))
  show "builtin_signature w = Some (sg (prim_ins p) (prim_outs p))"
    using p(2) builtin_signature_core unfolding prim_signature_def by blast
qed

lemma row_flat:
  "flat_stack (row r ts) \<longleftrightarrow> list_all flat_type ts" "stack_tvars (row r ts) = \<Union> (set (map type_tvars ts))"
  "get_row_var_base (row r ts) = Some r"
  "apply_stack s (row r ts) = foldl st_push (apply_stack s (SRowVar r)) (map (apply_type s) ts)"
  by (induction ts rule: rev_induct) (auto simp: row_def st_push_def)

lemma typed_push:
  "typed (foldl st_push st ts) below vs \<longleftrightarrow>
   (\<exists>xs ws. vs = xs @ ws \<and> list_all2 (\<lambda>t v. has_type v t) (rev ts) xs \<and> typed st below ws)"
proof (induction ts arbitrary: vs rule: rev_induct)
  case (snoc t ts)
  have "typed (foldl st_push st (ts @ [t])) below vs \<longleftrightarrow>
      (\<exists>v us. vs = v # us \<and> has_type v t \<and>
        (\<exists>xs ws. us = xs @ ws \<and> list_all2 (\<lambda>t v. has_type v t) (rev ts) xs \<and> typed st below ws))"
    by (simp add: st_push_def typed_SCons snoc)
  also have "\<dots> \<longleftrightarrow> (\<exists>xs ws. vs = xs @ ws \<and> list_all2 (\<lambda>t v. has_type v t) (rev (ts @ [t])) xs \<and> typed st below ws)"
  proof
    assume "\<exists>v us. vs = v # us \<and> has_type v t \<and>
        (\<exists>xs ws. us = xs @ ws \<and> list_all2 (\<lambda>t v. has_type v t) (rev ts) xs \<and> typed st below ws)"
    then obtain v xs ws where "vs = (v # xs) @ ws" "has_type v t" "list_all2 (\<lambda>t v. has_type v t) (rev ts) xs"
      "typed st below ws" by auto
    then show "\<exists>xs ws. vs = xs @ ws \<and> list_all2 (\<lambda>t v. has_type v t) (rev (ts @ [t])) xs \<and> typed st below ws"
      by (intro exI [of _ "v # xs"] exI [of _ ws]) simp
  next
    assume "\<exists>xs ws. vs = xs @ ws \<and> list_all2 (\<lambda>t v. has_type v t) (rev (ts @ [t])) xs \<and> typed st below ws"
    then obtain v xs ws where "vs = v # xs @ ws" "has_type v t" "list_all2 (\<lambda>t v. has_type v t) (rev ts) xs"
      "typed st below ws" by (auto simp: list_all2_Cons1)
    then show "\<exists>v us. vs = v # us \<and> has_type v t \<and>
        (\<exists>xs ws. us = xs @ ws \<and> list_all2 (\<lambda>t v. has_type v t) (rev ts) xs \<and> typed st below ws)"
      by blast
  qed
  finally show ?case .
qed simp

lemma prim_closed: "map_of prims w = Some p \<Longrightarrow> closed_effect (sg (prim_ins p) (prim_outs p))"
proof -
  have "list_all (\<lambda>(w, p). closed_effect (sg (prim_ins p) (prim_outs p))) prims"
    by (simp add: prims_def closed_effect_def sg_def effect_new_def row_flat)
  then show "map_of prims w = Some p \<Longrightarrow> closed_effect (sg (prim_ins p) (prim_outs p))"
    by (auto simp: list_all_iff dest: map_of_SomeD)
qed

section \<open>The words preserve types\<close>

lemma try_bind_Ok: "try_bind m f = Ok b \<longleftrightarrow> (\<exists>a. m = Ok a \<and> f a = Ok b)"
  by (cases m) auto

lemma push_base: "push s v = Ok s' \<Longrightarrow> stack_base (fst s') = stack_base (fst s)"
  by (auto simp: push_def push_sv_def write_slot_def try_bind_Ok split: if_splits)

lemma pop_base: "pop s = Ok (s', v) \<Longrightarrow> stack_base (fst s') = stack_base (fst s)"
  by (auto simp: pop_def pop_sv_def try_bind_Ok)

lemma on_two_ints_base:
  assumes "on_two_ints msg s k = Ok s'" "\<And>rest a b. k rest a b = Ok s' \<Longrightarrow> stack_base (fst s') = stack_base (fst rest)"
  shows "stack_base (fst s') = stack_base (fst s)"
proof -
  obtain s1 b s2 a where "pop s = Ok (s1, b)" "pop s1 = Ok (s2, a)"
    and k: "(case (a, b) of (VInt a_val, VInt b_val) \<Rightarrow> k s2 a_val b_val | _ \<Rightarrow> Err (Panic msg)) = Ok s'"
    using assms(1) by (auto simp: on_two_ints_def pop_two_def try_bind_Ok)
  then have "stack_base (fst s2) = stack_base (fst s)" by (auto dest!: pop_base)
  with k show ?thesis using assms(2) by (cases a; cases b) auto
qed

lemma on_int_base:
  assumes "on_int msg s k = Ok s'" "\<And>rest a. k rest a = Ok s' \<Longrightarrow> stack_base (fst s') = stack_base (fst rest)"
  shows "stack_base (fst s') = stack_base (fst s)"
proof -
  obtain s1 a where "pop s = Ok (s1, a)" and k: "(case a of VInt a_val \<Rightarrow> k s1 a_val | _ \<Rightarrow> Err (Panic msg)) = Ok s'"
    using assms(1) by (auto simp: on_int_def try_bind_Ok)
  then have "stack_base (fst s1) = stack_base (fst s)" by (auto dest!: pop_base)
  with k show ?thesis using assms(2) by (cases a) auto
qed

lemma push_flagged_base: "push_flagged s v b = Ok s' \<Longrightarrow> stack_base (fst s') = stack_base (fst s)"
  by (auto simp: push_flagged_def try_bind_Ok dest!: push_base)

lemmas int_words_defs =
  patch_seq_add_def patch_seq_subtract_def patch_seq_multiply_def patch_seq_divide_def patch_seq_modulo_def
  patch_seq_pow_def patch_seq_band_def patch_seq_bor_def patch_seq_bxor_def patch_seq_shl_def patch_seq_shr_def
  patch_seq_eq_def patch_seq_lt_def patch_seq_gt_def patch_seq_lte_def patch_seq_gte_def patch_seq_neq_def
  patch_seq_and_def patch_seq_or_def patch_seq_bnot_def patch_seq_popcount_def patch_seq_clz_def
  patch_seq_ctz_def patch_seq_not_def

lemma int_words_base:
  "run_int_op2 op s = Ok s' \<Longrightarrow> stack_base (fst s') = stack_base (fst s)"
  "run_int_op1 op1 s = Ok s' \<Longrightarrow> stack_base (fst s') = stack_base (fst s)"
  by (cases op; simp add: int_words_defs; erule on_two_ints_base;
      auto simp: Let_def split: if_splits option.splits dest: push_base push_flagged_base)
     (cases op1; simp add: int_words_defs; erule on_int_base; auto dest: push_base)

lemma shuffle_typed:
  assumes "list_all2 (\<lambda>t v. has_type v (f t)) (rev (prim_ins (PrimShuffle op))) xs" "op \<noteq> Pick" "op \<noteq> Roll"
  shows "\<exists>ys. shuffle_spec op (xs @ ws) = Some (ys @ ws) \<and> list_all2 (\<lambda>t v. has_type v (f t)) (rev (prim_outs (PrimShuffle op))) ys"
  using assms by (cases op) (auto simp: shuffle_spec_def list_all2_Cons1)

lemma int_op2_typed: "op \<noteq> And2 \<Longrightarrow> op \<noteq> Or2 \<Longrightarrow>
    list_all2 (\<lambda>t v. has_type v t) (rev (prim_outs (Prim2 op))) (int_op2_spec op a b)"
  by (cases op) (auto simp: vint_def)

lemma prim_typed:
  assumes "map_of prims w = Some p" "represents s ext (xs @ ws)" "room s 2" "stack_base (fst s) = Some 0"
    and "list_all2 (\<lambda>t v. has_type v t) (rev (map (apply_type \<theta>) (prim_ins p))) xs"
  shows "\<exists>s' ys. run_prim p s = Ok s' \<and> represents s' ext (ys @ ws) \<and> stack_base (fst s') = Some 0 \<and>
    list_all2 (\<lambda>t v. has_type v t) (rev (map (apply_type \<theta>) (prim_outs p))) ys"
proof (cases p)
  case (Prim2 op)
  have op: "op \<noteq> And2" "op \<noteq> Or2" using assms(1) Prim2 by (auto simp: prims_def split: if_splits)
  obtain a b where xs: "xs = [VInt b, VInt a]" using assms(5) Prim2 by (auto simp: list_all2_Cons1)
  obtain s' where s': "run_int_op2 op s = Ok s'" "represents s' ext (int_op2_spec op (sint a) (sint b) @ ws)"
    using int_op2_refines [of s ext b a ws op] assms(2) xs by auto
  have "map (apply_type \<theta>) (prim_outs (Prim2 op)) = prim_outs (Prim2 op)" by simp
  then show ?thesis
    using s' int_words_base(1) [OF s'(1)] assms(4) int_op2_typed [OF op] Prim2
    by (intro exI [of _ s'] exI [of _ "int_op2_spec op (sint a) (sint b)"]) (simp del: prim_outs.simps)
next
  case (Prim1 op)
  obtain a where xs: "xs = [VInt a]" using assms(5) Prim1 by (auto simp: list_all2_Cons1)
  obtain i where i: "int_op1_spec op (sint a) = VInt i" by (cases op) (auto simp: vint_def)
  obtain s' where s': "run_int_op1 op s = Ok s'" "represents s' ext (VInt i # ws)"
    using int_op1_refines [of s ext a ws op] assms(2) xs i by auto
  then show ?thesis using int_words_base(2) [OF s'(1)] assms(4) Prim1
    by (intro exI [of _ s'] exI [of _ "[VInt i]"]) simp
next
  case PrimBits
  have "xs = []" using assms(5) PrimBits by simp
  then obtain s' where s': "push s (VInt 63) = Ok s'" "represents s' ext (norm_value (VInt 63) # ws)"
    using rs.put_law [of s ext ws 1 "VInt 63"] assms(2,3) by (auto simp: numeral_2_eq_2)
  obtain i where "norm_value (VInt 63) = VInt i" by auto
  then show ?thesis using s' push_base [OF s'(1)] PrimBits assms(4)
    by (intro exI [of _ s'] exI [of _ "[norm_value (VInt 63)]"]) (simp add: patch_seq_int_bits_def)
next
  case (PrimShuffle op)
  have op: "op \<noteq> Pick" "op \<noteq> Roll" using assms(1) PrimShuffle by (auto simp: prims_def split: if_splits)
  have "list_all2 (\<lambda>t v. has_type v (apply_type \<theta> t)) (rev (prim_ins (PrimShuffle op))) xs"
    using assms(5) PrimShuffle by (simp add: list_all2_map1 rev_map del: prim_ins.simps)
  then obtain ys where ys: "shuffle_spec op (xs @ ws) = Some (ys @ ws)"
    "list_all2 (\<lambda>t v. has_type v (apply_type \<theta> t)) (rev (prim_outs (PrimShuffle op))) ys"
    using shuffle_typed [OF _ op] by blast
  obtain s' where "run_shuffle op s = Ok s'" "represents s' ext (ys @ ws)" "frame (fst s) (fst s')"
    using shuffle_step [OF assms(2) ys(1) assms(3,4)] by blast
  then show ?thesis using ys(2) PrimShuffle assms(4)
    by (auto simp: frame_def list_all2_map1 rev_map simp del: prim_outs.simps)
qed

end
