(* ===== verification/Tarjan.thy ===== *)
theory Tarjan
  imports Call_Graph
begin

text \<open>
  Tarjan's search of \<open>call_graph.rs\<close> is correct: it visits every word, never fails an \<open>expect\<close>, and the components it
  keeps are the classes of mutually reachable words that contain a cycle.  The invariant follows
  the usual colouring: the words on the path of active visits are grey, visited words that are not grey have only visited
  callees, grey words reach what is above them on the stack, and every word on the stack reaches a
  grey word below it.
\<close>

section \<open>The relation of calls\<close>

definition callees :: "call_graph \<Rightarrow> name \<Rightarrow> name list" where
  "callees g w = (case edges g w of Some cs \<Rightarrow> cs | None \<Rightarrow> [])"

definition calls :: "call_graph \<Rightarrow> (name \<times> name) set" where
  "calls g = {(v, w). w \<in> set (callees g v) \<and> w \<in> set (graph_words g)}"

lemma callsI: "w \<in> set (callees g v) \<Longrightarrow> w \<in> set (graph_words g) \<Longrightarrow> (v, w) \<in> calls g"
  by (simp add: calls_def)

definition is_scc :: "call_graph \<Rightarrow> name set \<Rightarrow> bool" where
  "is_scc g C \<longleftrightarrow> C \<noteq> {} \<and> (\<forall>a \<in> C. \<forall>b. b \<in> C \<longleftrightarrow> (a, b) \<in> (calls g)\<^sup>* \<and> (b, a) \<in> (calls g)\<^sup>*)"

section \<open>The invariant\<close>

definition idx :: "tarjan_state \<Rightarrow> name \<Rightarrow> nat" where
  "idx st w = the (indices st w)"

definition inv :: "call_graph \<Rightarrow> name set \<Rightarrow> tarjan_state \<Rightarrow> bool" where
  "inv g gs st \<longleftrightarrow>
     distinct (tstack st) \<and> set (on_stack st) = set (tstack st) \<and>
     dom (indices st) = set (tstack st) \<union> \<Union> (set ` set (sccs st)) \<and> dom (lowlinks st) = dom (indices st) \<and>
     set (tstack st) \<inter> \<Union> (set ` set (sccs st)) = {} \<and> dom (indices st) \<subseteq> set (graph_words g) \<and>
     sorted_wrt (\<lambda>a b. idx st b < idx st a) (tstack st) \<and> (\<forall>w \<in> dom (indices st). idx st w < index_counter st) \<and>
     gs \<subseteq> set (tstack st) \<and>
     (\<forall>v \<in> dom (indices st) - gs. \<forall>w. (v, w) \<in> calls g \<longrightarrow> w \<in> dom (indices st)) \<and>
     (\<forall>x \<in> gs. \<forall>y \<in> set (tstack st). idx st x \<le> idx st y \<longrightarrow> (x, y) \<in> (calls g)\<^sup>*) \<and>
     (\<forall>y \<in> set (tstack st). \<exists>x \<in> gs. idx st x \<le> idx st y \<and> (y, x) \<in> (calls g)\<^sup>*) \<and>
     (\<forall>C \<in> set (sccs st). distinct C \<and> is_scc g (set C))"

lemma invD:
  assumes "inv g gs st"
  shows inv_distinct: "distinct (tstack st)" and inv_on: "set (on_stack st) = set (tstack st)"
    and inv_dom: "dom (indices st) = set (tstack st) \<union> \<Union> (set ` set (sccs st))"
    and inv_low: "dom (lowlinks st) = dom (indices st)"
    and inv_disjoint: "set (tstack st) \<inter> \<Union> (set ` set (sccs st)) = {}"
    and inv_words: "dom (indices st) \<subseteq> set (graph_words g)"
    and inv_sorted: "sorted_wrt (\<lambda>a b. idx st b < idx st a) (tstack st)"
    and inv_counter: "w \<in> dom (indices st) \<Longrightarrow> idx st w < index_counter st"
    and inv_grey: "gs \<subseteq> set (tstack st)"
    and inv_black: "v \<in> dom (indices st) \<Longrightarrow> v \<notin> gs \<Longrightarrow> (v, w) \<in> calls g \<Longrightarrow> w \<in> dom (indices st)"
    and inv_up: "x \<in> gs \<Longrightarrow> y \<in> set (tstack st) \<Longrightarrow> idx st x \<le> idx st y \<Longrightarrow> (x, y) \<in> (calls g)\<^sup>*"
    and inv_down: "y \<in> set (tstack st) \<Longrightarrow> \<exists>x \<in> gs. idx st x \<le> idx st y \<and> (y, x) \<in> (calls g)\<^sup>*"
    and inv_sccs: "C \<in> set (sccs st) \<Longrightarrow> distinct C \<and> is_scc g (set C)"
proof -
  note parts = assms [unfolded inv_def]
  show "distinct (tstack st)" "set (on_stack st) = set (tstack st)"
    "dom (indices st) = set (tstack st) \<union> \<Union> (set ` set (sccs st))" "dom (lowlinks st) = dom (indices st)"
    "set (tstack st) \<inter> \<Union> (set ` set (sccs st)) = {}" "dom (indices st) \<subseteq> set (graph_words g)"
    "sorted_wrt (\<lambda>a b. idx st b < idx st a) (tstack st)" "gs \<subseteq> set (tstack st)"
    using parts by - (elim conjE, assumption)+
  have "\<forall>w \<in> dom (indices st). idx st w < index_counter st"
    and "\<forall>v \<in> dom (indices st) - gs. \<forall>w. (v, w) \<in> calls g \<longrightarrow> w \<in> dom (indices st)"
    and "\<forall>x \<in> gs. \<forall>y \<in> set (tstack st). idx st x \<le> idx st y \<longrightarrow> (x, y) \<in> (calls g)\<^sup>*"
    and "\<forall>y \<in> set (tstack st). \<exists>x \<in> gs. idx st x \<le> idx st y \<and> (y, x) \<in> (calls g)\<^sup>*"
    and "\<forall>C \<in> set (sccs st). distinct C \<and> is_scc g (set C)"
    using parts by - (elim conjE, assumption)+
  then show "w \<in> dom (indices st) \<Longrightarrow> idx st w < index_counter st"
    "v \<in> dom (indices st) \<Longrightarrow> v \<notin> gs \<Longrightarrow> (v, w) \<in> calls g \<Longrightarrow> w \<in> dom (indices st)"
    "x \<in> gs \<Longrightarrow> y \<in> set (tstack st) \<Longrightarrow> idx st x \<le> idx st y \<Longrightarrow> (x, y) \<in> (calls g)\<^sup>*"
    "y \<in> set (tstack st) \<Longrightarrow> \<exists>x \<in> gs. idx st x \<le> idx st y \<and> (y, x) \<in> (calls g)\<^sup>*"
    "C \<in> set (sccs st) \<Longrightarrow> distinct C \<and> is_scc g (set C)"
    by blast+
qed

text \<open>What a visit keeps of the state: earlier indices and lowlinks, and the stack as a suffix.\<close>

definition extends_state :: "tarjan_state \<Rightarrow> tarjan_state \<Rightarrow> bool" where
  "extends_state st st' \<longleftrightarrow> indices st \<subseteq>\<^sub>m indices st' \<and> (\<forall>w \<in> dom (indices st). lowlinks st' w = lowlinks st w)"

definition low :: "tarjan_state \<Rightarrow> name \<Rightarrow> nat" where
  "low st w = the (lowlinks st w)"

text \<open>The outcome of a visit of \<open>x\<close>.\<close>

definition visited :: "call_graph \<Rightarrow> name set \<Rightarrow> name \<Rightarrow> tarjan_state \<Rightarrow> tarjan_state \<Rightarrow> bool" where
  "visited g gs x st st' \<longleftrightarrow>
     inv g gs st' \<and> extends_state st st' \<and> x \<in> dom (indices st') \<and> low st' x \<le> idx st' x \<and>
     index_counter st \<le> idx st' x \<and>
     (\<exists>ws. tstack st' = ws @ tstack st \<and>
       (\<forall>z \<in> set ws. \<forall>u \<in> set (tstack st). (z, u) \<in> calls g \<longrightarrow> low st' x \<le> idx st' u)) \<and>
     (if x \<in> set (tstack st') then \<exists>y \<in> set (tstack st'). idx st' y = low st' x \<and> (x, y) \<in> (calls g)\<^sup>*
      else low st' x = idx st' x)"

text \<open>The state in the loop over the callees of \<open>x\<close>, entered with the stack \<open>old\<close>; \<open>cs\<close> are the callees done.\<close>

definition looping :: "call_graph \<Rightarrow> name set \<Rightarrow> name \<Rightarrow> name list \<Rightarrow> name list \<Rightarrow> tarjan_state \<Rightarrow> bool" where
  "looping g gs x old cs st \<longleftrightarrow>
     inv g (insert x gs) st \<and> gs \<subseteq> set old \<and> low st x \<le> idx st x \<and>
     (\<exists>ws. tstack st = ws @ x # old \<and>
       (\<forall>z \<in> set ws. \<forall>u \<in> set old. (z, u) \<in> calls g \<longrightarrow> low st x \<le> idx st u)) \<and>
     (\<exists>y \<in> set (tstack st). idx st y = low st x \<and> (x, y) \<in> (calls g)\<^sup>*) \<and>
     (\<forall>c \<in> set cs. c \<in> set (graph_words g) \<longrightarrow> c \<in> dom (indices st) \<and> (c \<in> set (tstack st) \<longrightarrow> low st x \<le> idx st c))"

section \<open>Entering\<close>

lemma enter_looping:
  assumes "inv g gs st" "x \<notin> dom (indices st)" "x \<in> set (graph_words g)" "\<And>y. y \<in> gs \<Longrightarrow> (y, x) \<in> (calls g)\<^sup>*"
  shows "looping g gs x (tstack st) [] (tarjan_enter x st)" "extends_state st (tarjan_enter x st)"
proof -
  let ?st = "tarjan_enter x st"
  have s: "tstack ?st = x # tstack st" "sccs ?st = sccs st" "indices ?st = (indices st)(x \<mapsto> index_counter st)"
    "lowlinks ?st = (lowlinks st)(x \<mapsto> index_counter st)" "index_counter ?st = Suc (index_counter st)"
    "set (on_stack ?st) = insert x (set (on_stack st))"
    by (simp_all add: tarjan_enter_def Let_def)
  note I = invD [OF assms(1)]
  have x: "x \<notin> set (tstack st)" "x \<notin> gs" using assms(2) I(3) I(9) by auto
  have old: "idx ?st w = idx st w" if "w \<in> dom (indices st)" for w using that assms(2) by (auto simp: idx_def s)
  have stk: "w \<in> dom (indices st)" if "w \<in> set (tstack st)" for w using that I(3) by simp
  have new: "idx ?st x = index_counter st" by (simp add: idx_def s)
  have lt: "idx ?st w < idx ?st x" if "w \<in> set (tstack st)" for w using I(8) [OF stk [OF that]] old [OF stk [OF that]] new by simp
  have "sorted_wrt (\<lambda>a b. idx ?st b < idx ?st a) (tstack st)"
    using I(7) by (rule sorted_wrt_mono_rel [rotated]) (simp add: old stk)
  then have srt: "sorted_wrt (\<lambda>a b. idx ?st b < idx ?st a) (tstack ?st)" using lt by (simp add: s)
  have "inv g (insert x gs) ?st"
    unfolding inv_def
  proof (intro conjI ballI allI impI)
    show "distinct (tstack ?st)" using I(1) x by (simp add: s)
    show "set (on_stack ?st) = set (tstack ?st)" using I(2) by (simp add: s)
    show "dom (indices ?st) = set (tstack ?st) \<union> \<Union> (set ` set (sccs ?st))" using I(3) by (auto simp: s)
    show "dom (lowlinks ?st) = dom (indices ?st)" using I(4) by (simp add: s)
    show "set (tstack ?st) \<inter> \<Union> (set ` set (sccs ?st)) = {}" using I(3,5) assms(2) by (auto simp: s)
    show "dom (indices ?st) \<subseteq> set (graph_words g)" using I(6) assms(3) by (simp add: s)
    show "sorted_wrt (\<lambda>a b. idx ?st b < idx ?st a) (tstack ?st)" by (rule srt)
    show "idx ?st w < index_counter ?st" if "w \<in> dom (indices ?st)" for w
      using that I(8) [of w] old [of w] new by (cases "w = x") (auto simp: s)
    show "insert x gs \<subseteq> set (tstack ?st)" using I(9) by (auto simp: s)
    show "w \<in> dom (indices ?st)" if "v \<in> dom (indices ?st) - insert x gs" "(v, w) \<in> calls g" for v w
      using I(10) [of v w] that by (auto simp: s)
    show "(a, b) \<in> (calls g)\<^sup>*" if "a \<in> insert x gs" "b \<in> set (tstack ?st)" "idx ?st a \<le> idx ?st b" for a b
      using that I(11) [of a b] assms(4) lt [of b] old I(9) stk by (auto simp: s subset_iff)
    show "\<exists>a \<in> insert x gs. idx ?st a \<le> idx ?st b \<and> (b, a) \<in> (calls g)\<^sup>*" if "b \<in> set (tstack ?st)" for b
    proof (cases "b = x")
      case False
      then have "b \<in> set (tstack st)" using that by (simp add: s)
      then obtain a where "a \<in> gs" "idx st a \<le> idx st b" "(b, a) \<in> (calls g)\<^sup>*" using I(12) by blast
      then show ?thesis using old stk I(9) that False by (auto simp: s subset_iff)
    qed auto
    show "distinct C" "is_scc g (set C)" if "C \<in> set (sccs ?st)" for C using that I(13) by (auto simp: s)
  qed
  then show "looping g gs x (tstack st) [] ?st"
    using I(9) new by (auto simp: looping_def low_def s)
  show "extends_state st ?st"
    using assms(2) by (auto simp: extends_state_def map_le_def s)
qed


section \<open>Leaving\<close>

lemma stack_above:
  assumes "inv g gs st" "tstack st = ws @ x # old"
  shows "z \<in> set ws \<Longrightarrow> idx st x < idx st z" "z \<in> set old \<Longrightarrow> idx st z < idx st x" "x \<notin> set ws" "x \<notin> set old"
    "set ws \<inter> set old = {}"
  using inv_sorted [OF assms(1)] inv_distinct [OF assms(1)] by (auto simp: assms(2) sorted_wrt_append)

lemma pop_scc_stack:
  "x \<notin> set ws \<Longrightarrow> \<exists>on' scc'. pop_scc x (ws @ x # old) on scc = Some (old, on', scc') \<and>
     set on' = set on - insert x (set ws) \<and> set scc' = set scc \<union> insert x (set ws) \<and> (distinct scc \<longrightarrow> distinct scc')"
proof (induction ws arbitrary: on scc)
  case (Cons w ws)
  then obtain on' scc' where "pop_scc x (ws @ x # old) (removeAll w on) (List.insert w scc) = Some (old, on', scc')"
    "set on' = set (removeAll w on) - insert x (set ws)" "set scc' = set (List.insert w scc) \<union> insert x (set ws)"
    "distinct (List.insert w scc) \<longrightarrow> distinct scc'"
    using Cons.IH [of "removeAll w on" "List.insert w scc"] by auto
  with Cons.prems show ?case by (auto simp: Let_def)
qed (auto simp: Let_def)

text \<open>When no word above \<open>x\<close> calls below it, the part of the stack from \<open>x\<close> on is a component.\<close>

lemma component:
  assumes inv: "inv g (insert x gs) st" and stk: "tstack st = ws @ x # old" and grey: "gs \<subseteq> set old"
    and closed: "\<And>z u. z \<in> insert x (set ws) \<Longrightarrow> (z, u) \<in> calls g \<Longrightarrow> u \<in> dom (indices st) \<and> u \<notin> set old"
  shows "is_scc g (insert x (set ws))"
proof -
  let ?C = "insert x (set ws)" and ?R = "(calls g)\<^sup>*"
  note above = stack_above [OF inv stk]
  have up: "(x, y) \<in> ?R" if "y \<in> ?C" for y
    using that inv_up [OF inv, of x y] above(1) by (auto simp: stk less_imp_le)
  have down: "(y, x) \<in> ?R" if "y \<in> ?C" for y
  proof -
    have "y \<in> set (tstack st)" using that by (auto simp: stk)
    then obtain z where z: "z \<in> insert x gs" "(y, z) \<in> ?R" using inv_down [OF inv] by blast
    have "(z, x) \<in> ?R" using inv_up [OF inv z(1), of x] z(1) above(2) grey by (auto simp: stk less_imp_le)
    with z(2) show ?thesis by simp
  qed
  have stay: "u \<in> ?C" if "(x, u) \<in> ?R" "(u, x) \<in> ?R" for u
    using that(1) that(2)
  proof (induction rule: rtrancl_induct)
    case (step a b)
    then have a: "a \<in> ?C" by (meson converse_rtrancl_into_rtrancl)
    show ?case
    proof (rule ccontr)
      assume b: "b \<notin> ?C"
      then obtain D where D: "D \<in> set (sccs st)" "b \<in> set D"
        using closed [OF a step(2)] inv_dom [OF inv] by (auto simp: stk)
      have "(b, x) \<in> ?R" "(x, b) \<in> ?R" using step by auto
      then have "x \<in> set D" using inv_sccs [OF inv D(1)] D(2) unfolding is_scc_def by blast
      then show False using inv_disjoint [OF inv] D(1) by (auto simp: stk)
    qed
  qed simp
  show ?thesis unfolding is_scc_def
  proof (intro conjI ballI allI iffI)
    fix a b assume a: "a \<in> ?C"
    show "(a, b) \<in> ?R" "(b, a) \<in> ?R" if "b \<in> ?C" using up down a that by (meson rtrancl_trans)+
    show "b \<in> ?C" if "(a, b) \<in> ?R \<and> (b, a) \<in> ?R" using stay [of b] up [OF a] down [OF a] that by (meson rtrancl_trans)
  qed simp
qed

lemma leave_root:
  assumes l: "looping g gs x old cs st" and cs: "set cs = set (callees g x)" and root: "low st x = idx st x"
    and same: "extends_state st0 st" "tstack st0 = old" "index_counter st0 \<le> idx st x"
  shows "\<exists>st'. tarjan_leave x st = Some st' \<and> visited g gs x st0 st'"
proof -
  have inv: "inv g (insert x gs) st" and grey: "gs \<subseteq> set old" using l by (simp_all add: looping_def)
  obtain ws where ws: "tstack st = ws @ x # old" "\<And>z u. z \<in> set ws \<Longrightarrow> u \<in> set old \<Longrightarrow> (z, u) \<in> calls g \<Longrightarrow> low st x \<le> idx st u"
    using l unfolding looping_def by blast
  have fin: "c \<in> dom (indices st) \<and> (c \<in> set (tstack st) \<longrightarrow> low st x \<le> idx st c)" if "(x, c) \<in> calls g" for c
    using l that cs unfolding looping_def calls_def by blast
  note I = invD [OF inv] and above = stack_above [OF inv ws(1)]
  have closed: "u \<in> dom (indices st) \<and> u \<notin> set old" if "z \<in> insert x (set ws)" "(z, u) \<in> calls g" for z u
  proof
    show "u \<in> dom (indices st)"
      using that fin I(10) [of z u] I(3) above(5) grey by (cases "z = x") (auto simp: ws(1))
    show "u \<notin> set old"
    proof
      assume u: "u \<in> set old"
      then have "low st x \<le> idx st u" using that ws(2) fin by (cases "z = x") (auto simp: ws(1))
      then show False using root above(2) [OF u] by simp
    qed
  qed
  have scc: "is_scc g (insert x (set ws))" by (rule component [OF inv ws(1) grey closed])
  obtain on' C where pop: "pop_scc x (tstack st) (on_stack st) [] = Some (old, on', C)"
    "set on' = set (on_stack st) - insert x (set ws)" "set C = insert x (set ws)" "distinct C"
    using pop_scc_stack [OF above(3), of old "on_stack st" "[]"] by (auto simp: ws(1))
  let ?st = "st\<lparr>tstack := old, on_stack := on', sccs := sccs st @ [C]\<rparr>"
  have x: "x \<in> dom (indices st)" using I(3) by (simp add: ws(1))
  have low: "lowlinks st x = indices st x"
    using root x I(4) unfolding low_def idx_def by (metis domD option.sel)
  have idx: "idx ?st = idx st" "low ?st = low st" by (simp_all add: idx_def low_def fun_eq_iff)
  have "inv g gs ?st"
    unfolding inv_def
  proof (intro conjI ballI allI impI)
    show "distinct (tstack ?st)" using I(1) by (simp add: ws(1))
    show "set (on_stack ?st) = set (tstack ?st)" using I(2) pop(2) above(4,5) by (auto simp: ws(1))
    show "dom (indices ?st) = set (tstack ?st) \<union> \<Union> (set ` set (sccs ?st))" using I(3) pop(3) by (auto simp: ws(1))
    show "dom (lowlinks ?st) = dom (indices ?st)" using I(4) by simp
    show "set (tstack ?st) \<inter> \<Union> (set ` set (sccs ?st)) = {}" using I(5) pop(3) above(4,5) by (auto simp: ws(1))
    show "dom (indices ?st) \<subseteq> set (graph_words g)" using I(6) by simp
    show "sorted_wrt (\<lambda>a b. idx ?st b < idx ?st a) (tstack ?st)" using I(7) by (simp add: idx ws(1) sorted_wrt_append)
    show "idx ?st w < index_counter ?st" if "w \<in> dom (indices ?st)" for w using that I(8) by (simp add: idx)
    show "gs \<subseteq> set (tstack ?st)" using grey by simp
    show "w \<in> dom (indices ?st)" if "v \<in> dom (indices ?st) - gs" "(v, w) \<in> calls g" for v w
      using that I(10) [of v w] fin by (cases "v = x") auto
    show "(a, b) \<in> (calls g)\<^sup>*" if "a \<in> gs" "b \<in> set (tstack ?st)" "idx ?st a \<le> idx ?st b" for a b
      using that I(11) [of a b] by (simp add: idx ws(1))
    show "\<exists>a \<in> gs. idx ?st a \<le> idx ?st b \<and> (b, a) \<in> (calls g)\<^sup>*" if "b \<in> set (tstack ?st)" for b
      using that I(12) [of b] above(2) [of b] by (fastforce simp: idx ws(1))
    show "distinct D" "is_scc g (set D)" if "D \<in> set (sccs ?st)" for D using that I(13) pop(3,4) scc by auto
  qed
  moreover have "tarjan_leave x st = Some ?st" using low pop(1) by (simp add: tarjan_leave_def)
  moreover have "extends_state st0 ?st" using same(1) by (simp add: extends_state_def)
  ultimately show ?thesis
    using x above(4) root same(2,3) by (auto simp: visited_def idx)
qed


lemma leave_inner:
  assumes l: "looping g gs x old cs st" and cs: "set cs = set (callees g x)" and inner: "low st x < idx st x"
    and same: "extends_state st0 st" "tstack st0 = old" "index_counter st0 \<le> idx st x"
  shows "tarjan_leave x st = Some st" "visited g gs x st0 st"
proof -
  have inv: "inv g (insert x gs) st" and grey: "gs \<subseteq> set old" using l by (simp_all add: looping_def)
  obtain ws where ws: "tstack st = ws @ x # old" "\<And>z u. z \<in> set ws \<Longrightarrow> u \<in> set old \<Longrightarrow> (z, u) \<in> calls g \<Longrightarrow> low st x \<le> idx st u"
    using l unfolding looping_def by blast
  obtain y where y: "y \<in> set (tstack st)" "idx st y = low st x" "(x, y) \<in> (calls g)\<^sup>*"
    using l unfolding looping_def by blast
  have fin: "c \<in> dom (indices st) \<and> (c \<in> set (tstack st) \<longrightarrow> low st x \<le> idx st c)" if "(x, c) \<in> calls g" for c
    using l that cs unfolding looping_def calls_def by blast
  note I = invD [OF inv] and above = stack_above [OF inv ws(1)]
  have x: "x \<in> dom (indices st)" using I(3) by (simp add: ws(1))
  have "lowlinks st x \<noteq> indices st x" using inner by (auto simp: low_def idx_def)
  then show "tarjan_leave x st = Some st" by (simp add: tarjan_leave_def)
  obtain z where z: "z \<in> gs" "idx st z \<le> low st x" "(x, z) \<in> (calls g)\<^sup>*"
    using I(12) [OF y(1)] y(2,3) inner by (metis insertE leD rtrancl_trans)
  have "inv g gs st"
    unfolding inv_def
  proof (intro conjI ballI allI impI)
    show "gs \<subseteq> set (tstack st)" using grey by (auto simp: ws(1))
    show "w \<in> dom (indices st)" if "v \<in> dom (indices st) - gs" "(v, w) \<in> calls g" for v w
      using that I(10) [of v w] fin by (cases "v = x") auto
    show "(a, b) \<in> (calls g)\<^sup>*" if "a \<in> gs" "b \<in> set (tstack st)" "idx st a \<le> idx st b" for a b
      using that I(11) [of a b] by simp
    show "\<exists>a \<in> gs. idx st a \<le> idx st b \<and> (b, a) \<in> (calls g)\<^sup>*" if b: "b \<in> set (tstack st)" for b
    proof -
      obtain a where a: "a \<in> insert x gs" "idx st a \<le> idx st b" "(b, a) \<in> (calls g)\<^sup>*" using I(12) [OF b] by blast
      show ?thesis
      proof (cases "a = x")
        case True
        then have "idx st z \<le> idx st b" "(b, z) \<in> (calls g)\<^sup>*" using a z inner by (auto intro: rtrancl_trans)
        then show ?thesis using z(1) by blast
      qed (use a in blast)
    qed
    show "distinct C" "is_scc g (set C)" if "C \<in> set (sccs st)" for C using that I(13) by blast+
  qed (fact I(1) I(2) I(3) I(4) I(5) I(6) I(7) | rule I(8), assumption)+
  moreover have "low st x \<le> idx st u" if "z \<in> set (ws @ [x])" "u \<in> set old" "(z, u) \<in> calls g" for z u
    using that ws fin by auto
  moreover have "tstack st = (ws @ [x]) @ tstack st0" using ws(1) same(2) by simp
  moreover have "x \<in> set (tstack st)" by (simp add: ws(1))
  ultimately show "visited g gs x st0 st"
    unfolding visited_def using same x inner y by (auto intro!: exI [of _ "ws @ [x]"])
qed

section \<open>The loop over the callees\<close>

lemma inv_lowlinks: "inv g gs st \<Longrightarrow> x \<in> dom (indices st) \<Longrightarrow> inv g gs (st\<lparr>lowlinks := (lowlinks st)(x \<mapsto> k)\<rparr>)"
proof -
  assume i: "inv g gs st" and x: "x \<in> dom (indices st)"
  have [simp]: "idx (st\<lparr>lowlinks := m\<rparr>) = idx st" for m by (simp add: idx_def fun_eq_iff)
  have "x \<in> dom (lowlinks st)" using inv_low [OF i] x by simp
  then have "inv g gs (st\<lparr>lowlinks := (lowlinks st)(x \<mapsto> k)\<rparr>) = inv g gs st" unfolding inv_def by (simp add: insert_absorb)
  then show ?thesis using i by simp
qed

lemma relax_ok:
  assumes inv: "inv g (insert x gs) st" and grey: "gs \<subseteq> set old" and stk: "tstack st = ws @ x # old"
    and l: "low st x \<le> idx st x" "\<exists>y \<in> set (tstack st). idx st y = low st x \<and> (x, y) \<in> (calls g)\<^sup>*"
    and k: "low st x \<le> k \<or> (\<exists>y \<in> set (tstack st). idx st y = k \<and> (x, y) \<in> (calls g)\<^sup>*)"
    and ws: "\<And>z u. z \<in> set ws \<Longrightarrow> u \<in> set old \<Longrightarrow> (z, u) \<in> calls g \<Longrightarrow> min (low st x) k \<le> idx st u"
    and cs: "\<And>c. c \<in> set cs \<Longrightarrow> c \<in> set (graph_words g) \<Longrightarrow> c \<in> dom (indices st) \<and> (c \<in> set (tstack st) \<longrightarrow> min (low st x) k \<le> idx st c)"
    and same: "extends_state st0 st" "x \<notin> dom (indices st0)"
  shows "\<exists>st'. relax_lowlink x k st = Some st' \<and> looping g gs x old cs st' \<and> extends_state st0 st' \<and> indices st' = indices st"
proof -
  have x: "x \<in> dom (indices st)" using inv_dom [OF inv] by (simp add: stk)
  then obtain m where m: "lowlinks st x = Some m" using inv_low [OF inv] by blast
  let ?st = "st\<lparr>lowlinks := (lowlinks st)(x \<mapsto> min m k)\<rparr>"
  have s: "idx ?st = idx st" "low ?st x = min (low st x) k" by (simp_all add: idx_def low_def m fun_eq_iff)
  have "\<exists>y \<in> set (tstack st). idx st y = min (low st x) k \<and> (x, y) \<in> (calls g)\<^sup>*"
    using l(2) k by (cases "low st x \<le> k") (auto simp: min_def)
  then have "looping g gs x old cs ?st"
    unfolding looping_def using inv_lowlinks [OF inv x] grey l(1) stk ws cs by (auto simp: s)
  moreover have "extends_state st0 ?st" using same by (auto simp: extends_state_def)
  ultimately show ?thesis using m by (simp add: relax_lowlink_def)
qed

lemma loop_on_stack:
  assumes l: "looping g gs x old cs st" and c: "c \<in> set (callees g x)" "c \<in> set (graph_words g)" "c \<in> set (tstack st)"
    and same: "extends_state st0 st" "x \<notin> dom (indices st0)"
  shows "\<exists>st'. relax_lowlink x (idx st c) st = Some st' \<and> looping g gs x old (cs @ [c]) st' \<and> extends_state st0 st' \<and>
    indices st' = indices st"
proof -
  obtain ws where ws: "tstack st = ws @ x # old" "\<And>z u. z \<in> set ws \<Longrightarrow> u \<in> set old \<Longrightarrow> (z, u) \<in> calls g \<Longrightarrow> low st x \<le> idx st u"
    using l unfolding looping_def by blast
  have L: "inv g (insert x gs) st" "gs \<subseteq> set old" "low st x \<le> idx st x"
    "\<exists>y \<in> set (tstack st). idx st y = low st x \<and> (x, y) \<in> (calls g)\<^sup>*"
    "\<And>c. c \<in> set cs \<Longrightarrow> c \<in> set (graph_words g) \<Longrightarrow> c \<in> dom (indices st) \<and> (c \<in> set (tstack st) \<longrightarrow> low st x \<le> idx st c)"
    using l unfolding looping_def by blast+
  have "c \<in> dom (indices st)" using c(3) inv_dom [OF L(1)] by simp
  then show ?thesis
    using L(5) ws(2) c callsI [OF c(1,2)]
    by (intro relax_ok [OF L(1,2) ws(1) L(3,4) _ _ _ same]) (auto simp: min_le_iff_disj)
qed

lemma loop_visit:
  assumes l: "looping g gs x old cs st" and c: "c \<in> set (callees g x)" "c \<in> set (graph_words g)" "c \<notin> dom (indices st)"
    and v: "visited g (insert x gs) c st st1" and same: "extends_state st0 st" "x \<notin> dom (indices st0)"
  shows "lowlinks st1 c = Some (low st1 c) \<and> (\<exists>st'. relax_lowlink x (low st1 c) st1 = Some st' \<and> looping g gs x old (cs @ [c]) st' \<and>
    extends_state st0 st' \<and> indices st' = indices st1)"
proof -
  obtain ws where ws: "tstack st = ws @ x # old" "\<And>z u. z \<in> set ws \<Longrightarrow> u \<in> set old \<Longrightarrow> (z, u) \<in> calls g \<Longrightarrow> low st x \<le> idx st u"
    using l unfolding looping_def by blast
  obtain ws' where ws': "tstack st1 = ws' @ tstack st"
    "\<And>z u. z \<in> set ws' \<Longrightarrow> u \<in> set (tstack st) \<Longrightarrow> (z, u) \<in> calls g \<Longrightarrow> low st1 c \<le> idx st1 u"
    using v unfolding visited_def by blast
  have L: "inv g (insert x gs) st" "gs \<subseteq> set old" "low st x \<le> idx st x"
    "\<exists>y \<in> set (tstack st). idx st y = low st x \<and> (x, y) \<in> (calls g)\<^sup>*"
    "\<And>c. c \<in> set cs \<Longrightarrow> c \<in> set (graph_words g) \<Longrightarrow> c \<in> dom (indices st) \<and> (c \<in> set (tstack st) \<longrightarrow> low st x \<le> idx st c)"
    using l unfolding looping_def by blast+
  have V: "inv g (insert x gs) st1" "extends_state st st1" "c \<in> dom (indices st1)" "low st1 c \<le> idx st1 c"
    "if c \<in> set (tstack st1) then \<exists>y \<in> set (tstack st1). idx st1 y = low st1 c \<and> (c, y) \<in> (calls g)\<^sup>* else low st1 c = idx st1 c"
    "index_counter st \<le> idx st1 c"
    using v unfolding visited_def by blast+
  have old: "idx st1 w = idx st w" if "w \<in> dom (indices st)" for w
    using that V(2) by (auto simp: extends_state_def map_le_def idx_def)
  have stk: "w \<in> dom (indices st)" if "w \<in> set (tstack st)" for w using that inv_dom [OF L(1)] by simp
  have x: "x \<in> dom (indices st)" using stk ws(1) by simp
  have low: "low st1 x = low st x" using V(2) x by (simp add: extends_state_def low_def)
  have stk1: "tstack st1 = (ws' @ ws) @ x # old" using ws(1) ws'(1) by simp
  have new: "idx st1 x < idx st1 w" if "w \<in> set ws'" for w
    using stack_above(1) [OF V(1) stk1] that by simp
  have "\<exists>st'. relax_lowlink x (low st1 c) st1 = Some st' \<and> looping g gs x old (cs @ [c]) st' \<and>
    extends_state st0 st' \<and> indices st' = indices st1"
  proof (rule relax_ok [OF V(1) L(2) stk1])
    show "low st1 x \<le> idx st1 x" using L(3) old [OF x] low by simp
    show "\<exists>y \<in> set (tstack st1). idx st1 y = low st1 x \<and> (x, y) \<in> (calls g)\<^sup>*"
      using L(4) old stk low ws'(1) by fastforce
    show "low st1 x \<le> low st1 c \<or> (\<exists>y \<in> set (tstack st1). idx st1 y = low st1 c \<and> (x, y) \<in> (calls g)\<^sup>*)"
    proof (cases "c \<in> set (tstack st1)")
      case True
      then show ?thesis using V(5) callsI [OF c(1,2)] by (auto intro: converse_rtrancl_into_rtrancl)
    next
      case False
      have "idx st x < index_counter st" by (rule inv_counter [OF L(1) x])
      then show ?thesis using False V(5) V(6) L(3) low by auto
    qed
    show "min (low st1 x) (low st1 c) \<le> idx st1 u" if "z \<in> set (ws' @ ws)" "u \<in> set old" "(z, u) \<in> calls g" for z u
    proof (cases "z \<in> set ws'")
      case True
      then show ?thesis using ws'(2) [of z u] that ws(1) by (simp add: min_le_iff_disj)
    next
      case False
      then show ?thesis using ws(2) [of z u] that low old [of u] stk [of u] ws(1) by (simp add: min_le_iff_disj)
    qed
    show "d \<in> dom (indices st1) \<and> (d \<in> set (tstack st1) \<longrightarrow> min (low st1 x) (low st1 c) \<le> idx st1 d)"
      if d: "d \<in> set (cs @ [c])" "d \<in> set (graph_words g)" for d
    proof (cases "d = c")
      case False
      then have dst: "d \<in> dom (indices st)" "d \<in> set (tstack st) \<Longrightarrow> low st x \<le> idx st d" using L(5) d by auto
      have "min (low st1 x) (low st1 c) \<le> idx st1 d" if "d \<in> set (tstack st1)"
        using that new [of d] dst low old [OF dst(1)] old [OF x] L(3) by (auto simp: ws'(1) min_le_iff_disj)
      then show ?thesis using dst(1) V(2) by (auto simp: extends_state_def map_le_def dom_def)
    qed (use V(3,4) in \<open>simp add: min_le_iff_disj\<close>)
    show "extends_state st0 st1"
      using same(1) V(2) unfolding extends_state_def by (auto simp: map_le_def dom_def)
    show "x \<notin> dom (indices st0)" by (rule same(2))
  qed
  moreover have "lowlinks st1 c = Some (low st1 c)" using V(3) unfolding inv_low [OF V(1), symmetric] by (auto simp: low_def)
  ultimately show ?thesis by blast
qed


section \<open>The search\<close>

definition unseen :: "call_graph \<Rightarrow> tarjan_state \<Rightarrow> nat" where
  "unseen g st = card (set (graph_words g) - dom (indices st))"

lemma unseen_mono: "indices st \<subseteq>\<^sub>m indices st' \<Longrightarrow> unseen g st' \<le> unseen g st"
  unfolding unseen_def by (rule card_mono) (auto simp: map_le_def dom_def)

lemma unseen_enter: "x \<in> set (graph_words g) \<Longrightarrow> x \<notin> dom (indices st) \<Longrightarrow> Suc (unseen g (tarjan_enter x st)) = unseen g st"
proof -
  assume "x \<in> set (graph_words g)" "x \<notin> dom (indices st)"
  then have "Suc (card (set (graph_words g) - dom (indices st) - {x})) = card (set (graph_words g) - dom (indices st))"
    by (intro card_Suc_Diff1) auto
  moreover have "dom (indices (tarjan_enter x st)) = insert x (dom (indices st))" by (simp add: tarjan_enter_def Let_def)
  ultimately show ?thesis unfolding unseen_def Diff_insert [symmetric] by simp
qed

lemma looping_done:
  assumes l: "looping g gs x old cs st" and c: "c \<notin> set (graph_words g) \<or> c \<in> dom (indices st) \<and> c \<notin> set (tstack st)"
  shows "looping g gs x old (cs @ [c]) st"
proof -
  note parts = l [unfolded looping_def, THEN conjunct2, THEN conjunct2, THEN conjunct2, THEN conjunct2]
  from parts have "\<forall>d \<in> set (cs @ [c]). d \<in> set (graph_words g) \<longrightarrow> d \<in> dom (indices st) \<and> (d \<in> set (tstack st) \<longrightarrow> low st x \<le> idx st d)"
    using c by auto
  then show ?thesis using l unfolding looping_def by - (elim conjE, intro conjI, assumption+)
qed

lemma search:
  shows "inv g gs st \<Longrightarrow> x \<notin> dom (indices st) \<Longrightarrow> x \<in> set (graph_words g) \<Longrightarrow> \<forall>y \<in> gs. (y, x) \<in> (calls g)\<^sup>* \<Longrightarrow>
      unseen g st \<le> n \<Longrightarrow> \<exists>st'. tarjan_visit n g x st = Some st' \<and> visited g gs x st st'"
    and "looping g gs x old dn st \<Longrightarrow> set cs \<subseteq> set (callees g x) \<Longrightarrow> extends_state st0 st \<Longrightarrow> x \<notin> dom (indices st0) \<Longrightarrow>
      unseen g st \<le> n \<Longrightarrow> \<exists>st'. tarjan_callees n g x cs st = Some st' \<and> looping g gs x old (dn @ cs) st' \<and>
        extends_state st0 st' \<and> indices st \<subseteq>\<^sub>m indices st'"
proof (induction n g x st and n g x cs st arbitrary: gs and gs old dn st0 rule: tarjan_visit_tarjan_callees.induct)
  case (1 g x st)
  then have "set (graph_words g) - dom (indices st) = {}" by (simp add: unseen_def)
  then show ?case using 1 by blast
next
  case (2 n g x st)
  let ?st = "tarjan_enter x st"
  note e = enter_looping [OF 2(2,3,4)]
  have l: "looping g gs x (tstack st) [] ?st" "extends_state st ?st" using e 2(5) by blast+
  have "unseen g ?st \<le> n" using unseen_enter [OF 2(4,3)] 2(6) by simp
  then obtain st1 where st1: "tarjan_callees n g x (callees g x) ?st = Some st1" "looping g gs x (tstack st) (callees g x) st1"
    "extends_state st st1" "indices ?st \<subseteq>\<^sub>m indices st1"
    using 2(1) [of gs "tstack st" "[]" st] l 2(3) by (auto simp: callees_def)
  have "indices st1 x = Some (index_counter st)"
    using st1(4) by (auto simp: map_le_def tarjan_enter_def Let_def)
  then have i: "index_counter st \<le> idx st1 x" by (simp add: idx_def)
  have low: "low st1 x \<le> idx st1 x" using st1(2) by (simp add: looping_def)
  show ?case
  proof (cases "low st1 x = idx st1 x")
    case True
    then show ?thesis using leave_root [OF st1(2) refl True st1(3) refl i] st1(1) by (simp add: callees_def)
  next
    case False
    then show ?thesis using leave_inner [OF st1(2) refl _ st1(3) refl i] st1(1) low by (simp add: callees_def)
  qed
next
  case (3 n g x st)
  then show ?case by auto
next
  case (4 n g x c cs st)
  note l = "4.prems"(1) and sub = "4.prems"(2) and st0 = "4.prems"(3,4) and fuel = "4.prems"(5)
  have inv: "inv g (insert x gs) st" using l unfolding looping_def by blast
  have step: "\<exists>st'. tarjan_callees n g x cs st2 = Some st' \<and> looping g gs x old (dn @ c # cs) st' \<and>
        extends_state st0 st' \<and> indices st \<subseteq>\<^sub>m indices st'"
    if "looping g gs x old (dn @ [c]) st2" "extends_state st0 st2" "indices st \<subseteq>\<^sub>m indices st2"
      and IH: "\<And>gs old dn st0. looping g gs x old dn st2 \<Longrightarrow> set cs \<subseteq> set (callees g x) \<Longrightarrow> extends_state st0 st2 \<Longrightarrow>
        x \<notin> dom (indices st0) \<Longrightarrow> unseen g st2 \<le> n \<Longrightarrow> \<exists>st'. tarjan_callees n g x cs st2 = Some st' \<and>
        looping g gs x old (dn @ cs) st' \<and> extends_state st0 st' \<and> indices st2 \<subseteq>\<^sub>m indices st'" for st2
  proof -
    have "unseen g st2 \<le> n" using unseen_mono [OF that(3), of g] fuel by simp
    then show ?thesis using IH [OF that(1) _ that(2) st0(2)] sub that(3) by (auto intro: map_le_trans)
  qed
  consider (external) "c \<notin> set (graph_words g)" | (new) "c \<in> set (graph_words g)" "c \<notin> dom (indices st)"
    | (stacked) i where "c \<in> set (graph_words g)" "indices st c = Some i" "c \<in> set (on_stack st)"
    | (left) "c \<in> set (graph_words g)" "c \<in> dom (indices st)" "c \<notin> set (on_stack st)" by blast
  then show ?case
  proof cases
    case external
    have "looping g gs x old (dn @ [c]) st" using looping_done [OF l] external by blast
    moreover have "tarjan_callees n g x (c # cs) st = tarjan_callees n g x cs st" using external by simp
    ultimately show ?thesis by (simp only:) (rule step [OF _ st0(1) map_le_refl "4.IH"(1) [OF external]])
  next
    case new
    have none: "indices st c = None" using new(2) by (simp add: domIff)
    have "\<forall>y \<in> insert x gs. (y, c) \<in> (calls g)\<^sup>*"
    proof
      fix y assume y: "y \<in> insert x gs"
      obtain ws where ws: "tstack st = ws @ x # old" using l unfolding looping_def by blast
      have "gs \<subseteq> set old" using l unfolding looping_def by blast
      then have "idx st y \<le> idx st x" using stack_above(2) [OF inv ws] y by (auto simp: less_imp_le)
      then have "(y, x) \<in> (calls g)\<^sup>*" using inv_up [OF inv y] by (simp add: ws)
      then show "(y, c) \<in> (calls g)\<^sup>*" using callsI [of c g x] sub new(1) by (simp add: rtrancl.rtrancl_into_rtrancl)
    qed
    then obtain st1 where st1: "tarjan_visit n g c st = Some st1" "visited g (insert x gs) c st st1"
      using "4.IH"(2) [of "insert x gs"] inv new none fuel by auto
    obtain st2 where st2: "lowlinks st1 c = Some (low st1 c)" "relax_lowlink x (low st1 c) st1 = Some st2"
      "looping g gs x old (dn @ [c]) st2" "extends_state st0 st2" "indices st2 = indices st1"
      using loop_visit [OF l _ new st1(2) st0] sub by auto
    have "indices st \<subseteq>\<^sub>m indices st2" using st1(2) st2(5) unfolding visited_def extends_state_def by simp
    moreover have "tarjan_callees n g x (c # cs) st = tarjan_callees n g x cs st2" using new none st1(1) st2(1,2) by simp
    ultimately show ?thesis
      using new none st1(1) st2(1,2) by (simp only:) (rule step [OF st2(3,4) _ "4.IH"(3)]; simp)
  next
    case (stacked i)
    have c: "c \<in> set (tstack st)" "idx st c = i" using stacked inv_on [OF inv] by (auto simp: idx_def)
    obtain st2 where st2: "relax_lowlink x i st = Some st2" "looping g gs x old (dn @ [c]) st2" "extends_state st0 st2"
      "indices st2 = indices st"
      using loop_on_stack [OF l _ stacked(1) c(1) st0] sub c(2) by auto
    have "tarjan_callees n g x (c # cs) st = tarjan_callees n g x cs st2" using stacked st2(1) by simp
    then show ?thesis using stacked st2(1,4) by (simp only:) (rule step [OF st2(2,3) _ "4.IH"(4)]; simp)
  next
    case left
    then obtain i where i: "indices st c = Some i" by blast
    have "c \<notin> set (tstack st)" using left inv_on [OF inv] by simp
    then have "looping g gs x old (dn @ [c]) st" using looping_done [OF l] left(2) by blast
    moreover have "tarjan_callees n g x (c # cs) st = tarjan_callees n g x cs st" using left i by simp
    ultimately show ?thesis using left i by (simp only:) (rule step [OF _ st0(1) map_le_refl "4.IH"(5)]; simp)
  qed
qed


lemma new_inv: "inv g {} tarjan_new"
  by (simp add: inv_def tarjan_new_def)

lemma search_all:
  "inv g {} st \<Longrightarrow> set ws \<subseteq> set (graph_words g) \<Longrightarrow> unseen g st \<le> n \<Longrightarrow>
   \<exists>st'. tarjan_all n g ws st = Some st' \<and> inv g {} st' \<and> set ws \<union> dom (indices st) \<subseteq> dom (indices st')"
proof (induction ws arbitrary: st)
  case (Cons w ws)
  show ?case
  proof (cases "indices st w")
    case None
    then have w: "w \<notin> dom (indices st)" by (simp add: domIff)
    obtain st1 where st1: "tarjan_visit n g w st = Some st1" "visited g {} w st st1"
      using search(1) [OF Cons.prems(1) w _ _ Cons.prems(3)] Cons.prems(2) by auto
    have v: "inv g {} st1" "indices st \<subseteq>\<^sub>m indices st1" "w \<in> dom (indices st1)"
      using st1(2) unfolding visited_def extends_state_def by blast+
    have "unseen g st1 \<le> n" using unseen_mono [OF v(2), of g] Cons.prems(3) by simp
    then obtain st' where st': "tarjan_all n g ws st1 = Some st'" "inv g {} st'" "set ws \<union> dom (indices st1) \<subseteq> dom (indices st')"
      using Cons.IH [OF v(1)] Cons.prems(2) by auto
    have "dom (indices st) \<subseteq> dom (indices st1)" using v(2) by (rule map_le_implies_dom_le)
    then have "set (w # ws) \<union> dom (indices st) \<subseteq> dom (indices st')" using v(3) st'(3) unfolding list.set by blast
    then show ?thesis using None st1(1) st'(1,2) by simp
  next
    case (Some i)
    then have w: "w \<in> dom (indices st)" by blast
    obtain st' where st': "tarjan_all n g ws st = Some st'" "inv g {} st'" "set ws \<union> dom (indices st) \<subseteq> dom (indices st')"
      using Cons.IH [OF Cons.prems(1) _ Cons.prems(3)] Cons.prems(2) by auto
    then have "set (w # ws) \<union> dom (indices st) \<subseteq> dom (indices st')" using w by auto
    then show ?thesis using Some st'(1,2) by simp
  qed
qed simp

text \<open>The search ends with every word in exactly the component of the words it is mutually reachable with.\<close>

lemma components:
  "\<exists>st. tarjan_all (length (graph_words g) + 1) g (graph_words g) tarjan_new = Some st \<and>
    (\<forall>C \<in> set (sccs st). distinct C \<and> is_scc g (set C)) \<and> \<Union> (set ` set (sccs st)) = set (graph_words g)"
proof -
  have "unseen g tarjan_new \<le> length (graph_words g) + 1"
    unfolding unseen_def tarjan_new_def using card_length [of "graph_words g"] by simp
  from search_all [OF new_inv subset_refl this]
  obtain st where st: "tarjan_all (length (graph_words g) + 1) g (graph_words g) tarjan_new = Some st" "inv g {} st"
    "set (graph_words g) \<subseteq> dom (indices st)" by auto
  have "tstack st = []" using inv_down [OF st(2)] by (cases "tstack st") auto
  then have "\<Union> (set ` set (sccs st)) = set (graph_words g)"
    using inv_dom [OF st(2)] inv_words [OF st(2)] st(3) by auto
  then show ?thesis using st(1) inv_sccs [OF st(2)] by blast
qed

section \<open>Recursion\<close>

lemma scc_unique: "is_scc g C \<Longrightarrow> is_scc g D \<Longrightarrow> a \<in> C \<Longrightarrow> a \<in> D \<Longrightarrow> b \<in> C \<Longrightarrow> b \<in> D"
  unfolding is_scc_def by blast

lemma calls_itself_iff: "w \<in> set (graph_words g) \<Longrightarrow> calls_itself g w \<longleftrightarrow> (w, w) \<in> calls g"
  by (simp add: calls_itself_def calls_def callees_def split: option.split)

lemma recursive_scc_iff:
  assumes "distinct C" "is_scc g (set C)" "set C \<subseteq> set (graph_words g)" "a \<in> set C"
  shows "recursive_scc g C \<longleftrightarrow> (a, a) \<in> (calls g)\<^sup>+"
proof (cases "\<exists>b \<in> set C. b \<noteq> a")
  case True
  then obtain b where b: "b \<in> set C" "b \<noteq> a" by blast
  then have "(a, b) \<in> (calls g)\<^sup>+" "(b, a) \<in> (calls g)\<^sup>+" using assms(2,4) unfolding is_scc_def by (metis rtranclD)+
  moreover have "length C > 1"
    using b assms(1,4) by (metis distinct_card card_le_Suc0_iff_eq finite_set not_less One_nat_def)
  ultimately show ?thesis by (auto simp: recursive_scc_def)
next
  case False
  then have C: "set C = {a}" using assms(4) by blast
  then have "length C = 1" using distinct_card [OF assms(1)] by simp
  then have C': "C = [a]" using C by (cases C) auto
  have "(a, a) \<in> calls g" if cycle: "(a, a) \<in> (calls g)\<^sup>+"
  proof -
    obtain c where c: "(a, c) \<in> calls g" "(c, a) \<in> (calls g)\<^sup>*" using tranclD [OF cycle] by blast
    then have "c \<in> set C" using assms(2,4) unfolding is_scc_def by blast
    then show ?thesis using c(1) C by simp
  qed
  then show ?thesis using calls_itself_iff [of a g] assms(3,4) C' by (auto simp: recursive_scc_def)
qed

lemma find_sccs_correct:
  "\<exists>Cs. find_sccs g = Some Cs \<and> (\<forall>a b. (\<exists>C \<in> set Cs. a \<in> set C \<and> b \<in> set C) \<longleftrightarrow>
     a \<in> set (graph_words g) \<and> b \<in> set (graph_words g) \<and> (a, b) \<in> (calls g)\<^sup>+ \<and> (b, a) \<in> (calls g)\<^sup>+)"
proof -
  from components [of g] obtain st where st: "tarjan_all (length (graph_words g) + 1) g (graph_words g) tarjan_new = Some st"
    and "\<forall>C \<in> set (sccs st). distinct C \<and> is_scc g (set C)" and all: "\<Union> (set ` set (sccs st)) = set (graph_words g)"
    by (elim exE conjE)
  then have C: "distinct C \<and> is_scc g (set C)" if "C \<in> set (sccs st)" for C using that by blast
  have sub: "set C \<subseteq> set (graph_words g)" if "C \<in> set (sccs st)" for C using all that by blast
  have "(\<exists>C \<in> set (filter (recursive_scc g) (sccs st)). a \<in> set C \<and> b \<in> set C) \<longleftrightarrow>
     a \<in> set (graph_words g) \<and> b \<in> set (graph_words g) \<and> (a, b) \<in> (calls g)\<^sup>+ \<and> (b, a) \<in> (calls g)\<^sup>+" (is "?L \<longleftrightarrow> ?R") for a b
  proof
    assume ?L
    then obtain D where D: "D \<in> set (sccs st)" "recursive_scc g D" "a \<in> set D" "b \<in> set D" by auto
    then have cycle: "(a, a) \<in> (calls g)\<^sup>+" using recursive_scc_iff [of D g a] C [OF D(1)] sub [OF D(1)] by blast
    have "(a, b) \<in> (calls g)\<^sup>*" "(b, a) \<in> (calls g)\<^sup>*" using C [OF D(1)] D(3,4) unfolding is_scc_def by blast+
    then have "(a, b) \<in> (calls g)\<^sup>+" "(b, a) \<in> (calls g)\<^sup>+" using cycle by (meson trancl_rtrancl_trancl rtrancl_trancl_trancl)+
    then show ?R using D(3,4) sub [OF D(1)] by blast
  next
    assume r: ?R
    then obtain D where D: "D \<in> set (sccs st)" "a \<in> set D" using all by auto
    have "(a, a) \<in> (calls g)\<^sup>+" using r by (meson trancl_trans)
    then have "recursive_scc g D" using recursive_scc_iff [of D g a] C [OF D(1)] sub [OF D(1)] D(2) by blast
    moreover have "b \<in> set D" using r C [OF D(1)] D(2) unfolding is_scc_def by (meson trancl_into_rtrancl)
    ultimately show ?L using D by auto
  qed
  then show ?thesis using st by (auto simp: find_sccs_def)
qed


section \<open>The call graph of a program\<close>

text \<open>Which words the bodies call; a later definition of a name replaces an earlier one.\<close>

definition word_calls :: "seq_program \<Rightarrow> (name \<times> name) set" where
  "word_calls p = {(a, b). \<exists>body. map_of (rev (map (\<lambda>w. (wd_name w, wd_body w)) (prog_words p))) a = Some body \<and>
     b \<in> called_in body \<and> b \<in> wd_name ` set (prog_words p)}"

lemma build_edges_map:
  "build_edges ws known = (\<lambda>a. map_option (\<lambda>body. extract_calls body known) (map_of (rev (map (\<lambda>w. (wd_name w, wd_body w)) ws)) a))"
  unfolding build_edges_def by (induction ws rule: rev_induct) auto

lemma build_correct:
  "\<exists>g. call_graph_build p = Some g \<and>
    (\<forall>a b. (\<exists>C \<in> set (recursive_sccs g). a \<in> set C \<and> b \<in> set C) \<longleftrightarrow> (a, b) \<in> (word_calls p)\<^sup>+ \<and> (b, a) \<in> (word_calls p)\<^sup>+)"
proof -
  let ?ws = "remdups (map wd_name (prog_words p))"
  let ?g = "\<lparr>edges = build_edges (prog_words p) ?ws, graph_words = ?ws, recursive_sccs = []\<rparr>"
  have calls: "calls ?g = word_calls p"
    by (auto simp: calls_def callees_def word_calls_def build_edges_map set_extract_calls split: option.splits dest: sym)
  have words: "a \<in> set ?ws" if ab: "(a, b) \<in> (word_calls p)\<^sup>+" for a b
  proof -
    obtain c where "(a, c) \<in> word_calls p" using tranclD [OF ab] by blast
    then show ?thesis by (auto simp: word_calls_def dest!: map_of_SomeD)
  qed
  obtain Cs where Cs: "find_sccs ?g = Some Cs"
    "\<And>a b. (\<exists>C \<in> set Cs. a \<in> set C \<and> b \<in> set C) \<longleftrightarrow>
       a \<in> set ?ws \<and> b \<in> set ?ws \<and> (a, b) \<in> (word_calls p)\<^sup>+ \<and> (b, a) \<in> (word_calls p)\<^sup>+"
    using find_sccs_correct [of ?g] unfolding calls by auto
  have "call_graph_build p = Some (?g\<lparr>recursive_sccs := Cs\<rparr>)" using Cs(1) by (simp add: call_graph_build_def Let_def)
  moreover have "(\<exists>C \<in> set Cs. a \<in> set C \<and> b \<in> set C) \<longleftrightarrow> (a, b) \<in> (word_calls p)\<^sup>+ \<and> (b, a) \<in> (word_calls p)\<^sup>+" for a b
    using Cs(2) [of a b] words by blast
  ultimately show ?thesis by simp
qed

text \<open>C16: \<open>CallGraph::build\<close> always succeeds, with the fuel given and without a failed \<open>expect\<close>, and its answers are
  exact: two words are mutually recursive in the graph exactly when each calls the other through some chain of
  calls, and a word is recursive exactly when such a chain leads from it back to it.\<close>

theorem call_graph_recursion:
  "\<exists>g. call_graph_build p = Some g \<and>
    (\<forall>a b. are_mutually_recursive g a b \<longleftrightarrow> (a, b) \<in> (word_calls p)\<^sup>+ \<and> (b, a) \<in> (word_calls p)\<^sup>+) \<and>
    (\<forall>w. is_recursive g w \<longleftrightarrow> (w, w) \<in> (word_calls p)\<^sup>+)"
proof -
  obtain g where g: "call_graph_build p = Some g"
    "\<And>a b. (\<exists>C \<in> set (recursive_sccs g). a \<in> set C \<and> b \<in> set C) \<longleftrightarrow> (a, b) \<in> (word_calls p)\<^sup>+ \<and> (b, a) \<in> (word_calls p)\<^sup>+"
    using build_correct [of p] by blast
  have "is_recursive g w \<longleftrightarrow> (w, w) \<in> (word_calls p)\<^sup>+" for w
    using g(2) [of w w] by (simp add: is_recursive_def list_ex_iff)
  then show ?thesis using g by (auto simp: are_mutually_recursive_def list_ex_iff)
qed

section \<open>Programs without recursion\<close>

text \<open>The number of words that can be reached by calls drops along each call.\<close>

definition call_rank :: "seq_program \<Rightarrow> name \<Rightarrow> nat" where
  "call_rank p w = card {v. (w, v) \<in> (word_calls p)\<^sup>+}"

lemma reach_words: "{v. (w, v) \<in> (word_calls p)\<^sup>+} \<subseteq> wd_name ` set (prog_words p)"
proof clarify
  fix v assume "(w, v) \<in> (word_calls p)\<^sup>+"
  then show "v \<in> wd_name ` set (prog_words p)" by (cases rule: trancl.cases) (auto simp: word_calls_def)
qed

lemma call_rank_less:
  assumes "call_graph_build p = Some g" "\<forall>w \<in> set (prog_words p). \<not> is_recursive g (wd_name w)" "(a, c) \<in> word_calls p"
  shows "call_rank p c < call_rank p a"
proof -
  have "is_recursive g w \<longleftrightarrow> (w, w) \<in> (word_calls p)\<^sup>+" for w
    using assms(1) build_correct [of p] by (auto simp: is_recursive_def list_ex_iff)
  then have "(c, c) \<notin> (word_calls p)\<^sup>+" using assms(2,3) by (auto simp: word_calls_def)
  then have "{v. (c, v) \<in> (word_calls p)\<^sup>+} \<subset> {v. (a, v) \<in> (word_calls p)\<^sup>+}"
    using assms(3) by (auto intro: trancl_into_trancl2)
  then show ?thesis unfolding call_rank_def
    by (rule psubset_card_mono [rotated]) (rule finite_subset [OF reach_words], simp)
qed

lemma call_rank_bound: "call_rank p w \<le> length (prog_words p)"
proof -
  have "call_rank p w \<le> card (wd_name ` set (prog_words p))" unfolding call_rank_def by (rule card_mono [OF _ reach_words]) simp
  also have "\<dots> \<le> length (prog_words p)" using card_image_le [of "set (prog_words p)" wd_name] card_length [of "prog_words p"] by simp
  finally show ?thesis .
qed

end
