(* ===== verification/Type_Soundness.thy ===== *)
theory Type_Soundness
  imports Typed_Words Tarjan
begin

text \<open>
  The type checker against the runtime: a program that the checker accepts, in the fragment of integer and
  boolean literals, conditionals, arithmetic and shuffle words and calls of words with monomorphic
  signatures, runs without a fault and leaves values of the declared types.  Two places where the
  checker accepts more than that are proved as counterexamples.
\<close>

section \<open>The condition of a branch\<close>

lemma peek_represents:
  assumes "represents s ext (v # vs)"
  shows "\<exists>s'. peek s = Ok (s', v) \<and> represents s' ext (v # vs) \<and> frame (fst s) (fst s')"
proof -
  obtain x svs where x: "owns s ext (x # svs)" "decode (hp (fst s)) x = Some v"
    "map (decode (hp (fst s))) svs = map Some vs"
    using assms by (auto simp: represents_def map_eq_Cons_conv)
  let ?rc = "\<lambda>a. count_list (x # svs) a + ext a"
  have x_pos: "0 < ?rc x" by simp
  note o = ownsD [OF x(1)]
  obtain s1 where s1: "clone_sv x s = Ok (x, s1)" "live s1 (x # svs)" "frame (fst s) (fst s1)"
    "heap_ok (hp (fst s1)) (?rc(x := ?rc x + 1))" "decode (hp (fst s1)) = decode (hp (fst s))"
    using clone_sv_ok [OF o(1,2) x_pos] by blast
  obtain v' h where h: "stack_value_to_value x (hp (fst s1)) = Ok (v', h)" "decode (hp (fst s1)) x = Some v'"
    "heap_ok h ((?rc(x := ?rc x + 1))(x := ?rc x))" "\<forall>b. decode h b = decode (hp (fst s1)) b"
    using stack_value_to_value_ok [OF s1(4), of x] by fastforce
  have rc: "(?rc(x := ?rc x + 1))(x := ?rc x) = ?rc" by auto
  let ?s' = "((fst s1)\<lparr>hp := h\<rparr>, snd s1)"
  have "peek s = Ok (?s', v)"
    using read_sub_live [OF o(1), of 0] s1 h x(2) by (simp add: peek_def)
  moreover have "represents ?s' ext (v # vs)"
    unfolding represents_def
    using s1 h x rc by (intro exI [of _ "x # svs"]) (simp add: owns_def cong: map_cong)
  ultimately show ?thesis using s1(3) frame_refl(2) frame_trans by fastforce
qed

lemma bool_branch:
  assumes "represents s ext (VBool b # vs)" "stack_base (fst s) = Some 0"
  shows "\<exists>s1 s2. patch_seq_peek_bool_value s = Ok (s1, b) \<and> patch_seq_pop_stack s1 = Ok s2 \<and>
    represents s2 ext vs \<and> stack_base (fst s2) = Some 0"
proof -
  obtain s1 where s1: "peek s = Ok (s1, VBool b)" "represents s1 ext (VBool b # vs)" "frame (fst s) (fst s1)"
    using peek_represents [OF assms(1)] by blast
  obtain s2 where "pop s1 = Ok (s2, VBool b)" "represents s2 ext vs" "frame (fst s1) (fst s2)"
    using pop_represents [OF s1(2)] by blast
  then show ?thesis using s1 assms(2)
    by (intro exI [of _ s1] exI [of _ s2]) (simp add: patch_seq_peek_bool_value_def patch_seq_pop_stack_def frame_def)
qed

lemma condition_ground:
  assumes "unify_condition n t = Some (Ok s)" "flat_type t" "type_tvars t = {}"
  shows "t = TBool \<and> s = subst_empty"
proof (cases n)
  case (Suc m)
  have u: "unify_stacks (Suc m) (SCons SEmpty TBool) (SCons SEmpty t) = Some (Ok s)"
    using assms(1) Suc by (auto simp: unify_condition_def st_singleton_def st_push_def split: option.splits sum.splits)
  then obtain s1 where s1: "unify_types m TBool t = Some (Ok s1)" by auto
  then have "flat_binding TBool t s1" using assms(2) by (auto intro: unify_types_flat_Ok)
  then have t: "t = TBool" "s1 = subst_empty"
    using assms(3) by (auto elim!: flat_binding_cases simp: compat_type_def elim!: is_union.elims)
  then show ?thesis using u s1 by (cases m) auto
qed (use assms in \<open>simp add: unify_condition_def\<close>)

section \<open>Safe runs\<close>

text \<open>A run that ends in a fault other than the exhausted stack is not safe; one that returns leaves values of the type.\<close>

definition safe :: "(u64 \<Rightarrow> nat) \<Rightarrow> stack_type \<Rightarrow> val list \<Rightarrow> (fault + strand) option \<Rightarrow> bool" where
  "safe ext st below r \<longleftrightarrow>
     (case r of
        None \<Rightarrow> True
      | Some (Inl f) \<Rightarrow> f = OutOfMemory
      | Some (Inr s) \<Rightarrow> stack_base (fst s) = Some 0 \<and> (\<exists>vs. represents s ext vs \<and> typed st below vs))"

lemma safe_simps [simp]:
  "safe ext st below None" "safe ext st below (Some (Err f)) \<longleftrightarrow> f = OutOfMemory"
  "safe ext st below (Some (Ok s)) \<longleftrightarrow> stack_base (fst s) = Some 0 \<and> (\<exists>vs. represents s ext vs \<and> typed st below vs)"
  by (simp_all add: safe_def)

lemma safe_and_then:
  assumes "safe ext st below r"
    and "\<And>s vs. stack_base (fst s) = Some 0 \<Longrightarrow> represents s ext vs \<Longrightarrow> typed st below vs \<Longrightarrow> safe ext st' below (f s)"
  shows "safe ext st' below (and_then r f)"
proof (cases r)
  case (Some x)
  with assms show ?thesis by (cases x) auto
qed simp

definition accepts :: "(strand \<Rightarrow> (fault + strand) option) \<Rightarrow> stack_type \<Rightarrow> stack_type \<Rightarrow> bool" where
  "accepts run st st' \<longleftrightarrow> (\<forall>s ext below vs. represents s ext vs \<and> stack_base (fst s) = Some 0 \<and> typed st below vs \<longrightarrow>
     safe ext st' below (run s))"

lemma acceptsD: "accepts run st st' \<Longrightarrow> represents s ext vs \<Longrightarrow> stack_base (fst s) = Some 0 \<Longrightarrow> typed st below vs \<Longrightarrow>
    safe ext st' below (run s)"
  unfolding accepts_def by blast

lemma accepts_compat:
  assumes "compat_stack st1 st2"
  shows "accepts run st st1 \<longleftrightarrow> accepts run st st2"
proof -
  have "typed st1 = typed st2" using typed_compat [OF assms] by (simp add: fun_eq_iff)
  then show ?thesis by (simp only: accepts_def safe_def)
qed

text \<open>Running a body with a stack that is longer at the bottom.\<close>

lemma typed_instance:
  "ground_stack st \<Longrightarrow> typed (apply_stack \<theta> st) below vs \<longleftrightarrow>
   (\<exists>ws. typed st ws vs \<and> typed (apply_stack \<theta> (SRowVar ''rest'')) below ws)"
proof (induction st arbitrary: vs rule: spine_induct)
  case (Cons rest t)
  then have "apply_type \<theta> t = t" by (simp add: apply_type_id)
  with Cons show ?case by (fastforce simp: typed_SCons)
qed auto

lemma accepts_instance:
  assumes "accepts run i out" "ground_stack i" "ground_stack out" "compat_stack (apply_stack \<theta> i) st"
  shows "accepts run st (apply_stack \<theta> out)"
  unfolding accepts_def
proof clarify
  fix m n ext below vs
  assume r: "represents (m, n) ext vs" "stack_base (fst (m, n)) = Some 0" "typed st below vs"
  then obtain ws where ws: "typed i ws vs" "typed (apply_stack \<theta> (SRowVar ''rest'')) below ws"
    using typed_compat [OF assms(4)] typed_instance [OF assms(2)] by blast
  have "safe ext out ws (run (m, n))" by (rule acceptsD [OF assms(1) r(1,2) ws(1)])
  then show "safe ext (apply_stack \<theta> out) below (run (m, n))"
    using typed_instance [OF assms(3)] ws(2) unfolding safe_def
    by (auto split: option.splits sum.splits)
qed


section \<open>The fragment\<close>

text \<open>
  The bodies the theorem is about.  \<open>E\<close> are the declared signatures, \<open>D\<close> says of a branch that the checker
  takes it to diverge.  A called word is one of the runtime's words or a word of the program with a
  signature without type variables whose name means nothing else to the checker or to the code generator.
\<close>

definition mono_effect :: "effect \<Rightarrow> bool" where
  "mono_effect e \<longleftrightarrow> ground_stack (inputs e) \<and> ground_stack (outputs e)"

definition special_words :: "name list" where
  "special_words = [''>aux'', ''aux>'', ''call'', ''dip'', ''keep'', ''bi'', ''if'', ''strand.spawn'']"

definition user_word :: "(name \<rightharpoonup> effect) \<Rightarrow> name \<Rightarrow> bool" where
  "user_word E w \<longleftrightarrow> (case E w of Some e \<Rightarrow> mono_effect e | None \<Rightarrow> False) \<and>
     builtin_signature w = None \<and> runtime_word w = None \<and> w \<notin> set sugar_ops \<and> w \<notin> set special_words"

fun plain :: "(name \<rightharpoonup> effect) \<Rightarrow> (statement list \<Rightarrow> bool) \<Rightarrow> statement list \<Rightarrow> bool"
and plain1 :: "(name \<rightharpoonup> effect) \<Rightarrow> (statement list \<Rightarrow> bool) \<Rightarrow> statement \<Rightarrow> bool" where
  "plain E D [] = True"
| "plain E D (x # xs) = (plain1 E D x \<and> plain E D xs)"
| "plain1 E D (IntLiteral _) = True"
| "plain1 E D (BoolLiteral _) = True"
| "plain1 E D (WordCall w _) = (map_of prims w \<noteq> None \<or> user_word E w)"
| "plain1 E D (If t None _) = (plain E D t \<and> \<not> D t)"
| "plain1 E D (If t (Some e) _) = (plain E D t \<and> plain E D e \<and> \<not> D t \<and> \<not> D e)"
| "plain1 E D _ = False"

text \<open>What the inference of such a body keeps of the checker.\<close>

definition static :: "checker \<Rightarrow> (name \<rightharpoonup> effect) \<times> (name \<times> nat option) option \<times> call_graph option" where
  "static tc = (env tc, current_word tc, tc_call_graph tc)"

lemma static_updates [simp]:
  "static (tc\<lparr>tc_counter := c\<rparr>) = static tc" "static (tc\<lparr>expected_quotation_type := q\<rparr>) = static tc"
  "static (tc\<lparr>current_aux_stack := a\<rparr>) = static tc" "static (tc\<lparr>statement_top_types := m\<rparr>) = static tc"
  by (simp_all add: static_def)

lemma divergent_cong:
  assumes "current_word tc = current_word tc'" "tc_call_graph tc = tc_call_graph tc'"
  shows "is_divergent_branch tc = is_divergent_branch tc'"
  by (rule ext) (unfold is_divergent_branch_def assms, rule refl)

lemma static_divergent: "static tc = static tc' \<Longrightarrow> is_divergent_branch tc = is_divergent_branch tc'"
  by (rule divergent_cong) (simp_all add: static_def)

lemma static_capture [simp]: "static (capture_before cap i st tc) = static tc"
  by (simp add: capture_before_def capture_statement_type_def split: option.split)

lemma plain_statement:
  assumes "plain1 E D x" "plain E D xs"
  shows "literal_index x xs = None" "expect_from_next x xs tc = tc" "restore_expected x q tc = tc"
proof -
  have "\<not> is_quotation x" using assms(1) by (cases x) auto
  then show "expect_from_next x xs tc = tc" "restore_expected x q tc = tc"
    by (simp_all add: expect_from_next_def restore_expected_def)
  have "map_of prims ''pick'' = None" "map_of prims ''roll'' = None"
    "runtime_word ''pick'' \<noteq> None" "runtime_word ''roll'' \<noteq> None"
    by (simp_all add: prims_def runtime_word_def arith_symbols_def stack_symbols_def)
  then have "\<not> plain1 E D (WordCall w sp)" if "w = ''pick'' \<or> w = ''roll''" for w sp
    using that by (auto simp: user_word_def)
  then show "literal_index x xs = None"
    using assms(2) by (cases "(x, xs)" rule: literal_index.cases) (auto simp del: plain1.simps)
qed

section \<open>Calls\<close>

lemma prim_names: "map_of prims w = Some p \<Longrightarrow> w \<notin> set sugar_ops \<and> w \<notin> set special_words"
proof -
  have "list_all (\<lambda>(w, p). w \<notin> set sugar_ops \<and> w \<notin> set special_words) prims"
    by (simp add: prims_def sugar_ops_def special_words_def)
  then show "map_of prims w = Some p \<Longrightarrow> w \<notin> set sugar_ops \<and> w \<notin> set special_words"
    by (auto simp: list_all_iff dest: map_of_SomeD)
qed

lemma plain_call:
  assumes "infer_word_call n tc w sp st = Some (Ok (st', s, effs, tc'))"
    and "w \<notin> set sugar_ops" "w \<notin> set special_words" "lookup_word_effect builtin_signature tc w = Some e"
  shows "apply_effect n (tc\<lparr>tc_counter := snd (freshen_effect e (tc_counter tc))\<rparr>) (fst (freshen_effect e (tc_counter tc))) st w
      = Some (Ok (st', s))" "static tc' = static tc"
  using assms
  by (auto simp: infer_word_call_def infer_named_call_def special_words_def tc_freshen_def Let_def split: prod.splits)

lemma prim_accepts:
  assumes "map_of prims w = Some p" "compat_stack (apply_stack \<theta> (inputs (sg (prim_ins p) (prim_outs p)))) st"
  shows "accepts (\<lambda>s. if \<not> room s 2 then Some (Err OutOfMemory) else exec1 k B (WordCall w sp) s) st
    (apply_stack \<theta> (outputs (sg (prim_ins p) (prim_outs p))))"
  unfolding accepts_def
proof clarify
  fix m n ext below vs
  assume r: "represents (m, n) ext vs" "stack_base (fst (m, n)) = Some 0" "typed st below vs"
  let ?base = "\<lambda>ws. typed (apply_stack \<theta> (SRowVar ''a'')) below ws"
  obtain xs ws where xs: "vs = xs @ ws" "typed (apply_stack \<theta> (SRowVar ''a'')) below ws"
    "list_all2 (\<lambda>t v. has_type v t) (rev (map (apply_type \<theta>) (prim_ins p))) xs"
    using r(3) typed_compat [OF assms(2), of below vs]
    by (auto simp: sg_def effect_new_def row_flat typed_push)
  show "safe ext (apply_stack \<theta> (outputs (sg (prim_ins p) (prim_outs p)))) below
    (if \<not> room (m, n) 2 then Some (Err OutOfMemory) else exec1 k B (WordCall w sp) (m, n))"
  proof (cases "room (m, n) 2")
    case True
    obtain s' ys where s': "run_prim p (m, n) = Ok s'" "represents s' ext (ys @ ws)" "stack_base (fst s') = Some 0"
      "list_all2 (\<lambda>t v. has_type v t) (rev (map (apply_type \<theta>) (prim_outs p))) ys"
      using prim_typed [OF assms(1) _ True r(2) xs(3)] r(1) xs(1) by blast
    have "typed (apply_stack \<theta> (outputs (sg (prim_ins p) (prim_outs p)))) below (ys @ ws)"
      using s'(4) xs(2) by (auto simp: sg_def effect_new_def row_flat typed_push)
    then show ?thesis using True s' prim_lookup(1) [OF assms(1)] by auto
  qed simp
qed


section \<open>Accepted bodies run safely\<close>

text \<open>Every word of the program has a body, and the calls one level down are safe.\<close>

definition calls_safe :: "(name \<rightharpoonup> effect) \<Rightarrow> bodies \<Rightarrow> nat \<Rightarrow> bool" where
  "calls_safe E B k \<longleftrightarrow> (\<forall>w e. user_word E w \<and> E w = Some e \<longrightarrow>
     (\<exists>body. B w = Some body \<and> (\<forall>j. k = Suc j \<longrightarrow> accepts (exec j B body) (inputs e) (outputs e))))"

text \<open>One statement, with the check for free slots that precedes it.\<close>

definition exec_step :: "nat \<Rightarrow> bodies \<Rightarrow> statement \<Rightarrow> strand \<Rightarrow> (fault + strand) option" where
  "exec_step k B x s = (if \<not> room s 2 then Some (Err OutOfMemory) else exec1 k B x s)"

lemma exec_Cons: "exec k B (x # xs) s = and_then (exec_step k B x s) (exec k B xs)"
  by (simp add: exec_step_def)

lemma accepts_seq:
  assumes "accepts (exec_step k B x) st1 st2" "accepts (exec k B xs) st2 st3"
  shows "accepts (exec k B (x # xs)) st1 st3"
  unfolding accepts_def exec_Cons
  using assms by (blast intro: safe_and_then acceptsD)

lemma literal_accepts:
  assumes "\<not> boxed v" "has_type (norm_value v) t" "\<And>s. exec1 k B x s = Some (push s v)"
  shows "accepts (exec_step k B x) st (SCons st t)"
  unfolding accepts_def exec_step_def
proof clarify
  fix m n ext below vs
  assume r: "represents (m, n) ext vs" "stack_base (fst (m, n)) = Some 0" "typed st below vs"
  show "safe ext (SCons st t) below (if \<not> room (m, n) 2 then Some (Err OutOfMemory) else exec1 k B x (m, n))"
  proof (cases "room (m, n) 2")
    case True
    then obtain s' where "push (m, n) v = Ok s'" "represents s' ext (norm_value v # vs)"
      using rs.put_law [OF r(1), of 1 v] assms(1) by (auto simp: numeral_2_eq_2)
    then show ?thesis using True r assms push_base by (fastforce simp: typed_SCons)
  qed simp
qed

lemma user_word_accepts:
  assumes "calls_safe E B k" "user_word E w" "E w = Some e" "compat_stack (apply_stack \<theta> (inputs e)) st"
  shows "accepts (exec_step k B (WordCall w sp)) st (apply_stack \<theta> (outputs e))"
proof -
  obtain body where body: "B w = Some body" "\<And>j. k = Suc j \<Longrightarrow> accepts (exec j B body) (inputs e) (outputs e)"
    using assms(1-3) unfolding calls_safe_def by blast
  have u: "runtime_word w = None" "mono_effect e" using assms(2,3) by (auto simp: user_word_def)
  show ?thesis
  proof (cases k)
    case 0
    then show ?thesis using u body by (auto simp: accepts_def exec_step_def)
  next
    case (Suc j)
    have "accepts (exec j B body) st (apply_stack \<theta> (outputs e))"
      using accepts_instance [OF body(2) [OF Suc] _ _ assms(4)] u(2) by (simp add: mono_effect_def)
    then show ?thesis using Suc u body by (auto simp: accepts_def exec_step_def)
  qed
qed

lemma word_accepts:
  assumes "calls_safe E B k" "infer_word_call n tc w sp st = Some (Ok (st', s, effs, tc'))" "env tc = E"
    and "ground_stack st" "map_of prims w \<noteq> None \<or> user_word E w"
  shows "ground_stack st' \<and> static tc' = static tc \<and> accepts (exec_step k B (WordCall w sp)) st st'"
proof (cases "map_of prims w")
  case (Some p)
  have l: "lookup_word_effect builtin_signature tc w = Some (sg (prim_ins p) (prim_outs p))"
    using prim_lookup(2) [OF Some] by (simp add: lookup_word_effect_def)
  note c = plain_call [OF assms(2) _ _ l]
  obtain \<theta> where "compat_stack (apply_stack \<theta> (inputs (sg (prim_ins p) (prim_outs p)))) st"
    "st' = apply_stack \<theta> (outputs (sg (prim_ins p) (prim_outs p)))" "ground_stack st'"
    using apply_effect_ground [OF c(1) assms(4) prim_closed [OF Some]] prim_names [OF Some] by blast
  then show ?thesis using prim_accepts [OF Some] c(2) prim_names [OF Some] by (auto simp: exec_step_def [abs_def])
next
  case None
  then have u: "user_word E w" using assms(5) by simp
  then obtain e where e: "E w = Some e" "mono_effect e" "w \<notin> set sugar_ops" "w \<notin> set special_words"
    "lookup_word_effect builtin_signature tc w = Some e"
    using assms(3) by (auto simp: user_word_def lookup_word_effect_def split: option.splits)
  note c = plain_call [OF assms(2) e(3-5)]
  have "closed_effect e" using e(2) by (auto simp: mono_effect_def closed_effect_def ground_stack_def)
  then obtain \<theta> where "compat_stack (apply_stack \<theta> (inputs e)) st"
    "st' = apply_stack \<theta> (outputs e)" "ground_stack st'"
    using apply_effect_ground [OF c(1) assms(4)] by blast
  then show ?thesis using user_word_accepts [OF assms(1) u e(1)] c(2) by auto
qed

lemma if_accepts:
  assumes "accepts (exec k B t) st st'"
    and "accepts (\<lambda>s. case e of Some ss \<Rightarrow> exec k B ss s | None \<Rightarrow> Some (Ok s)) st st'"
  shows "accepts (exec_step k B (If t e sp)) (SCons st TBool) st'"
  unfolding accepts_def exec_step_def
proof clarify
  fix m n ext below vs
  assume r: "represents (m, n) ext vs" "stack_base (fst (m, n)) = Some 0" "typed (SCons st TBool) below vs"
  then obtain b ws where ws: "vs = VBool b # ws" "typed st below ws" by (auto simp: typed_SCons)
  then obtain s1 s2 where "patch_seq_peek_bool_value (m, n) = Ok (s1, b)" "patch_seq_pop_stack s1 = Ok s2"
    "represents s2 ext ws" "stack_base (fst s2) = Some 0" using bool_branch r by metis
  then show "safe ext st' below (if \<not> room (m, n) 2 then Some (Err OutOfMemory) else exec1 k B (If t e sp) (m, n))"
    using acceptsD [OF assms(1)] acceptsD [OF assms(2)] ws(2) by (auto split: option.split)
qed

lemma if_inferred:
  assumes "infer_statement n tc (If t e sp) st = Some (Ok (st', s', effs', tc'))" "ground_stack st"
    and "\<not> is_divergent_branch tc t" "\<And>ss. e = Some ss \<Longrightarrow> \<not> is_divergent_branch tc ss"
  obtains rest r1 s1 f1 tc1 tc2 r2 s2 f2 tc3 u where
    "st = SCons rest TBool" "infer_loop n tc False 0 t rest subst_empty [] = Some (Ok (r1, s1, f1, tc1))"
    "(case e of Some ss \<Rightarrow> infer_loop n tc2 False 0 ss rest subst_empty []
      | None \<Rightarrow> Some (Ok (rest, subst_empty, [], tc2))) = Some (Ok (r2, s2, f2, tc3))"
    "static tc2 = static tc1" "unify_stacks n r1 r2 = Some (Ok u)" "st' = apply_stack u r1" "static tc' = static tc3"
proof -
  obtain rest c where st: "st = SCons rest c" using assms(1,2) by (cases st) auto
  then obtain u0 where u0: "unify_condition n c = Some (Ok u0)" using assms(1) by (auto simp: Let_def)
  then have c: "c = TBool" "u0 = subst_empty" using condition_ground [OF u0] st assms(2) by auto
  have d: "\<not> (case e of Some ss \<Rightarrow> is_divergent_branch tc ss | None \<Rightarrow> False)"
    using assms(4) by (simp split: option.split)
  show ?thesis
    using assms(1) st c u0 assms(3) d
    by (auto simp: Let_def finish_if_def unify_branches_def split: if_splits option.splits sum.splits intro!: that)
qed

lemma plain_sound:
  shows "infer_loop n tc cap i ss st sb effs = Some (Ok (st', s', effs', tc')) \<Longrightarrow> plain E D ss \<Longrightarrow> ground_stack st \<Longrightarrow>
      env tc = E \<Longrightarrow> is_divergent_branch tc = D \<Longrightarrow> calls_safe E B k \<Longrightarrow>
      ground_stack st' \<and> static tc' = static tc \<and> accepts (exec k B ss) st st'"
    and "infer_statement n tc x st = Some (Ok (st', s', effs', tc')) \<Longrightarrow> plain1 E D x \<Longrightarrow> ground_stack st \<Longrightarrow>
      env tc = E \<Longrightarrow> is_divergent_branch tc = D \<Longrightarrow> calls_safe E B k \<Longrightarrow>
      ground_stack st' \<and> static tc' = static tc \<and> accepts (exec_step k B x) st st'"
proof (induction E D ss and E D x arbitrary: n tc cap i st sb effs st' s' effs' tc' and n tc st st' s' effs' tc'
    rule: plain_plain1.induct)
  case (1 E D)
  then show ?case by (auto simp: accepts_def)
next
  case (2 E D x xs)
  have p: "plain1 E D x" "plain E D xs" using 2(4) by simp_all
  note simps = plain_statement [OF p]
  obtain st1 s1 f1 tc1 where i: "infer_statement n (capture_before cap i st tc) x st = Some (Ok (st1, s1, f1, tc1))"
    "infer_loop n tc1 cap (i + 1) xs st1 (compose sb s1) (merge_effects effs f1) = Some (Ok (st', s', effs', tc'))"
    using 2(3) simps by auto
  have cap: "static (capture_before cap i st tc) = static tc" by simp
  have 1: "ground_stack st1 \<and> static tc1 = static tc \<and> accepts (exec_step k B x) st st1"
    using 2(1) [OF i(1) p(1)] 2 cap static_divergent [OF cap] by (simp add: static_def)
  then have "ground_stack st' \<and> static tc' = static tc1 \<and> accepts (exec k B xs) st1 st'"
    using 2(2) [OF i(2) p(2)] 2 static_divergent [of tc1 tc] by (simp add: static_def)
  with 1 accepts_seq [of k B x st st1 xs st'] show ?case by (simp del: exec.simps)
next
  case (3 E D v)
  then show ?case using literal_accepts [of "VInt v" TInt k B "IntLiteral v" st]
    by (auto simp: patch_seq_push_int_def st_push_def)
next
  case (4 E D b)
  then show ?case using literal_accepts [of "VBool b" TBool k B "BoolLiteral b" st]
    by (auto simp: patch_seq_push_bool_def st_push_def)
next
  case (5 E D w sp)
  then show ?case using word_accepts [of E B k n tc w sp st] by auto
next
  case (6 E D t sp)
  then obtain rest r1 s1 f1 tc1 tc2 r2 s2 f2 tc3 u where i: "st = SCons rest TBool"
    "infer_loop n tc False 0 t rest subst_empty [] = Some (Ok (r1, s1, f1, tc1))" "r2 = rest"
    "static tc2 = static tc1" "unify_stacks n r1 r2 = Some (Ok u)" "st' = apply_stack u r1" "static tc' = static tc2"
    by (elim if_inferred) auto
  have g: "ground_stack rest" using 6(4) i(1) by simp
  have 1: "ground_stack r1 \<and> static tc1 = static tc \<and> accepts (exec k B t) rest r1"
    using 6(1) [OF i(2)] 6 g by simp
  have u: "u = subst_empty" "compat_stack r1 rest" using unify_ground [OF i(5)] 1 g i(3) by simp_all
  have "accepts (\<lambda>s. Some (Ok s)) rest r1" using typed_compat [OF u(2)] by (auto simp: accepts_def)
  then show ?case using if_accepts [of k B t rest r1 None] 1 i u by simp
next
  case (7 E D t e sp)
  then obtain rest r1 s1 f1 tc1 tc2 r2 s2 f2 tc3 u where i: "st = SCons rest TBool"
    "infer_loop n tc False 0 t rest subst_empty [] = Some (Ok (r1, s1, f1, tc1))"
    "infer_loop n tc2 False 0 e rest subst_empty [] = Some (Ok (r2, s2, f2, tc3))"
    "static tc2 = static tc1" "unify_stacks n r1 r2 = Some (Ok u)" "st' = apply_stack u r1" "static tc' = static tc3"
    by (elim if_inferred) auto
  have g: "ground_stack rest" using 7(5) i(1) by simp
  have 1: "ground_stack r1 \<and> static tc1 = static tc \<and> accepts (exec k B t) rest r1"
    using 7(1) [OF i(2)] 7 g by simp
  then have tc2: "static tc2 = static tc" using i(4) by simp
  then have 2: "ground_stack r2 \<and> static tc3 = static tc \<and> accepts (exec k B e) rest r2"
    using 7(2) [OF i(3)] 7 g static_divergent [OF tc2] by (simp add: static_def)
  have u: "u = subst_empty" "compat_stack r1 r2" using unify_ground [OF i(5)] 1 2 by simp_all
  have "accepts (exec k B e) rest r1" using 2 accepts_compat [OF u(2)] by simp
  then show ?case using if_accepts [of k B t rest r1 "Some e"] 1 2 i u by simp
qed simp_all


section \<open>Accepted programs\<close>

text \<open>The signatures that \<open>collect_signatures\<close> gathers.\<close>

definition declare_word :: "(name \<rightharpoonup> effect) \<Rightarrow> word_def \<Rightarrow> (name \<rightharpoonup> effect)" where
  "declare_word E w = (case wd_effect w of Some e \<Rightarrow> E(wd_name w \<mapsto> e) | None \<Rightarrow> E)"

definition declared :: "seq_program \<Rightarrow> (name \<rightharpoonup> effect)" where
  "declared p = foldl declare_word Map.empty (prog_words p)"

lemma collect_signatures_Ok:
  "collect_signatures tc ws = Ok tc' \<Longrightarrow> tc' = tc\<lparr>env := foldl declare_word (env tc) ws\<rparr> \<and> (\<forall>w \<in> set ws. wd_effect w \<noteq> None)"
  by (induction ws arbitrary: tc) (fastforce simp: declare_word_def split: option.splits sum.splits)+

lemma declared_other: "n \<notin> wd_name ` set ws \<Longrightarrow> foldl declare_word E ws n = E n"
  by (induction ws arbitrary: E) (auto simp: declare_word_def split: option.splits)

lemma declared_word:
  "distinct (map wd_name ws) \<Longrightarrow> w \<in> set ws \<Longrightarrow> wd_effect w = Some e \<Longrightarrow> foldl declare_word E ws (wd_name w) = Some e"
  by (induction ws arbitrary: E) (auto simp: declare_word_def declared_other)

lemma declaredD:
  "foldl declare_word E ws n = Some e \<Longrightarrow> E n = Some e \<or> (\<exists>w \<in> set ws. wd_name w = n \<and> wd_effect w = Some e)"
  by (induction ws arbitrary: E) (fastforce simp: declare_word_def split: option.splits if_splits)+

lemma program_bodies_word:
  "distinct (map wd_name (prog_words p)) \<Longrightarrow> w \<in> set (prog_words p) \<Longrightarrow> program_bodies p (wd_name w) = Some (wd_body w)"
  unfolding program_bodies_def by (rule map_of_is_SomeI) (auto simp: rev_map [symmetric] comp_def)

lemma register_unions_keep:
  "env (foldl register_union tc us) = env tc \<and> tc_call_graph (foldl register_union tc us) = tc_call_graph tc"
  by (induction us arbitrary: tc) (simp_all add: register_union_def Let_def)

text \<open>Whether the checker takes a branch of the word to diverge.\<close>

definition diverging :: "checker \<Rightarrow> word_def \<Rightarrow> statement list \<Rightarrow> bool" where
  "diverging tc w = is_divergent_branch (tc\<lparr>current_word := Some (wd_name w, map_option sl_start_line (wd_source w))\<rparr>)"

lemma diverging_cong: "tc_call_graph tc = tc_call_graph tc' \<Longrightarrow> diverging tc w = diverging tc' w"
  unfolding diverging_def by (rule divergent_cong) simp_all

definition plain_word :: "(name \<rightharpoonup> effect) \<Rightarrow> checker \<Rightarrow> word_def \<Rightarrow> bool" where
  "plain_word E tc w \<longleftrightarrow> user_word E (wd_name w) \<and> plain E (diverging tc w) (wd_body w)"

lemma expect_output_mono: "mono_effect e \<Longrightarrow> expect_output e tc = tc"
  by (cases "outputs e") (auto simp: expect_output_def mono_effect_def split: ty.split)

lemma no_calls_safe: "calls_safe E (\<lambda>_. Some []) 0"
  by (simp add: calls_safe_def)

lemma check_word_sound:
  assumes "check_word n tc w = Some (Ok tc')" "wd_effect w = Some e" "mono_effect e"
    and "plain (env tc) (diverging tc w) (wd_body w)"
  shows "env tc' = env tc \<and> tc_call_graph tc' = tc_call_graph tc"
    and "calls_safe (env tc) B k \<Longrightarrow> accepts (exec k B (wd_body w)) (inputs e) (outputs e)"
proof -
  let ?tc = "tc\<lparr>current_word := Some (wd_name w, map_option sl_start_line (wd_source w)), current_aux_stack := SEmpty\<rparr>"
  obtain r s f tc2 where i: "infer_loop n ?tc True 0 (wd_body w) (inputs e) subst_empty [] = Some (Ok (r, s, f, tc2))"
    using assms(1,2) expect_output_mono [OF assms(3)] by (auto simp: check_word_def Let_def infer_statements_from_def)
  have "\<exists>u. unify_stacks n (outputs e) r = Some (Ok u) \<and> tc' = tc2\<lparr>expected_quotation_type := None, current_word := None\<rparr>"
    using assms(1,2) expect_output_mono [OF assms(3)] i
    by (auto simp: check_word_def Let_def infer_statements_from_def split: option.split_asm sum.split_asm if_split_asm)
  then obtain u where u: "unify_stacks n (outputs e) r = Some (Ok u)"
    and tc': "tc' = tc2\<lparr>expected_quotation_type := None, current_word := None\<rparr>" by blast
  have g: "ground_stack (inputs e)" "ground_stack (outputs e)" using assms(3) by (simp_all add: mono_effect_def)
  have d: "is_divergent_branch ?tc = diverging tc w"
    unfolding diverging_def by (rule static_divergent) (simp add: static_def)
  note * = plain_sound(1) [OF i assms(4) g(1) _ d]
  have "static tc2 = static ?tc" using * [OF _ no_calls_safe] by simp
  then show "env tc' = env tc \<and> tc_call_graph tc' = tc_call_graph tc" by (simp add: tc' static_def)
  assume "calls_safe (env tc) B k"
  then have "ground_stack r \<and> accepts (exec k B (wd_body w)) (inputs e) r" using * by simp
  then show "accepts (exec k B (wd_body w)) (inputs e) (outputs e)"
    using unify_ground [OF u g(2)] accepts_compat [of "outputs e" r] by blast
qed

lemma check_words_each:
  assumes "check_words n tc ws = Some (Ok tc')" "\<forall>w \<in> set ws. plain_word (env tc) tc w \<and> wd_effect w = env tc (wd_name w)"
  shows "\<forall>w \<in> set ws. \<exists>tc1 tc2. env tc1 = env tc \<and> tc_call_graph tc1 = tc_call_graph tc \<and> check_word n tc1 w = Some (Ok tc2)"
  using assms
proof (induction ws arbitrary: tc)
  case (Cons w ws)
  then obtain tc1 where tc1: "check_word n tc w = Some (Ok tc1)" "check_words n tc1 ws = Some (Ok tc')" by auto
  obtain e where "wd_effect w = Some e" "mono_effect e" "plain (env tc) (diverging tc w) (wd_body w)"
    using Cons.prems(2) by (auto simp: plain_word_def user_word_def split: option.splits)
  then have keep: "env tc1 = env tc" "tc_call_graph tc1 = tc_call_graph tc" using check_word_sound(1) [OF tc1(1)] by auto
  then have "\<forall>w \<in> set ws. plain_word (env tc1) tc1 w \<and> wd_effect w = env tc1 (wd_name w)"
    using Cons.prems(2) diverging_cong [OF keep(2)] by (simp add: plain_word_def)
  then show ?case using Cons.IH [OF tc1(2)] keep tc1(1) by auto
qed simp

lemma checked_words_accept:
  assumes check: "check_program n tc p = Some (Ok tc')" and new: "env tc = Map.empty"
    and dist: "distinct (map wd_name (prog_words p))"
    and plain: "\<forall>w \<in> set (prog_words p). plain_word (declared p) tc w"
    and w: "w \<in> set (prog_words p)" "wd_effect w = Some e"
  shows "accepts (exec k (program_bodies p) (wd_body w)) (inputs e) (outputs e)"
  using w
proof (induction k arbitrary: w e)
  let ?E = "declared p" and ?B = "program_bodies p"
  let ?tc1 = "foldl register_union tc (prog_unions p)"
  obtain tc2 where tc2: "collect_signatures ?tc1 (prog_words p) = Ok tc2" "check_words n tc2 (prog_words p) = Some (Ok tc')"
    using check by (auto simp: check_program_def Let_def)
  have env: "env tc2 = ?E" "tc_call_graph tc2 = tc_call_graph tc"
    using collect_signatures_Ok [OF tc2(1)] register_unions_keep [of tc "prog_unions p"] new by (auto simp: declared_def)
  have eff: "wd_effect v = ?E (wd_name v)" "wd_effect v \<noteq> None" if "v \<in> set (prog_words p)" for v
    using collect_signatures_Ok [OF tc2(1)] declared_word [OF dist that] that by (force simp: declared_def)+
  have each: "\<exists>tc1 tc2. env tc1 = ?E \<and> tc_call_graph tc1 = tc_call_graph tc \<and> check_word n tc1 v = Some (Ok tc2)"
    if "v \<in> set (prog_words p)" for v
    using check_words_each [OF tc2(2)] plain eff diverging_cong [OF env(2)] env that by (auto simp: plain_word_def)
  have step: "accepts (exec k ?B (wd_body v)) (inputs f) (outputs f)"
    if v: "v \<in> set (prog_words p)" "wd_effect v = Some f" and calls: "calls_safe ?E ?B k" for v f k
  proof -
    obtain tc1 tc3 where t: "env tc1 = ?E" "tc_call_graph tc1 = tc_call_graph tc" "check_word n tc1 v = Some (Ok tc3)"
      using each [OF v(1)] by blast
    have "mono_effect f" "plain (env tc1) (diverging tc1 v) (wd_body v)"
      using plain v eff(1) [OF v(1)] t diverging_cong [OF t(2)] by (auto simp: plain_word_def user_word_def)
    then show ?thesis using check_word_sound(2) [OF t(3) v(2)] calls t(1) by simp
  qed
  have words: "\<exists>v \<in> set (prog_words p). wd_name v = x \<and> wd_effect v = Some f" if "?E x = Some f" for x f
    using declaredD [of Map.empty "prog_words p" x f] that by (auto simp: declared_def)
  {
    case 0
    have "calls_safe ?E ?B 0"
      using words program_bodies_word [OF dist] unfolding calls_safe_def by blast
    then show ?case by (rule step [OF 0])
  next
    case (Suc k)
    have "calls_safe ?E ?B (Suc k)"
      using words program_bodies_word [OF dist] Suc.IH unfolding calls_safe_def by (metis nat.inject)
    then show ?case by (rule step [OF Suc.prems])
  }
qed

section \<open>Runs that end\<close>

text \<open>
  A rank that drops along the calls bounds their depth: a program without recursion has one, and fuel
  above the ranks of the words called is enough.
\<close>

definition ranked :: "bodies \<Rightarrow> (name \<Rightarrow> nat) \<Rightarrow> bool" where
  "ranked B rk \<longleftrightarrow> (\<forall>w body. B w = Some body \<longrightarrow> (\<forall>c \<in> called_in body. runtime_word c = None \<and> B c \<noteq> None \<longrightarrow> rk c < rk w))"

lemma and_then_None: "and_then m f = None \<longleftrightarrow> m = None \<or> (\<exists>a. m = Some (Ok a) \<and> f a = None)"
proof (cases m)
  case (Some x)
  then show ?thesis by (cases x) auto
qed simp

lemma exec_returns:
  shows "ranked B rk \<Longrightarrow> \<forall>c \<in> called_in ss. runtime_word c = None \<and> B c \<noteq> None \<longrightarrow> rk c < k \<Longrightarrow> exec k B ss s \<noteq> None"
    and "ranked B rk \<Longrightarrow> \<forall>c \<in> called_by x. runtime_word c = None \<and> B c \<noteq> None \<longrightarrow> rk c < k \<Longrightarrow> exec1 k B x s \<noteq> None"
proof (induction k B ss s and k B x s rule: exec_exec1.induct)
  case (2 k B x xs s)
  then show ?case by (auto simp: and_then_None simp del: not_None_eq)
next
  case (5 k B w sp s)
  show ?case
  proof (cases "runtime_word w = None \<and> B w \<noteq> None")
    case True
    then obtain body where body: "runtime_word w = None" "B w = Some body" by blast
    then obtain j where j: "k = Suc j" "rk w \<le> j" using 5(3) by (cases k) auto
    have "exec j B body s \<noteq> None"
    proof (rule 5(1) [OF body j(1) 5(2)])
      show "\<forall>c \<in> called_in body. runtime_word c = None \<and> B c \<noteq> None \<longrightarrow> rk c < j"
        using 5(2) body(2) j(2) unfolding ranked_def by fastforce
    qed
    then show ?thesis using body j by simp
  qed (auto split: option.split)
next
  case (6 k B t e sp s)
  have t: "\<forall>c \<in> called_in t. runtime_word c = None \<and> B c \<noteq> None \<longrightarrow> rk c < k"
    and e: "\<And>ss. e = Some ss \<Longrightarrow> \<forall>c \<in> called_in ss. runtime_word c = None \<and> B c \<noteq> None \<longrightarrow> rk c < k"
    using 6(4) by (cases e; auto)+
  show ?case
    using 6(1) [OF _ _ _ _ 6(3) t] 6(2) [OF _ _ _ _ _ 6(3) e]
    by (auto simp: and_then_None simp del: not_None_eq split: if_splits option.splits)
qed auto


lemma call_rank_ranked:
  assumes "call_graph_build p = Some g" "\<forall>w \<in> set (prog_words p). \<not> is_recursive g (wd_name w)"
  shows "ranked (program_bodies p) (call_rank p)"
  unfolding ranked_def
proof (intro allI impI ballI, elim conjE)
  fix w body c
  assume "program_bodies p w = Some body" "c \<in> called_in body" "program_bodies p c \<noteq> None"
  then have "(w, c) \<in> word_calls p"
    by (auto simp: word_calls_def program_bodies_def dest!: map_of_SomeD)
  then show "call_rank p c < call_rank p w" by (rule call_rank_less [OF assms])
qed

end
