(* ===== verification/Checked_Programs.thy ===== *)
theory Checked_Programs
  imports Type_Soundness
begin

text \<open>
  Rules that derive the verdict of the checker on a concrete program without computing with its state:
  a statement takes one stack type to another from every state with the same signatures, current word and
  call graph.  The example programs of the soundness theorems are checked with them.
\<close>

section \<open>Rules\<close>

type_synonym statics = "(name \<rightharpoonup> effect) \<times> (name \<times> nat option) option \<times> call_graph option"

definition infers1 :: "nat \<Rightarrow> statics \<Rightarrow> statement \<Rightarrow> stack_type \<Rightarrow> stack_type \<Rightarrow> bool" where
  "infers1 n S x st st' \<longleftrightarrow> (\<forall>tc. static tc = S \<longrightarrow> (\<exists>s tc'. infer_statement n tc x st = Some (Ok (st', s, [], tc')) \<and>
     static tc' = S \<and> current_aux_stack tc' = current_aux_stack tc))"

definition infers :: "nat \<Rightarrow> statics \<Rightarrow> statement list \<Rightarrow> stack_type \<Rightarrow> stack_type \<Rightarrow> bool" where
  "infers n S ss st st' \<longleftrightarrow> (\<forall>tc cap i sb. static tc = S \<longrightarrow>
     (\<exists>s tc'. infer_loop n tc cap i ss st sb [] = Some (Ok (st', s, [], tc')) \<and>
     static tc' = S \<and> current_aux_stack tc' = current_aux_stack tc))"

lemma capture_aux [simp]: "current_aux_stack (capture_before cap i st tc) = current_aux_stack tc"
  by (simp add: capture_before_def capture_statement_type_def split: option.split)

lemma infers_Nil: "infers n S [] st st"
  by (simp add: infers_def)

lemma infers_Cons:
  assumes "infers1 n S x st st1" "infers n S xs st1 st2" "literal_index x xs = None" "\<not> is_quotation x"
  shows "infers n S (x # xs) st st2"
  unfolding infers_def
proof (intro allI impI)
  fix tc cap i sb assume tc: "static tc = S"
  then obtain s1 tc1 where 1: "infer_statement n (capture_before cap i st tc) x st = Some (Ok (st1, s1, [], tc1))"
    "static tc1 = S" "current_aux_stack tc1 = current_aux_stack tc"
    using assms(1) unfolding infers1_def by (metis static_capture capture_aux)
  then obtain s2 tc2 where "infer_loop n tc1 cap (i + 1) xs st1 (compose sb s1) [] = Some (Ok (st2, s2, [], tc2))"
    "static tc2 = S" "current_aux_stack tc2 = current_aux_stack tc"
    using assms(2) unfolding infers_def by metis
  with 1 show "\<exists>s tc'. infer_loop n tc cap i (x # xs) st sb [] = Some (Ok (st2, s, [], tc')) \<and>
      static tc' = S \<and> current_aux_stack tc' = current_aux_stack tc"
    using assms(3,4) by (simp add: expect_from_next_def restore_expected_def merge_effects_def)
qed

lemma infers1_literals:
  "infers1 n S (IntLiteral i) st (SCons st TInt)" "infers1 n S (BoolLiteral b) st (SCons st TBool)"
  by (simp_all add: infers1_def st_push_def)

fun yields :: "('e + 'a \<times> 'b) option \<Rightarrow> 'a \<Rightarrow> bool" where
  "yields (Some (Inr (x, _))) y \<longleftrightarrow> x = y"
| "yields _ y \<longleftrightarrow> False"

lemma yields_iff: "yields r y \<longleftrightarrow> (\<exists>s. r = Some (Ok (y, s)))"
  by (cases "(r, y)" rule: yields.cases) auto

lemma infers1_call:
  assumes "w \<notin> set sugar_ops" "w \<notin> set special_words" "effects e = []"
    and "builtin_signature w = Some e \<or> builtin_signature w = None \<and> fst S w = Some e"
    and "\<And>tc c. yields (apply_effect n tc (fst (freshen_effect e c)) st w) st'"
  shows "infers1 n S (WordCall w sp) st st'"
proof -
  have "effects (fst (freshen_effect e c)) = []" for c
    using assms(3) by (cases e) (simp add: freshen_effect_def effect_with_effects_def Let_def split: prod.split)
  then have "\<exists>s tc'. infer_statement n tc (WordCall w sp) st = Some (Ok (st', s, [], tc')) \<and>
     static tc' = S \<and> current_aux_stack tc' = current_aux_stack tc" if "static tc = S" for tc
    using assms(1,2,4) assms(5) [of "tc\<lparr>tc_counter := snd (freshen_effect e (tc_counter tc))\<rparr>" "tc_counter tc"] that
    by (auto simp: yields_iff infer_word_call_def infer_named_call_def special_words_def tc_freshen_def Let_def case_prod_unfold
        lookup_word_effect_def static_def)
  then show ?thesis by (simp add: infers1_def)
qed

lemma unify_condition_Bool: "unify_condition (Suc (Suc n)) TBool = Some (Ok subst_empty)"
  by (simp add: unify_condition_def st_singleton_def st_push_def unify_types.simps)

lemma infers1_if:
  assumes "infers (Suc (Suc n)) S t st r1" "infers (Suc (Suc n)) S e st r2"
    and "unify_stacks (Suc (Suc n)) r1 r2 = Some (Ok u)" "apply_stack u r1 = st'"
    and d: "\<And>tc. static tc = S \<Longrightarrow> \<not> is_divergent_branch tc t \<and> \<not> is_divergent_branch tc e"
  shows "infers1 (Suc (Suc n)) S (If t (Some e) sp) (SCons st TBool) st'"
  unfolding infers1_def
proof (intro allI impI)
  fix tc assume tc: "static tc = S"
  obtain s1 tc1 where 1: "infer_loop (Suc (Suc n)) tc False 0 t st subst_empty [] = Some (Ok (r1, s1, [], tc1))"
    "static tc1 = S" "current_aux_stack tc1 = current_aux_stack tc"
    using assms(1) tc unfolding infers_def by metis
  let ?tc1 = "tc1\<lparr>current_aux_stack := current_aux_stack tc\<rparr>"
  obtain s2 tc2 where 2: "infer_loop (Suc (Suc n)) ?tc1 False 0 e st subst_empty [] = Some (Ok (r2, s2, [], tc2))"
    "static tc2 = S" "current_aux_stack tc2 = current_aux_stack tc"
    using assms(2) 1(2) unfolding infers_def by (metis static_updates(3) checker.select_convs(9) checker.surjective checker.update_convs(9))
  show "\<exists>s tc'. infer_statement (Suc (Suc n)) tc (If t (Some e) sp) (SCons st TBool) = Some (Ok (st', s, [], tc')) \<and>
      static tc' = S \<and> current_aux_stack tc' = current_aux_stack tc"
    using 1 2 assms(3,4) d [OF tc]
    by (simp add: unify_condition_Bool finish_if_def unify_branches_def merge_effects_def Let_def)
qed


lemma infers1_if_diverges:
  assumes "infers (Suc (Suc n)) S t st st'" "infers (Suc (Suc n)) S e st r2"
    and d: "\<And>tc. static tc = S \<Longrightarrow> \<not> is_divergent_branch tc t \<and> is_divergent_branch tc e"
  shows "infers1 (Suc (Suc n)) S (If t (Some e) sp) (SCons st TBool) st'"
  unfolding infers1_def
proof (intro allI impI)
  fix tc assume tc: "static tc = S"
  obtain s1 tc1 where 1: "infer_loop (Suc (Suc n)) tc False 0 t st subst_empty [] = Some (Ok (st', s1, [], tc1))"
    "static tc1 = S" "current_aux_stack tc1 = current_aux_stack tc"
    using assms(1) tc unfolding infers_def by metis
  let ?tc1 = "tc1\<lparr>current_aux_stack := current_aux_stack tc\<rparr>"
  have tc1: "static ?tc1 = S" using 1(2) by simp
  obtain s2 tc2 where 2: "infer_loop (Suc (Suc n)) ?tc1 False 0 e st subst_empty [] = Some (Ok (r2, s2, [], tc2))"
    "static tc2 = S" using assms(2) tc1 unfolding infers_def by metis
  show "\<exists>s tc'. infer_statement (Suc (Suc n)) tc (If t (Some e) sp) (SCons st TBool) = Some (Ok (st', s, [], tc')) \<and>
      static tc' = S \<and> current_aux_stack tc' = current_aux_stack tc"
    using 1 2 d [OF tc]
    by (simp add: unify_condition_Bool finish_if_def merge_effects_def Let_def)
qed

definition checks :: "nat \<Rightarrow> (name \<rightharpoonup> effect) \<Rightarrow> call_graph option \<Rightarrow> word_def \<Rightarrow> bool" where
  "checks n E g w \<longleftrightarrow> (\<forall>tc. env tc = E \<and> tc_call_graph tc = g \<longrightarrow>
     (\<exists>tc'. check_word n tc w = Some (Ok tc') \<and> env tc' = E \<and> tc_call_graph tc' = g))"

lemma checksI:
  assumes "wd_effect w = Some e" "effects e = []" "\<And>tc. expect_output e tc = tc"
    and "infers n (E, Some (wd_name w, map_option sl_start_line (wd_source w)), g) (wd_body w) (inputs e) r"
    and "unify_stacks n (outputs e) r = Some (Ok u)"
  shows "checks n E g w"
  unfolding checks_def
proof (intro allI impI, elim conjE)
  fix tc :: checker assume tc: "env tc = E" "tc_call_graph tc = g"
  let ?cur = "Some (wd_name w, map_option sl_start_line (wd_source w))"
  let ?tc = "tc\<lparr>current_word := ?cur, current_aux_stack := SEmpty\<rparr>"
  have "static ?tc = (E, ?cur, g)" using tc by (simp add: static_def)
  then obtain s tc1 where "infer_loop n ?tc True 0 (wd_body w) (inputs e) subst_empty [] = Some (Ok (r, s, [], tc1))"
    "static tc1 = (E, ?cur, g)" "current_aux_stack tc1 = SEmpty"
    using assms(4) unfolding infers_def by fastforce
  then show "\<exists>tc'. check_word n tc w = Some (Ok tc') \<and> env tc' = E \<and> tc_call_graph tc' = g"
    using assms by (simp add: check_word_def Let_def infer_statements_from_def static_def)
qed

lemma check_wordsI:
  "env tc = E \<Longrightarrow> tc_call_graph tc = g \<Longrightarrow> \<forall>w \<in> set ws. checks n E g w \<Longrightarrow> \<exists>tc'. check_words n tc ws = Some (Ok tc')"
proof (induction ws arbitrary: tc)
  case (Cons w ws)
  then obtain tc1 where "check_word n tc w = Some (Ok tc1)" "env tc1 = E" "tc_call_graph tc1 = g"
    unfolding checks_def by force
  then show ?case using Cons by auto
qed simp

lemma collect_signaturesI:
  "\<forall>w \<in> set ws. \<exists>e. wd_effect w = Some e \<and> (\<forall>tc. validate_effect_types tc (wd_name w) e = Ok ()) \<Longrightarrow>
   collect_signatures tc ws = Ok (tc\<lparr>env := foldl declare_word (env tc) ws\<rparr>)"
  by (induction ws arbitrary: tc) (auto simp: declare_word_def)

lemma check_programI:
  assumes "prog_unions p = []" "env tc = Map.empty"
    and "\<forall>w \<in> set (prog_words p). \<exists>e. wd_effect w = Some e \<and> (\<forall>tc. validate_effect_types tc (wd_name w) e = Ok ())"
    and "case declared p ''main'' of Some e \<Rightarrow> validate_main_effect e = Ok () | None \<Rightarrow> True"
    and "\<forall>w \<in> set (prog_words p). checks n (declared p) (tc_call_graph tc) w"
  shows "\<exists>tc'. check_program n tc p = Some (Ok tc')"
proof -
  let ?tc = "tc\<lparr>env := declared p\<rparr>"
  have "\<exists>tc'. check_words n ?tc (prog_words p) = Some (Ok tc')"
    using assms(5) by (intro check_wordsI [of _ "declared p" "tc_call_graph tc"]) simp_all
  moreover have "collect_signatures tc (prog_words p) = Ok ?tc"
    using collect_signaturesI [OF assms(3), of tc] assms(2) by (simp add: declared_def)
  ultimately show ?thesis
    using assms(1,4) by (auto simp: check_program_def validate_union_field_types_def split: option.splits)
qed

section \<open>Signatures\<close>

lemma builtin_none: "absent w builtin_signatures \<Longrightarrow> builtin_signature w = None"
  by (simp add: builtin_signature_def absent_map_of)

lemmas apply_eval =
  freshen_effect_def fresh_row_name_def fresh_type_name_def fresh_var_def apply_effect_def count_concrete_types_def
  bind_row_var_def bind_type_var_def compose_def subst_empty_def effect_with_effects_def st_push_def
  sg_def row_def effect_new_def unify_types.simps eval_nat_numeral Let_def

text \<open>The words the examples use, on stacks whose top has the types they need.\<close>

lemma infers1_prim:
  assumes "map_of prims w = Some p"
    and "\<And>tc c. yields (apply_effect n tc (fst (freshen_effect (sg (prim_ins p) (prim_outs p)) c)) st w) st'"
  shows "infers1 n S (WordCall w sp) st st'"
  using prim_names [OF assms(1)] prim_lookup(2) [OF assms(1)] assms(2)
  by (intro infers1_call) (auto simp: sg_def effect_new_def)

definition ints :: "nat \<Rightarrow> stack_type" where
  "ints k = ((\<lambda>st. SCons st TInt) ^^ k) (SRowVar ''rest'')"

lemma prim_examples:
  "map_of prims ''dup'' = Some (PrimShuffle Dup)" "map_of prims ''swap'' = Some (PrimShuffle Swap)"
  "map_of prims ''drop'' = Some (PrimShuffle Drop)" "map_of prims ''i.+'' = Some (Prim2 Add)"
  "map_of prims ''i.-'' = Some (Prim2 Subtract)" "map_of prims ''i.*'' = Some (Prim2 Multiply)"
  "map_of prims ''i.<'' = Some (Prim2 Lt)" "map_of prims ''i.='' = Some (Prim2 Eq)"
  by (simp_all add: prims_def)

lemma infers1_words:
  "infers1 9 S (WordCall ''dup'' sp) (ints 1) (ints 2)"
  "infers1 9 S (WordCall ''swap'' sp) (ints 2) (ints 2)"
  "infers1 9 S (WordCall ''drop'' sp) (ints 1) (ints 0)"
  "infers1 9 S (WordCall ''drop'' sp) (ints 2) (ints 1)"
  "infers1 9 S (WordCall ''drop'' sp) (ints 3) (ints 2)"
  "infers1 9 S (WordCall ''i.*'' sp) (ints 2) (ints 1)"
  "infers1 9 S (WordCall ''i.-'' sp) (ints 2) (ints 1)"
  "infers1 9 S (WordCall ''i.<'' sp) (ints 3) (SCons (ints 1) TBool)"
  "infers1 9 S (WordCall ''i.<'' sp) (ints 2) (SCons (ints 0) TBool)"
  "infers1 9 S (WordCall ''i.='' sp) (ints 3) (SCons (ints 1) TBool)"
  "infers1 9 S (WordCall ''i.+'' sp) (SCons (SCons (SRowVar ''rest'') (TVar ''T'')) TInt) (ints 1)"
  by (rule infers1_prim, rule prim_examples, simp add: ints_def apply_eval)+


section \<open>Example programs\<close>

definition wcall :: "name \<Rightarrow> statement" where
  "wcall w = WordCall w None"

definition word :: "name \<Rightarrow> effect \<Rightarrow> statement list \<Rightarrow> word_def" where
  "word n e body = \<lparr>wd_name = n, wd_effect = Some e, wd_body = body, wd_source = None, wd_allowed_lints = []\<rparr>"

definition program :: "word_def list \<Rightarrow> seq_program" where
  "program ws = \<lparr>prog_includes = [], prog_unions = [], prog_words = ws\<rparr>"

lemma example_simps [simp]:
  "wd_name (word n e b) = n" "wd_effect (word n e b) = Some e" "wd_body (word n e b) = b" "wd_source (word n e b) = None"
  "prog_words (program ws) = ws" "prog_unions (program ws) = []"
  by (simp_all add: word_def program_def)

definition int_to_int :: effect where
  "int_to_int = effect_new (ints 1) (ints 1)"

text \<open>A word that squares and one that calls it and branches.\<close>

definition square :: word_def where
  "square = word ''square'' int_to_int [wcall ''dup'', wcall ''i.*'']"

definition absolute :: word_def where
  "absolute = word ''absolute'' int_to_int
     [wcall ''square'', wcall ''dup'', IntLiteral 0, wcall ''i.<'', If [IntLiteral 0, wcall ''swap'', wcall ''i.-''] (Some []) None]"

definition demo_program :: seq_program where
  "demo_program = program [square, absolute]"

text \<open>
  A word whose recursive branch the checker takes to diverge: the other branch leaves three integers where
  the recursive call leaves one.
\<close>

definition uneven :: word_def where
  "uneven = word ''uneven'' int_to_int
     [wcall ''dup'', IntLiteral 0, wcall ''i.='',
      If [IntLiteral 1, IntLiteral 2] (Some [IntLiteral 1, wcall ''i.-'', wcall ''uneven'']) None,
      wcall ''drop'', wcall ''drop'']"

text \<open>A word that declares its input as any type and adds one to it, called on a boolean.\<close>

definition increment :: word_def where
  "increment = word ''increment'' (effect_new (SCons (SRowVar ''rest'') (TVar ''T'')) (ints 1)) [IntLiteral 1, wcall ''i.+'']"

definition careless_main :: word_def where
  "careless_main = word ''main'' (effect_new (ints 0) (ints 0)) [BoolLiteral True, wcall ''increment'', wcall ''drop'']"

lemmas all_tables = builtin_signatures_def later_tables io_signatures_def fs_signatures_def arith_signatures_def stack_signatures_def

lemma example_names:
  "builtin_signature ''square'' = None" "builtin_signature ''absolute'' = None" "builtin_signature ''uneven'' = None"
  "builtin_signature ''increment'' = None"
  by (rule builtin_none; simp add: all_tables absent_append absent_make)+

lemma ints_Suc: "ints (Suc k) = SCons (ints k) TInt"
  by (simp add: ints_def)

lemma literal_ints: "infers1 n S (IntLiteral i) (ints 0) (ints 1)" "infers1 n S (IntLiteral i) (ints 1) (ints 2)" "infers1 n S (IntLiteral i) (ints 2) (ints 3)"
  using infers1_literals(1) [of n S i] by (simp_all add: ints_Suc eval_nat_numeral)

lemma call_int_to_int:
  assumes "builtin_signature w = None" "fst S w = Some int_to_int" "w \<notin> set sugar_ops" "w \<notin> set special_words"
  shows "infers1 9 S (WordCall w sp) (ints 1) (ints 1)"
  by (rule infers1_call [where e = int_to_int])
    (use assms in \<open>simp_all add: int_to_int_def effect_new_def ints_def apply_eval\<close>)

lemma divergent_call [simp]:
  "is_divergent_branch tc [] = False" "is_divergent_branch tc (x # y # xs) = is_divergent_branch tc (y # xs)"
  "is_divergent_branch tc [IntLiteral i] = False"
  by (auto simp: is_divergent_branch_def split: option.split)

lemma divergent_word: "static tc = (E, Some (w, l), None) \<Longrightarrow> is_divergent_branch tc [WordCall v sp] \<longleftrightarrow> v = w"
  by (simp add: static_def is_divergent_branch_def)

lemmas infer_rules = infers_Cons infers_Nil infers1_words literal_ints

lemma square_infers: "infers 9 S [WordCall ''dup'' None, WordCall ''i.*'' None] (ints 1) (ints 1)"
  by (rule infer_rules | simp)+

lemma negate_infers: "infers 9 S [IntLiteral 0, WordCall ''swap'' None, WordCall ''i.-'' None] (ints 1) (ints 1)"
  by (rule infer_rules | simp)+

lemma infers1_if9:
  assumes "infers 9 S t st r" "infers 9 S e st r" "\<And>tc. static tc = S \<Longrightarrow> \<not> is_divergent_branch tc t \<and> \<not> is_divergent_branch tc e"
    and "unify_stacks 9 r r = Some (Ok subst_empty)"
  shows "infers1 9 S (If t (Some e) sp) (SCons st TBool) r"
  using infers1_if [of 7 S t st r e r subst_empty r sp] assms by (simp add: eval_nat_numeral)

lemma ints_unify: "unify_stacks 9 (ints 0) (ints 0) = Some (Ok subst_empty)" "unify_stacks 9 (ints 1) (ints 1) = Some (Ok subst_empty)"
  by (simp_all add: ints_def apply_eval)

lemma absolute_infers:
  assumes "S = (E, Some (''absolute'', None), None)" "E ''square'' = Some int_to_int"
  shows "infers 9 S (wd_body absolute) (ints 1) (ints 1)"
proof -
  have sq: "infers1 9 S (WordCall ''square'' None) (ints 1) (ints 1)"
    by (rule call_int_to_int) (use assms example_names in \<open>simp_all add: sugar_ops_def special_words_def\<close>)
  have "infers1 9 S (If [IntLiteral 0, WordCall ''swap'' None, WordCall ''i.-'' None] (Some []) None) (SCons (ints 1) TBool) (ints 1)"
    by (rule infers1_if9 [OF negate_infers infers_Nil _ ints_unify(2)]) (simp add: assms(1) divergent_word)
  note rules = infer_rules this sq
  show ?thesis unfolding absolute_def wcall_def example_simps by (rule rules | simp)+
qed

lemma example_effects [simp]: "inputs int_to_int = ints 1" "outputs int_to_int = ints 1" "effects int_to_int = []"
  by (simp_all add: int_to_int_def effect_new_def)

lemma expect_ints: "outputs e = ints k \<Longrightarrow> expect_output e tc = tc"
  by (cases k) (simp_all add: expect_output_def ints_def)

lemma checks_ints:
  assumes "outputs e = ints k" "effects e = []" "unify_stacks 9 (ints k) (ints k) = Some (Ok subst_empty)"
    and "infers 9 (E, Some (wd_name w, map_option sl_start_line (wd_source w)), g) (wd_body w) (inputs e) (ints k)"
    and "wd_effect w = Some e"
  shows "checks 9 E g w"
  by (rule checksI [where e = e and r = "ints k" and u = subst_empty]) (use assms expect_ints in auto)

lemma validate_ints: "validate_stack_types tc w (ints k) = Ok ()"
  by (induction k) (simp_all add: ints_def)

lemma validate_int_to_int: "validate_effect_types tc w int_to_int = Ok ()"
  by (simp add: int_to_int_def effect_new_def validate_ints)

lemma demo_declared: "declared demo_program = [''square'' \<mapsto> int_to_int, ''absolute'' \<mapsto> int_to_int]"
  by (simp add: declared_def demo_program_def declare_word_def square_def absolute_def)

lemma demo_accepted: "\<exists>tc. check_program 9 checker_new demo_program = Some (Ok tc)"
proof (rule check_programI)
  have "checks 9 (declared demo_program) None square" "checks 9 (declared demo_program) None absolute"
    unfolding square_def absolute_def
    using square_infers absolute_infers [OF refl, of "declared demo_program"]
    by (auto intro!: checks_ints [OF _ _ ints_unify(2)] simp: demo_declared absolute_def wcall_def)
  then show "\<forall>w \<in> set (prog_words demo_program). checks 9 (declared demo_program) (tc_call_graph checker_new) w"
    by (simp add: demo_program_def checker_new_def)
qed (simp_all add: demo_program_def checker_new_def square_def absolute_def validate_int_to_int
    demo_declared [unfolded demo_program_def square_def absolute_def])

lemma uneven_accepted: "\<exists>tc. check_program 9 checker_new (program [uneven]) = Some (Ok tc)"
proof (rule check_programI)
  let ?E = "declared (program [uneven])"
  let ?S = "(?E, Some (''uneven'', None :: nat option), None :: call_graph option)"
  have E: "?E = [''uneven'' \<mapsto> int_to_int]" by (simp add: declared_def declare_word_def uneven_def)
  have rec: "infers1 9 ?S (WordCall ''uneven'' None) (ints 1) (ints 1)"
    by (rule call_int_to_int) (use example_names in \<open>simp_all add: E sugar_ops_def special_words_def\<close>)
  have branch: "infers 9 ?S [IntLiteral 1, WordCall ''i.-'' None, WordCall ''uneven'' None] (ints 1) (ints 1)"
    by (rule infer_rules rec | simp)+
  have base: "infers 9 ?S [IntLiteral 1, IntLiteral 2] (ints 1) (ints 3)"
    by (rule infer_rules | simp)+
  have "infers1 9 ?S (If [IntLiteral 1, IntLiteral 2]
      (Some [IntLiteral 1, WordCall ''i.-'' None, WordCall ''uneven'' None]) None) (SCons (ints 1) TBool) (ints 3)"
    using infers1_if_diverges [of 7 ?S _ "ints 1"] base branch by (simp add: eval_nat_numeral divergent_word)
  then have "infers 9 ?S (wd_body uneven) (ints 1) (ints 1)"
    unfolding uneven_def wcall_def example_simps
    by - (rule infer_rules | assumption | simp)+
  then have "checks 9 ?E None uneven"
    unfolding uneven_def by (intro checks_ints [OF _ _ ints_unify(2)]) simp_all
  then show "\<forall>w \<in> set (prog_words (program [uneven])). checks 9 ?E (tc_call_graph checker_new) w"
    by (simp add: checker_new_def)
qed (simp_all add: checker_new_def uneven_def validate_int_to_int declared_def declare_word_def)

lemma careless_accepted: "\<exists>tc. check_program 9 checker_new (program [increment, careless_main]) = Some (Ok tc)"
proof (rule check_programI)
  let ?i = "effect_new (SCons (SRowVar ''rest'') (TVar ''T'')) (ints 1)" and ?m = "effect_new (ints 0) (ints 0)"
  let ?E = "declared (program [increment, careless_main])"
  have E: "?E = [''increment'' \<mapsto> ?i, ''main'' \<mapsto> ?m]"
    by (simp add: declared_def declare_word_def increment_def careless_main_def)
  have "infers 9 S [IntLiteral 1, WordCall ''i.+'' None] (SCons (SRowVar ''rest'') (TVar ''T'')) (ints 1)" for S
    by (rule infer_rules infers1_literals | simp)+
  then have "checks 9 ?E None increment"
    unfolding increment_def wcall_def by (intro checks_ints [OF _ _ ints_unify(2)]) (simp_all add: effect_new_def)
  moreover have "infers1 9 (?E, x) (WordCall ''increment'' None) (SCons (ints 0) TBool) (ints 1)" for x
    by (rule infers1_call [where e = ?i])
      (use example_names in \<open>simp_all add: E sugar_ops_def special_words_def ints_def apply_eval\<close>)
  then have "infers 9 (?E, x) (wd_body careless_main) (ints 0) (ints 0)" for x
    unfolding careless_main_def wcall_def example_simps
    by - (rule infer_rules infers1_literals | assumption | simp)+
  then have "checks 9 ?E None careless_main"
    unfolding careless_main_def by (intro checks_ints [OF _ _ ints_unify(1)]) (simp_all add: effect_new_def)
  ultimately show "\<forall>w \<in> set (prog_words (program [increment, careless_main])). checks 9 ?E (tc_call_graph checker_new) w"
    by (simp add: checker_new_def)
qed (simp_all add: checker_new_def increment_def careless_main_def effect_new_def validate_ints is_multi_upper_def
    declared_def declare_word_def validate_main_effect_def ints_def)

section \<open>Properties\<close>

text \<open>C1: Soundness of the type checker for the fragment: when \<open>check_program\<close> accepts a program whose
  words have monomorphic signatures and bodies of integer and boolean literals, conditionals, integer words, the
  shuffles with a fixed effect and calls of each other, with no branch that the checker takes to diverge, then running the body of a word
  with the runtime's functions on a stack of its declared input types never panics and never touches memory outside the stack, however
  deep the calls; if it returns, the values it leaves have the declared output types and the values below are
  as they were.  The only fault left is the end of the stack's memory.\<close>

theorem checked_program_safe:
  assumes "check_program n tc p = Some (Ok tc')" "env tc = Map.empty" "distinct (map wd_name (prog_words p))"
    and "\<forall>w \<in> set (prog_words p). plain_word (declared p) tc w"
    and "w \<in> set (prog_words p)" "wd_effect w = Some e"
    and "represents s ext vs" "stack_base (fst s) = Some 0" "typed (inputs e) below vs"
  shows "safe ext (outputs e) below (exec k (program_bodies p) (wd_body w) s)"
  by (rule acceptsD [OF checked_words_accept [OF assms(1-6)] assms(7-9)])

lemma example_symbols:
  "runtime_word ''square'' = None" "runtime_word ''absolute'' = None" "runtime_word ''dup'' \<noteq> None" "runtime_word ''swap'' \<noteq> None"
  "runtime_word ''i.*'' \<noteq> None" "runtime_word ''i.-'' \<noteq> None" "runtime_word ''i.<'' \<noteq> None"
  by (simp_all add: runtime_word_def arith_symbols_def stack_symbols_def)

lemma mono_int_to_int: "mono_effect int_to_int"
  by (simp add: mono_effect_def ints_def)

lemma demo_words: "prog_words demo_program = [square, absolute]"
  by (simp add: demo_program_def)

lemma demo_plain: "\<forall>w \<in> set (prog_words demo_program). plain_word (declared demo_program) checker_new w"
  unfolding demo_words
  using mono_int_to_int example_names(1,2) prim_examples example_symbols
  by (simp add: demo_declared square_def absolute_def plain_word_def user_word_def diverging_def wcall_def
      sugar_ops_def special_words_def is_divergent_branch_def checker_new_def)

lemma demo_distinct: "distinct (map wd_name (prog_words demo_program))"
  by (simp add: demo_words square_def absolute_def)

lemma demo_absolute: "absolute \<in> set (prog_words demo_program)" "wd_effect absolute = Some int_to_int"
  by (simp_all add: demo_words absolute_def)

lemma one_int: "represents (int_strand [3] 20) (\<lambda>_. 0) [VInt 3]" "stack_base (fst (int_strand [3] 20)) = Some 0"
  "typed (inputs int_to_int) [] [VInt 3]"
  using int_strand_represents [of "[3]" 20] by (simp_all add: ints_def)

lemma checker_new_env: "env checker_new = Map.empty"
  by (simp add: checker_new_def)

theorem checked_program_safe_witness:
  "safe (\<lambda>_. 0) (ints 1) [] (exec 1 (program_bodies demo_program) (wd_body absolute) (int_strand [3] 20))"
proof -
  obtain tc where "check_program 9 checker_new demo_program = Some (Ok tc)" using demo_accepted by blast
  from checked_program_safe [OF this checker_new_env demo_distinct demo_plain demo_absolute one_int]
  show ?thesis by simp
qed

text \<open>C15: In such a program without recursion, according to its call graph, every word returns: fuel of the
  number of words is enough for the body of a word, which ends with values of the declared output types over the
  untouched rest of the stack, or at the end of the stack's memory.\<close>

theorem checked_program_returns:
  assumes "check_program n tc p = Some (Ok tc')" "env tc = Map.empty" "distinct (map wd_name (prog_words p))"
    and "\<forall>w \<in> set (prog_words p). plain_word (declared p) tc w"
    and "w \<in> set (prog_words p)" "wd_effect w = Some e"
    and "represents s ext vs" "stack_base (fst s) = Some 0" "typed (inputs e) below vs"
    and "call_graph_build p = Some g" "\<forall>v \<in> set (prog_words p). \<not> is_recursive g (wd_name v)"
  shows "\<exists>r. exec (length (prog_words p)) (program_bodies p) (wd_body w) s = Some r \<and>
    (r = Err OutOfMemory \<or> (\<exists>s' vs'. r = Ok s' \<and> represents s' ext vs' \<and> typed (outputs e) below vs'))"
proof -
  let ?k = "length (prog_words p)"
  have "safe ext (outputs e) below (exec ?k (program_bodies p) (wd_body w) s)"
    by (rule acceptsD [OF checked_words_accept [OF assms(1-6)] assms(7-9)])
  moreover have ranked: "ranked (program_bodies p) (call_rank p)" by (rule call_rank_ranked [OF assms(10,11)])
  then have "\<forall>c \<in> called_in (wd_body w). runtime_word c = None \<and> program_bodies p c \<noteq> None \<longrightarrow> call_rank p c < ?k"
    using program_bodies_word [OF assms(3,5)] call_rank_bound [of p "wd_name w"] unfolding ranked_def by fastforce
  then obtain r where "exec ?k (program_bodies p) (wd_body w) s = Some r"
    using exec_returns(1) [OF ranked] by blast
  ultimately show ?thesis by (cases r) auto
qed

lemma demo_graph: "\<exists>g. call_graph_build demo_program = Some g \<and> (\<forall>v \<in> set (prog_words demo_program). \<not> is_recursive g (wd_name v))"
proof -
  have "case call_graph_build demo_program of Some g \<Rightarrow> list_all (\<lambda>v. \<not> is_recursive g (wd_name v)) (prog_words demo_program) | None \<Rightarrow> False"
    by code_simp
  then show ?thesis by (auto simp: list_all_iff split: option.splits)
qed

theorem checked_program_returns_witness:
  "\<exists>r. exec 2 (program_bodies demo_program) (wd_body absolute) (int_strand [3] 20) = Some r \<and>
    (r = Err OutOfMemory \<or> (\<exists>s' vs'. r = Ok s' \<and> represents s' (\<lambda>_. 0) vs' \<and> typed (ints 1) [] vs'))"
proof -
  obtain tc where tc: "check_program 9 checker_new demo_program = Some (Ok tc)" using demo_accepted by blast
  obtain g where g: "call_graph_build demo_program = Some g" "\<forall>v \<in> set (prog_words demo_program). \<not> is_recursive g (wd_name v)"
    using demo_graph by blast
  from checked_program_returns [OF tc checker_new_env demo_distinct demo_plain demo_absolute one_int g]
  show ?thesis by (simp add: demo_words numeral_2_eq_2)
qed

text \<open>C26: Without the condition on branches the statement fails: the checker takes a branch that ends in a
  recursive call to diverge and does not compare its result with that of the other branch.  The word
  \<open>uneven\<close>, declared from one integer to one integer, is accepted, and on 1 it reads below the
  bottom of the stack.\<close>

theorem divergent_branch_unchecked:
  "(\<exists>tc. check_program 9 checker_new (program [uneven]) = Some (Ok tc)) \<and>
   exec 1 (program_bodies (program [uneven])) (wd_body uneven) (int_strand [1] 20) = Some (Err Undefined)"
proof
  show "\<exists>tc. check_program 9 checker_new (program [uneven]) = Some (Ok tc)" by (rule uneven_accepted)
  have "program_bodies (program [uneven]) = [''uneven'' \<mapsto> wd_body uneven]"
    by (simp add: program_bodies_def uneven_def)
  moreover have "exec 1 [''uneven'' \<mapsto> wd_body uneven] (wd_body uneven) (int_strand [1] 20) = Some (Err Undefined)"
    by code_simp
  ultimately show "exec 1 (program_bodies (program [uneven])) (wd_body uneven) (int_strand [1] 20) = Some (Err Undefined)"
    by simp
qed

text \<open>Nor does it hold with type variables in the signatures: the variables a word declares are unified away
  while its body is checked.  A word declared on any type \<open>T\<close> that adds one to its argument is accepted, and so is
  a \<open>main\<close> that calls it on a boolean.  With the runtime's functions, which check their operands, running \<open>main\<close> panics;
  the instructions the code generator writes for \<open>i.+\<close> check nothing.\<close>

lemma declared_variables_not_rigid:
  "(\<exists>tc. check_program 9 checker_new (program [increment, careless_main]) = Some (Ok tc)) \<and>
   exec 1 (program_bodies (program [increment, careless_main])) (wd_body careless_main) (int_strand [] 20)
     = Some (Err (Panic ''add: expected two integers on stack''))"
proof
  show "\<exists>tc. check_program 9 checker_new (program [increment, careless_main]) = Some (Ok tc)" by (rule careless_accepted)
  have "program_bodies (program [increment, careless_main]) = [''increment'' \<mapsto> wd_body increment, ''main'' \<mapsto> wd_body careless_main]"
    by (simp add: program_bodies_def increment_def careless_main_def fun_eq_iff)
  moreover have "exec 1 [''increment'' \<mapsto> wd_body increment, ''main'' \<mapsto> wd_body careless_main] (wd_body careless_main) (int_strand [] 20)
     = Some (Err (Panic ''add: expected two integers on stack''))"
    by code_simp
  ultimately show "exec 1 (program_bodies (program [increment, careless_main])) (wd_body careless_main) (int_strand [] 20)
     = Some (Err (Panic ''add: expected two integers on stack''))"
    by simp
qed

end
