(* ===== verification/Tokens.thy ===== *)
theory Tokens
  imports Seq_Ast
begin

text \<open>
  The tokenizer and the literals of \<open>crates/compiler/src/parser/token.rs\<close>.  Source text is taken to be ASCII,
  so that a character is a byte; \<open>char::is_whitespace\<close> and the other character tests are those of ASCII.
  Of the standard library, \<open>from_str_radix\<close> with its optional sign and the decimal notation of
  \<open>f64::from_str\<close> with rounding to nearest even are written out; the names of infinities and NaNs
  contain neither a point nor an \<open>e\<close> and never reach it.
\<close>

section \<open>Tokens\<close>

record token =
  tok_text :: string
  tok_line :: nat
  tok_column :: nat

definition token_new :: "string \<Rightarrow> nat \<Rightarrow> nat \<Rightarrow> token" where
  "token_new t l c = \<lparr>tok_text = t, tok_line = l, tok_column = c\<rparr>"

definition is_space :: "char \<Rightarrow> bool" where
  "is_space c \<longleftrightarrow> (let n = (of_char c :: nat) in n = 32 \<or> 9 \<le> n \<and> n \<le> 13)"

definition quote_char :: char where
  "quote_char = CHR 0x22"

definition backslash :: char where
  "backslash = CHR 0x5C"

definition newline_char :: char where
  "newline_char = CHR 0x0A"

definition delimiters :: "char list" where
  "delimiters = ''():;[]{},#''"

text \<open>The variables of \<open>tokenize\<close>.\<close>

record tokenizer =
  tk_tokens :: "token list"
  tk_current :: string
  tk_start_line :: nat
  tk_start_col :: nat
  tk_in_string :: bool
  tk_backslash :: bool
  tk_line :: nat
  tk_col :: nat

definition tokenizer_new :: tokenizer where
  "tokenizer_new = \<lparr>tk_tokens = [], tk_current = [], tk_start_line = 0, tk_start_col = 0, tk_in_string = False,
     tk_backslash = False, tk_line = 0, tk_col = 0\<rparr>"

definition flush_token :: "tokenizer \<Rightarrow> tokenizer" where
  "flush_token k =
     (if tk_current k \<noteq> []
      then k\<lparr>tk_tokens := tk_tokens k @ [token_new (tk_current k) (tk_start_line k) (tk_start_col k)], tk_current := []\<rparr>
      else k)"

definition advance_position :: "char \<Rightarrow> tokenizer \<Rightarrow> tokenizer" where
  "advance_position c k =
     (if c = newline_char then k\<lparr>tk_line := tk_line k + 1, tk_col := 0\<rparr> else k\<lparr>tk_col := tk_col k + 1\<rparr>)"

definition string_char :: "char \<Rightarrow> tokenizer \<Rightarrow> tokenizer" where
  "string_char c k =
     (let k1 = k\<lparr>tk_current := tk_current k @ [c]\<rparr>
      in advance_position c
           (if c = quote_char \<and> \<not> tk_backslash k1
            then k1\<lparr>tk_in_string := False, tk_backslash := False, tk_current := [],
                    tk_tokens := tk_tokens k1 @ [token_new (tk_current k1) (tk_start_line k1) (tk_start_col k1)]\<rparr>
            else if c = backslash \<and> \<not> tk_backslash k1 then k1\<lparr>tk_backslash := True\<rparr>
            else k1\<lparr>tk_backslash := False\<rparr>))"

text \<open>The body of the loop over the characters.\<close>

definition tokenize_char :: "tokenizer \<Rightarrow> char \<Rightarrow> tokenizer" where
  "tokenize_char k c =
     (if tk_in_string k then string_char c k
      else if c = quote_char
      then (let k1 = flush_token k
            in k1\<lparr>tk_in_string := True, tk_start_line := tk_line k1, tk_start_col := tk_col k1,
                  tk_current := tk_current k1 @ [c], tk_backslash := False, tk_col := tk_col k1 + 1\<rparr>)
      else if is_space c
      then (let k1 = flush_token k
            in advance_position c
                 (if c = newline_char then k1\<lparr>tk_tokens := tk_tokens k1 @ [token_new [newline_char] (tk_line k1) (tk_col k1)]\<rparr> else k1))
      else if c \<in> set delimiters
      then (let k1 = flush_token k
            in k1\<lparr>tk_tokens := tk_tokens k1 @ [token_new [c] (tk_line k1) (tk_col k1)], tk_col := tk_col k1 + 1\<rparr>)
      else (let k1 = (if tk_current k = [] then k\<lparr>tk_start_line := tk_line k, tk_start_col := tk_col k\<rparr> else k)
            in k1\<lparr>tk_current := tk_current k1 @ [c], tk_col := tk_col k1 + 1\<rparr>))"

definition unclosed_string :: string where
  "unclosed_string = ''<<<UNCLOSED_STRING>>>''"

definition tokenize_end :: "tokenizer \<Rightarrow> token list" where
  "tokenize_end k =
     (if tk_in_string k then tk_tokens k @ [token_new unclosed_string (tk_start_line k) (tk_start_col k)]
      else tk_tokens (flush_token k))"

definition tokenize :: "string \<Rightarrow> token list" where
  "tokenize source = tokenize_end (foldl tokenize_char tokenizer_new source)"

section \<open>Numbers\<close>

definition digit_value :: "char \<Rightarrow> nat option" where
  "digit_value c =
     (let n = (of_char c :: nat)
      in if 48 \<le> n \<and> n \<le> 57 then Some (n - 48)
         else if 97 \<le> n \<and> n \<le> 122 then Some (n - 87)
         else if 65 \<le> n \<and> n \<le> 90 then Some (n - 55)
         else None)"

fun radix_value :: "nat \<Rightarrow> nat \<Rightarrow> string \<Rightarrow> nat option" where
  "radix_value r acc [] = Some acc"
| "radix_value r acc (c # cs) =
     (case digit_value c of
        Some d \<Rightarrow> if d < r then radix_value r (acc * r + d) cs else None
      | None \<Rightarrow> None)"

definition radix_digits :: "nat \<Rightarrow> string \<Rightarrow> nat option" where
  "radix_digits r s = (if s = [] then None else radix_value r 0 s)"

text \<open>\<open>i64::from_str_radix\<close> and \<open>u8::from_str_radix\<close>; the latter takes a plus sign but no minus sign.\<close>

fun i64_from_str_radix :: "nat \<Rightarrow> string \<Rightarrow> i64 option" where
  "i64_from_str_radix r (CHR ''-'' # ds) =
     (case radix_digits r ds of Some v \<Rightarrow> if v \<le> 2 ^ 63 then Some (word_of_int (- int v)) else None | None \<Rightarrow> None)"
| "i64_from_str_radix r (CHR ''+'' # ds) =
     (case radix_digits r ds of Some v \<Rightarrow> if v < 2 ^ 63 then Some (of_nat v) else None | None \<Rightarrow> None)"
| "i64_from_str_radix r ds =
     (case radix_digits r ds of Some v \<Rightarrow> if v < 2 ^ 63 then Some (of_nat v) else None | None \<Rightarrow> None)"

fun u8_from_str_radix :: "nat \<Rightarrow> string \<Rightarrow> char option" where
  "u8_from_str_radix r (CHR ''+'' # ds) =
     (case radix_digits r ds of Some v \<Rightarrow> if v < 256 then Some (char_of v) else None | None \<Rightarrow> None)"
| "u8_from_str_radix r ds =
     (case radix_digits r ds of Some v \<Rightarrow> if v < 256 then Some (char_of v) else None | None \<Rightarrow> None)"

definition is_float_literal :: "string \<Rightarrow> bool" where
  "is_float_literal t =
     (let s = (case t of CHR ''-'' # r \<Rightarrow> r | _ \<Rightarrow> t)
      in if s = [] then False else CHR ''.'' \<in> set s \<or> CHR ''e'' \<in> set s \<or> CHR ''E'' \<in> set s)"

text \<open>The 64-bit float nearest to \<open>num / den\<close>, ties to even; a quotient too large is infinity.\<close>

fun bit_length :: "nat \<Rightarrow> nat" where
  "bit_length n = (if n = 0 then 0 else Suc (bit_length (n div 2)))"

declare bit_length.simps [simp del]

definition scaled :: "nat \<Rightarrow> nat \<Rightarrow> int \<Rightarrow> nat \<times> nat" where
  "scaled num den e = (if 0 \<le> e then (num, den * 2 ^ nat e) else (num * 2 ^ nat (- e), den))"

definition f64_of_ratio :: "nat \<Rightarrow> nat \<Rightarrow> u64" where
  "f64_of_ratio num den =
     (if num = 0 then 0
      else let e0 = int (bit_length num) - int (bit_length den);
               log = (case scaled num den e0 of (a, b) \<Rightarrow> if b \<le> a then e0 else e0 - 1);
               e = max (log - 52) (- 1074);
               (a, b) = scaled num den e;
               q = a div b;
               r = a mod b;
               q1 = (if b < 2 * r \<or> 2 * r = b \<and> odd q then q + 1 else q)
           in if q1 < 2 ^ 52 then of_nat q1
              else let (q2, e2) = (if q1 = 2 ^ 53 then (2 ^ 52, e + 1) else (q1, e))
                   in if 971 < e2 then 0x7FF0000000000000
                      else of_nat (nat (e2 + 1075) * 2 ^ 52 + (q2 - 2 ^ 52)))"

definition split_at :: "(char \<Rightarrow> bool) \<Rightarrow> string \<Rightarrow> string \<times> string option" where
  "split_at P s = (takeWhile (\<lambda>c. \<not> P c) s, case dropWhile (\<lambda>c. \<not> P c) s of [] \<Rightarrow> None | _ # r \<Rightarrow> Some r)"

fun signed_digits :: "string \<Rightarrow> int option" where
  "signed_digits (CHR ''-'' # ds) = map_option (\<lambda>v. - int v) (radix_digits 10 ds)"
| "signed_digits (CHR ''+'' # ds) = map_option int (radix_digits 10 ds)"
| "signed_digits ds = map_option int (radix_digits 10 ds)"

definition parse_decimal :: "string \<Rightarrow> u64 option" where
  "parse_decimal s =
     (let (mantissa, exponent) = split_at (\<lambda>c. c = CHR ''e'' \<or> c = CHR ''E'') s;
          (whole, fraction) = split_at (\<lambda>c. c = CHR ''.'') mantissa;
          frac = (case fraction of Some f \<Rightarrow> f | None \<Rightarrow> [])
      in case (radix_digits 10 (whole @ frac), case exponent of Some x \<Rightarrow> signed_digits x | None \<Rightarrow> Some 0) of
           (Some m, Some x) \<Rightarrow>
             (let e = x - int (length frac)
              in Some (if 0 \<le> e then f64_of_ratio (m * 10 ^ nat e) 1 else f64_of_ratio m (10 ^ nat (- e))))
         | _ \<Rightarrow> None)"

fun parse_f64 :: "string \<Rightarrow> u64 option" where
  "parse_f64 (CHR ''-'' # s) = map_option (\<lambda>w. w + 0x8000000000000000) (parse_decimal s)"
| "parse_f64 (CHR ''+'' # s) = parse_decimal s"
| "parse_f64 s = parse_decimal s"

section \<open>Escapes\<close>

datatype escape_error = IncompleteHex string | InvalidHex string | UnknownEscape char | IncompleteEscape

fun unescape_string :: "string \<Rightarrow> escape_error + bytes" where
  "unescape_string [] = Ok []"
| "unescape_string (c # cs) =
     (if c = backslash
      then (case cs of
              [] \<Rightarrow> Err IncompleteEscape
            | d # ds \<Rightarrow>
                if d = quote_char \<or> d = backslash then try_bind (unescape_string ds) (\<lambda>r. Ok (d # r))
                else if d = CHR ''n'' then try_bind (unescape_string ds) (\<lambda>r. Ok (CHR 0x0A # r))
                else if d = CHR ''r'' then try_bind (unescape_string ds) (\<lambda>r. Ok (CHR 0x0D # r))
                else if d = CHR ''t'' then try_bind (unescape_string ds) (\<lambda>r. Ok (CHR 0x09 # r))
                else if d = CHR ''x''
                then (case ds of
                        h1 # h2 # es \<Rightarrow>
                          (case u8_from_str_radix 16 [h1, h2] of
                             Some b \<Rightarrow> try_bind (unescape_string es) (\<lambda>r. Ok (b # r))
                           | None \<Rightarrow> Err (InvalidHex [h1, h2]))
                      | _ \<Rightarrow> Err (IncompleteHex ds))
                else Err (UnknownEscape d))
      else try_bind (unescape_string cs) (\<lambda>r. Ok (c # r)))"

end
