(* ===== verification/Parser.thy ===== *)
theory Parser
  imports Tokens
begin

text \<open>
  The parser of \<open>crates/compiler/src/parser\<close>: the cursor, stack effects and types, statements, top-level items and the
  driver.  The position in the token vector is the list of the tokens left.  An error carries the tokens
  left when it was raised, because the driver takes the line of the diagnostic from them; the text of a message is a
  constructor with its data.  \<open>None\<close> is running out of fuel; more fuel than tokens is enough.
\<close>

section \<open>State\<close>

record parser =
  p_rest :: "token list"
  next_quotation_id :: nat
  pending_allowed_lints :: "string list"
  known_unions :: "name list"

definition parser_new :: "string \<Rightarrow> parser" where
  "parser_new source = \<lparr>p_rest = tokenize source, next_quotation_id = 0, pending_allowed_lints = [], known_unions = []\<rparr>"

definition register_union_names :: "parser \<Rightarrow> name list \<Rightarrow> parser" where
  "register_union_names p ns = foldl (\<lambda>p n. p\<lparr>known_unions := List.insert n (known_unions p)\<rparr>) p ns"

datatype (plugins only: code size) parse_error =
    UnexpectedEndOfFile
  | InvalidHexLiteral string
  | InvalidBinaryLiteral string
  | MalformedString string
  | BadEscape escape_error
  | NoLongerKeyword nat string
  | EmptySymbol
  | SymbolDigit string
  | SymbolChar char string
  | EndInQuotation
  | EndInMatch
  | EmptyMatchExpression
  | EndInBindings string
  | EmptyBinding string
  | BindingPrefix string string
  | ExpectedArrow string string
  | EndInArm
  | ExpectedWordStart string
  | ExpectedColon string string
  | InvalidInclude string
  | ExpectedName string
  | NotUppercase string string
  | ExpectedBrace string string
  | EndInUnion string
  | EmptyUnion string
  | DuplicateVariant string string
  | DuplicateField string
  | EndInWord string
  | ExpectedSeparator string
  | ExpectedToken string
  | MissingSeparator
  | UnknownEffect string
  | EmptyEffects
  | QuotationAsType nat nat
  | InvalidType string nat nat
  | UnknownTypeToken string nat nat
  | EmptyRowVar
  | RowVarStart string
  | RowVarChars string
  | RowVarTypeName string
  | TypeTooDeep
  | EndInTypes string "string list"
  | UnclosedString nat nat

type_synonym 'a parsed = "((parse_error \<times> token list) + ('a \<times> parser)) option"

definition perr :: "parse_error \<Rightarrow> parser \<Rightarrow> 'a parsed" where
  "perr e p = Some (Err (e, p_rest p))"

definition pok :: "'a \<Rightarrow> parser \<Rightarrow> 'a parsed" where
  "pok x p = Some (Ok (x, p))"

section \<open>The cursor\<close>

definition check :: "parser \<Rightarrow> string \<Rightarrow> bool" where
  "check p expected = (case p_rest p of [] \<Rightarrow> False | t # _ \<Rightarrow> tok_text t = expected)"

definition current :: "parser \<Rightarrow> string" where
  "current p = (case p_rest p of [] \<Rightarrow> [] | t # _ \<Rightarrow> tok_text t)"

definition peek_at :: "parser \<Rightarrow> nat \<Rightarrow> string option" where
  "peek_at p n = (if n < length (p_rest p) then Some (tok_text (p_rest p ! n)) else None)"

definition pop_token :: "parser \<Rightarrow> parser" where
  "pop_token p = p\<lparr>p_rest := tl (p_rest p)\<rparr>"

definition consume :: "parser \<Rightarrow> string \<Rightarrow> bool \<times> parser" where
  "consume p expected = (if check p expected then (True, pop_token p) else (False, p))"

text \<open>The lint named by a comment.\<close>

definition strip_prefix :: "string \<Rightarrow> string \<Rightarrow> string option" where
  "strip_prefix pre s = (if take (length pre) s = pre then Some (drop (length pre) s) else None)"

definition lint_of_comment :: "string \<Rightarrow> string list" where
  "lint_of_comment comment =
     (case strip_prefix ''seq:allow('' comment of
        Some s \<Rightarrow> if s \<noteq> [] \<and> last s = CHR '')'' then [butlast s] else []
      | None \<Rightarrow> [])"

lemma dropWhile_shorter: "length (dropWhile P xs) \<le> length xs"
  by (induction xs) auto

function skip_tokens :: "token list \<Rightarrow> string list \<Rightarrow> token list \<times> string list" where
  "skip_tokens [] lints = ([], lints)"
| "skip_tokens (t # ts) lints =
     (if tok_text t = ''#''
      then skip_tokens (tl (dropWhile (\<lambda>u. tok_text u \<noteq> [newline_char]) ts))
             (lints @ lint_of_comment (concat (map tok_text (takeWhile (\<lambda>u. tok_text u \<noteq> [newline_char]) ts))))
      else if tok_text t = [newline_char] then skip_tokens ts lints
      else (t # ts, lints))"
  by pat_completeness auto

termination
  by (relation "measure (\<lambda>(ts, _). length ts)") (auto simp: less_Suc_eq_le intro: le_trans [OF diff_le_self dropWhile_shorter])

definition skip_comments :: "parser \<Rightarrow> parser" where
  "skip_comments p =
     (let (ts, lints) = skip_tokens (p_rest p) (pending_allowed_lints p)
      in p\<lparr>p_rest := ts, pending_allowed_lints := lints\<rparr>)"

section \<open>Types and stack effects\<close>

definition is_upper :: "char \<Rightarrow> bool" where
  "is_upper c \<longleftrightarrow> 65 \<le> (of_char c :: nat) \<and> (of_char c :: nat) \<le> 90"

definition is_lower :: "char \<Rightarrow> bool" where
  "is_lower c \<longleftrightarrow> 97 \<le> (of_char c :: nat) \<and> (of_char c :: nat) \<le> 122"

definition is_digit_char :: "char \<Rightarrow> bool" where
  "is_digit_char c \<longleftrightarrow> 48 \<le> (of_char c :: nat) \<and> (of_char c :: nat) \<le> 57"

definition is_alphanumeric :: "char \<Rightarrow> bool" where
  "is_alphanumeric c \<longleftrightarrow> is_upper c \<or> is_lower c \<or> is_digit_char c"

definition starts_upper :: "string \<Rightarrow> bool" where
  "starts_upper s = (case s of c # _ \<Rightarrow> is_upper c | [] \<Rightarrow> False)"

definition parse_type :: "parser \<Rightarrow> token \<Rightarrow> parse_error + ty" where
  "parse_type p t =
     (let s = tok_text t; l = tok_line t + 1; c = tok_column t + 1
      in if s = ''Int'' then Ok TInt
         else if s = ''Float'' then Ok TFloat
         else if s = ''Bool'' then Ok TBool
         else if s = ''String'' then Ok TString
         else if s = ''Symbol'' then Ok TSymbol
         else if s = ''Channel'' then Ok TChannel
         else if s = ''Socket'' then Ok TSocket
         else if s = ''Variant'' then Ok TVariant
         else if s = ''Quotation'' then Err (QuotationAsType l c)
         else if s = [] then Err (InvalidType s l c)
         else if \<not> starts_upper s then Err (UnknownTypeToken s l c)
         else if s \<in> set (known_unions p) then Ok (TUnion s)
         else Ok (TVar s))"

definition validate_row_var_name :: "string \<Rightarrow> parse_error + unit" where
  "validate_row_var_name s =
     (case s of
        [] \<Rightarrow> Err EmptyRowVar
      | c # _ \<Rightarrow>
          if \<not> is_lower c then Err (RowVarStart s)
          else if list_ex (\<lambda>c. \<not> is_alphanumeric c \<and> c \<noteq> CHR ''_'') s then Err (RowVarChars s)
          else if s = ''Int'' \<or> s = ''Bool'' \<or> s = ''String'' then Err (RowVarTypeName s)
          else Ok ())"

fun trim_dots :: "string \<Rightarrow> string" where
  "trim_dots (CHR ''.'' # CHR ''.'' # s) = trim_dots s"
| "trim_dots s = s"

definition starts_dots :: "string \<Rightarrow> bool" where
  "starts_dots s \<longleftrightarrow> take 2 s = ''..''"

definition build_stack_type :: "name option \<Rightarrow> ty list \<Rightarrow> stack_type" where
  "build_stack_type row_var types =
     foldl st_push (SRowVar (case row_var of Some n \<Rightarrow> n | None \<Rightarrow> ''rest'')) types"

definition max_quotation_depth :: nat where
  "max_quotation_depth = 32"

text \<open>
  \<open>parse_types\<close> is the loop of \<open>parse_type_list_until\<close> with the row variable and the types found so far;
  \<open>parse_type_list_until\<close> itself only checks the depth first.
\<close>

function (sequential) parse_types ::
  "nat \<Rightarrow> string list \<Rightarrow> string \<Rightarrow> nat \<Rightarrow> name option \<Rightarrow> ty list \<Rightarrow> parser \<Rightarrow> (name option \<times> ty list) parsed"
and parse_type_list_until :: "nat \<Rightarrow> string list \<Rightarrow> string \<Rightarrow> nat \<Rightarrow> parser \<Rightarrow> (name option \<times> ty list) parsed"
and parse_quotation_type :: "nat \<Rightarrow> nat \<Rightarrow> parser \<Rightarrow> effect parsed" where
  "parse_types 0 terms ctx depth row types p = None"
| "parse_types (Suc n) terms ctx depth row types p =
     (if list_ex (check p) terms then pok (row, types) p
      else let p1 = skip_comments p
           in if list_ex (check p1) terms then pok (row, types) p1
              else case p_rest p1 of
                [] \<Rightarrow> perr (EndInTypes ctx terms) p1
              | t # _ \<Rightarrow>
                  (let p2 = pop_token p1
                   in if starts_dots (tok_text t)
                      then (let v = trim_dots (tok_text t)
                            in case validate_row_var_name v of
                                 Inl e \<Rightarrow> perr e p2
                               | Inr _ \<Rightarrow> parse_types n terms ctx depth (Some v) types p2)
                      else if tok_text t = ''Closure''
                      then (if check p2 ''[''
                            then and_then (parse_quotation_type n depth (pop_token p2)) (\<lambda>(e, p3).
                                 parse_types n terms ctx depth row (types @ [TClosure e []]) p3)
                            else perr (ExpectedToken ''[ after Closure'') p2)
                      else if tok_text t = ''[''
                      then and_then (parse_quotation_type n depth p2) (\<lambda>(e, p3).
                           parse_types n terms ctx depth row (types @ [TQuotation e]) p3)
                      else (case parse_type p2 t of
                              Inl e \<Rightarrow> perr e p2
                            | Inr ty \<Rightarrow> parse_types n terms ctx depth row (types @ [ty]) p2)))"
| "parse_type_list_until n terms ctx depth p =
     (if depth > max_quotation_depth then perr TypeTooDeep p else parse_types n terms ctx depth None [] p)"
| "parse_quotation_type n depth p =
     and_then (parse_type_list_until n [''--'', '']''] ''quotation type inputs'' (depth + 1) p) (\<lambda>((in_row, in_types), p1).
     if \<not> check p1 ''--'' then (if check p1 '']'' then perr MissingSeparator p1 else perr (ExpectedSeparator ''quotation type'') p1)
     else and_then (parse_type_list_until n ['']''] ''quotation type outputs'' (depth + 1) (pop_token p1)) (\<lambda>((out_row, out_types), p2).
     if \<not> check p2 '']'' then perr (ExpectedToken '']'') p2
     else pok (effect_new (build_stack_type in_row in_types) (build_stack_type out_row out_types)) (pop_token p2)))"
  by pat_completeness auto

termination
  by (relation "measures [\<lambda>x. case x of Inl (n, _) \<Rightarrow> n | Inr (Inl (n, _)) \<Rightarrow> n | Inr (Inr (n, _)) \<Rightarrow> n,
      \<lambda>x. case x of Inl _ \<Rightarrow> 0 | Inr (Inl _) \<Rightarrow> 1 | Inr (Inr _) \<Rightarrow> 2]") auto

fun parse_effect_loop :: "nat \<Rightarrow> side_effect list \<Rightarrow> parser \<Rightarrow> side_effect list parsed" where
  "parse_effect_loop 0 acc p = None"
| "parse_effect_loop (Suc n) acc p =
     (case p_rest p of
        [] \<Rightarrow> pok acc p
      | t # ts \<Rightarrow>
          if tok_text t = '')'' then pok acc p
          else if tok_text t = ''Yield''
          then (let p1 = pop_token p
                in case p_rest p1 of
                     [] \<Rightarrow> perr (ExpectedToken ''type after Yield'') p1
                   | u # _ \<Rightarrow>
                       if tok_text u = '')'' then perr (ExpectedToken ''type after Yield'') p1
                       else (let p2 = pop_token p1
                             in case parse_type p2 u of
                                  Inl e \<Rightarrow> perr e p2
                                | Inr ty \<Rightarrow> parse_effect_loop n (acc @ [Yield ty]) p2))
          else perr (UnknownEffect (tok_text t)) p)"

definition parse_effect_annotations :: "nat \<Rightarrow> parser \<Rightarrow> side_effect list parsed" where
  "parse_effect_annotations n p =
     and_then (parse_effect_loop n [] p) (\<lambda>(effects, p1). if effects = [] then perr EmptyEffects p1 else pok effects p1)"

definition parse_stack_effect :: "nat \<Rightarrow> parser \<Rightarrow> effect parsed" where
  "parse_stack_effect n p =
     (if \<not> check p ''('' then perr (ExpectedToken ''('') p
      else and_then (parse_type_list_until n [''--'', '')''] ''stack effect inputs'' 0 (pop_token p)) (\<lambda>((in_row, in_types), p1).
      if \<not> check p1 ''--'' then perr (ExpectedSeparator ''stack effect'') p1
      else and_then (parse_type_list_until n ['')'', ''|''] ''stack effect outputs'' 0 (pop_token p1)) (\<lambda>((out_row, out_types), p2).
      and_then (if check p2 ''|'' then parse_effect_annotations n (pop_token p2) else pok [] p2) (\<lambda>(effects, p3).
      if \<not> check p3 '')'' then perr (ExpectedToken '')'') p3
      else pok (effect_with_effects (build_stack_type in_row in_types) (build_stack_type out_row out_types) effects)
             (pop_token p3)))))"


section \<open>Statements\<close>

definition parse_symbol :: "parser \<Rightarrow> statement parsed" where
  "parse_symbol p =
     (case p_rest p of
        [] \<Rightarrow> perr (ExpectedName ''symbol'') p
      | t # _ \<Rightarrow>
          (let p1 = pop_token p; n = tok_text t
           in case n of
                [] \<Rightarrow> perr EmptySymbol p1
              | c # _ \<Rightarrow>
                  if is_digit_char c then perr (SymbolDigit n) p1
                  else (case find (\<lambda>c. \<not> is_alphanumeric c \<and> c \<notin> set ''-_.?!'') n of
                          Some b \<Rightarrow> perr (SymbolChar b n) p1
                        | None \<Rightarrow> pok (Symbol n) p1)))"

fun strip_either :: "string \<Rightarrow> string \<Rightarrow> string \<Rightarrow> string option" where
  "strip_either a b s = (case strip_prefix a s of Some r \<Rightarrow> Some r | None \<Rightarrow> strip_prefix b s)"

text \<open>
  The tests of \<open>parse_statement\<close> in order, up to the tokens that need the rest of the input: a literal, an error, or
  \<open>None\<close> to go on.
\<close>

definition parse_literal :: "token \<Rightarrow> (parse_error + statement) option" where
  "parse_literal t =
     (let s = tok_text t
      in case (if is_float_literal s then parse_f64 s else None) of
           Some f \<Rightarrow> Some (Ok (FloatLiteral f))
         | None \<Rightarrow>
      case strip_either ''0x'' ''0X'' s of
        Some hex \<Rightarrow> Some (case i64_from_str_radix 16 hex of Some n \<Rightarrow> Ok (IntLiteral n) | None \<Rightarrow> Err (InvalidHexLiteral s))
      | None \<Rightarrow>
      case strip_either ''0b'' ''0B'' s of
        Some bin \<Rightarrow> Some (case i64_from_str_radix 2 bin of Some n \<Rightarrow> Ok (IntLiteral n) | None \<Rightarrow> Err (InvalidBinaryLiteral s))
      | None \<Rightarrow>
      case i64_from_str_radix 10 s of
        Some n \<Rightarrow> Some (Ok (IntLiteral n))
      | None \<Rightarrow>
      if s = ''true'' then Some (Ok (BoolLiteral True))
      else if s = ''false'' then Some (Ok (BoolLiteral False))
      else None)"

definition parse_string :: "string \<Rightarrow> parse_error + statement" where
  "parse_string s =
     (if length s < 2 \<or> last s \<noteq> quote_char then Err (MalformedString s)
      else case unescape_string (butlast (tl s)) of
             Inl e \<Rightarrow> Err (BadEscape e)
           | Inr bs \<Rightarrow> Ok (StringLiteral bs))"

definition starts_pattern :: "parser \<Rightarrow> bool" where
  "starts_pattern p \<longleftrightarrow>
     (case p_rest p of
        t # _ \<Rightarrow> starts_upper (tok_text t) \<and> (peek_at p 1 = Some ''->'' \<or> peek_at p 1 = Some ''{'')
      | [] \<Rightarrow> False)"

fun parse_bindings :: "nat \<Rightarrow> string \<Rightarrow> name list \<Rightarrow> parser \<Rightarrow> name list parsed" where
  "parse_bindings 0 v acc p = None"
| "parse_bindings (Suc n) v acc p =
     (let p1 = skip_comments p
      in if check p1 ''}'' then pok acc p1
         else case p_rest p1 of
           [] \<Rightarrow> perr (EndInBindings v) p1
         | t # _ \<Rightarrow>
             (let p2 = pop_token p1
              in case strip_prefix ''>'' (tok_text t) of
                   Some f \<Rightarrow> if f = [] then perr (EmptyBinding v) p2 else parse_bindings n v (acc @ [f]) p2
                 | None \<Rightarrow> perr (BindingPrefix (tok_text t) v) p2))"

text \<open>The part of \<open>parse_match_arm\<close> before the body.\<close>

definition parse_pattern :: "nat \<Rightarrow> parser \<Rightarrow> (pattern \<times> span) parsed" where
  "parse_pattern n p =
     (case p_rest p of
        [] \<Rightarrow> perr (ExpectedName ''variant in match arm'') p
      | t # _ \<Rightarrow>
          (let v = tok_text t;
               sp = \<lparr>sp_line = tok_line t, sp_column = tok_column t, sp_length = length v\<rparr>;
               p1 = skip_comments (pop_token p)
           in and_then
                (if check p1 ''{''
                 then and_then (parse_bindings n v [] (pop_token p1)) (\<lambda>(bs, p2). pok (PVariantWithBindings v bs) (snd (consume p2 ''}'')))
                 else pok (PVariant v) p1)
                (\<lambda>(pat, p2).
                 let p3 = skip_comments p2
                 in if check p3 ''->'' then pok (pat, sp) (pop_token p3)
                    else perr (ExpectedArrow (pattern_name pat) (current p3)) p3)))"

function (sequential) parse_statement :: "nat \<Rightarrow> parser \<Rightarrow> statement parsed"
and parse_quotation :: "nat \<Rightarrow> nat \<Rightarrow> nat \<Rightarrow> statement list \<Rightarrow> parser \<Rightarrow> statement parsed"
and parse_arm_body :: "nat \<Rightarrow> statement list \<Rightarrow> parser \<Rightarrow> statement list parsed"
and parse_match_arm :: "nat \<Rightarrow> parser \<Rightarrow> match_arm parsed"
and parse_match :: "nat \<Rightarrow> nat \<Rightarrow> nat \<Rightarrow> match_arm list \<Rightarrow> parser \<Rightarrow> statement parsed" where
  "parse_statement 0 p = None"
| "parse_statement (Suc n) p =
     (case p_rest p of
        [] \<Rightarrow> perr UnexpectedEndOfFile p
      | t # _ \<Rightarrow>
          (let p1 = pop_token p; s = tok_text t
           in case parse_literal t of
                Some (Inr x) \<Rightarrow> pok x p1
              | Some (Inl e) \<Rightarrow> perr e p1
              | None \<Rightarrow>
                  if s = '':'' then parse_symbol p1
                  else if s \<noteq> [] \<and> hd s = quote_char
                  then (case parse_string s of Inr x \<Rightarrow> pok x p1 | Inl e \<Rightarrow> perr e p1)
                  else if s = ''else'' \<or> s = ''then'' then perr (NoLongerKeyword (tok_line t + 1) s) p1
                  else if s = ''['' then parse_quotation n (tok_line t) (tok_column t) [] p1
                  else if s = ''match'' then parse_match n (tok_line t) (tok_column t) [] p1
                  else pok (WordCall s (Some \<lparr>sp_line = tok_line t, sp_column = tok_column t, sp_length = length s\<rparr>)) p1))"
| "parse_quotation 0 l c body p = None"
| "parse_quotation (Suc n) l c body p =
     (if p_rest p = [] then perr EndInQuotation p
      else let p1 = skip_comments p
           in if check p1 '']''
              then (let t = hd (p_rest p1)
                    in pok (Quotation (next_quotation_id p1) body
                              (Some \<lparr>qs_start_line = l, qs_start_column = c, qs_end_line = tok_line t, qs_end_column = tok_column t + 1\<rparr>))
                         ((pop_token p1)\<lparr>next_quotation_id := next_quotation_id p1 + 1\<rparr>))
              else and_then (parse_statement (Suc n) p1) (\<lambda>(x, p2). parse_quotation n l c (body @ [x]) p2))"
| "parse_arm_body 0 body p = None"
| "parse_arm_body (Suc n) body p =
     (let p1 = skip_comments p
      in if check p1 ''end'' \<or> starts_pattern p1 then pok body p1
         else if p_rest p1 = [] then perr EndInArm p1
         else and_then (parse_statement (Suc n) p1) (\<lambda>(x, p2). parse_arm_body n (body @ [x]) p2))"
| "parse_match_arm n p =
     and_then (parse_pattern n p) (\<lambda>((pat, sp), p1).
     and_then (parse_arm_body n [] p1) (\<lambda>(body, p2). pok (MatchArm pat body (Some sp)) p2))"
| "parse_match 0 l c arms p = None"
| "parse_match (Suc n) l c arms p =
     (let p1 = skip_comments p
      in if check p1 ''end''
         then (if arms = [] then perr EmptyMatchExpression (pop_token p1)
               else pok (Match arms (Some \<lparr>sp_line = l, sp_column = c, sp_length = 5\<rparr>)) (pop_token p1))
         else if p_rest p1 = [] then perr EndInMatch p1
         else and_then (parse_match_arm (Suc n) p1) (\<lambda>(arm, p2). parse_match n l c (arms @ [arm]) p2))"
  by pat_completeness auto

termination
  by (relation "measures [\<lambda>x. case x of Inl (Inl (n, _)) \<Rightarrow> n | Inl (Inr (n, _)) \<Rightarrow> n | Inr (Inl (n, _)) \<Rightarrow> n
      | Inr (Inr (Inl (n, _))) \<Rightarrow> n | Inr (Inr (Inr (n, _))) \<Rightarrow> n,
      \<lambda>x. case x of Inl (Inl _) \<Rightarrow> 0 | Inl (Inr _) \<Rightarrow> 1 | Inr (Inl _) \<Rightarrow> 1 | Inr (Inr (Inl _)) \<Rightarrow> 2 | Inr (Inr (Inr _)) \<Rightarrow> 3]") auto


section \<open>Includes, unions and words\<close>

definition next_name :: "string \<Rightarrow> parser \<Rightarrow> string parsed" where
  "next_name what p = (case p_rest p of [] \<Rightarrow> perr (ExpectedName what) p | t # _ \<Rightarrow> pok (tok_text t) (pop_token p))"

definition include_name :: "string \<Rightarrow> (string \<Rightarrow> include_stmt) \<Rightarrow> parser \<Rightarrow> include_stmt parsed" where
  "include_name kind mk p =
     (if \<not> check p '':'' then perr (ExpectedColon kind ''include'') p
      else and_then (next_name (kind @ '':'') (pop_token p)) (\<lambda>(n, p1). pok (mk n) p1))"

definition trim_quotes :: "string \<Rightarrow> string" where
  "trim_quotes s = rev (dropWhile (\<lambda>c. c = quote_char) (rev (dropWhile (\<lambda>c. c = quote_char) s)))"

definition parse_include :: "parser \<Rightarrow> include_stmt parsed" where
  "parse_include p =
     and_then (next_name ''module after include'' (snd (consume p ''include''))) (\<lambda>(t, p1).
     if t = ''std'' then include_name ''std'' IncStd p1
     else if t = ''ffi'' then include_name ''ffi'' IncFfi p1
     else if t \<noteq> [] \<and> hd t = quote_char \<and> last t = quote_char then pok (IncRelative (trim_quotes t)) p1
     else perr (InvalidInclude t) p1)"

definition current_line :: "nat \<Rightarrow> parser \<Rightarrow> nat" where
  "current_line d p = (case p_rest p of [] \<Rightarrow> d | t # _ \<Rightarrow> tok_line t)"

fun first_duplicate :: "'a list \<Rightarrow> 'a list \<Rightarrow> 'a option" where
  "first_duplicate seen [] = None"
| "first_duplicate seen (x # xs) = (if x \<in> set seen then Some x else first_duplicate (x # seen) xs)"

fun parse_field_loop :: "nat \<Rightarrow> union_field list \<Rightarrow> parser \<Rightarrow> union_field list parsed" where
  "parse_field_loop 0 acc p = None"
| "parse_field_loop (Suc n) acc p =
     (let p1 = skip_comments p
      in if check p1 ''}'' then pok acc p1
         else and_then (next_name ''field'' p1) (\<lambda>(f, p2).
              if \<not> check p2 '':'' then perr (ExpectedColon f (current p2)) p2
              else and_then (next_name ''type after :'' (pop_token p2)) (\<lambda>(t, p3).
                   parse_field_loop n (acc @ [\<lparr>uf_name = f, uf_type_name = t\<rparr>]) (snd (consume (skip_comments p3) '','')))))"

definition parse_union_fields :: "nat \<Rightarrow> parser \<Rightarrow> union_field list parsed" where
  "parse_union_fields n p =
     and_then (parse_field_loop n [] p) (\<lambda>(fs, p1).
     case first_duplicate [] (map uf_name fs) of
       Some f \<Rightarrow> perr (DuplicateField f) p1
     | None \<Rightarrow> pok fs p1)"

definition parse_union_variant :: "nat \<Rightarrow> parser \<Rightarrow> union_variant parsed" where
  "parse_union_variant n p =
     (let l = current_line 0 p
      in and_then (next_name ''variant'' p) (\<lambda>(v, p1).
         if \<not> starts_upper v then perr (NotUppercase ''Variant'' v) p1
         else let p2 = skip_comments p1
              in and_then
                   (if check p2 ''{''
                    then and_then (parse_union_fields n (pop_token p2)) (\<lambda>(fs, p3).
                         if check p3 ''}'' then pok fs (pop_token p3) else perr (ExpectedBrace v ''fields'') p3)
                    else pok [] p2)
                   (\<lambda>(fs, p3). pok \<lparr>uv_name = v, uv_fields = fs, uv_source = Some (source_location_new [] l)\<rparr> p3)))"

fun parse_variant_loop :: "nat \<Rightarrow> name \<Rightarrow> union_variant list \<Rightarrow> parser \<Rightarrow> union_variant list parsed" where
  "parse_variant_loop 0 u acc p = None"
| "parse_variant_loop (Suc n) u acc p =
     (let p1 = skip_comments p
      in if check p1 ''}'' then pok acc p1
         else if p_rest p1 = [] then perr (EndInUnion u) p1
         else and_then (parse_union_variant n p1) (\<lambda>(v, p2). parse_variant_loop n u (acc @ [v]) p2))"

definition location_span :: "nat \<Rightarrow> nat \<Rightarrow> source_location" where
  "location_span a b = \<lparr>sl_file = [], sl_start_line = a, sl_end_line = b\<rparr>"

definition parse_union_def :: "nat \<Rightarrow> parser \<Rightarrow> union_def parsed" where
  "parse_union_def n p =
     (let l = current_line 0 p
      in and_then (next_name ''union'' (snd (consume p ''union''))) (\<lambda>(u, p1).
         if \<not> starts_upper u then perr (NotUppercase ''Union'' u) p1
         else let p2 = skip_comments (p1\<lparr>known_unions := List.insert u (known_unions p1)\<rparr>)
              in if \<not> check p2 ''{'' then perr (ExpectedBrace u (current p2)) p2
                 else and_then (parse_variant_loop n u [] (pop_token p2)) (\<lambda>(vs, p3).
                      let e = current_line l p3; p4 = snd (consume p3 ''}'')
                      in if vs = [] then perr (EmptyUnion u) p4
                         else case first_duplicate [] (map uv_name vs) of
                                Some v \<Rightarrow> perr (DuplicateVariant v u) p4
                              | None \<Rightarrow> pok \<lparr>ud_name = u, ud_variants = vs, ud_source = Some (location_span l e)\<rparr> p4)))"

fun parse_body :: "nat \<Rightarrow> name \<Rightarrow> statement list \<Rightarrow> parser \<Rightarrow> statement list parsed" where
  "parse_body 0 w body p = None"
| "parse_body (Suc n) w body p =
     (if check p '';'' then pok body p
      else if p_rest p = [] then perr (EndInWord w) p
      else let p1 = skip_comments p
           in if check p1 '';'' then pok body p1
              else and_then (parse_statement (Suc n) p1) (\<lambda>(x, p2). parse_body n w (body @ [x]) p2))"

definition parse_word_def :: "nat \<Rightarrow> parser \<Rightarrow> word_def parsed" where
  "parse_word_def n p =
     (let lints = pending_allowed_lints p;
          p0 = p\<lparr>pending_allowed_lints := []\<rparr>;
          l = current_line 0 p0
      in if \<not> check p0 '':'' then perr (ExpectedWordStart (current p0)) p0
         else and_then (next_name ''word'' (pop_token p0)) (\<lambda>(w, p1).
              and_then (if check p1 ''('' then and_then (parse_stack_effect n p1) (\<lambda>(e, p2). pok (Some e) p2) else pok None p1)
                (\<lambda>(eff, p2).
              and_then (parse_body n w [] p2) (\<lambda>(body, p3).
              pok \<lparr>wd_name = w, wd_effect = eff, wd_body = body, wd_source = Some (location_span l (current_line l p3)),
                   wd_allowed_lints = lints\<rparr> (snd (consume p3 '';''))))))"

section \<open>Programs\<close>

text \<open>The annotation of an error with a line, unless it has one.\<close>

datatype parse_failure = ParseFailure parse_error nat

definition annotate_error_with_line :: "parse_error \<Rightarrow> token option \<Rightarrow> parse_failure" where
  "annotate_error_with_line e t =
     (case e of
        NoLongerKeyword l s \<Rightarrow> ParseFailure e l
      | _ \<Rightarrow> ParseFailure e ((case t of Some u \<Rightarrow> tok_line u | None \<Rightarrow> 0) + 1))"

definition location_token :: "token list \<Rightarrow> token list \<Rightarrow> token option" where
  "location_token rest all = (case rest of t # _ \<Rightarrow> Some t | [] \<Rightarrow> if all = [] then None else Some (last all))"

fun parse_item :: "nat \<Rightarrow> parser \<Rightarrow> seq_program \<Rightarrow> seq_program parsed" where
  "parse_item n p prog =
     (if check p ''include'' then and_then (parse_include p) (\<lambda>(i, p1). pok (prog\<lparr>prog_includes := prog_includes prog @ [i]\<rparr>) p1)
      else if check p ''union'' then and_then (parse_union_def n p) (\<lambda>(u, p1). pok (prog\<lparr>prog_unions := prog_unions prog @ [u]\<rparr>) p1)
      else and_then (parse_word_def n p) (\<lambda>(w, p1). pok (prog\<lparr>prog_words := prog_words prog @ [w]\<rparr>) p1))"

fun parse_items :: "nat \<Rightarrow> parser \<Rightarrow> seq_program \<Rightarrow> seq_program parsed" where
  "parse_items 0 p prog = None"
| "parse_items (Suc n) p prog =
     (let p1 = skip_comments p
      in if p_rest p1 = [] then pok prog p1
         else and_then (parse_item (Suc n) p1 prog) (\<lambda>(prog', p2). parse_items n p2 prog'))"

definition parse :: "nat \<Rightarrow> parser \<Rightarrow> (parse_failure + seq_program \<times> parser) option" where
  "parse n p =
     (case find (\<lambda>t. tok_text t = unclosed_string) (p_rest p) of
        Some t \<Rightarrow> Some (Err (ParseFailure (UnclosedString (tok_line t + 1) (tok_column t + 1)) (tok_line t + 1)))
      | None \<Rightarrow>
          (case parse_items n p \<lparr>prog_includes = [], prog_unions = [], prog_words = []\<rparr> of
             None \<Rightarrow> None
           | Some (Inl (e, rest)) \<Rightarrow> Some (Err (annotate_error_with_line e (location_token rest (p_rest p))))
           | Some (Inr r) \<Rightarrow> Some (Ok r)))"

end
