(* ===== verification/Parser_Total.thy ===== *)
theory Parser_Total
  imports Parser
begin

text \<open>
  The parser returns on every input: each loop of it takes a token before it goes round, so that
  more fuel than there are tokens left is enough, and what it returns leaves no more tokens than it was
  given.
\<close>

section \<open>Results within a number of tokens\<close>

fun within :: "'a parsed \<Rightarrow> nat \<Rightarrow> bool" where
  "within None k \<longleftrightarrow> False"
| "within (Some (Inl _)) k \<longleftrightarrow> True"
| "within (Some (Inr (_, p))) k \<longleftrightarrow> length (p_rest p) \<le> k"

lemma within_simps [simp]: "within (perr e p) k" "within (pok x p) k \<longleftrightarrow> length (p_rest p) \<le> k"
  by (simp_all add: perr_def pok_def)

lemma and_then_simps [simp]: "and_then (perr e p) f = perr e p" "and_then (pok x p) f = f (x, p)"
  by (simp_all add: perr_def pok_def)

lemma within_mono: "within r j \<Longrightarrow> j \<le> k \<Longrightarrow> within r k"
  by (cases "(r, k)" rule: within.cases) auto

lemma within_and_then:
  assumes "within m j" "\<And>x p. length (p_rest p) \<le> j \<Longrightarrow> within (f (x, p)) k"
  shows "within (and_then m f) k"
  using assms by (cases "(m, j)" rule: within.cases) auto

lemma pop_token_length [simp]: "length (p_rest (pop_token p)) = length (p_rest p) - 1"
  by (simp add: pop_token_def)

lemma skip_tokens_length: "length (fst (skip_tokens ts lints)) \<le> length ts"
proof (induction ts lints rule: skip_tokens.induct)
  case (2 t ts lints)
  have "length (tl (dropWhile (\<lambda>u. tok_text u \<noteq> [newline_char]) ts)) \<le> length ts"
    using dropWhile_shorter [of "\<lambda>u. tok_text u \<noteq> [newline_char]" ts] by simp
  with 2 show ?case by (auto intro: le_trans le_SucI)
qed simp

lemma skip_length: "length (p_rest (skip_comments p)) \<le> length (p_rest p)"
  using skip_tokens_length [of "p_rest p" "pending_allowed_lints p"]
  by (simp add: skip_comments_def Let_def case_prod_unfold)

lemma consume_length: "length (p_rest (snd (consume p s))) \<le> length (p_rest p)"
  by (simp add: consume_def)

lemma check_nonempty: "check p s \<Longrightarrow> p_rest p \<noteq> []"
  by (auto simp: check_def)

lemma check_pop: "check p s \<Longrightarrow> length (p_rest (pop_token p)) < length (p_rest p)"
  by (cases "p_rest p") (auto simp: check_def pop_token_def)

lemma round_within:
  assumes "within m (length (p_rest (skip_comments p)) - 1)" "p_rest p \<noteq> []"
    "\<And>x q. length (p_rest q) < length (p_rest p) \<Longrightarrow> within (f (x, q)) (length (p_rest p))"
  shows "within (and_then m f) (length (p_rest p))"
proof (rule within_and_then [OF assms(1)])
  fix x and q :: parser
  assume "length (p_rest q) \<le> length (p_rest (skip_comments p)) - 1"
  moreover have "0 < length (p_rest p)" using assms(2) by simp
  ultimately have "length (p_rest q) < length (p_rest p)" using skip_length [of p] by linarith
  then show "within (f (x, q)) (length (p_rest p))" by (rule assms(3))
qed

lemma skip_nonempty: "p_rest (skip_comments p) \<noteq> [] \<Longrightarrow> p_rest p \<noteq> []"
  using skip_length [of p] by auto

section \<open>Types\<close>

lemma within_If: "(b \<Longrightarrow> within x k) \<Longrightarrow> (\<not> b \<Longrightarrow> within y k) \<Longrightarrow> within (if b then x else y) k"
  by simp

lemma within_sum: "(\<And>e. r = Inl e \<Longrightarrow> within (f e) k) \<Longrightarrow> (\<And>x. r = Inr x \<Longrightarrow> within (g x) k) \<Longrightarrow>
    within (case r of Inl e \<Rightarrow> f e | Inr x \<Rightarrow> g x) k"
  by (simp split: sum.split)

lemma within_list: "(xs = [] \<Longrightarrow> within a k) \<Longrightarrow> (\<And>y ys. xs = y # ys \<Longrightarrow> within (f y ys) k) \<Longrightarrow>
    within (case xs of [] \<Rightarrow> a | y # ys \<Rightarrow> f y ys) k"
  by (simp split: list.split)

lemma within_option: "(r = None \<Longrightarrow> within a k) \<Longrightarrow> (\<And>x. r = Some x \<Longrightarrow> within (f x) k) \<Longrightarrow>
    within (case r of None \<Rightarrow> a | Some x \<Rightarrow> f x) k"
  by (simp split: option.split)

lemmas within_intros = within_If within_sum within_list within_option

definition types_ok :: "nat \<Rightarrow> bool" where
  "types_ok n \<longleftrightarrow> (\<forall>terms ctx depth row types p. length (p_rest p) < n \<longrightarrow>
     within (parse_types n terms ctx depth row types p) (length (p_rest p)))"

lemma types_okD: "types_ok n \<Longrightarrow> length (p_rest p) < n \<Longrightarrow> length (p_rest p) \<le> k \<Longrightarrow> within (parse_types n terms ctx depth row types p) k"
  unfolding types_ok_def by (blast intro: within_mono)

lemma until_within: "types_ok n \<Longrightarrow> length (p_rest p) < n \<Longrightarrow> within (parse_type_list_until n terms ctx depth p) (length (p_rest p))"
  by (auto intro: types_okD)

lemma quotation_within:
  assumes "types_ok n" "length (p_rest p) < n"
  shows "within (parse_quotation_type n depth p) (length (p_rest p))"
  using assms(2)
  by (auto simp del: parse_type_list_until.simps intro!: within_and_then [OF until_within, OF assms(1)]) linarith+

lemma types_ok_all: "types_ok n"
proof (induction n)
  case (Suc n)
  have "within (parse_types (Suc n) terms ctx depth row types p) (length (p_rest p))"
    if len: "length (p_rest p) < Suc n" for terms ctx depth row types p
  proof -
    let ?p = "skip_comments p"
    have l: "length (p_rest ?p) \<le> length (p_rest p)" by (rule skip_length)
    show ?thesis
      unfolding parse_types.simps Let_def
      by (intro within_intros;
          use l len in \<open>auto simp del: parse_quotation_type.simps intro!: within_and_then [OF quotation_within, OF Suc] types_okD [OF Suc]\<close>)
  qed
  then show ?case by (simp add: types_ok_def)
qed (simp add: types_ok_def)


lemma effect_loop_within: "length (p_rest p) < n \<Longrightarrow> within (parse_effect_loop n acc p) (length (p_rest p))"
proof (induction n arbitrary: acc p)
  case (Suc n)
  have *: "length (p_rest q) < n \<Longrightarrow> length (p_rest q) \<le> k \<Longrightarrow> within (parse_effect_loop n acc q) k" for acc q k
    using Suc.IH within_mono by blast
  show ?case unfolding parse_effect_loop.simps Let_def
    by (intro within_intros; use Suc.prems in \<open>auto simp: pop_token_def intro!: *\<close>)
qed simp

lemma stack_effect_within:
  assumes "length (p_rest p) < n"
  shows "within (parse_stack_effect n p) (length (p_rest p))"
proof -
  have eff: "within (if check q ''|'' then parse_effect_annotations n (pop_token q) else pok [] q) (length (p_rest q))"
    if "length (p_rest q) < n" for q
  proof -
    have "length (p_rest (pop_token q)) < n" using that by simp
    then have "within (parse_effect_annotations n (pop_token q)) (length (p_rest (pop_token q)))"
      unfolding parse_effect_annotations_def by (intro within_and_then [OF effect_loop_within]) auto
    then show ?thesis by (auto intro: within_mono)
  qed
  show ?thesis
    unfolding parse_stack_effect_def
    using assms
    by (auto simp del: parse_type_list_until.simps
        intro!: within_and_then [OF until_within, OF types_ok_all] within_and_then [OF eff]) linarith+
qed

section \<open>Statements\<close>

lemma symbol_within: "within (parse_symbol p) (length (p_rest p))"
  unfolding parse_symbol_def Let_def by (intro within_intros) auto

lemma bindings_within: "length (p_rest p) < n \<Longrightarrow> within (parse_bindings n v acc p) (length (p_rest p))"
proof (induction n arbitrary: acc p)
  case (Suc n)
  have *: "length (p_rest q) < n \<Longrightarrow> length (p_rest q) \<le> k \<Longrightarrow> within (parse_bindings n v acc q) k" for acc q k
    using Suc.IH within_mono by blast
  show ?case unfolding parse_bindings.simps Let_def
    by (intro within_intros; use Suc.prems skip_length [of p] in \<open>auto intro!: *\<close>)
qed simp

lemma pattern_within:
  assumes "length (p_rest p) \<le> n"
  shows "within (parse_pattern n p) (length (p_rest p) - 1)"
proof (cases "p_rest p")
  case (Cons t ts)
  let ?p1 = "skip_comments (pop_token p)"
  have l: "length (p_rest ?p1) \<le> length ts" using skip_length [of "pop_token p"] Cons by simp
  have "within (parse_bindings n v [] (pop_token ?p1)) (length (p_rest (pop_token ?p1)))" for v
    using assms Cons l by (intro bindings_within) simp
  then have b: "within (if check ?p1 ''{'' then and_then (parse_bindings n v [] (pop_token ?p1))
       (\<lambda>(bs, p2). pok (PVariantWithBindings v bs) (snd (consume p2 ''}''))) else pok (PVariant v) ?p1) (length ts)" for v
    using l by (auto intro!: within_and_then le_trans [OF consume_length])
  show ?thesis
    unfolding parse_pattern_def Let_def Cons list.simps
    by (rule within_and_then [OF b]) (use skip_length in \<open>auto intro: le_trans [OF diff_le_self] le_trans [OF skip_length]\<close>)
qed (simp add: parse_pattern_def)

definition statements_ok :: "nat \<Rightarrow> bool" where
  "statements_ok n \<longleftrightarrow> (\<forall>p. length (p_rest p) < n \<longrightarrow>
     within (parse_statement n p) (length (p_rest p) - 1) \<and>
     (\<forall>l c body. within (parse_quotation n l c body p) (length (p_rest p))) \<and>
     (\<forall>body. within (parse_arm_body n body p) (length (p_rest p))) \<and>
     within (parse_match_arm n p) (length (p_rest p) - 1) \<and>
     (\<forall>l c arms. within (parse_match n l c arms p) (length (p_rest p))))"

lemma statements_okD:
  assumes "statements_ok n" "length (p_rest p) < n"
  shows "within (parse_statement n p) (length (p_rest p) - 1)"
    "length (p_rest p) \<le> k \<Longrightarrow> within (parse_quotation n l c body p) k"
    "length (p_rest p) \<le> k \<Longrightarrow> within (parse_arm_body n body p) k"
    "within (parse_match_arm n p) (length (p_rest p) - 1)"
    "length (p_rest p) \<le> k \<Longrightarrow> within (parse_match n l c arms p) k"
  using assms unfolding statements_ok_def by (blast intro: within_mono)+

lemma statement_step:
  assumes ok: "statements_ok n" and len: "length (p_rest p) < Suc n"
  shows "within (parse_statement (Suc n) p) (length (p_rest p) - 1)"
proof (cases "p_rest p")
  case (Cons t ts)
  then have "length (p_rest (pop_token p)) < n" using len by simp
  note sub = statements_okD(2,5) [OF ok this] symbol_within [of "pop_token p", THEN within_mono]
  show ?thesis
    unfolding parse_statement.simps Cons list.simps Let_def
    by (intro within_intros; use Cons in \<open>auto simp: sub split: sum.split\<close>)
qed simp

lemma quotation_step:
  assumes ok: "statements_ok n" and len: "length (p_rest p) < Suc n"
  shows "within (parse_quotation (Suc n) l c body p) (length (p_rest p))"
proof -
  let ?p = "skip_comments p"
  have l: "length (p_rest ?p) \<le> length (p_rest p)" by (rule skip_length)
  have "within (and_then (parse_statement (Suc n) ?p) (\<lambda>(x, q). parse_quotation n l c (body @ [x]) q)) (length (p_rest p))"
    if "p_rest p \<noteq> []"
    using l len that by (intro round_within [OF statement_step [OF ok]]) (auto intro!: statements_okD(2) [OF ok] dest: skip_nonempty)
  then show ?thesis using l by (auto simp: Let_def)
qed

lemma arm_body_step:
  assumes ok: "statements_ok n" and len: "length (p_rest p) < Suc n"
  shows "within (parse_arm_body (Suc n) body p) (length (p_rest p))"
proof -
  let ?p = "skip_comments p"
  have l: "length (p_rest ?p) \<le> length (p_rest p)" by (rule skip_length)
  have "within (and_then (parse_statement (Suc n) ?p) (\<lambda>(x, q). parse_arm_body n (body @ [x]) q)) (length (p_rest p))"
    if "p_rest ?p \<noteq> []"
    using l len that by (intro round_within [OF statement_step [OF ok]]) (auto intro!: statements_okD(3) [OF ok] dest: skip_nonempty)
  then show ?thesis using l by (auto simp: Let_def)
qed

lemma match_arm_step:
  assumes ok: "statements_ok n" and len: "length (p_rest p) < Suc n"
  shows "within (parse_match_arm (Suc n) p) (length (p_rest p) - 1)"
  unfolding parse_match_arm.simps
  using len
  by (intro within_and_then [OF pattern_within])
    (auto simp del: parse_arm_body.simps intro!: within_and_then [OF arm_body_step [OF ok]])

lemma match_step:
  assumes ok: "statements_ok n" and len: "length (p_rest p) < Suc n"
  shows "within (parse_match (Suc n) l c arms p) (length (p_rest p))"
proof -
  let ?p = "skip_comments p"
  have l: "length (p_rest ?p) \<le> length (p_rest p)" by (rule skip_length)
  have "within (and_then (parse_match_arm (Suc n) ?p) (\<lambda>(a, q). parse_match n l c (arms @ [a]) q)) (length (p_rest p))"
    if "p_rest ?p \<noteq> []"
    using l len that by (intro round_within [OF match_arm_step [OF ok]]) (auto intro!: statements_okD(5) [OF ok] dest: skip_nonempty)
  then show ?thesis using l by (auto simp: Let_def simp del: parse_match_arm.simps)
qed

lemma statements_ok_all: "statements_ok n"
proof (induction n)
  case (Suc n)
  show ?case
    unfolding statements_ok_def
    using statement_step [OF Suc] quotation_step [OF Suc] arm_body_step [OF Suc] match_arm_step [OF Suc] match_step [OF Suc]
    by blast
qed (simp add: statements_ok_def)

lemmas statement_within = statements_okD(1) [OF statements_ok_all]

lemma body_within: "length (p_rest p) < n \<Longrightarrow> within (parse_body n w body p) (length (p_rest p))"
proof (induction n arbitrary: body p)
  case (Suc n)
  let ?p = "skip_comments p"
  have l: "length (p_rest ?p) \<le> length (p_rest p)" by (rule skip_length)
  have "within (and_then (parse_statement (Suc n) ?p) (\<lambda>(x, q). parse_body n w (body @ [x]) q)) (length (p_rest p))"
    if "p_rest p \<noteq> []"
    using l Suc.prems that
    by (intro round_within [OF statement_within]) (auto intro!: within_mono [OF Suc.IH])
  then show ?case using l by (auto simp: Let_def)
qed simp

section \<open>Items\<close>

lemma next_name_within: "within (next_name s p) (length (p_rest p) - 1)"
  by (auto simp: next_name_def split: list.split)

lemma include_within:
  assumes "check p ''include''"
  shows "within (parse_include p) (length (p_rest p) - 1)"
proof -
  have n: "within (include_name k mk q) (length (p_rest q))" for k mk q
    unfolding include_name_def
    by (intro within_intros within_and_then [OF next_name_within]) auto
  show ?thesis
    unfolding parse_include_def
    using assms
    by (intro within_and_then [OF next_name_within]) (auto simp: consume_def intro!: within_mono [OF n])
qed

lemma field_loop_within: "length (p_rest p) < n \<Longrightarrow> within (parse_field_loop n acc p) (length (p_rest p))"
proof (induction n arbitrary: acc p)
  case (Suc n)
  let ?p = "skip_comments p"
  have l: "length (p_rest ?p) \<le> length (p_rest p)" by (rule skip_length)
  have rest: "within (parse_field_loop n acc (snd (consume (skip_comments r) '',''))) (length (p_rest p))"
    if "length (p_rest r) < length (p_rest p)" for r acc
  proof -
    have "length (p_rest (snd (consume (skip_comments r) '',''))) \<le> length (p_rest r)"
      using consume_length [of "skip_comments r" "'',''"] skip_length [of r] by linarith
    then show ?thesis using that Suc.prems by (intro within_mono [OF Suc.IH]) auto
  qed
  have "within (and_then (next_name ''field'' ?p) (\<lambda>(f, q).
      if \<not> check q '':'' then perr (ExpectedColon f (current q)) q
      else and_then (next_name ''type after :'' (pop_token q)) (\<lambda>(t, r).
           parse_field_loop n (acc @ [\<lparr>uf_name = f, uf_type_name = t\<rparr>]) (snd (consume (skip_comments r) '',''))))) (length (p_rest p))"
    if "p_rest p \<noteq> []"
    using that by (intro round_within [OF next_name_within]) (auto intro!: within_and_then [OF next_name_within] rest)
  moreover have "p_rest ?p = []" if "p_rest p = []" using l that by simp
  ultimately show ?case using l by (cases "p_rest p") (auto simp: Let_def check_def next_name_def perr_def)
qed simp

lemma fields_within: "length (p_rest p) < n \<Longrightarrow> within (parse_union_fields n p) (length (p_rest p))"
  unfolding parse_union_fields_def by (auto intro!: within_and_then [OF field_loop_within] split: option.split)

lemma variant_within:
  assumes "length (p_rest p) \<le> n"
  shows "within (parse_union_variant n p) (length (p_rest p) - 1)"
proof (cases "p_rest p")
  case (Cons t ts)
  have v: "within (if check r ''{'' then and_then (parse_union_fields n (pop_token r)) (\<lambda>(fs, p3).
         if check p3 ''}'' then pok fs (pop_token p3) else perr (ExpectedBrace v ''fields'') p3) else pok [] r) (length ts)"
    if "length (p_rest r) \<le> length ts" for r v
    using that assms Cons by (auto intro!: within_and_then [OF fields_within])
  have "length (p_rest q) \<le> length ts \<Longrightarrow> length (p_rest (skip_comments q)) \<le> length ts" for q
    using skip_length [of q] by linarith
  then show ?thesis
    unfolding parse_union_variant_def Let_def
    using Cons
    by (intro within_and_then [OF next_name_within]) (simp only: split, intro within_If within_and_then [OF v]; auto)
qed (simp add: parse_union_variant_def next_name_def)

lemma variant_loop_within: "length (p_rest p) < n \<Longrightarrow> within (parse_variant_loop n u acc p) (length (p_rest p))"
proof (induction n arbitrary: acc p)
  case (Suc n)
  let ?p = "skip_comments p"
  have l: "length (p_rest ?p) \<le> length (p_rest p)" by (rule skip_length)
  have "within (and_then (parse_union_variant n ?p) (\<lambda>(v, q). parse_variant_loop n u (acc @ [v]) q)) (length (p_rest p))"
    if "p_rest ?p \<noteq> []"
    using l Suc.prems that
    by (intro round_within [OF variant_within]) (auto intro!: within_mono [OF Suc.IH] dest: skip_nonempty)
  then show ?case using l by (auto simp: Let_def)
qed simp

lemma union_within:
  assumes "length (p_rest p) \<le> n" "check p ''union''"
  shows "within (parse_union_def n p) (length (p_rest p) - 1)"
proof -
  have c: "length (p_rest (snd (consume p ''union''))) = length (p_rest p) - 1" using assms(2) by (simp add: consume_def)
  have ne: "0 < length (p_rest p)" using check_nonempty [OF assms(2)] by simp
  have "within (let p2 = skip_comments (p1\<lparr>known_unions := List.insert u (known_unions p1)\<rparr>)
              in if \<not> check p2 ''{'' then perr (ExpectedBrace u (current p2)) p2
                 else and_then (parse_variant_loop n u [] (pop_token p2)) (\<lambda>(vs, p3).
                      let e = current_line l p3; p4 = snd (consume p3 ''}'')
                      in if vs = [] then perr (EmptyUnion u) p4
                         else case first_duplicate [] (map uv_name vs) of
                                Some v \<Rightarrow> perr (DuplicateVariant v u) p4
                              | None \<Rightarrow> pok \<lparr>ud_name = u, ud_variants = vs, ud_source = Some (location_span l e)\<rparr> p4))
      (length (p_rest p) - 1)" if r: "length (p_rest p1) \<le> length (p_rest p) - 1" for p1 u l
  proof -
    let ?q = "skip_comments (p1\<lparr>known_unions := List.insert u (known_unions p1)\<rparr>)"
    have q: "length (p_rest ?q) \<le> length (p_rest p) - 1"
      using r skip_length [of "p1\<lparr>known_unions := List.insert u (known_unions p1)\<rparr>"] by simp
    then have f: "length (p_rest (pop_token ?q)) < n" using ne assms(1) unfolding pop_token_length by linarith
    show ?thesis
      unfolding Let_def
      using q by (intro within_intros within_and_then [OF variant_loop_within [OF f]])
        (auto intro!: within_intros le_trans [OF consume_length])
  qed
  then show ?thesis
    unfolding parse_union_def_def Let_def [of "current_line 0 p"]
    by (intro within_and_then [OF next_name_within]) (auto simp: c intro: le_trans)
qed

lemma word_within:
  assumes "length (p_rest p) \<le> n" "0 < n"
  shows "within (parse_word_def n p) (length (p_rest p) - 1)"
proof -
  let ?p = "p\<lparr>pending_allowed_lints := []\<rparr>"
  have eff: "within (if check q ''('' then and_then (parse_stack_effect n q) (\<lambda>(e, p2). pok (Some e) p2) else pok None q)
      (length (p_rest q))" if "length (p_rest q) < n" for q
    using that by (auto intro!: within_and_then [OF stack_effect_within])
  have less: "length (p_rest q) \<le> length (p_rest p) - 1 \<Longrightarrow> length (p_rest q) < n" for q
    using assms by linarith
  show ?thesis
    unfolding parse_word_def_def Let_def
    by (intro within_intros, simp, intro within_and_then [OF next_name_within], simp only: split,
        intro within_and_then [OF eff], auto intro!: less within_and_then [OF body_within] le_trans [OF consume_length])
qed

lemma item_within:
  assumes "length (p_rest p) \<le> n" "0 < n"
  shows "within (parse_item n p prog) (length (p_rest p) - 1)"
  unfolding parse_item.simps
  by (intro within_intros within_and_then [OF include_within] within_and_then [OF union_within] within_and_then [OF word_within])
    (use assms in auto)

lemma items_within: "length (p_rest p) < n \<Longrightarrow> within (parse_items n p prog) (length (p_rest p))"
proof (induction n arbitrary: prog p)
  case (Suc n)
  let ?p = "skip_comments p"
  have l: "length (p_rest ?p) \<le> length (p_rest p)" by (rule skip_length)
  have "within (and_then (parse_item (Suc n) ?p prog) (\<lambda>(prog', q). parse_items n q prog')) (length (p_rest p))"
    if "p_rest ?p \<noteq> []"
    using l Suc.prems that
    by (intro round_within [OF item_within]) (auto intro!: within_mono [OF Suc.IH] dest: skip_nonempty)
  then show ?case using l by (auto simp: Let_def simp del: parse_item.simps)
qed simp

text \<open>C28: Parsing always returns: on any parser state and with more fuel than there are tokens, every loop of the
  parser ends, and the result is a program or a parse failure, never an exhausted budget.\<close>

theorem parse_returns: "\<exists>r. parse (Suc (length (p_rest p) + k)) p = Some r"
  using items_within [of p "Suc (length (p_rest p) + k)" "\<lparr>prog_includes = [], prog_unions = [], prog_words = []\<rparr>"]
  by (auto simp: parse_def split: option.split sum.split)

end
