(* ===== verification/Effect_Syntax.thy ===== *)
theory Effect_Syntax
  imports Parser
begin

text \<open>
  The written form of a stack effect and its round trip: the words of an effect, joined by blanks, are taken apart by the
  tokenizer and read back by \<open>parse_stack_effect\<close> as the same effect.  The \<open>Display\<close> form of a type is
  another one and is not read back: it puts a stack in parentheses.
\<close>

section \<open>Words and the tokenizer\<close>

definition word_char :: "char \<Rightarrow> bool" where
  "word_char c \<longleftrightarrow> c \<noteq> quote_char \<and> \<not> is_space c \<and> c \<notin> set delimiters"

definition lex_word :: "string \<Rightarrow> bool" where
  "lex_word w \<longleftrightarrow> w \<noteq> [] \<and> (list_all word_char w \<or> (\<exists>c \<in> set delimiters. w = [c]))"

definition spaced :: "string list \<Rightarrow> string" where
  "spaced ws = concat (map (\<lambda>w. w @ '' '') ws)"

definition between_words :: "tokenizer \<Rightarrow> string list \<Rightarrow> bool" where
  "between_words k ws \<longleftrightarrow> \<not> tk_in_string k \<and> tk_current k = [] \<and> map tok_text (tk_tokens k) = ws"

lemma space_char [simp]: "is_space (CHR '' '')" "CHR '' '' \<noteq> quote_char" "CHR '' '' \<noteq> newline_char"
  by (simp_all add: is_space_def quote_char_def newline_char_def)

lemma delimiter_char: "c \<in> set delimiters \<Longrightarrow> c \<noteq> quote_char \<and> \<not> is_space c"
  by (auto simp: delimiters_def quote_char_def is_space_def)

lemma tokenize_word_char:
  "word_char c \<Longrightarrow> \<not> tk_in_string k \<Longrightarrow>
     \<not> tk_in_string (tokenize_char k c) \<and> tk_current (tokenize_char k c) = tk_current k @ [c]
     \<and> tk_tokens (tokenize_char k c) = tk_tokens k"
  by (simp add: word_char_def tokenize_char_def Let_def)

lemma tokenize_word_chars:
  "list_all word_char w \<Longrightarrow> \<not> tk_in_string k \<Longrightarrow>
     \<not> tk_in_string (foldl tokenize_char k w) \<and> tk_current (foldl tokenize_char k w) = tk_current k @ w
     \<and> tk_tokens (foldl tokenize_char k w) = tk_tokens k"
proof (induction w arbitrary: k)
  case (Cons c w)
  then show ?case using tokenize_word_char [of c k] Cons.IH [of "tokenize_char k c"] by auto
qed simp

lemma tokenize_space:
  assumes "\<not> tk_in_string k"
  shows "between_words (tokenize_char k (CHR '' '')) (map tok_text (tk_tokens k) @ (if tk_current k = [] then [] else [tk_current k]))"
  using assms by (simp add: between_words_def tokenize_char_def flush_token_def advance_position_def Let_def token_new_def)

lemma tokenize_lex_word:
  assumes "between_words k ws" "lex_word w"
  shows "between_words (foldl tokenize_char k (w @ '' '')) (ws @ [w])"
proof -
  consider "list_all word_char w" "w \<noteq> []" | c where "c \<in> set delimiters" "w = [c]"
    using assms(2) by (auto simp: lex_word_def)
  then show ?thesis
  proof cases
    case 1
    then show ?thesis
      using tokenize_word_chars [OF 1(1), of k] tokenize_space [of "foldl tokenize_char k w"] assms(1) by (simp add: between_words_def)
  next
    case 2
    then have "\<not> tk_in_string (tokenize_char k c) \<and> tk_current (tokenize_char k c) = [] \<and> map tok_text (tk_tokens (tokenize_char k c)) = ws @ [w]"
      using assms(1) delimiter_char [OF 2(1)]
      by (simp add: between_words_def tokenize_char_def flush_token_def Let_def token_new_def)
    then show ?thesis using tokenize_space [of "tokenize_char k c"] 2 by simp
  qed
qed

lemma tokenize_spaced: "list_all lex_word ws \<Longrightarrow> map tok_text (tokenize (spaced ws)) = ws"
proof -
  have "between_words k us \<Longrightarrow> list_all lex_word ws \<Longrightarrow> between_words (foldl tokenize_char k (spaced ws)) (us @ ws)" for k us
  proof (induction ws arbitrary: k us)
    case (Cons w ws)
    then show ?case
      using Cons.IH [OF tokenize_lex_word [of k us w]] by (simp add: spaced_def)
  qed (simp add: spaced_def)
  from this [of tokenizer_new "[]"] show "list_all lex_word ws \<Longrightarrow> ?thesis"
    by (simp add: between_words_def tokenizer_new_def tokenize_def tokenize_end_def flush_token_def)
qed

section \<open>The written form\<close>

definition type_keywords :: "string list" where
  "type_keywords = [''Int'', ''Float'', ''Bool'', ''String'', ''Symbol'', ''Channel'', ''Socket'', ''Variant'', ''Quotation'', ''Closure'']"

fun type_words :: "ty \<Rightarrow> string list"
and stack_words :: "stack_type \<Rightarrow> string list"
and quotation_words :: "effect \<Rightarrow> string list" where
  "type_words TInt = [''Int'']"
| "type_words TFloat = [''Float'']"
| "type_words TBool = [''Bool'']"
| "type_words TString = [''String'']"
| "type_words TSymbol = [''Symbol'']"
| "type_words TChannel = [''Channel'']"
| "type_words TSocket = [''Socket'']"
| "type_words TVariant = [''Variant'']"
| "type_words (TUnion n) = [n]"
| "type_words (TVar n) = [n]"
| "type_words (TQuotation e) = ''['' # quotation_words e"
| "type_words (TClosure e cs) = ''Closure'' # ''['' # quotation_words e"
| "stack_words SEmpty = []"
| "stack_words (SRowVar r) = [''..'' @ r]"
| "stack_words (SCons st t) = stack_words st @ type_words t"
| "quotation_words (Effect i o' es) = stack_words i @ [''--''] @ stack_words o' @ ['']'']"

fun side_effect_words :: "side_effect \<Rightarrow> string list" where
  "side_effect_words (Yield t) = ''Yield'' # type_words t"

fun effect_words :: "effect \<Rightarrow> string list" where
  "effect_words (Effect i o' es) =
     [''(''] @ stack_words i @ [''--''] @ stack_words o' @ (if es = [] then [] else ''|'' # concat (map side_effect_words es)) @ ['')'']"

text \<open>The effects that can be written: \<open>U\<close> are the unions known, \<open>d\<close> the quotation types still allowed around a type.\<close>

definition type_name_ok :: "string \<Rightarrow> bool" where
  "type_name_ok n \<longleftrightarrow> starts_upper n \<and> list_all word_char n \<and> n \<notin> set type_keywords"

fun writable_type :: "name list \<Rightarrow> nat \<Rightarrow> ty \<Rightarrow> bool"
and writable_stack :: "name list \<Rightarrow> nat \<Rightarrow> stack_type \<Rightarrow> bool"
and writable_quotation :: "name list \<Rightarrow> nat \<Rightarrow> effect \<Rightarrow> bool" where
  "writable_type U d (TUnion n) \<longleftrightarrow> type_name_ok n \<and> n \<in> set U"
| "writable_type U d (TVar n) \<longleftrightarrow> type_name_ok n \<and> n \<notin> set U"
| "writable_type U d (TQuotation e) \<longleftrightarrow> 0 < d \<and> writable_quotation U (d - 1) e"
| "writable_type U d (TClosure e cs) \<longleftrightarrow> cs = [] \<and> 0 < d \<and> writable_quotation U (d - 1) e"
| "writable_type U d _ \<longleftrightarrow> True"
| "writable_stack U d SEmpty \<longleftrightarrow> False"
| "writable_stack U d (SRowVar r) \<longleftrightarrow> validate_row_var_name r = Ok ()"
| "writable_stack U d (SCons st t) \<longleftrightarrow> writable_stack U d st \<and> writable_type U d t"
| "writable_quotation U d (Effect i o' es) \<longleftrightarrow> es = [] \<and> writable_stack U d i \<and> writable_stack U d o'"

fun writable_yield :: "name list \<Rightarrow> side_effect \<Rightarrow> bool" where
  "writable_yield U (Yield t) \<longleftrightarrow> writable_type U 0 t"

fun writable :: "name list \<Rightarrow> effect \<Rightarrow> bool" where
  "writable U (Effect i o' es) \<longleftrightarrow>
     writable_stack U max_quotation_depth i \<and> writable_stack U max_quotation_depth o' \<and> list_all (writable_yield U) es"

section \<open>Reading it back\<close>

definition texts :: "parser \<Rightarrow> string list" where
  "texts p = map tok_text (p_rest p)"

definition after :: "nat \<Rightarrow> parser \<Rightarrow> parser" where
  "after k p = p\<lparr>p_rest := drop k (p_rest p)\<rparr>"

lemma texts_after [simp]: "texts (after k p) = drop k (texts p)"
  by (simp add: texts_def after_def drop_map)

lemma after_after [simp]: "after j (after k p) = after (k + j) p"
  by (simp add: after_def add.commute)

lemma after_0 [simp]: "after 0 p = p"
  by (cases p) (simp add: after_def)

lemma known_unions_after [simp]: "known_unions (after k p) = known_unions p"
  by (simp add: after_def)

lemma pop_token_after: "pop_token p = after 1 p"
  by (simp add: pop_token_def after_def drop_Suc)

lemma length_rest: "length (p_rest p) = length (texts p)"
  by (simp add: texts_def)

lemma check_texts: "texts p = w # ws \<Longrightarrow> check p s \<longleftrightarrow> w = s"
  by (auto simp: texts_def check_def)

lemma skip_ordinary:
  assumes "texts p = w # ws" "w \<noteq> ''#''" "w \<noteq> [newline_char]"
  shows "skip_comments p = p"
proof -
  obtain t ts where "p_rest p = t # ts" "tok_text t = w" using assms(1) by (auto simp: texts_def)
  then show ?thesis using assms(2,3) by (cases p) (simp add: skip_comments_def)
qed

lemma rest_texts: "texts p = w # ws \<Longrightarrow> \<exists>t ts. p_rest p = t # ts \<and> tok_text t = w"
  by (auto simp: texts_def)

definition terminators :: "string list" where
  "terminators = [''--'', '']'', '')'', ''|'']"

lemma parse_types_end:
  assumes "texts p = w # ws" "w \<in> set terms"
  shows "parse_types (Suc n) terms ctx d row acc p = pok (row, acc) p"
  using assms by (auto simp: list_ex_iff check_texts)

text \<open>One round of the loop, on a token that is no terminator, comment or line break.\<close>

lemma parse_types_round:
  assumes "texts p = w # ws" "w \<notin> set terminators" "w \<noteq> ''#''" "w \<noteq> [newline_char]" "set terms \<subseteq> set terminators"
  obtains t where "tok_text t = w"
    "parse_types (Suc n) terms ctx d row acc p =
       (let p2 = after 1 p
        in if starts_dots w
           then (let v = trim_dots w
                 in case validate_row_var_name v of
                      Inl e \<Rightarrow> perr e p2
                    | Inr _ \<Rightarrow> parse_types n terms ctx d (Some v) acc p2)
           else if w = ''Closure''
           then (if check p2 ''[''
                 then and_then (parse_quotation_type n d (after 1 p2)) (\<lambda>(e, p3).
                      parse_types n terms ctx d row (acc @ [TClosure e []]) p3)
                 else perr (ExpectedToken ''[ after Closure'') p2)
           else if w = ''[''
           then and_then (parse_quotation_type n d p2) (\<lambda>(e, p3).
                parse_types n terms ctx d row (acc @ [TQuotation e]) p3)
           else (case parse_type p2 t of
                   Inl e \<Rightarrow> perr e p2
                 | Inr ty \<Rightarrow> parse_types n terms ctx d row (acc @ [ty]) p2))"
proof -
  obtain t ts where t: "p_rest p = t # ts" "tok_text t = w" using rest_texts [OF assms(1)] by blast
  have "\<not> list_ex (check p) terms" using assms(2,5) by (auto simp: list_ex_iff check_texts [OF assms(1)])
  then show ?thesis
    using t skip_ordinary [OF assms(1,3,4)] by (intro that [of t]) (simp_all add: pop_token_after Let_def)
qed

lemma ordinary_words [simp]:
  "starts_upper w \<Longrightarrow> w \<notin> set terminators" "starts_upper w \<Longrightarrow> w \<noteq> ''#''" "starts_upper w \<Longrightarrow> w \<noteq> [newline_char]"
  "starts_upper w \<Longrightarrow> \<not> starts_dots w" "starts_upper w \<Longrightarrow> w \<noteq> ''[''"
  "CHR ''.'' # CHR ''.'' # r \<notin> set terminators" "starts_dots (CHR ''.'' # CHR ''.'' # r)"
  "''['' \<notin> set terminators" "''['' \<noteq> ''#''" "CHR ''['' \<noteq> newline_char" "\<not> starts_dots ''[''"
  by (auto simp: starts_upper_def is_upper_def terminators_def newline_char_def starts_dots_def split: list.splits)

lemma trim_row: "validate_row_var_name r = Inr () \<Longrightarrow> trim_dots (''..'' @ r) = r"
  by (cases r rule: trim_dots.cases) (auto simp: validate_row_var_name_def is_lower_def split: if_splits)

lemma starts_upper_simps [simp]: "\<not> starts_upper []" "starts_upper (c # s) \<longleftrightarrow> is_upper c"
  by (simp_all add: starts_upper_def)

fun basic_type :: "ty \<Rightarrow> bool" where
  "basic_type (TQuotation _) \<longleftrightarrow> False"
| "basic_type (TClosure _ _) \<longleftrightarrow> False"
| "basic_type _ \<longleftrightarrow> True"

lemma basic_words:
  assumes "basic_type t" "writable_type U d t"
  shows "\<exists>w. type_words t = [w] \<and> starts_upper w \<and> w \<noteq> ''Closure''
    \<and> (\<forall>p tok. known_unions p = U \<longrightarrow> tok_text tok = w \<longrightarrow> parse_type p tok = Ok t)"
  using assms by (cases t) (auto simp: parse_type_def Let_def type_name_ok_def type_keywords_def is_upper_def)

fun stack_row :: "stack_type \<Rightarrow> name" where
  "stack_row (SCons st t) = stack_row st"
| "stack_row (SRowVar r) = r"
| "stack_row SEmpty = []"

fun stack_types :: "stack_type \<Rightarrow> ty list" where
  "stack_types (SCons st t) = stack_types st @ [t]"
| "stack_types _ = []"

lemma build_stack: "writable_stack U d st \<Longrightarrow> build_stack_type (Some (stack_row st)) (stack_types st) = st"
  by (induction st rule: stack_row.induct) (auto simp: build_stack_type_def st_push_def)

lemma type_words_nonempty: "1 \<le> length (type_words t)"
  by (cases t) auto

lemma entries_words: "writable_stack U d st \<Longrightarrow> Suc (length (stack_types st)) \<le> length (stack_words st)"
proof (induction st rule: stack_types.induct)
  case (1 st t)
  then show ?case using type_words_nonempty [of t] by simp
qed auto

lemma read_basic:
  assumes "basic_type t" "writable_type U d t" "known_unions p = U" "texts p = type_words t @ r" "set terms \<subseteq> set terminators"
  shows "parse_types (Suc n) terms ctx k row acc p = parse_types n terms ctx k row (acc @ [t]) (after (length (type_words t)) p)"
proof -
  obtain w where w: "type_words t = [w]" "starts_upper w" "w \<noteq> ''Closure''"
      "\<And>p tok. known_unions p = U \<Longrightarrow> tok_text tok = w \<Longrightarrow> parse_type p tok = Ok t"
    using basic_words [OF assms(1,2)] by blast
  have "texts p = w # r" using assms(4) w(1) by simp
  then show ?thesis
    by (rule parse_types_round [where terms = terms and n = n and ctx = ctx and d = k and row = row and acc = acc])
      (use assms(3,5) w in \<open>auto simp: Let_def simp del: parse_types.simps\<close>)
qed

text \<open>
  A type takes one unit of the fuel, a stack one for each entry, and a quotation type its own.
\<close>

definition reads_type :: "name list \<Rightarrow> nat \<Rightarrow> ty \<Rightarrow> bool" where
  "reads_type U d t \<longleftrightarrow> (\<forall>p n r terms ctx row acc k.
     known_unions p = U \<longrightarrow> texts p = type_words t @ r \<longrightarrow> length (texts p) \<le> n \<longrightarrow> set terms \<subseteq> set terminators \<longrightarrow>
     k + d = max_quotation_depth \<longrightarrow>
     parse_types (Suc n) terms ctx k row acc p = parse_types n terms ctx k row (acc @ [t]) (after (length (type_words t)) p))"

definition reads_stack :: "name list \<Rightarrow> nat \<Rightarrow> stack_type \<Rightarrow> bool" where
  "reads_stack U d st \<longleftrightarrow> (\<forall>p n r terms ctx k.
     known_unions p = U \<longrightarrow> texts p = stack_words st @ r \<longrightarrow> length (texts p) < n + Suc (length (stack_types st)) \<longrightarrow>
     set terms \<subseteq> set terminators \<longrightarrow> k + d = max_quotation_depth \<longrightarrow>
     parse_types (n + Suc (length (stack_types st))) terms ctx k None [] p =
       parse_types n terms ctx k (Some (stack_row st)) (stack_types st) (after (length (stack_words st)) p))"

definition reads_quotation :: "name list \<Rightarrow> nat \<Rightarrow> effect \<Rightarrow> bool" where
  "reads_quotation U d e \<longleftrightarrow> (\<forall>p n r k.
     known_unions p = U \<longrightarrow> texts p = quotation_words e @ r \<longrightarrow> length (texts p) < n \<longrightarrow> Suc k + d = max_quotation_depth \<longrightarrow>
     parse_quotation_type n k p = pok e (after (length (quotation_words e)) p))"

lemma reads_typeD:
  "reads_type U d t \<Longrightarrow> known_unions p = U \<Longrightarrow> texts p = type_words t @ r \<Longrightarrow> length (texts p) \<le> n \<Longrightarrow> set terms \<subseteq> set terminators \<Longrightarrow>
   k + d = max_quotation_depth \<Longrightarrow>
   parse_types (Suc n) terms ctx k row acc p = parse_types n terms ctx k row (acc @ [t]) (after (length (type_words t)) p)"
  unfolding reads_type_def by blast

lemma reads_stackD:
  "reads_stack U d st \<Longrightarrow> known_unions p = U \<Longrightarrow> texts p = stack_words st @ r \<Longrightarrow> length (texts p) < n + Suc (length (stack_types st)) \<Longrightarrow>
   set terms \<subseteq> set terminators \<Longrightarrow> k + d = max_quotation_depth \<Longrightarrow>
   parse_types (n + Suc (length (stack_types st))) terms ctx k None [] p =
     parse_types n terms ctx k (Some (stack_row st)) (stack_types st) (after (length (stack_words st)) p)"
  unfolding reads_stack_def by blast

lemma reads_basic: "basic_type t \<Longrightarrow> writable_type U d t \<Longrightarrow> reads_type U d t"
  unfolding reads_type_def using read_basic by blast

lemma reads_until:
  assumes "reads_stack U d st" "writable_stack U d st" "known_unions p = U" "texts p = stack_words st @ w # r" "length (texts p) < n"
    "w \<in> set terms" "set terms \<subseteq> set terminators" "k + d = max_quotation_depth"
  shows "parse_type_list_until n terms ctx k p = pok (Some (stack_row st), stack_types st) (after (length (stack_words st)) p)"
proof -
  let ?e = "Suc (length (stack_types st))"
  have "?e \<le> length (stack_words st)" by (rule entries_words [OF assms(2)])
  moreover have "length (stack_words st) + 1 < n" using assms(4,5) by simp
  ultimately obtain m where m: "n = Suc m + ?e" by (metis Suc_leI add.commute add_Suc_right le_Suc_ex le_trans less_imp_le_nat order_le_less_trans Suc_eq_plus1 less_natE Suc_le_mono)
  have "parse_types (Suc m + ?e) terms ctx k None [] p =
      parse_types (Suc m) terms ctx k (Some (stack_row st)) (stack_types st) (after (length (stack_words st)) p)"
    using assms(3-5,7,8) m by (intro reads_stackD [OF assms(1)]) auto
  then show ?thesis
    using parse_types_end [of "after (length (stack_words st)) p" w r terms m] assms(4,6,8) m
    by (simp del: parse_types.simps)
qed

lemma read_stack_row:
  assumes "validate_row_var_name r' = Inr ()"
  shows "reads_stack U d (SRowVar r')"
  unfolding reads_stack_def
proof (intro allI impI)
  fix p :: parser and n r terms ctx k
  assume "texts p = stack_words (SRowVar r') @ r" "set terms \<subseteq> set terminators"
  then have "texts p = (''..'' @ r') # r" "set terms \<subseteq> set terminators" by simp_all
  then show "parse_types (n + Suc (length (stack_types (SRowVar r')))) terms ctx k None [] p =
      parse_types n terms ctx k (Some (stack_row (SRowVar r'))) (stack_types (SRowVar r')) (after (length (stack_words (SRowVar r'))) p)"
    by (rule_tac parse_types_round [where p = p and terms = terms and n = n and ctx = ctx and d = k and row = None and acc = "[]"])
      (use trim_row [OF assms] assms in \<open>auto simp: Let_def simp del: parse_types.simps\<close>)
qed

lemma read_stack_push:
  assumes st: "reads_stack U d st" "writable_stack U d st" and t: "reads_type U d t"
  shows "reads_stack U d (SCons st t)"
  unfolding reads_stack_def
proof (intro allI impI)
  fix p :: parser and n r terms ctx k
  assume p: "known_unions p = U" "texts p = stack_words (SCons st t) @ r" "length (texts p) < n + Suc (length (stack_types (SCons st t)))"
      "set terms \<subseteq> set terminators" "k + d = max_quotation_depth"
  let ?q = "after (length (stack_words st)) p"
  have "parse_types (Suc n + Suc (length (stack_types st))) terms ctx k None [] p =
      parse_types (Suc n) terms ctx k (Some (stack_row st)) (stack_types st) ?q"
    using p by (intro reads_stackD [OF st(1)]) auto
  moreover have "length (texts ?q) \<le> n" using p(2,3) entries_words [OF st(2)] by simp
  then have "parse_types (Suc n) terms ctx k (Some (stack_row st)) (stack_types st) ?q =
      parse_types n terms ctx k (Some (stack_row st)) (stack_types st @ [t]) (after (length (type_words t)) ?q)"
    using p by (intro reads_typeD [OF t]) auto
  ultimately show "parse_types (n + Suc (length (stack_types (SCons st t)))) terms ctx k None [] p =
      parse_types n terms ctx k (Some (stack_row (SCons st t))) (stack_types (SCons st t)) (after (length (stack_words (SCons st t))) p)"
    by (simp del: parse_types.simps)
qed

lemma read_quotation:
  assumes i: "reads_stack U d i" "writable_stack U d i" and o': "reads_stack U d o'" "writable_stack U d o'"
  shows "reads_quotation U d (Effect i o' [])"
  unfolding reads_quotation_def
proof (intro allI impI)
  fix p :: parser and n r k
  assume p: "known_unions p = U" "texts p = quotation_words (Effect i o' []) @ r" "length (texts p) < n" "Suc k + d = max_quotation_depth"
  let ?q = "after (Suc (length (stack_words i))) p"
  have "parse_type_list_until n [''--'', '']''] ctx (Suc k) p =
      pok (Some (stack_row i), stack_types i) (after (length (stack_words i)) p)" for ctx
    using p by (intro reads_until [OF i]) (auto simp: terminators_def)
  moreover have "parse_type_list_until n ['']''] ctx (Suc k) ?q =
      pok (Some (stack_row o'), stack_types o') (after (length (stack_words o')) ?q)" for ctx
    using p by (intro reads_until [OF o']) (auto simp: terminators_def)
  ultimately show "parse_quotation_type n k p = pok (Effect i o' []) (after (length (quotation_words (Effect i o' []))) p)"
    using p(2) build_stack [OF i(2)] build_stack [OF o'(2)]
    by (simp add: check_texts pop_token_after effect_new_def pok_def del: parse_type_list_until.simps)
qed

lemma read_quotation_type:
  assumes "0 < d" "reads_quotation U (d - 1) e"
  shows "reads_type U d (TQuotation e)" "reads_type U d (TClosure e [])"
proof -
  have q: "parse_quotation_type n k q = pok e (after (length (quotation_words e)) q)"
    if "known_unions q = U" "texts q = quotation_words e @ r" "length (texts q) < n" "k + d = max_quotation_depth" for q n r k
    using assms that unfolding reads_quotation_def by (metis Suc_pred' add_Suc add_Suc_right)
  show "reads_type U d (TQuotation e)"
    unfolding reads_type_def
  proof (intro allI impI)
    fix p :: parser and n r terms ctx row acc k
    assume p: "known_unions p = U" "texts p = type_words (TQuotation e) @ r" "length (texts p) \<le> n"
      "set terms \<subseteq> set terminators" "k + d = max_quotation_depth"
    have "texts p = ''['' # quotation_words e @ r" using p(2) by simp
    then show "parse_types (Suc n) terms ctx k row acc p =
        parse_types n terms ctx k row (acc @ [TQuotation e]) (after (length (type_words (TQuotation e))) p)"
      by (rule parse_types_round [where terms = terms and n = n and ctx = ctx and d = k and row = row and acc = acc])
        (use p q [of "after 1 p" r n k] in \<open>auto simp: Let_def pok_def simp del: parse_types.simps parse_quotation_type.simps\<close>)
  qed
  show "reads_type U d (TClosure e [])"
    unfolding reads_type_def
  proof (intro allI impI)
    fix p :: parser and n r terms ctx row acc k
    assume p: "known_unions p = U" "texts p = type_words (TClosure e []) @ r" "length (texts p) \<le> n"
      "set terms \<subseteq> set terminators" "k + d = max_quotation_depth"
    have "texts p = ''Closure'' # ''['' # quotation_words e @ r" using p(2) by simp
    then show "parse_types (Suc n) terms ctx k row acc p =
        parse_types n terms ctx k row (acc @ [TClosure e []]) (after (length (type_words (TClosure e []))) p)"
      by (rule parse_types_round [where terms = terms and n = n and ctx = ctx and d = k and row = row and acc = acc])
        (use p q [of "after 2 p" r n k] in \<open>auto simp: Let_def pok_def check_texts is_upper_def numeral_2_eq_2 simp del: parse_types.simps parse_quotation_type.simps\<close>)
  qed
qed

lemma read_all:
  "writable_type U d t \<Longrightarrow> reads_type U d t"
  "writable_stack U d st \<Longrightarrow> reads_stack U d st"
  "writable_quotation U d e \<Longrightarrow> reads_quotation U d e"
proof (induction U d t and U d st and U d e rule: writable_type_writable_stack_writable_quotation.induct)
qed (auto intro: reads_basic read_stack_row read_stack_push read_quotation read_quotation_type)

lemma read_yields:
  assumes "list_all (writable_yield U) es" "known_unions p = U" "texts p = concat (map side_effect_words es) @ '')'' # r" "length (texts p) < n"
  shows "parse_effect_loop n acc p = pok (acc @ es) (after (length (concat (map side_effect_words es))) p)"
  using assms
proof (induction es arbitrary: acc p n)
  case Nil
  then obtain m where "n = Suc m" by (cases n) auto
  then show ?case using Nil rest_texts [of p "'')''" r] by auto
next
  case (Cons e es)
  obtain t where e: "e = Yield t" by (cases e)
  have t: "writable_type U 0 t" "basic_type t" using Cons.prems(1) e by (cases t; auto)+
  obtain w where w: "type_words t = [w]" "starts_upper w"
      "\<And>p tok. known_unions p = U \<Longrightarrow> tok_text tok = w \<Longrightarrow> parse_type p tok = Ok t"
    using basic_words [OF t(2,1)] by blast
  obtain m where m: "n = Suc m" using Cons.prems(4) by (cases n) auto
  have p: "texts p = ''Yield'' # w # concat (map side_effect_words es) @ '')'' # r" using Cons.prems(3) e w(1) by simp
  obtain a ts where a: "p_rest p = a # ts" "tok_text a = ''Yield''" using rest_texts [OF p] by blast
  obtain b us where b: "ts = b # us" "tok_text b = w" using p a by (auto simp: texts_def)
  have "parse_effect_loop m (acc @ [Yield t]) (after 2 p) = pok ((acc @ [Yield t]) @ es) (after (length (concat (map side_effect_words es))) (after 2 p))"
    using Cons.prems p m by (intro Cons.IH) auto
  then show ?case
    using m a b w(2) w(3) [of "after 2 p" b] Cons.prems(2) e w(1)
    by (auto simp: pop_token_after Let_def after_def is_upper_def drop_Suc)
qed

section \<open>The round trip\<close>

lemma lex_fixed [simp]:
  "lex_word ''--''" "lex_word ''['' " "lex_word '']''" "lex_word ''(''" "lex_word '')''" "lex_word ''|''" "lex_word ''Yield''"
  "lex_word ''Closure''" "lex_word ''Int''" "lex_word ''Float''" "lex_word ''Bool''" "lex_word ''String''" "lex_word ''Symbol''"
  "lex_word ''Channel''" "lex_word ''Socket''" "lex_word ''Variant''"
  by (simp_all add: lex_word_def word_char_def delimiters_def quote_char_def is_space_def)

lemma alphanumeric_word_char: "is_alphanumeric c \<or> c = CHR ''_'' \<or> c = CHR ''.'' \<Longrightarrow> word_char c"
  by (auto simp: word_char_def delimiters_def quote_char_def is_space_def is_alphanumeric_def is_upper_def is_lower_def is_digit_char_def)

lemma lex_names [simp]:
  "type_name_ok n \<Longrightarrow> lex_word n"
  "validate_row_var_name r = Inr () \<Longrightarrow> lex_word (CHR ''.'' # CHR ''.'' # r)"
  by (auto simp: lex_word_def type_name_ok_def validate_row_var_name_def list_all_iff list_ex_iff
      intro: alphanumeric_word_char split: list.splits if_splits)

lemma words_lex:
  "writable_type U d t \<Longrightarrow> list_all lex_word (type_words t)"
  "writable_stack U d st \<Longrightarrow> list_all lex_word (stack_words st)"
  "writable_quotation U d e \<Longrightarrow> list_all lex_word (quotation_words e)"
  by (induction U d t and U d st and U d e rule: writable_type_writable_stack_writable_quotation.induct) auto

lemma yields_lex: "list_all (writable_yield U) es \<Longrightarrow> list_all lex_word (concat (map side_effect_words es))"
proof (induction es)
  case (Cons e es)
  then show ?case using words_lex(1) by (cases e) auto
qed simp

lemma read_effect:
  assumes "writable U e" "known_unions p = U" "texts p = effect_words e @ r" "length (texts p) < n"
  shows "parse_stack_effect n p = pok e (after (length (effect_words e)) p)"
proof -
  obtain i o' es where e: "e = Effect i o' es" by (cases e)
  then have w: "writable_stack U max_quotation_depth i" "writable_stack U max_quotation_depth o'" "list_all (writable_yield U) es"
    using assms(1) by simp_all
  note rs = w(1,2) [THEN read_all(2)]
  let ?q = "after (length (stack_words i) + 2) p"
  let ?s = "after (length (stack_words o')) ?q"
  have p: "texts p = ''('' # stack_words i @ ''--'' # stack_words o' @ (if es = [] then [] else ''|'' # concat (map side_effect_words es)) @ '')'' # r"
    using assms(3) e by simp
  have 1: "parse_type_list_until n [''--'', '')''] ctx 0 (after 1 p) =
      pok (Some (stack_row i), stack_types i) (after (length (stack_words i)) (after 1 p))" for ctx
    using assms(2,4) p by (intro reads_until [OF rs(1) w(1)]) (auto simp: terminators_def)
  have 2: "parse_type_list_until n ['')'', ''|''] ctx 0 ?q = pok (Some (stack_row o'), stack_types o') ?s" for ctx
    using assms(2,4) p
    by (cases "es = []"; intro reads_until [OF rs(2) w(2)]) (auto simp: terminators_def)
  have 3: "(if check ?s ''|'' then parse_effect_annotations n (pop_token ?s) else pok [] ?s) =
      pok es (after (length (effect_words e) - 1) p)"
  proof (cases "es = []")
    case True
    then show ?thesis using p e by (simp add: check_texts)
  next
    case False
    then have "parse_effect_loop n [] (after 1 ?s) = pok ([] @ es) (after (length (concat (map side_effect_words es))) (after 1 ?s))"
      using assms(2,4) p by (intro read_yields [OF w(3)]) auto
    with False show ?thesis using p e by (simp add: check_texts pop_token_after parse_effect_annotations_def pok_def add.assoc)
  qed
  show ?thesis
    unfolding parse_stack_effect_def
    using p 1 2 3 e build_stack [OF w(1)] build_stack [OF w(2)]
    by (cases "es = []") (simp_all add: check_texts pop_token_after pok_def effect_with_effects_def del: parse_type_list_until.simps)
qed

lemma effect_lex: "writable U e \<Longrightarrow> list_all lex_word (effect_words e)"
  using words_lex(2) yields_lex by (cases e) auto

lemma register_unions:
  "p_rest (register_union_names q ns) = p_rest q"
  "set (known_unions (register_union_names q ns)) = set (known_unions q) \<union> set ns"
  unfolding register_union_names_def by (induction ns arbitrary: q) auto

lemma writable_unions:
  "set U = set V \<Longrightarrow> writable_type U d t \<longleftrightarrow> writable_type V d t"
  "set U = set V \<Longrightarrow> writable_stack U d st \<longleftrightarrow> writable_stack V d st"
  "set U = set V \<Longrightarrow> writable_quotation U d e \<longleftrightarrow> writable_quotation V d e"
  by (induction U d t and U d st and U d e rule: writable_type_writable_stack_writable_quotation.induct) auto

lemma writable_set: "set U = set V \<Longrightarrow> writable U e \<Longrightarrow> writable V e"
proof -
  assume UV: "set U = set V"
  have "writable_yield U y \<longleftrightarrow> writable_yield V y" for y by (cases y) (simp add: writable_unions(1) [OF UV])
  then show "writable U e \<Longrightarrow> writable V e" by (cases e) (simp add: writable_unions(2) [OF UV] list_all_iff)
qed

text \<open>C27: Writing and reading stack effects is a round trip.  Take an effect whose rows are named, whose type names are not keywords and agree
  with the unions known to the parser, whose quotation types nest at most 32 deep and have no annotations of their own; write its words joined by
  blanks, with any further words behind it.  Then tokenizing the text and running \<open>parse_stack_effect\<close> on it, with one unit of fuel more
  than there are tokens, yields the effect, with the tokens of the further words left.\<close>

theorem effect_syntax_round_trip:
  assumes "writable U e" "list_all lex_word ws"
  shows "\<exists>p'. parse_stack_effect (Suc (length (effect_words e @ ws))) (register_union_names (parser_new (spaced (effect_words e @ ws))) U)
            = pok e p' \<and> map tok_text (p_rest p') = ws"
proof -
  let ?p = "register_union_names (parser_new (spaced (effect_words e @ ws))) U"
  have "set (known_unions ?p) = set U" using register_unions [of "parser_new (spaced (effect_words e @ ws))"] by (simp add: parser_new_def)
  then have w: "writable (known_unions ?p) e" using writable_set assms(1) by metis
  have "map tok_text (tokenize (spaced (effect_words e @ ws))) = effect_words e @ ws"
    using effect_lex [OF assms(1)] assms(2) by (intro tokenize_spaced) simp
  then have t: "texts ?p = effect_words e @ ws"
    using register_unions [of "parser_new (spaced (effect_words e @ ws))" U] by (simp add: texts_def parser_new_def)
  then have "parse_stack_effect (Suc (length (effect_words e @ ws))) ?p = pok e (after (length (effect_words e)) ?p)"
    using w by (intro read_effect) auto
  moreover have "map tok_text (p_rest (after (length (effect_words e)) ?p)) = ws"
    using texts_after [of "length (effect_words e)" ?p] t by (simp add: texts_def)
  ultimately show ?thesis by blast
qed

text \<open>The written form of an effect of the \<open>filter\<close> kind: a union, a type variable, a nested quotation type and an annotation.\<close>

theorem effect_syntax_round_trip_witness:
  "\<exists>p'. parse_stack_effect 19 (register_union_names (parser_new
       ''( ..a Opt [ ..a T -- ..a Bool ] -- ..a T | Yield Int ) dup '') [''Opt''])
     = pok (Effect (SCons (SCons (SRowVar ''a'') (TUnion ''Opt''))
              (TQuotation (Effect (SCons (SRowVar ''a'') (TVar ''T'')) (SCons (SRowVar ''a'') TBool) [])))
            (SCons (SRowVar ''a'') (TVar ''T'')) [Yield TInt]) p'
     \<and> map tok_text (p_rest p') = [''dup'']"
  using effect_syntax_round_trip [of "[''Opt'']" "Effect (SCons (SCons (SRowVar ''a'') (TUnion ''Opt''))
              (TQuotation (Effect (SCons (SRowVar ''a'') (TVar ''T'')) (SCons (SRowVar ''a'') TBool) [])))
            (SCons (SRowVar ''a'') (TVar ''T'')) [Yield TInt]" "[''dup'']"]
  by (simp add: validate_row_var_name_def is_lower_def is_alphanumeric_def type_name_ok_def is_upper_def type_keywords_def
      word_char_def quote_char_def is_space_def delimiters_def lex_word_def max_quotation_depth_def spaced_def eval_nat_numeral)

end
