(* ===== verification/Normalize.thy ===== *)
theory Normalize
  imports Seq_Ast
begin

text \<open>
  The lowering of literal \<open>if\<close> combinators, after \<open>crates/compiler/src/normalize.rs\<close>: two literal quotations followed by
  the word \<open>if\<close> become a conditional, in every nested body.  The pass keeps what the program says, up to
  the two spellings of a conditional, and leaves no such triple behind.
\<close>

section \<open>The pass\<close>

text \<open>The index into the statement vector is the position in the list; the statements before it are done.\<close>

fun is_inline_triple :: "statement list \<Rightarrow> bool" where
  "is_inline_triple (Quotation _ _ _ # Quotation _ _ _ # WordCall n _ # _) \<longleftrightarrow> n = ''if''"
| "is_inline_triple _ \<longleftrightarrow> False"

lemma size_arm_mem: "a \<in> set arms \<Longrightarrow> size a < Suc (size_list size arms)"
  by (induction arms) auto

function (sequential) rewrite_statements :: "statement list \<Rightarrow> statement list"
and rewrite_statement :: "statement \<Rightarrow> statement"
and rewrite_arm :: "match_arm \<Rightarrow> match_arm" where
  "rewrite_statements [] = []"
| "rewrite_statements (x # xs) =
     (if is_inline_triple (x # xs)
      then (case (x, xs) of
              (Quotation _ then_body _, Quotation _ else_body _ # WordCall _ if_span # rest) \<Rightarrow>
                If (rewrite_statements then_body) (Some (rewrite_statements else_body)) if_span # rewrite_statements rest
            | _ \<Rightarrow> x # xs)
      else rewrite_statement x # rewrite_statements xs)"
| "rewrite_statement (If then_branch else_branch sp) =
     If (rewrite_statements then_branch) (map_option rewrite_statements else_branch) sp"
| "rewrite_statement (Match arms sp) = Match (map rewrite_arm arms) sp"
| "rewrite_statement (Quotation i body sp) = Quotation i (rewrite_statements body) sp"
| "rewrite_statement x = x"
| "rewrite_arm (MatchArm pat body sp) = MatchArm pat (rewrite_statements body) sp"
  by pat_completeness auto

termination
  by (relation "measure (\<lambda>x. case x of Inl ss \<Rightarrow> 2 * size_list size ss | Inr (Inl st) \<Rightarrow> 2 * size st + 1 | Inr (Inr a) \<Rightarrow> 2 * size a + 1)")
    (auto dest: size_arm_mem)

definition lower_literal_if_combinators :: "seq_program \<Rightarrow> seq_program" where
  "lower_literal_if_combinators p =
     p\<lparr>prog_words := map (\<lambda>w. w\<lparr>wd_body := rewrite_statements (wd_body w)\<rparr>) (prog_words p)\<rparr>"

section \<open>What a body says\<close>

text \<open>
  \<open>reading\<close> is a body with every conditional that has both branches in its combinator spelling, whether the
  pass has lowered it or not.
\<close>

datatype item = Atom statement | Word name "span option" | Block "item list" | Cases "(pattern \<times> item list \<times> span option) list" "span option"
  | Cond "item list" "span option"

function (sequential) reading :: "statement list \<Rightarrow> item list"
and reading_arm :: "match_arm \<Rightarrow> pattern \<times> item list \<times> span option" where
  "reading [] = []"
| "reading (If t (Some e) sp # xs) = Block (reading t) # Block (reading e) # Word ''if'' sp # reading xs"
| "reading (If t None sp # xs) = Cond (reading t) sp # reading xs"
| "reading (Quotation i b sp # xs) = Block (reading b) # reading xs"
| "reading (Match arms sp # xs) = Cases (map reading_arm arms) sp # reading xs"
| "reading (WordCall w sp # xs) = Word w sp # reading xs"
| "reading (x # xs) = Atom x # reading xs"
| "reading_arm (MatchArm pat body sp) = (pat, reading body, sp)"
  by pat_completeness auto

termination
  by (relation "measure (\<lambda>x. case x of Inl ss \<Rightarrow> 2 * size_list size ss | Inr a \<Rightarrow> 2 * size a + 1)")
    (auto dest: size_arm_mem)

function (sequential) triple_free :: "statement list \<Rightarrow> bool"
and arm_triple_free :: "match_arm \<Rightarrow> bool" where
  "triple_free [] \<longleftrightarrow> True"
| "triple_free (x # xs) \<longleftrightarrow>
     \<not> is_inline_triple (x # xs) \<and> triple_free xs \<and>
     (case x of
        If t e _ \<Rightarrow> triple_free t \<and> (case e of Some b \<Rightarrow> triple_free b | None \<Rightarrow> True)
      | Quotation _ b _ \<Rightarrow> triple_free b
      | Match arms _ \<Rightarrow> list_all arm_triple_free arms
      | _ \<Rightarrow> True)"
| "arm_triple_free (MatchArm _ body _) \<longleftrightarrow> triple_free body"
  by pat_completeness auto

termination
  by (relation "measure (\<lambda>x. case x of Inl ss \<Rightarrow> 2 * size_list size ss | Inr a \<Rightarrow> 2 * size a + 1)")
    (auto dest: size_arm_mem)

section \<open>The pass keeps the reading\<close>

lemma reading_Cons: "reading (x # xs) = reading [x] @ reading xs"
  by (cases "x # xs" rule: reading.cases) auto

lemma inline_tripleE:
  assumes "is_inline_triple (x # xs)"
  obtains i b p j c q sp ys where "x = Quotation i b p" "xs = Quotation j c q # WordCall ''if'' sp # ys"
  using assms by (auto elim!: is_inline_triple.elims)

lemma rewrite_reading:
  "reading (rewrite_statements ss) = reading ss"
  "reading [rewrite_statement st] = reading [st]"
  "reading_arm (rewrite_arm a) = reading_arm a"
proof (induction ss and st and a rule: rewrite_statements_rewrite_statement_rewrite_arm.induct)
  case (2 x xs)
  show ?case
  proof (cases "is_inline_triple (x # xs)")
    case True
    then show ?thesis using 2(1-3) [OF True] by (elim inline_tripleE) simp
  next
    case False
    then show ?thesis
      using 2(4,5) [OF False] reading_Cons [of x xs] reading_Cons [of "rewrite_statement x" "rewrite_statements xs"] by simp
  qed
next
  case (3 t e sp)
  then show ?case by (cases e) auto
qed auto

section \<open>No literal triple is left\<close>

lemma rewrite_statement_head:
  "rewrite_statement x = Quotation i b p \<Longrightarrow> \<exists>j c q. x = Quotation j c q"
  "rewrite_statement x = WordCall w sp \<Longrightarrow> x = WordCall w sp"
  by (cases x rule: rewrite_statement.cases; simp)+

lemma rewrite_head:
  "rewrite_statements xs = Quotation i b p # r \<Longrightarrow> \<exists>j c q ys. xs = Quotation j c q # ys \<and> r = rewrite_statements ys"
  "rewrite_statements xs = WordCall w sp # r \<Longrightarrow> \<exists>ys. xs = WordCall w sp # ys"
  by (cases xs; auto split: if_splits dest: rewrite_statement_head elim!: inline_tripleE)+

lemma rewrite_no_triple:
  "\<not> is_inline_triple (x # xs) \<Longrightarrow> \<not> is_inline_triple (rewrite_statement x # rewrite_statements xs)"
  by (auto elim!: inline_tripleE dest!: rewrite_head rewrite_head(2) [OF sym] rewrite_statement_head)

lemma rewrite_triple_free:
  "triple_free (rewrite_statements ss)"
  "triple_free [rewrite_statement st]"
  "arm_triple_free (rewrite_arm a)"
proof (induction ss and st and a rule: rewrite_statements_rewrite_statement_rewrite_arm.induct)
  case (2 x xs)
  show ?case
  proof (cases "is_inline_triple (x # xs)")
    case True
    then show ?thesis using 2(1-3) [OF True] by (elim inline_tripleE) simp
  next
    case False
    then show ?thesis using 2(4,5) [OF False] rewrite_no_triple [OF False] by simp
  qed
next
  case (3 t e sp)
  then show ?case by (cases e) auto
qed (auto simp: list_all_iff)

lemma triple_free_fixed:
  "triple_free ss \<Longrightarrow> rewrite_statements ss = ss"
  "triple_free [st] \<Longrightarrow> rewrite_statement st = st"
  "arm_triple_free a \<Longrightarrow> rewrite_arm a = a"
proof (induction ss and st and a rule: rewrite_statements_rewrite_statement_rewrite_arm.induct)
  case (3 t e sp)
  then show ?case by (cases e) auto
next
  case (4 arms sp)
  then show ?case by (auto simp: list_all_iff intro: map_idI)
qed auto

text \<open>C29: Lowering the literal conditionals of a program keeps its includes, its unions, its words with their signatures, and the reading of every body, where
  a two-branch conditional and the combinator spelling of it read the same; it leaves no literal triple in any body, however
  deep; and it does nothing on a program that has none, so that running it twice is running it once.\<close>

theorem lowering_correct:
  "prog_includes (lower_literal_if_combinators p) = prog_includes p
   \<and> prog_unions (lower_literal_if_combinators p) = prog_unions p
   \<and> map (\<lambda>w. w\<lparr>wd_body := []\<rparr>) (prog_words (lower_literal_if_combinators p)) = map (\<lambda>w. w\<lparr>wd_body := []\<rparr>) (prog_words p)
   \<and> map (reading \<circ> wd_body) (prog_words (lower_literal_if_combinators p)) = map (reading \<circ> wd_body) (prog_words p)
   \<and> list_all (triple_free \<circ> wd_body) (prog_words (lower_literal_if_combinators p))
   \<and> lower_literal_if_combinators (lower_literal_if_combinators p) = lower_literal_if_combinators p"
  by (simp add: lower_literal_if_combinators_def rewrite_reading rewrite_triple_free triple_free_fixed list_all_iff)

end
