(* ===== verification/Syntax_Examples.thy ===== *)
theory Syntax_Examples
  imports Parser Normalize "HOL-Library.Code_Target_Nat"
begin

text \<open>
  The tokenizer, the parser and the lowering pass evaluated on small sources: a program with a union, a match and a
  literal conditional, and the inputs on which the parser and \<open>docs/GRAMMAR.md\<close> disagree.
\<close>

definition source_lines :: "string list \<Rightarrow> string" where
  "source_lines ls = concat (map (\<lambda>l. l @ [newline_char]) ls)"

definition first_body :: "(parse_failure + seq_program \<times> parser) option \<Rightarrow> statement list option" where
  "first_body r = (case r of Some (Inr (p, _)) \<Rightarrow> (case prog_words p of w # _ \<Rightarrow> Some (wd_body w) | [] \<Rightarrow> None) | _ \<Rightarrow> None)"

section \<open>A program\<close>

lemma parse_program:
  "map_option (map_sum id (\<lambda>(p, q). (map ud_name (prog_unions p), map (\<lambda>w. (wd_name w, wd_allowed_lints w)) (prog_words p), next_quotation_id q)))
     (parse 90 (parser_new (source_lines
       [''# shapes'', ''include std:list'', ''union Opt { None Some { value: Int } }'', ''# seq:allow(unused)'',
        '': get ( Opt -- Int ) match None -> 0 Some { >value } -> end ;'', '': main ( -- Int ) true [ 1 ] [ 0x10 ] if ;''])))
   = Some (Ok ([''Opt''], [(''get'', [''unused'']), (''main'', [])], 2))"
  by code_simp

lemma parse_lower_conditional:
  "map_option rewrite_statements (first_body (parse 30 (parser_new '': main ( -- Int ) true [ 1 ] [ 0x10 ] if ;'')))
   = Some [BoolLiteral True, If [IntLiteral 1] (Some [IntLiteral 16]) (Some \<lparr>sp_line = 0, sp_column = 38, sp_length = 2\<rparr>)]"
  by code_simp

section \<open>Corners\<close>

text \<open>A quote in a comment opens a string; the grammar lets a comment hold any character.\<close>

lemma quote_in_comment:
  "parse 20 (parser_new (source_lines [''# say '' @ [quote_char] @ ''hi'', '': main ( -- ) ;'']))
   = Some (Err (ParseFailure (UnclosedString 1 7) 1))"
  by code_simp

text \<open>A hexadecimal escape takes a plus sign for its first digit, and a decimal literal one for its sign.\<close>

lemma plus_in_numbers:
  "unescape_string ([backslash] @ ''x+f'') = Ok [CHR 0x0F]"
  "first_body (parse 10 (parser_new '': main +5 0x-f ;'')) = Some [IntLiteral 5, IntLiteral (- 15)]"
  by code_simp+

text \<open>A high hexadecimal escape is one byte.\<close>

lemma high_escape: "unescape_string ([backslash] @ ''xDC'') = Ok [CHR 0xDC]"
  by code_simp

text \<open>The conditional of the grammar is refused, and so are an empty match and an empty union.\<close>

lemma grammar_rejected:
  "parse 10 (parser_new '': main true if 1 else 2 then ;'') = Some (Err (ParseFailure (NoLongerKeyword 1 ''else'') 1))"
  "parse 10 (parser_new '': main match end ;'') = Some (Err (ParseFailure EmptyMatchExpression 1))"
  "parse 10 (parser_new ''union Void { }'') = Some (Err (ParseFailure (EmptyUnion ''Void'') 1))"
  by code_simp+

text \<open>The commas of a field list are optional, and a row variable may stand anywhere in a type list, the last one counting.\<close>

lemma grammar_extended:
  "map_option (map_sum id (map (map uv_fields \<circ> ud_variants) \<circ> prog_unions \<circ> fst)) (parse 20 (parser_new ''union P { Q { a: Int b: Int } }''))
   = Some (Ok [[[\<lparr>uf_name = ''a'', uf_type_name = ''Int''\<rparr>, \<lparr>uf_name = ''b'', uf_type_name = ''Int''\<rparr>]]])"
  "map_option (map_sum id fst) (parse_stack_effect 10 (parser_new ''( Int ..a ..b -- )''))
   = Some (Ok (Effect (SCons (SRowVar ''b'') TInt) (SRowVar ''rest'') []))"
  by code_simp+

text \<open>The error for a row variable with the name of a type is never raised: such a name fails the test before it.\<close>

lemma type_name_row_unreachable: "validate_row_var_name s \<noteq> Err (RowVarTypeName u)"
  by (auto simp: validate_row_var_name_def is_lower_def split: list.split)

end
