(* ===== verification/Program_Passes.thy ===== *)
theory Program_Passes
  imports Checker Normalize
begin

text \<open>
  The passes over a whole program, after \<open>crates/compiler/src/ast/program.rs\<close> and the collision checks of
  \<open>crates/compiler/src/resolver/helpers.rs\<close>: the validation of word calls against the words defined and the list of
  builtin names, the collection of the words a program refers to, the generated constructor, predicate and accessor
  words of the unions, and the fix-up of type variables that name a union.  Error texts are constructors
  with the data of the message.
\<close>

section \<open>Calls\<close>

definition validator_builtins :: "name list" where
  "validator_builtins =
     [''io.write'', ''io.write-line'', ''io.read-line'', ''io.read-n'', ''int->string'', ''symbol->string'',
      ''string->symbol'', ''args.count'', ''args.at'', ''file.slurp'', ''file.exists?'', ''file.for-each-line'',
      ''file.spit'', ''file.append'', ''file.delete'', ''file.size'', ''dir.exists?'', ''dir.make'', ''dir.delete'',
      ''dir.list'', ''string.concat'', ''string.length'', ''string.byte-length'', ''string.char-at'',
      ''string.substring'', ''char->string'', ''string.find'', ''string.split'', ''string.contains'',
      ''string.starts-with'', ''string.empty?'', ''string.trim'', ''string.chomp'', ''string.to-upper'',
      ''string.to-lower'', ''string.equal?'', ''string.join'', ''string.json-escape'', ''string->int'', ''symbol.='',
      ''encoding.base64-encode'', ''encoding.base64-decode'', ''encoding.base64url-encode'',
      ''encoding.base64url-decode'', ''encoding.hex-encode'', ''encoding.hex-decode'', ''crypto.sha256'',
      ''crypto.hmac-sha256'', ''crypto.constant-time-eq'', ''crypto.random-bytes'', ''crypto.random-int'',
      ''crypto.uuid4'', ''crypto.aes-gcm-encrypt'', ''crypto.aes-gcm-decrypt'', ''crypto.pbkdf2-sha256'',
      ''crypto.ed25519-keypair'', ''crypto.ed25519-sign'', ''crypto.ed25519-verify'', ''net.http.get'',
      ''net.http.post'', ''net.http.put'', ''net.http.delete'', ''list.make'', ''list.push'', ''list.get'',
      ''list.set'', ''list.map'', ''list.filter'', ''list.fold'', ''list.each'', ''list.length'', ''list.empty?'',
      ''list.reverse'', ''list.first'', ''list.last'', ''map.make'', ''map.get'', ''map.set'', ''map.has?'',
      ''map.remove'', ''map.keys'', ''map.values'', ''map.size'', ''map.empty?'', ''map.each'', ''map.fold'',
      ''variant.field-count'', ''variant.tag'', ''variant.field-at'', ''variant.append'', ''variant.first'',
      ''variant.last'', ''variant.init'', ''variant.make-0'', ''variant.make-1'', ''variant.make-2'',
      ''variant.make-3'', ''variant.make-4'', ''wrap-0'', ''wrap-1'', ''wrap-2'', ''wrap-3'', ''wrap-4'', ''i.add'',
      ''i.subtract'', ''i.multiply'', ''i.divide'', ''i.modulo'', ''i.pow'', ''i.+'', ''i.-'', ''i.*'', ''i./'',
      ''i.%'', ''i.='', ''i.<'', ''i.>'', ''i.<='', ''i.>='', ''i.<>'', ''i.eq'', ''i.lt'', ''i.gt'', ''i.lte'',
      ''i.gte'', ''i.neq'', ''dup'', ''drop'', ''swap'', ''over'', ''rot'', ''nip'', ''tuck'', ''2dup'', ''3drop'',
      ''pick'', ''roll'', ''>aux'', ''aux>'', ''and'', ''or'', ''not'', ''band'', ''bor'', ''bxor'', ''bnot'',
      ''i.neg'', ''negate'', ''+'', ''-'', ''*'', ''/'', ''%'', ''='', ''<'', ''>'', ''<='', ''>='', ''<>'', ''shl'',
      ''shr'', ''popcount'', ''clz'', ''ctz'', ''int-bits'', ''chan.make'', ''chan.send'', ''chan.receive'',
      ''chan.close'', ''chan.yield'', ''call'', ''dip'', ''keep'', ''bi'', ''if'', ''strand.spawn'',
      ''strand.weave'', ''strand.resume'', ''strand.weave-cancel'', ''yield'', ''cond'', ''net.tcp.listen'',
      ''net.tcp.connect'', ''net.tcp.accept'', ''net.tcp.local-port'', ''net.tcp.read'', ''net.tcp.write'',
      ''net.tcp.close'', ''fd->socket'', ''socket->fd'', ''net.udp.bind'', ''net.udp.send-to'',
      ''net.udp.receive-from'', ''net.udp.close'', ''net.dns.resolve'', ''net.tls.client'', ''os.getenv'',
      ''os.home-dir'', ''os.current-dir'', ''os.path-exists'', ''os.path-is-file'', ''os.path-is-dir'',
      ''os.path-join'', ''os.path-parent'', ''os.path-filename'', ''os.exit'', ''os.name'', ''os.arch'',
      ''signal.trap'', ''signal.received?'', ''signal.pending?'', ''signal.default'', ''signal.ignore'',
      ''signal.clear'', ''signal.SIGINT'', ''signal.SIGTERM'', ''signal.SIGHUP'', ''signal.SIGPIPE'',
      ''signal.SIGUSR1'', ''signal.SIGUSR2'', ''signal.SIGCHLD'', ''signal.SIGALRM'', ''signal.SIGCONT'',
      ''terminal.raw-mode'', ''terminal.read-char'', ''terminal.read-char?'', ''terminal.width'',
      ''terminal.height'', ''terminal.flush'', ''f.add'', ''f.subtract'', ''f.multiply'', ''f.divide'', ''f.+'',
      ''f.-'', ''f.*'', ''f./'', ''f.='', ''f.<'', ''f.>'', ''f.<='', ''f.>='', ''f.<>'', ''f.eq'', ''f.lt'',
      ''f.gt'', ''f.lte'', ''f.gte'', ''f.neq'', ''f.sqrt'', ''f.cbrt'', ''f.pow'', ''f.exp'', ''f.ln'', ''f.log10'',
      ''f.log2'', ''f.sin'', ''f.cos'', ''f.tan'', ''f.asin'', ''f.acos'', ''f.atan'', ''f.atan2'', ''f.floor'',
      ''f.ceil'', ''f.round'', ''f.trunc'', ''f.pi'', ''f.e'', ''f.tau'', ''int->float'', ''float->int'',
      ''float->string'', ''string->float'', ''int.to-bytes-i32-be'', ''float.to-bytes-f32-be'', ''test.init'',
      ''test.set-name'', ''test.finish'', ''test.has-failures'', ''test.assert'', ''test.assert-not'',
      ''test.assert-eq'', ''test.assert-eq-str'', ''test.fail'', ''test.pass-count'', ''test.fail-count'',
      ''time.now'', ''time.nanos'', ''time.sleep-ms'', ''son.dump'', ''son.dump-pretty'', ''stack.dump'',
      ''regex.match?'', ''regex.find'', ''regex.find-all'', ''regex.replace'', ''regex.replace-all'',
      ''regex.captures'', ''regex.split'', ''regex.valid?'', ''compress.gzip'', ''compress.gzip-level'',
      ''compress.gunzip'', ''compress.zstd'', ''compress.zstd-level'', ''compress.unzstd'']"

definition program_new :: seq_program where
  "program_new = \<lparr>prog_includes = [], prog_unions = [], prog_words = []\<rparr>"

definition find_word :: "seq_program \<Rightarrow> name \<Rightarrow> word_def option" where
  "find_word p n = find (\<lambda>w. wd_name w = n) (prog_words p)"

definition v7_renamed_to :: "name \<Rightarrow> name option" where
  "v7_renamed_to n = map_of
     [(''tcp.listen'', ''net.tcp.listen''), (''tcp.accept'', ''net.tcp.accept''), (''tcp.read'', ''net.tcp.read''),
      (''tcp.write'', ''net.tcp.write''), (''tcp.close'', ''net.tcp.close''), (''udp.bind'', ''net.udp.bind''),
      (''udp.send-to'', ''net.udp.send-to''), (''udp.receive-from'', ''net.udp.receive-from''),
      (''udp.close'', ''net.udp.close''), (''http.get'', ''net.http.get''), (''http.post'', ''net.http.post''),
      (''http.put'', ''net.http.put''), (''http.delete'', ''net.http.delete''), (''mod'', ''i.modulo'')] n"

datatype program_error =
    RenamedWord name name name
  | UndefinedWord name name
  | TooManyFields name name nat
  | Collisions "(name \<times> source_location list) list"
  | UnionCollisions "(name \<times> source_location list) list"

definition validate_call :: "seq_program \<Rightarrow> name \<Rightarrow> name list \<Rightarrow> name list \<Rightarrow> name \<Rightarrow> program_error + unit" where
  "validate_call p word builtins externals n =
     (if n \<in> set builtins then Ok ()
      else if find_word p n \<noteq> None then Ok ()
      else if n \<in> set externals then Ok ()
      else case v7_renamed_to n of
             Some r \<Rightarrow> Err (RenamedWord n r word)
           | None \<Rightarrow> Err (UndefinedWord n word))"

fun validate_statements :: "seq_program \<Rightarrow> name \<Rightarrow> name list \<Rightarrow> name list \<Rightarrow> statement list \<Rightarrow> program_error + unit"
and validate_statement :: "seq_program \<Rightarrow> name \<Rightarrow> name list \<Rightarrow> name list \<Rightarrow> statement \<Rightarrow> program_error + unit"
and validate_arms :: "seq_program \<Rightarrow> name \<Rightarrow> name list \<Rightarrow> name list \<Rightarrow> match_arm list \<Rightarrow> program_error + unit" where
  "validate_statements p w B E [] = Ok ()"
| "validate_statements p w B E (s # ss) = try_bind (validate_statement p w B E s) (\<lambda>_. validate_statements p w B E ss)"
| "validate_statement p w B E (WordCall n sp) = validate_call p w B E n"
| "validate_statement p w B E (If t e sp) =
     try_bind (validate_statements p w B E t) (\<lambda>_. case e of Some b \<Rightarrow> validate_statements p w B E b | None \<Rightarrow> Ok ())"
| "validate_statement p w B E (Quotation i body sp) = validate_statements p w B E body"
| "validate_statement p w B E (Match arms sp) = validate_arms p w B E arms"
| "validate_statement p w B E _ = Ok ()"
| "validate_arms p w B E [] = Ok ()"
| "validate_arms p w B E (MatchArm pat body sp # arms) = try_bind (validate_statements p w B E body) (\<lambda>_. validate_arms p w B E arms)"

fun validate_words :: "seq_program \<Rightarrow> name list \<Rightarrow> word_def list \<Rightarrow> program_error + unit" where
  "validate_words p E [] = Ok ()"
| "validate_words p E (w # ws) =
     try_bind (validate_statements p (wd_name w) validator_builtins E (wd_body w)) (\<lambda>_. validate_words p E ws)"

definition validate_word_calls_with_externals :: "seq_program \<Rightarrow> name list \<Rightarrow> program_error + unit" where
  "validate_word_calls_with_externals p E = validate_words p E (prog_words p)"

definition validate_word_calls :: "seq_program \<Rightarrow> program_error + unit" where
  "validate_word_calls p = validate_word_calls_with_externals p []"

fun collect_word_calls :: "statement list \<Rightarrow> name list"
and collect_statement :: "statement \<Rightarrow> name list"
and collect_arms :: "match_arm list \<Rightarrow> name list" where
  "collect_word_calls [] = []"
| "collect_word_calls (s # ss) = collect_statement s @ collect_word_calls ss"
| "collect_statement (WordCall n sp) = [n]"
| "collect_statement (If t e sp) = collect_word_calls t @ (case e of Some b \<Rightarrow> collect_word_calls b | None \<Rightarrow> [])"
| "collect_statement (Quotation i body sp) = collect_word_calls body"
| "collect_statement (Match arms sp) = collect_arms arms"
| "collect_statement _ = []"
| "collect_arms [] = []"
| "collect_arms (MatchArm pat body sp # arms) = collect_word_calls body @ collect_arms arms"

definition referenced_word_calls :: "seq_program \<Rightarrow> name list" where
  "referenced_word_calls p = concat (map (\<lambda>w. collect_word_calls (wd_body w)) (prog_words p))"

text \<open>The selection of the runtime archive in \<open>lib.rs\<close>.\<close>

definition capability_prefixes :: "string list" where
  "capability_prefixes = [''net.http.'', ''net.tls.'', ''crypto.'', ''regex.'', ''compress.'']"

definition program_needs_full_runtime :: "seq_program \<Rightarrow> bool" where
  "program_needs_full_runtime p =
     list_ex (\<lambda>w. list_ex (\<lambda>pre. take (length pre) w = pre) capability_prefixes) (referenced_word_calls p)"

section \<open>Generated words\<close>

definition max_variant_fields :: nat where
  "max_variant_fields = 12"

definition field_type_name :: "name \<Rightarrow> ty" where
  "field_type_name n =
     (if n = ''Int'' then TInt else if n = ''Float'' then TFloat else if n = ''Bool'' then TBool
      else if n = ''String'' then TString else if n = ''Channel'' then TChannel
      else if n = ''Socket'' then TSocket else TUnion n)"

definition make_helper_word :: "name \<Rightarrow> ty list \<Rightarrow> ty \<Rightarrow> statement list \<Rightarrow> source_location option \<Rightarrow> word_def" where
  "make_helper_word n ins out body src =
     \<lparr>wd_name = n, wd_effect = Some (effect_new (foldl st_push (SRowVar ''a'') ins) (st_push (SRowVar ''a'') out)),
      wd_body = body, wd_source = src, wd_allowed_lints = []\<rparr>"

definition constructor_word :: "union_def \<Rightarrow> union_variant \<Rightarrow> word_def" where
  "constructor_word u v = make_helper_word (''Make-'' @ uv_name v) (map (field_type_name \<circ> uf_type_name) (uv_fields v)) (TUnion (ud_name u))
     [Symbol (uv_name v), WordCall (''variant.make-'' @ dec (length (uv_fields v))) None] (uv_source v)"

definition predicate_word :: "union_def \<Rightarrow> union_variant \<Rightarrow> word_def" where
  "predicate_word u v = make_helper_word (''is-'' @ uv_name v @ ''?'') [TUnion (ud_name u)] TBool
     [WordCall ''variant.tag'' None, Symbol (uv_name v), WordCall ''symbol.='' None] (uv_source v)"

definition accessor_word :: "union_def \<Rightarrow> union_variant \<Rightarrow> nat \<times> union_field \<Rightarrow> word_def" where
  "accessor_word u v = (\<lambda>(i, f). make_helper_word (uv_name v @ ''-'' @ uf_name f) [TUnion (ud_name u)] (field_type_name (uf_type_name f))
     [IntLiteral (of_nat i), WordCall ''variant.field-at'' None] (uv_source v))"

definition helper_words :: "union_def \<Rightarrow> union_variant \<Rightarrow> word_def list" where
  "helper_words u v = constructor_word u v # predicate_word u v # map (accessor_word u v) (enumerate 0 (uv_fields v))"

definition variant_words :: "union_def \<Rightarrow> union_variant \<Rightarrow> program_error + word_def list" where
  "variant_words u v =
     (if max_variant_fields < length (uv_fields v) then Err (TooManyFields (uv_name v) (ud_name u) (length (uv_fields v)))
      else Ok (helper_words u v))"

fun union_words :: "union_def \<Rightarrow> union_variant list \<Rightarrow> program_error + word_def list" where
  "union_words u [] = Ok []"
| "union_words u (v # vs) = try_bind (variant_words u v) (\<lambda>ws. try_bind (union_words u vs) (\<lambda>ws'. Ok (ws @ ws')))"

fun generated_words :: "union_def list \<Rightarrow> program_error + word_def list" where
  "generated_words [] = Ok []"
| "generated_words (u # us) = try_bind (union_words u (ud_variants u)) (\<lambda>ws. try_bind (generated_words us) (\<lambda>ws'. Ok (ws @ ws')))"

definition generate_constructors :: "seq_program \<Rightarrow> program_error + seq_program" where
  "generate_constructors p = try_bind (generated_words (prog_unions p)) (\<lambda>ws. Ok (p\<lparr>prog_words := prog_words p @ ws\<rparr>))"

section \<open>Union types in signatures\<close>

fun fixup_type :: "name set \<Rightarrow> ty \<Rightarrow> ty"
and fixup_stack_type :: "name set \<Rightarrow> stack_type \<Rightarrow> stack_type"
and fixup_effect :: "name set \<Rightarrow> effect \<Rightarrow> effect" where
  "fixup_type U (TVar n) = (if n \<in> U then TUnion n else TVar n)"
| "fixup_type U (TQuotation e) = TQuotation (fixup_effect U e)"
| "fixup_type U (TClosure e cs) = TClosure (fixup_effect U e) (map (fixup_type U) cs)"
| "fixup_type U t = t"
| "fixup_stack_type U (SCons st t) = SCons (fixup_stack_type U st) (fixup_type U t)"
| "fixup_stack_type U st = st"
| "fixup_effect U (Effect i o' es) = Effect (fixup_stack_type U i) (fixup_stack_type U o') es"

definition fixup_union_types :: "seq_program \<Rightarrow> seq_program" where
  "fixup_union_types p =
     (let U = ud_name ` set (prog_unions p)
      in p\<lparr>prog_words := map (\<lambda>w. w\<lparr>wd_effect := map_option (fixup_effect U) (wd_effect w)\<rparr>) (prog_words p)\<rparr>)"

section \<open>Collisions\<close>

text \<open>
  The locations of each name, for the definitions that have one, in the order in which the names first occur; the
  code keeps them in a hash map, whose order decides only the order of the messages.
\<close>

fun group_locations :: "(name \<times> source_location option) list \<Rightarrow> (name \<times> source_location list) list" where
  "group_locations [] = []"
| "group_locations ((n, None) # ds) = group_locations ds"
| "group_locations ((n, Some l) # ds) =
     (n, l # map (the \<circ> snd) (filter (\<lambda>d. fst d = n \<and> snd d \<noteq> None) ds)) # group_locations (filter (\<lambda>d. fst d \<noteq> n) ds)"

definition duplicated :: "(name \<times> source_location option) list \<Rightarrow> (name \<times> source_location list) list" where
  "duplicated ds = filter (\<lambda>(n, ls). 1 < length ls) (group_locations ds)"

definition check_collisions :: "word_def list \<Rightarrow> program_error + unit" where
  "check_collisions ws =
     (let es = duplicated (map (\<lambda>w. (wd_name w, wd_source w)) ws) in if es = [] then Ok () else Err (Collisions es))"

definition check_union_collisions :: "union_def list \<Rightarrow> program_error + unit" where
  "check_union_collisions us =
     (let es = duplicated (map (\<lambda>u. (ud_name u, ud_source u)) us) in if es = [] then Ok () else Err (UnionCollisions es))"

section \<open>Validation reports the first undefined call\<close>

fun check_all :: "('a \<Rightarrow> 'e + unit) \<Rightarrow> 'a list \<Rightarrow> 'e + unit" where
  "check_all f [] = Ok ()"
| "check_all f (x # xs) = try_bind (f x) (\<lambda>_. check_all f xs)"

lemma check_all_append: "check_all f (xs @ ys) = try_bind (check_all f xs) (\<lambda>_. check_all f ys)"
proof (induction xs)
  case (Cons x xs)
  then show ?case by (cases "f x") auto
qed simp

lemma check_all_find:
  "check_all f xs = (case find (\<lambda>x. f x \<noteq> Ok ()) xs of None \<Rightarrow> Ok () | Some x \<Rightarrow> f x)"
proof (induction xs)
  case (Cons x xs)
  then show ?case by (cases "f x") auto
qed simp

lemma validate_check_all:
  "validate_statements p w B E ss = check_all (validate_call p w B E) (collect_word_calls ss)"
  "validate_statement p w B E s = check_all (validate_call p w B E) (collect_statement s)"
  "validate_arms p w B E arms = check_all (validate_call p w B E) (collect_arms arms)"
proof (induction p w B E ss and p w B E s and p w B E arms rule: validate_statements_validate_statement_validate_arms.induct)
  case (3 p w B E n sp)
  then show ?case by (cases "validate_call p w B E n") auto
qed (auto simp: check_all_append split: option.split)

text \<open>The calls of a program, each with the word that makes it, and the names they may use.\<close>

definition program_calls :: "seq_program \<Rightarrow> (name \<times> name) list" where
  "program_calls p = concat (map (\<lambda>w. map (\<lambda>n. (n, wd_name w)) (collect_word_calls (wd_body w))) (prog_words p))"

definition known_call :: "seq_program \<Rightarrow> name list \<Rightarrow> name \<Rightarrow> bool" where
  "known_call p E n \<longleftrightarrow> n \<in> set validator_builtins \<or> n \<in> wd_name ` set (prog_words p) \<or> n \<in> set E"

definition call_error :: "name \<Rightarrow> name \<Rightarrow> program_error" where
  "call_error n w = (case v7_renamed_to n of Some r \<Rightarrow> RenamedWord n r w | None \<Rightarrow> UndefinedWord n w)"

lemma find_word_None: "find_word p n = None \<longleftrightarrow> n \<notin> wd_name ` set (prog_words p)"
  by (auto simp: find_word_def find_None_iff)

lemma validate_call_eq:
  "validate_call p w validator_builtins E n = (if known_call p E n then Ok () else Err (call_error n w))"
  using find_word_None [of p n] by (auto simp: validate_call_def known_call_def call_error_def split: option.split)

lemma validate_words_check_all:
  "validate_words p E ws = check_all (\<lambda>(n, w). validate_call p w validator_builtins E n)
     (concat (map (\<lambda>w. map (\<lambda>n. (n, wd_name w)) (collect_word_calls (wd_body w))) ws))"
proof -
  have map: "check_all f (map g xs) = check_all (f \<circ> g) xs" for f :: "'b \<Rightarrow> 'c + unit" and g :: "'d \<Rightarrow> 'b" and xs
    by (induction xs) auto
  show ?thesis by (induction ws) (auto simp: validate_check_all check_all_append map comp_def)
qed

lemma find_holds: "find P xs = Some x \<Longrightarrow> P x \<and> x \<in> set xs"
  by (induction xs) (auto split: if_splits)

lemma validation_find:
  "validate_word_calls_with_externals p E =
     (case find (\<lambda>(n, w). \<not> known_call p E n) (program_calls p) of
        None \<Rightarrow> Ok ()
      | Some (n, w) \<Rightarrow> Err (call_error n w))"
proof -
  have eq: "find (\<lambda>x. (case x of (n, w) \<Rightarrow> validate_call p w validator_builtins E n) \<noteq> Ok ()) xs = find (\<lambda>(n, w). \<not> known_call p E n) xs" for xs
    by (rule arg_cong [where f = "\<lambda>P. find P xs"]) (auto simp: fun_eq_iff validate_call_eq)
  show ?thesis
    unfolding validate_word_calls_with_externals_def validate_words_check_all check_all_find program_calls_def eq
    by (auto dest: find_holds simp: validate_call_eq split: option.split)
qed

lemma validation_ok_iff:
  "validate_word_calls_with_externals p E = Ok () \<longleftrightarrow>
     (\<forall>w \<in> set (prog_words p). \<forall>n \<in> set (collect_word_calls (wd_body w)). known_call p E n)"
proof -
  have "validate_word_calls_with_externals p E = Ok () \<longleftrightarrow> (\<forall>(n, w) \<in> set (program_calls p). known_call p E n)"
    unfolding validation_find using find_None_iff [of "\<lambda>(n, w). \<not> known_call p E n" "program_calls p"]
    by (auto dest: find_holds split: option.split)
  then show ?thesis by (auto simp: program_calls_def)
qed

text \<open>C30: The validation of word calls is decided by the calls in program order: it succeeds when every word called anywhere in a
  body, in branches, quotations and match arms too, is a builtin of the list, a word of the program or an external one, and otherwise it
  reports the first call that is not, with the word it occurs in, as a renamed word where the name has a new one.\<close>

theorem validation_first_undefined:
  "validate_word_calls_with_externals p E =
     (case find (\<lambda>(n, w). \<not> known_call p E n) (program_calls p) of
        None \<Rightarrow> Ok ()
      | Some (n, w) \<Rightarrow> Err (call_error n w))"
  by (rule validation_find)

section \<open>Lowering and validation\<close>

lemma lowered_calls:
  "filter (\<lambda>n. n \<noteq> ''if'') (collect_word_calls (rewrite_statements ss)) = filter (\<lambda>n. n \<noteq> ''if'') (collect_word_calls ss)"
  "filter (\<lambda>n. n \<noteq> ''if'') (collect_statement (rewrite_statement s)) = filter (\<lambda>n. n \<noteq> ''if'') (collect_statement s)"
  "filter (\<lambda>n. n \<noteq> ''if'') (collect_arms [rewrite_arm a]) = filter (\<lambda>n. n \<noteq> ''if'') (collect_arms [a])"
proof (induction ss and s and a rule: rewrite_statements_rewrite_statement_rewrite_arm.induct)
  case (2 x xs)
  show ?case
  proof (cases "is_inline_triple (x # xs)")
    case True
    then show ?thesis using 2(1-3) [OF True] by (elim inline_tripleE) simp
  next
    case False
    then show ?thesis using 2(4,5) [OF False] by simp
  qed
next
  case (3 t e sp)
  then show ?case by (cases e) auto
next
  case (4 arms sp)
  then show ?case
  proof (induction arms)
    case (Cons a arms)
    have "collect_arms (b # bs) = collect_arms [b] @ collect_arms bs" for b bs by (cases b) simp
    then show ?case using Cons by (metis (no_types, lifting) collect_statement.simps(4) filter_append list.set_intros list.simps(9) rewrite_statement.simps(2))
  qed simp
qed auto

lemma if_builtin: "''if'' \<in> set validator_builtins"
  by (simp add: validator_builtins_def)

lemma lowered_known:
  "(\<forall>n \<in> set (collect_word_calls (rewrite_statements ss)). known_call p E n) \<longleftrightarrow> (\<forall>n \<in> set (collect_word_calls ss). known_call p E n)"
proof -
  have "known_call p E ''if''" using if_builtin by (simp add: known_call_def)
  then have "(\<forall>n \<in> set xs. known_call p E n) \<longleftrightarrow> (\<forall>n \<in> set (filter (\<lambda>n. n \<noteq> ''if'') xs). known_call p E n)" for xs by auto
  then show ?thesis by (metis lowered_calls(1))
qed

lemma validation_lowered:
  "validate_word_calls_with_externals (lower_literal_if_combinators p) E = Ok () \<longleftrightarrow> validate_word_calls_with_externals p E = Ok ()"
proof -
  have "known_call (lower_literal_if_combinators p) E = known_call p E"
    by (rule ext) (simp add: known_call_def lower_literal_if_combinators_def image_image)
  then show ?thesis unfolding validation_ok_iff by (simp add: lowered_known lower_literal_if_combinators_def)
qed

section \<open>Generated words and validation\<close>

lemma union_words_set:
  "union_words u vs = Ok ws \<Longrightarrow>
     set ws = (\<Union>v \<in> set vs. set (helper_words u v)) \<and> (\<forall>v \<in> set vs. length (uv_fields v) \<le> max_variant_fields)"
proof (induction vs arbitrary: ws)
  case (Cons v vs)
  then show ?case by (cases "union_words u vs") (auto simp: variant_words_def split: if_splits)
qed simp

lemma generated_words_set:
  "generated_words us = Ok ws \<Longrightarrow>
     set ws = (\<Union>u \<in> set us. \<Union>v \<in> set (ud_variants u). set (helper_words u v))
     \<and> (\<forall>u \<in> set us. \<forall>v \<in> set (ud_variants u). length (uv_fields v) \<le> max_variant_fields)"
proof (induction us arbitrary: ws)
  case (Cons u us)
  obtain a b where "union_words u (ud_variants u) = Ok a" "generated_words us = Ok b" "ws = a @ b"
    using Cons.prems by (cases "union_words u (ud_variants u)"; cases "generated_words us") auto
  then show ?case using union_words_set Cons.IH by simp
qed simp

lemma generated_calls [simp]:
  "collect_word_calls (wd_body (constructor_word u v)) = [''variant.make-'' @ dec (length (uv_fields v))]"
  "collect_word_calls (wd_body (predicate_word u v)) = [''variant.tag'', ''symbol.='']"
  "collect_word_calls (wd_body (accessor_word u v f)) = [''variant.field-at'']"
  by (simp_all add: constructor_word_def predicate_word_def accessor_word_def make_helper_word_def split: prod.split)

lemma helper_words_calls:
  "(\<Union>w \<in> set (helper_words u v). set (collect_word_calls (wd_body w))) \<subseteq>
     {''variant.make-'' @ dec (length (uv_fields v)), ''variant.tag'', ''symbol.='', ''variant.field-at''}"
  "''variant.make-'' @ dec (length (uv_fields v)) \<in> (\<Union>w \<in> set (helper_words u v). set (collect_word_calls (wd_body w)))"
  by (auto simp: helper_words_def)

lemma variant_builtins:
  "''variant.tag'' \<in> set validator_builtins" "''symbol.='' \<in> set validator_builtins" "''variant.field-at'' \<in> set validator_builtins"
  by (simp_all add: validator_builtins_def)

lemma dec_small:
  "dec 0 = ''0''" "dec (Suc 0) = ''1''" "dec 2 = ''2''" "dec 3 = ''3''" "dec 4 = ''4''" "dec 5 = ''5''" "dec 6 = ''6''" "dec 7 = ''7''" "dec 8 = ''8''" "dec 9 = ''9''" "dec 10 = ''10''" "dec 11 = ''11''" "dec 12 = ''12''"
  by code_simp+

lemma make_builtin:
  assumes "k \<le> max_variant_fields"
  shows "''variant.make-'' @ dec k \<in> set validator_builtins \<longleftrightarrow> k \<le> 4"
proof -
  have "k = 0 \<or> k = 1 \<or> k = 2 \<or> k = 3 \<or> k = 4 \<or> k = 5 \<or> k = 6 \<or> k = 7 \<or> k = 8 \<or> k = 9 \<or> k = 10 \<or> k = 11 \<or> k = 12"
    using assms unfolding max_variant_fields_def by arith
  then show ?thesis
    by (elim disjE) (simp_all add: dec_small validator_builtins_def)
qed

text \<open>C31: After the helper words of the unions are generated, validation succeeds exactly when the calls of the program's own words are
  known and no variant has more than four fields, unless the program or an external source defines the constructor word itself: a
  constructor calls \<open>variant.make-\<close> followed by the number of fields, generation allows twelve, and the list of
  builtins stops at four.  So a variant with five to twelve fields, within the documented limit, does not compile.\<close>

theorem generated_words_validated:
  assumes "generate_constructors p = Ok q"
  shows "validate_word_calls_with_externals q E = Ok () \<longleftrightarrow>
     (\<forall>w \<in> set (prog_words p). \<forall>n \<in> set (collect_word_calls (wd_body w)). known_call q E n) \<and>
     (\<forall>u \<in> set (prog_unions p). \<forall>v \<in> set (ud_variants u). length (uv_fields v) \<le> 4 \<or>
        ''variant.make-'' @ dec (length (uv_fields v)) \<in> wd_name ` set (prog_words q) \<union> set E)"
proof -
  obtain ws where ws: "generated_words (prog_unions p) = Ok ws" "q = p\<lparr>prog_words := prog_words p @ ws\<rparr>"
    using assms by (cases "generated_words (prog_unions p)") (auto simp: generate_constructors_def)
  note gen = generated_words_set [OF ws(1)]
  have k: "known_call q E ''variant.tag''" "known_call q E ''symbol.=''" "known_call q E ''variant.field-at''"
    using variant_builtins by (simp_all add: known_call_def)
  have "(\<forall>w \<in> set (helper_words u v). \<forall>n \<in> set (collect_word_calls (wd_body w)). known_call q E n) \<longleftrightarrow>
      known_call q E (''variant.make-'' @ dec (length (uv_fields v)))" for u v
    using helper_words_calls(1) [of u v] helper_words_calls(2) [of v u] k by blast
  moreover have "known_call q E (''variant.make-'' @ dec (length (uv_fields v))) \<longleftrightarrow> length (uv_fields v) \<le> 4 \<or>
      ''variant.make-'' @ dec (length (uv_fields v)) \<in> wd_name ` set (prog_words q) \<union> set E"
    if "u \<in> set (prog_unions p)" "v \<in> set (ud_variants u)" for u v
    using make_builtin gen that by (auto simp: known_call_def)
  moreover have "set (prog_words q) = set (prog_words p) \<union> (\<Union>u \<in> set (prog_unions p). \<Union>v \<in> set (ud_variants u). set (helper_words u v))"
    using ws(2) gen by simp
  ultimately show ?thesis unfolding validation_ok_iff by (simp add: ball_Un ball_UN)
qed

definition wide_union :: seq_program where
  "wide_union = program_new\<lparr>prog_unions := [\<lparr>ud_name = ''Wide'', ud_variants =
     [\<lparr>uv_name = ''Five'', uv_fields = map (\<lambda>n. \<lparr>uf_name = [n], uf_type_name = ''Int''\<rparr>) ''abcde'', uv_source = None\<rparr>], ud_source = None\<rparr>]\<rparr>"

theorem generated_words_validated_witness:
  "\<exists>q. generate_constructors wide_union = Ok q \<and> validate_word_calls_with_externals q [] \<noteq> Ok ()"
proof -
  have five: "length (uv_fields v) = 5" if "u \<in> set (prog_unions wide_union)" "v \<in> set (ud_variants u)" for u v
    using that by (auto simp: wide_union_def program_new_def)
  have "\<exists>q. generate_constructors wide_union = Ok q \<and> ''variant.make-'' @ dec 5 \<notin> wd_name ` set (prog_words q)"
    by (simp add: generate_constructors_def wide_union_def program_new_def variant_words_def max_variant_fields_def helper_words_def
        constructor_word_def predicate_word_def accessor_word_def make_helper_word_def)
  then obtain q where q: "generate_constructors wide_union = Ok q" "''variant.make-'' @ dec 5 \<notin> wd_name ` set (prog_words q)" by blast
  have "\<exists>u \<in> set (prog_unions wide_union). \<exists>v. v \<in> set (ud_variants u)" by (simp add: wide_union_def program_new_def)
  then have "validate_word_calls_with_externals q [] \<noteq> Ok ()"
    using generated_words_validated [OF q(1), of "[]"] q(2) five by fastforce
  with q(1) show ?thesis by blast
qed

section \<open>Collisions\<close>

lemma group_locations_None: "n \<notin> fst ` set ds \<Longrightarrow> n \<notin> fst ` set (group_locations ds)"
  by (induction ds rule: group_locations.induct) auto

lemma duplicated_distinct:
  assumes "duplicated ds = []" "\<forall>d \<in> set ds. snd d \<noteq> None"
  shows "distinct (map fst ds)"
  using assms
proof (induction ds rule: group_locations.induct)
  case (3 n l ds)
  have empty: "filter (\<lambda>d. fst d = n \<and> snd d \<noteq> None) ds = []" using "3.prems"(1) by (simp add: duplicated_def split: if_splits)
  then have "n \<notin> fst ` set ds" using "3.prems"(2) by (auto simp: filter_empty_conv)
  moreover from this have "filter (\<lambda>d. fst d \<noteq> n) ds = ds" by (auto simp: filter_id_conv)
  ultimately show ?case using 3 by (simp add: duplicated_def split: if_splits)
qed auto

lemma collisions_distinct:
  assumes "check_collisions ws = Ok ()" "\<forall>w \<in> set ws. wd_source w \<noteq> None"
  shows "distinct (map wd_name ws)"
  using duplicated_distinct [of "map (\<lambda>w. (wd_name w, wd_source w)) ws"] assms
  by (auto simp: check_collisions_def Let_def comp_def split: if_splits)

section \<open>Fix-up\<close>

text \<open>What the parser does with a name of a known union is what the fix-up does afterwards, and the fix-up leaves no type variable
  with the name of a union in a signature.\<close>

lemma fixup_tvars:
  "deep_type_tvars (fixup_type U t) = deep_type_tvars t - U"
  "deep_tvars (fixup_stack_type U st) = deep_tvars st - U"
  "deep_tvars (inputs (fixup_effect U e)) = deep_tvars (inputs e) - U \<and> deep_tvars (outputs (fixup_effect U e)) = deep_tvars (outputs e) - U"
proof (induction U t and U st and U e rule: fixup_type_fixup_stack_type_fixup_effect.induct)
  case (2 U e)
  then show ?case by (cases e) auto
next
  case (3 U e cs)
  then show ?case by (cases e) auto
qed auto

lemma fixup_id:
  "deep_type_tvars t \<inter> U = {} \<Longrightarrow> fixup_type U t = t"
  "deep_tvars st \<inter> U = {} \<Longrightarrow> fixup_stack_type U st = st"
  "(deep_tvars (inputs e) \<union> deep_tvars (outputs e)) \<inter> U = {} \<Longrightarrow> fixup_effect U e = e"
proof (induction U t and U st and U e rule: fixup_type_fixup_stack_type_fixup_effect.induct)
  case (2 U e)
  then show ?case by (cases e) auto
next
  case (3 U e cs)
  then show ?case by (cases e) (auto intro!: map_idI)
qed auto

end
