(* ===== verification/Ffi.thy ===== *)
theory Ffi
  imports Parser
begin

text \<open>
  The foreign function manifests of \<open>crates/compiler/src/ffi/manifest.rs\<close> and the table of functions of
  \<open>crates/compiler/src/ffi/bindings.rs\<close>.  A manifest is a TOML document; the \<open>toml\<close> package that reads it is not part of the
  repository, so that the functions below start from the structure it gives.  Text is taken to be ASCII, as in the tokenizer.
\<close>

section \<open>Manifests\<close>

datatype ffi_type = FfiInt | FfiString | FfiPtr | FfiVoid

datatype pass_mode = PassCString | PassPtr | PassInt | PassByRef

datatype ownership = CallerFrees | OwnStatic | Borrowed

record ffi_arg =
  arg_type :: ffi_type
  arg_pass :: pass_mode
  arg_value :: "string option"

record ffi_return =
  return_type :: ffi_type
  return_ownership :: ownership

record ffi_function =
  c_name :: string
  seq_name :: string
  stack_effect :: string
  ffi_args :: "ffi_arg list"
  return_spec :: "ffi_return option"

record ffi_library =
  lib_name :: string
  lib_link :: string
  lib_functions :: "ffi_function list"

record ffi_manifest =
  libraries :: "ffi_library list"

datatype ffi_error =
    TomlError string
  | NoParenthesis
  | NoClosingParenthesis
  | NotOneSeparator string
  | UnknownEffectType string
  | NoLibraries
  | EmptyLibraryName nat
  | EmptyLinkerFlag string
  | BadLinkerCharacter string char
  | EmptyCName nat string
  | EmptySeqName string string
  | EmptyStackEffect string
  | MalformedStackEffect string string ffi_error
  | AlreadyDefined string
  | ManifestNotFound string

section \<open>Stack effects\<close>

text \<open>\<open>str::trim\<close>, \<open>strip_prefix\<close> and \<open>strip_suffix\<close> with one character, \<open>split\<close> at \<open>--\<close> and \<open>split_whitespace\<close>.\<close>

definition trim :: "string \<Rightarrow> string" where
  "trim s = rev (dropWhile is_space (rev (dropWhile is_space s)))"

definition strip_first :: "char \<Rightarrow> string \<Rightarrow> string option" where
  "strip_first c s = (if s \<noteq> [] \<and> hd s = c then Some (tl s) else None)"

definition strip_last :: "char \<Rightarrow> string \<Rightarrow> string option" where
  "strip_last c s = (if s \<noteq> [] \<and> last s = c then Some (butlast s) else None)"

definition onto_first :: "char \<Rightarrow> string list \<Rightarrow> string list" where
  "onto_first c ps = (case ps of [] \<Rightarrow> [[c]] | q # qs \<Rightarrow> (c # q) # qs)"

fun split_dashes :: "string \<Rightarrow> string list" where
  "split_dashes (c # d # s) = (if c = CHR ''-'' \<and> d = CHR ''-'' then [] # split_dashes s else onto_first c (split_dashes (d # s)))"
| "split_dashes [c] = [[c]]"
| "split_dashes [] = [[]]"

fun split_spaces :: "string \<Rightarrow> string list" where
  "split_spaces [] = [[]]"
| "split_spaces (c # s) =
     (if is_space c then [] # split_spaces s
      else onto_first c (split_spaces s))"

definition type_words :: "string \<Rightarrow> string list" where
  "type_words s = filter (\<lambda>p. p \<noteq> []) (split_spaces s)"

definition ffi_type_name :: "string \<Rightarrow> ffi_error + ty" where
  "ffi_type_name n =
     (if n = ''Int'' then Ok TInt
      else if n = ''Float'' then Ok TFloat
      else if n = ''Bool'' then Ok TBool
      else if n = ''String'' then Ok TString
      else Err (UnknownEffectType n))"

fun push_types :: "stack_type \<Rightarrow> string list \<Rightarrow> ffi_error + stack_type" where
  "push_types s [] = Ok s"
| "push_types s (n # ns) = try_bind (ffi_type_name n) (\<lambda>t. push_types (st_push s t) ns)"

definition parse_stack_side :: "string \<Rightarrow> ffi_error + stack_type" where
  "parse_stack_side s = push_types (SRowVar ''a'') (type_words s)"

definition ffi_parse_stack_effect :: "string \<Rightarrow> ffi_error + effect" where
  "ffi_parse_stack_effect s0 =
     (case strip_first (CHR ''('') (trim s0) of
        None \<Rightarrow> Err NoParenthesis
      | Some s1 \<Rightarrow>
          (case strip_last (CHR '')'') s1 of
             None \<Rightarrow> Err NoClosingParenthesis
           | Some s2 \<Rightarrow>
               (case split_dashes (trim s2) of
                  [i, o'] \<Rightarrow> try_bind (parse_stack_side (trim i)) (\<lambda>is.
                            try_bind (parse_stack_side (trim o')) (\<lambda>os. Ok (effect_new is os)))
                | _ \<Rightarrow> Err (NotOneSeparator (trim s2)))))"

definition ffi_effect :: "ffi_function \<Rightarrow> ffi_error + effect" where
  "ffi_effect f = ffi_parse_stack_effect (stack_effect f)"

section \<open>Validation\<close>

definition linker_char :: "char \<Rightarrow> bool" where
  "linker_char c \<longleftrightarrow> is_alphanumeric c \<or> c = CHR ''-'' \<or> c = CHR ''_'' \<or> c = CHR ''.''"

fun validate_functions :: "string \<Rightarrow> nat \<Rightarrow> ffi_function list \<Rightarrow> ffi_error + unit" where
  "validate_functions l i [] = Ok ()"
| "validate_functions l i (f # fs) =
     (if trim (c_name f) = [] then Err (EmptyCName (i + 1) l)
      else if trim (seq_name f) = [] then Err (EmptySeqName (c_name f) l)
      else if trim (stack_effect f) = [] then Err (EmptyStackEffect (seq_name f))
      else case ffi_effect f of
             Inl e \<Rightarrow> Err (MalformedStackEffect (seq_name f) (stack_effect f) e)
           | Inr _ \<Rightarrow> validate_functions l (i + 1) fs)"

fun validate_libraries :: "nat \<Rightarrow> ffi_library list \<Rightarrow> ffi_error + unit" where
  "validate_libraries i [] = Ok ()"
| "validate_libraries i (l # ls) =
     (if trim (lib_name l) = [] then Err (EmptyLibraryName (i + 1))
      else if trim (lib_link l) = [] then Err (EmptyLinkerFlag (lib_name l))
      else case find (\<lambda>c. \<not> linker_char c) (lib_link l) of
             Some c \<Rightarrow> Err (BadLinkerCharacter (lib_name l) c)
           | None \<Rightarrow> try_bind (validate_functions (lib_name l) 0 (lib_functions l)) (\<lambda>_. validate_libraries (i + 1) ls))"

definition ffi_validate :: "ffi_manifest \<Rightarrow> ffi_error + unit" where
  "ffi_validate m = (if libraries m = [] then Err NoLibraries else validate_libraries 0 (libraries m))"

definition manifest_parse :: "(string \<Rightarrow> string + ffi_manifest) \<Rightarrow> string \<Rightarrow> ffi_error + ffi_manifest" where
  "manifest_parse toml content =
     try_bind (map_sum TomlError id (toml content)) (\<lambda>m. try_bind (ffi_validate m) (\<lambda>_. Ok m))"

definition linker_flags_of :: "ffi_manifest \<Rightarrow> string list" where
  "linker_flags_of m = map lib_link (libraries m)"

definition manifest_functions :: "ffi_manifest \<Rightarrow> ffi_function list" where
  "manifest_functions m = concat (map lib_functions (libraries m))"

definition has_ffi_manifest :: "name \<Rightarrow> bool" where
  "has_ffi_manifest n \<longleftrightarrow> n = ''libedit''"

section \<open>Bindings\<close>

text \<open>The table of functions is a hash map whose iteration order matters nowhere; it is kept in the order of insertion.\<close>

record ffi_function_info =
  fi_c_name :: string
  fi_seq_name :: string
  fi_effect :: effect
  fi_args :: "ffi_arg list"
  fi_return_spec :: "ffi_return option"

record ffi_bindings =
  ffi_functions :: "(name \<times> ffi_function_info) list"
  linker_flags :: "string list"

definition bindings_new :: ffi_bindings where
  "bindings_new = \<lparr>ffi_functions = [], linker_flags = []\<rparr>"

definition is_ffi_function :: "ffi_bindings \<Rightarrow> name \<Rightarrow> bool" where
  "is_ffi_function b n \<longleftrightarrow> n \<in> fst ` set (ffi_functions b)"

definition function_names :: "ffi_bindings \<Rightarrow> name list" where
  "function_names b = map fst (ffi_functions b)"

definition bound :: "ffi_bindings \<Rightarrow> ffi_function \<Rightarrow> effect \<Rightarrow> ffi_bindings" where
  "bound b f e = b\<lparr>ffi_functions := ffi_functions b @
     [(seq_name f, \<lparr>fi_c_name = c_name f, fi_seq_name = seq_name f, fi_effect = e, fi_args = ffi_args f,
         fi_return_spec = return_spec f\<rparr>)]\<rparr>"

fun add_functions :: "ffi_bindings \<Rightarrow> ffi_function list \<Rightarrow> ffi_error + ffi_bindings" where
  "add_functions b [] = Ok b"
| "add_functions b (f # fs) =
     try_bind (ffi_effect f) (\<lambda>e.
     if is_ffi_function b (seq_name f) then Err (AlreadyDefined (seq_name f))
     else add_functions (bound b f e) fs)"

definition add_manifest :: "ffi_bindings \<Rightarrow> ffi_manifest \<Rightarrow> ffi_error + ffi_bindings" where
  "add_manifest b m = add_functions (b\<lparr>linker_flags := linker_flags b @ linker_flags_of m\<rparr>) (manifest_functions m)"

section \<open>What a validated manifest gives\<close>

text \<open>The effect of a foreign function stands on the row variable \<open>a\<close> on both sides and has only base types and no side effect.\<close>

fun base_types_over :: "name \<Rightarrow> stack_type \<Rightarrow> bool" where
  "base_types_over r (SRowVar v) \<longleftrightarrow> v = r"
| "base_types_over r (SCons s t) \<longleftrightarrow> base_types_over r s \<and> t \<in> {TInt, TFloat, TBool, TString}"
| "base_types_over r SEmpty \<longleftrightarrow> False"

lemma try_bind_ok [simp]: "try_bind r f = Ok y \<longleftrightarrow> (\<exists>x. r = Ok x \<and> f x = Ok y)"
  by (cases r) auto

lemma push_types_base: "push_types s ns = Ok t \<Longrightarrow> base_types_over r s \<Longrightarrow> base_types_over r t"
  by (induction ns arbitrary: s) (auto simp: ffi_type_name_def st_push_def split: if_splits)

lemma ffi_effect_base:
  "ffi_effect f = Ok e \<Longrightarrow> base_types_over ''a'' (inputs e) \<and> base_types_over ''a'' (outputs e) \<and> effects e = []"
  by (auto simp: ffi_effect_def ffi_parse_stack_effect_def parse_stack_side_def effect_new_def split: option.splits list.splits
      dest: push_types_base [where r = "''a''"])

text \<open>A validated manifest has no effect that does not parse, so that adding it to the bindings fails only on a name that
  is there already; what is added are its functions, in order, each name once.\<close>

lemma validated_functions: "validate_functions l i fs = Ok () \<Longrightarrow> \<forall>f \<in> set fs. \<exists>e. ffi_effect f = Ok e"
  by (induction fs arbitrary: i) (auto split: if_splits sum.splits)

lemma validated_libraries: "validate_libraries i ls = Ok () \<Longrightarrow> \<forall>f \<in> set (concat (map lib_functions ls)). \<exists>e. ffi_effect f = Ok e"
  by (induction ls arbitrary: i) (auto split: if_splits option.splits dest: validated_functions)

lemma validated_manifest: "ffi_validate m = Ok () \<Longrightarrow> \<forall>f \<in> set (manifest_functions m). \<exists>e. ffi_effect f = Ok e"
  by (auto simp: ffi_validate_def manifest_functions_def split: if_splits dest: validated_libraries)

lemma add_functions_names:
  "add_functions b fs = Ok b' \<Longrightarrow> distinct (function_names b) \<Longrightarrow>
   distinct (function_names b') \<and> function_names b' = function_names b @ map seq_name fs"
proof (induction fs arbitrary: b)
  case (Cons f fs)
  then obtain e where e: "ffi_effect f = Ok e" "\<not> is_ffi_function b (seq_name f)"
    and add: "add_functions (bound b f e) fs = Ok b'"
    by (auto split: if_splits)
  have names: "function_names (bound b f e) = function_names b @ [seq_name f]" by (simp add: function_names_def bound_def)
  from e(2) Cons.prems(2) have "distinct (function_names (bound b f e))"
    unfolding names by (simp add: function_names_def is_ffi_function_def)
  from Cons.IH [OF add this] show ?case unfolding names append_assoc append.simps list.map .
qed simp

lemma add_functions_fails:
  "\<forall>f \<in> set fs. \<exists>e. ffi_effect f = Ok e \<Longrightarrow> add_functions b fs = Err e \<Longrightarrow> \<exists>n \<in> set (map seq_name fs). e = AlreadyDefined n"
proof (induction fs arbitrary: b)
  case (Cons f fs)
  then obtain ef where ef: "ffi_effect f = Ok ef" by auto
  with Cons show ?case by (cases "is_ffi_function b (seq_name f)") (simp, fastforce)
qed simp

lemma add_manifest_validated:
  assumes "ffi_validate m = Ok ()" "distinct (function_names b)"
  shows "case add_manifest b m of
      Inr b' \<Rightarrow> function_names b' = function_names b @ map seq_name (manifest_functions m) \<and> distinct (function_names b')
    | Inl e \<Rightarrow> \<exists>n \<in> set (map seq_name (manifest_functions m)). e = AlreadyDefined n"
proof -
  have "distinct (function_names (b\<lparr>linker_flags := l\<rparr>))" "function_names (b\<lparr>linker_flags := l\<rparr>) = function_names b" for l
    using assms(2) by (simp_all add: function_names_def)
  then show ?thesis
    using add_functions_names add_functions_fails [OF validated_manifest [OF assms(1)]]
    by (fastforce simp: add_manifest_def split: sum.splits)
qed

end
