(* ===== verification/Resolver.thy ===== *)
theory Resolver
  imports Ffi Parser_Total "HOL-Library.Code_Target_Nat"
begin

text \<open>
  The include resolver of \<open>crates/compiler/src/resolver.rs\<close>.  The file system is a parameter: what \<open>canonicalize\<close>, \<open>exists\<close> and
  \<open>read_to_string\<close> answer while the compiler runs, with the text of the embedded modules, the TOML reader and what
  \<open>find_stdlib\<close> found.  Paths are strings with the Unix reading of \<open>join\<close>, \<open>parent\<close> and \<open>is_absolute\<close>.  Fuel bounds the depth of
  nested includes; \<open>None\<close> is its exhaustion or a panic, and neither happens (\<open>resolve_merges_modules\<close>).
\<close>

section \<open>The world of the compiler\<close>

record world =
  w_canonicalize :: "string \<Rightarrow> string + string"
  w_exists :: "string \<Rightarrow> bool"
  w_read_to_string :: "string \<Rightarrow> string + string"
  w_stdlib_text :: "name \<Rightarrow> string"
  w_libedit :: string
  w_toml :: "string \<Rightarrow> string + ffi_manifest"
  w_find_stdlib :: "string option"

text \<open>\<open>Path::is_absolute\<close>, \<open>Path::join\<close> and \<open>Path::parent\<close>, the last for a path without \<open>.\<close> components and repeated
  slashes, as canonical paths are.\<close>

definition slash :: char where
  "slash = CHR ''/''"

definition is_absolute :: "string \<Rightarrow> bool" where
  "is_absolute p \<longleftrightarrow> p \<noteq> [] \<and> hd p = slash"

definition path_join :: "string \<Rightarrow> string \<Rightarrow> string" where
  "path_join d p = (if is_absolute p then p else if d = [] \<or> last d = slash then d @ p else d @ [slash] @ p)"

definition path_parent :: "string \<Rightarrow> string option" where
  "path_parent p =
     (if p = [] \<or> p = [slash] then None
      else let d = rev (dropWhile (\<lambda>c. c \<noteq> slash) (rev p))
           in Some (if d = [] \<or> d = [slash] then d else butlast d))"

definition stdlib_module_names :: "name list" where
  "stdlib_module_names = [''imath'', ''fmath'', ''json'', ''yaml'', ''http'', ''stack-utils'', ''map'', ''list'', ''son'', ''signal'',
     ''zipper'', ''loops'', ''control'']"

definition get_stdlib :: "world \<Rightarrow> name \<Rightarrow> string option" where
  "get_stdlib W n = (if n \<in> set stdlib_module_names then Some (w_stdlib_text W n) else None)"

definition get_ffi_manifest :: "world \<Rightarrow> name \<Rightarrow> string option" where
  "get_ffi_manifest W n = (if n = ''libedit'' then Some (w_libedit W) else None)"

text \<open>\<open>Parser::new\<close> and \<open>parse\<close>, with fuel that is always enough.\<close>

definition parse_text :: "string \<Rightarrow> (parse_failure + seq_program) option" where
  "parse_text s = map_option (map_sum id fst) (parse (Suc (length (tokenize s))) (parser_new s))"

section \<open>The resolver\<close>

record resolve_result =
  rr_program :: seq_program
  rr_ffi_includes :: "name list"
  rr_source_files :: "string set"
  rr_embedded_modules :: "name set"

record resolved_content =
  rc_words :: "word_def list"
  rc_unions :: "union_def list"

definition content_empty :: resolved_content where
  "content_empty = \<lparr>rc_words = [], rc_unions = []\<rparr>"

definition content_append :: "resolved_content \<Rightarrow> resolved_content \<Rightarrow> resolved_content" where
  "content_append a b = \<lparr>rc_words = rc_words a @ rc_words b, rc_unions = rc_unions a @ rc_unions b\<rparr>"

datatype resolved_include = EmbeddedModule name string | FilePath string

record resolver =
  included_files :: "string set"
  included_embedded :: "name set"
  stdlib_path :: "string option"
  ffi_includes :: "name list"

definition resolver_new :: "string option \<Rightarrow> resolver" where
  "resolver_new sp = \<lparr>included_files = {}, included_embedded = {}, stdlib_path = sp, ffi_includes = []\<rparr>"

datatype resolve_error =
    CannotCanonicalize string string
  | FfiLibraryNotFound name
  | EmbeddedParseFailed name parse_failure
  | IncludeParseFailed parse_failure
  | CannotRead string string
  | StdNotFound name bool
  | EmptyIncludePath
  | AbsoluteIncludePath string
  | IncludeNotFound string string
  | CannotResolve string string

definition stamp_source :: "source_location option \<Rightarrow> string \<Rightarrow> source_location option" where
  "stamp_source src f = (case src of Some loc \<Rightarrow> Some (loc\<lparr>sl_file := f\<rparr>) | None \<Rightarrow> Some (source_location_new f 0))"

definition stamp_word :: "string \<Rightarrow> word_def \<Rightarrow> word_def" where
  "stamp_word f w = w\<lparr>wd_source := stamp_source (wd_source w) f\<rparr>"

definition stamp_union :: "string \<Rightarrow> union_def \<Rightarrow> union_def" where
  "stamp_union f u = u\<lparr>ud_source := stamp_source (ud_source u) f\<rparr>"

definition seq_file :: "string \<Rightarrow> string" where
  "seq_file n = n @ ''.seq''"

definition resolve_relative_path :: "world \<Rightarrow> string \<Rightarrow> string \<Rightarrow> resolve_error + string" where
  "resolve_relative_path W rel_path source_dir =
     (if rel_path = [] then Err EmptyIncludePath
      else if is_absolute rel_path then Err (AbsoluteIncludePath rel_path)
      else let path = path_join source_dir (seq_file rel_path)
           in if \<not> w_exists W path then Err (IncludeNotFound rel_path path)
              else map_sum (CannotResolve rel_path) id (w_canonicalize W path))"

text \<open>\<open>None\<close> is the \<open>unreachable!\<close> of the FFI arm.\<close>

fun resolve_include :: "world \<Rightarrow> resolver \<Rightarrow> include_stmt \<Rightarrow> string \<Rightarrow> (resolve_error + resolved_include) option" where
  "resolve_include W st (IncStd n) source_dir =
     (case get_stdlib W n of
        Some content \<Rightarrow> Some (Ok (EmbeddedModule n content))
      | None \<Rightarrow>
          (case stdlib_path st of
             Some sp \<Rightarrow> (let path = path_join sp (seq_file n)
                        in if w_exists W path then Some (Ok (FilePath path)) else Some (Err (StdNotFound n True)))
           | None \<Rightarrow> Some (Err (StdNotFound n False))))"
| "resolve_include W st (IncRelative rel_path) source_dir = Some (map_sum id FilePath (resolve_relative_path W rel_path source_dir))"
| "resolve_include W st (IncFfi n) source_dir = None"

definition source_dir_of :: "string \<Rightarrow> string" where
  "source_dir_of source_path = (case path_parent source_path of Some d \<Rightarrow> d | None \<Rightarrow> ''.'')"

definition pseudo_path :: "name \<Rightarrow> string" where
  "pseudo_path n = ''<stdlib:'' @ n @ ''>''"

definition stamped :: "string \<Rightarrow> seq_program \<Rightarrow> resolved_content" where
  "stamped f p = \<lparr>rc_words = map (stamp_word f) (prog_words p), rc_unions = map (stamp_union f) (prog_unions p)\<rparr>"

definition process_ffi_include :: "resolver \<Rightarrow> name \<Rightarrow> resolve_error + resolved_content \<times> resolver" where
  "process_ffi_include st n =
     (if \<not> has_ffi_manifest n then Err (FfiLibraryNotFound n)
      else Ok (content_empty, if n \<in> set (ffi_includes st) then st else st\<lparr>ffi_includes := ffi_includes st @ [n]\<rparr>))"

function (sequential) resolve :: "nat \<Rightarrow> world \<Rightarrow> resolver \<Rightarrow> string \<Rightarrow> seq_program \<Rightarrow> (resolve_error + resolve_result \<times> resolver) option"
and process_includes :: "nat \<Rightarrow> world \<Rightarrow> resolver \<Rightarrow> include_stmt list \<Rightarrow> string \<Rightarrow> (resolve_error + resolved_content \<times> resolver) option"
and process_include :: "nat \<Rightarrow> world \<Rightarrow> resolver \<Rightarrow> include_stmt \<Rightarrow> string \<Rightarrow> (resolve_error + resolved_content \<times> resolver) option"
and process_embedded_include :: "nat \<Rightarrow> world \<Rightarrow> resolver \<Rightarrow> name \<Rightarrow> string \<Rightarrow> string \<Rightarrow> (resolve_error + resolved_content \<times> resolver) option"
and process_file_include :: "nat \<Rightarrow> world \<Rightarrow> resolver \<Rightarrow> string \<Rightarrow> (resolve_error + resolved_content \<times> resolver) option"
where
  "resolve k W st source_path p =
     and_then (Some (map_sum (CannotCanonicalize source_path) id (w_canonicalize W source_path))) (\<lambda>canonical.
     let st1 = st\<lparr>included_files := insert canonical (included_files st)\<rparr>
     in and_then (process_includes k W st1 (prog_includes p) (source_dir_of canonical)) (\<lambda>(c, st2).
        let all = content_append (stamped canonical p) c
        in Some (Ok (\<lparr>rr_program = \<lparr>prog_includes = [], prog_unions = rc_unions all, prog_words = rc_words all\<rparr>,
                      rr_ffi_includes = ffi_includes st2, rr_source_files = included_files st2,
                      rr_embedded_modules = included_embedded st2\<rparr>,
                     st2\<lparr>ffi_includes := []\<rparr>))))"
| "process_includes k W st [] source_dir = Some (Ok (content_empty, st))"
| "process_includes k W st (i # is) source_dir =
     and_then (process_include k W st i source_dir) (\<lambda>(c, st1).
     and_then (process_includes k W st1 is source_dir) (\<lambda>(d, st2). Some (Ok (content_append c d, st2))))"
| "process_include k W st i source_dir =
     (case i of
        IncFfi n \<Rightarrow> Some (process_ffi_include st n)
      | _ \<Rightarrow> and_then (resolve_include W st i source_dir) (\<lambda>r.
          case r of
            EmbeddedModule n content \<Rightarrow> process_embedded_include k W st n content source_dir
          | FilePath path \<Rightarrow> process_file_include k W st path))"
| "process_embedded_include k W st n content source_dir =
     (if n \<in> included_embedded st then Some (Ok (content_empty, st))
      else case k of
        0 \<Rightarrow> None
      | Suc k' \<Rightarrow>
          (let st1 = st\<lparr>included_embedded := insert n (included_embedded st)\<rparr>
           in and_then (map_option (map_sum (EmbeddedParseFailed n) id) (parse_text content)) (\<lambda>p.
              and_then (process_includes k' W st1 (prog_includes p) source_dir) (\<lambda>(c, st2).
              Some (Ok (content_append (stamped (pseudo_path n) p) c, st2))))))"
| "process_file_include k W st path =
     and_then (Some (map_sum (CannotCanonicalize path) id (w_canonicalize W path))) (\<lambda>canonical.
     if canonical \<in> included_files st then Some (Ok (content_empty, st))
     else case k of
       0 \<Rightarrow> None
     | Suc k' \<Rightarrow>
         and_then (Some (map_sum (CannotRead path) id (w_read_to_string W path))) (\<lambda>content.
         and_then (map_option (map_sum IncludeParseFailed id) (parse_text content)) (\<lambda>p.
         and_then (resolve k' W st path p) (\<lambda>(r, st1).
         Some (Ok (\<lparr>rc_words = prog_words (rr_program r), rc_unions = prog_unions (rr_program r)\<rparr>, st1))))))"
  by pat_completeness auto

termination
  by (relation "measures [case_sum (case_sum fst fst) (case_sum fst (case_sum fst fst)),
     case_sum (case_sum (\<lambda>_. 3) (\<lambda>_. 2)) (case_sum (\<lambda>_. 1) (\<lambda>_. 0)),
     case_sum (case_sum (\<lambda>_. 0) (\<lambda>(k, W, st, is, d). length is)) (\<lambda>_. 0)]") simp_all

declare resolve.simps [simp del] process_include.simps [simp del] process_embedded_include.simps [simp del] process_file_include.simps [simp del]

lemmas resolver_induct = resolve_process_includes_process_include_process_embedded_include_process_file_include.induct

section \<open>Modules\<close>

text \<open>
  What the resolver should do is merge modules: a file, known by its canonical path, or an embedded module, known by its
  name.  A module has the directory its own relative includes start from; an embedded one takes that of the file that includes it.
\<close>

datatype module_key = FileKey string | StdKey name

record seq_module =
  m_key :: module_key
  m_dir :: string
  m_program :: seq_program

definition module_path :: "seq_module \<Rightarrow> string" where
  "module_path m = (case m_key m of FileKey f \<Rightarrow> f | StdKey n \<Rightarrow> pseudo_path n)"

definition module_content :: "seq_module \<Rightarrow> resolved_content" where
  "module_content m = stamped (module_path m) (m_program m)"

fun is_ffi :: "include_stmt \<Rightarrow> bool" where
  "is_ffi (IncFfi n) \<longleftrightarrow> True"
| "is_ffi i \<longleftrightarrow> False"

inductive loads :: "world \<Rightarrow> string option \<Rightarrow> string \<Rightarrow> include_stmt \<Rightarrow> seq_module \<Rightarrow> bool" for W sp where
  loads_embedded: "resolve_include W (resolver_new sp) i d = Some (Ok (EmbeddedModule n text)) \<Longrightarrow> parse_text text = Some (Ok p) \<Longrightarrow>
     loads W sp d i \<lparr>m_key = StdKey n, m_dir = d, m_program = p\<rparr>"
| loads_file: "resolve_include W (resolver_new sp) i d = Some (Ok (FilePath path)) \<Longrightarrow> w_canonicalize W path = Ok c \<Longrightarrow>
     w_read_to_string W path = Ok text \<Longrightarrow> parse_text text = Some (Ok p) \<Longrightarrow>
     loads W sp d i \<lparr>m_key = FileKey c, m_dir = source_dir_of c, m_program = p\<rparr>"

definition depends :: "world \<Rightarrow> string option \<Rightarrow> seq_module \<Rightarrow> seq_module \<Rightarrow> bool" where
  "depends W sp m m' \<longleftrightarrow> (\<exists>i \<in> set (prog_includes (m_program m)). loads W sp (m_dir m) i m')"

text \<open>The key of the module an include statement names.\<close>

definition target :: "world \<Rightarrow> string option \<Rightarrow> string \<Rightarrow> include_stmt \<Rightarrow> module_key option" where
  "target W sp d i =
     (case resolve_include W (resolver_new sp) i d of
        Some (Inr (EmbeddedModule n text)) \<Rightarrow> Some (StdKey n)
      | Some (Inr (FilePath path)) \<Rightarrow> (case w_canonicalize W path of Inr c \<Rightarrow> Some (FileKey c) | Inl e \<Rightarrow> None)
      | _ \<Rightarrow> None)"

definition includes_in :: "world \<Rightarrow> string option \<Rightarrow> module_key set \<Rightarrow> string \<Rightarrow> include_stmt list \<Rightarrow> bool" where
  "includes_in W sp K d is \<longleftrightarrow> (\<forall>i \<in> set is. is_ffi i \<or> (\<exists>k \<in> K. target W sp d i = Some k))"

definition seen :: "resolver \<Rightarrow> module_key set" where
  "seen st = FileKey ` included_files st \<union> StdKey ` included_embedded st"

text \<open>From a state, the includes of a directory brought in the contents of the modules \<open>ms\<close>: new ones, each once, all reached
  from the includes, and all their includes are among what has been seen.\<close>

definition gathered ::
  "world \<Rightarrow> string \<Rightarrow> include_stmt list \<Rightarrow> resolver \<Rightarrow> resolved_content \<Rightarrow> resolver \<Rightarrow> seq_module list \<Rightarrow> bool" where
  "gathered W d is st c st' ms \<longleftrightarrow>
     rc_words c = concat (map (rc_words \<circ> module_content) ms) \<and> rc_unions c = concat (map (rc_unions \<circ> module_content) ms) \<and>
     stdlib_path st' = stdlib_path st \<and> seen st' = seen st \<union> m_key ` set ms \<and>
     distinct (map m_key ms) \<and> seen st \<inter> m_key ` set ms = {} \<and>
     (\<forall>m \<in> set ms. \<exists>i \<in> set is. \<exists>m1. loads W (stdlib_path st) d i m1 \<and> (depends W (stdlib_path st))\<^sup>*\<^sup>* m1 m) \<and>
     includes_in W (stdlib_path st) (seen st') d is \<and>
     (\<forall>m \<in> set ms. includes_in W (stdlib_path st) (seen st') (m_dir m) (prog_includes (m_program m)))"

lemma resolve_include_state: "resolve_include W st i d = resolve_include W (resolver_new (stdlib_path st)) i d"
  by (cases i) (simp_all add: resolver_new_def split: option.split)

lemma loads_target: "loads W sp d i m \<Longrightarrow> target W sp d i = Some (m_key m)"
  by (auto simp: target_def elim!: loads.cases)

lemma includes_in_mono: "includes_in W sp K d is \<Longrightarrow> K \<subseteq> K' \<Longrightarrow> includes_in W sp K' d is"
  by (fastforce simp: includes_in_def)

lemma gathered_nil: "gathered W d [] st content_empty st []"
  by (simp add: gathered_def content_empty_def includes_in_def)

lemma gathered_none:
  assumes "is_ffi i \<or> (\<exists>k \<in> seen st. target W (stdlib_path st) d i = Some k)"
  shows "gathered W d [i] st content_empty st []"
  using assms by (simp add: gathered_def content_empty_def includes_in_def)

lemma gathered_append:
  assumes "gathered W d [i] st c st1 ms" "gathered W d is st1 c' st2 ms'"
  shows "gathered W d (i # is) st (content_append c c') st2 (ms @ ms')"
proof -
  note g = assms [unfolded gathered_def]
  have sub: "seen st1 \<subseteq> seen st2" using g(2) by blast
  have "includes_in W (stdlib_path st) (seen st2) d (i # is)"
    using g includes_in_mono [OF _ sub] by (fastforce simp: includes_in_def)
  moreover have "\<forall>m \<in> set ms. includes_in W (stdlib_path st) (seen st2) (m_dir m) (prog_includes (m_program m))"
    using g(1) includes_in_mono [OF _ sub] by blast
  ultimately show ?thesis using g unfolding gathered_def
    by (auto simp: content_append_def)
qed

lemma gathered_module:
  assumes "loads W (stdlib_path st) d i m" "m_key m \<notin> seen st" "seen st1 = insert (m_key m) (seen st)" "stdlib_path st1 = stdlib_path st"
    and "gathered W (m_dir m) (prog_includes (m_program m)) st1 c st2 ms"
  shows "gathered W d [i] st (content_append (module_content m) c) st2 (m # ms)"
proof -
  note g = assms(5) [unfolded gathered_def assms(3,4)]
  have "(depends W (stdlib_path st))\<^sup>*\<^sup>* m x" if "x \<in> set ms" for x
  proof -
    from g that obtain m1 where "depends W (stdlib_path st) m m1" "(depends W (stdlib_path st))\<^sup>*\<^sup>* m1 x"
      unfolding depends_def by blast
    then show ?thesis by (rule converse_rtranclp_into_rtranclp)
  qed
  then have "\<forall>x \<in> set (m # ms). \<exists>i' \<in> set [i]. \<exists>m1. loads W (stdlib_path st) d i' m1 \<and> (depends W (stdlib_path st))\<^sup>*\<^sup>* m1 x"
    using assms(1) by auto
  moreover have "includes_in W (stdlib_path st) (seen st2) d [i]"
    using g loads_target [OF assms(1)] by (auto simp: includes_in_def)
  ultimately show ?thesis using g assms(2) unfolding gathered_def
    by (auto simp: content_append_def)
qed

lemma seen_insert:
  "seen (st\<lparr>included_files := insert c (included_files st)\<rparr>) = insert (FileKey c) (seen st)"
  "seen (st\<lparr>included_embedded := insert n (included_embedded st)\<rparr>) = insert (StdKey n) (seen st)"
  "seen (st\<lparr>ffi_includes := f\<rparr>) = seen st"
  "FileKey c \<in> seen st \<longleftrightarrow> c \<in> included_files st" "StdKey n \<in> seen st \<longleftrightarrow> n \<in> included_embedded st"
  by (auto simp: seen_def)

lemma gathered_clear: "gathered W d is st c st' ms \<Longrightarrow> gathered W d is st c (st'\<lparr>ffi_includes := f\<rparr>) ms"
  unfolding gathered_def seen_insert by auto

section \<open>The resolver merges modules\<close>

definition merged :: "world \<Rightarrow> resolver \<Rightarrow> string \<Rightarrow> seq_program \<Rightarrow> resolve_result \<Rightarrow> resolver \<Rightarrow> bool" where
  "merged W st path p r st' \<longleftrightarrow> (\<exists>c cnt ms. w_canonicalize W path = Ok c \<and>
     gathered W (source_dir_of c) (prog_includes p) (st\<lparr>included_files := insert c (included_files st)\<rparr>) cnt st' ms \<and>
     rr_program r = \<lparr>prog_includes = [], prog_unions = rc_unions (stamped c p) @ rc_unions cnt,
        prog_words = rc_words (stamped c p) @ rc_words cnt\<rparr> \<and>
     rr_source_files r = included_files st' \<and> rr_embedded_modules r = included_embedded st')"

lemma merged_module:
  assumes "merged W st path p r st'" "w_canonicalize W path = Ok c" "c \<notin> included_files st"
    and "loads W (stdlib_path st) d i \<lparr>m_key = FileKey c, m_dir = source_dir_of c, m_program = p\<rparr>"
  shows "\<exists>ms. gathered W d [i] st \<lparr>rc_words = prog_words (rr_program r), rc_unions = prog_unions (rr_program r)\<rparr> st' ms"
proof -
  let ?m = "\<lparr>m_key = FileKey c, m_dir = source_dir_of c, m_program = p\<rparr>"
  let ?st = "st\<lparr>included_files := insert c (included_files st)\<rparr>"
  from assms(1,2) obtain cnt ms where g: "gathered W (source_dir_of c) (prog_includes p) ?st cnt st' ms"
      "rr_program r = \<lparr>prog_includes = [], prog_unions = rc_unions (stamped c p) @ rc_unions cnt,
         prog_words = rc_words (stamped c p) @ rc_words cnt\<rparr>"
    unfolding merged_def by auto
  have "gathered W d [i] st (content_append (module_content ?m) cnt) st' (?m # ms)"
    by (rule gathered_module [OF assms(4)]) (use assms(3) g(1) in \<open>simp_all add: seen_insert\<close>)
  then show ?thesis using g(2) by (auto simp: content_append_def module_content_def module_path_def)
qed

lemma map_sum_Ok [simp]: "map_sum f g x = Ok y \<longleftrightarrow> (\<exists>z. x = Ok z \<and> y = g z)"
  by (cases x) auto

lemma resolver_merges:
  shows "resolve k W st path p = Some (Ok (r, st')) \<Longrightarrow> merged W st path p r st'"
    and "process_includes k W st incs d = Some (Ok (c, st')) \<Longrightarrow> \<exists>ms. gathered W d incs st c st' ms"
    and "process_include k W st i d = Some (Ok (c, st')) \<Longrightarrow> \<exists>ms. gathered W d [i] st c st' ms"
    and "process_embedded_include k W st n body d = Some (Ok (c, st')) \<Longrightarrow>
      resolve_include W st i d = Some (Ok (EmbeddedModule n body)) \<Longrightarrow> \<exists>ms. gathered W d [i] st c st' ms"
    and "process_file_include k W st path = Some (Ok (c, st')) \<Longrightarrow>
      resolve_include W st i d = Some (Ok (FilePath path)) \<Longrightarrow> \<exists>ms. gathered W d [i] st c st' ms"
proof (induction k W st path p and k W st incs d and k W st i d and k W st n body d and k W st path
    arbitrary: r st' and c st' and c st' and c st' i and c st' i d rule: resolver_induct)
  case (1 k W st path p)
  let ?st = "\<lambda>c. st\<lparr>included_files := insert c (included_files st)\<rparr>"
  from 1(2) obtain c cnt st2 where c: "w_canonicalize W path = Ok c"
      "process_includes k W (?st c) (prog_includes p) (source_dir_of c) = Some (Ok (cnt, st2))"
    and r: "rr_program r = \<lparr>prog_includes = [], prog_unions = rc_unions (stamped c p) @ rc_unions cnt,
        prog_words = rc_words (stamped c p) @ rc_words cnt\<rparr>"
      "rr_source_files r = included_files st'" "rr_embedded_modules r = included_embedded st'" "st' = st2\<lparr>ffi_includes := []\<rparr>"
    by (auto simp: resolve.simps Let_def content_append_def)
  from 1(1) [OF _ refl c(2)] c(1) r gathered_clear show ?case unfolding merged_def by fastforce
next
  case (2 k W st d)
  then show ?case using gathered_nil by auto
next
  case (3 k W st i incs d)
  from 3(3) obtain c1 st1 c2 where s: "process_include k W st i d = Some (Ok (c1, st1))"
      "process_includes k W st1 incs d = Some (Ok (c2, st'))" "c = content_append c1 c2"
    by auto
  from 3(1) [OF s(1)] 3(2) [OF s(1) refl s(2)] gathered_append s(3) show ?case by blast
next
  case (4 k W st i d)
  show ?case
  proof (cases "is_ffi i")
    case True
    then obtain n where n: "i = IncFfi n" by (cases i) auto
    have g: "gathered W d [i] st content_empty st []" by (rule gathered_none) (use True in simp)
    have "gathered W d [i] st content_empty (st\<lparr>ffi_includes := f\<rparr>) []" for f by (rule gathered_clear [OF g])
    with g n 4(5) show ?thesis
      by (auto simp: process_include.simps process_ffi_include_def split: if_splits)
  next
    case False
    then obtain r where r: "resolve_include W st i d = Some (Ok r)"
        "(case r of EmbeddedModule n content \<Rightarrow> process_embedded_include k W st n content d
          | FilePath path \<Rightarrow> process_file_include k W st path) = Some (Ok (c, st'))"
      using 4(5) by (cases i) (auto simp: process_include.simps)
    show ?thesis
    proof (cases r)
      case (EmbeddedModule n content)
      with r False show ?thesis using 4(1,3) by (cases i) auto
    next
      case (FilePath q)
      with r False show ?thesis using 4(2,4) by (cases i) auto
    qed
  qed
next
  case (5 k W st n body d)
  note inc = 5(3) [unfolded resolve_include_state [of W st]]
  show ?case
  proof (cases "n \<in> included_embedded st")
    case True
    with inc 5(2) gathered_none [of i st W d] show ?thesis
      by (auto simp: process_embedded_include.simps target_def seen_insert)
  next
    case False
    let ?st = "st\<lparr>included_embedded := insert n (included_embedded st)\<rparr>"
    from False 5(2) obtain k' p cnt where k: "k = Suc k'" and p: "parse_text body = Some (Ok p)"
        "process_includes k' W ?st (prog_includes p) d = Some (Ok (cnt, st'))" "c = content_append (stamped (pseudo_path n) p) cnt"
      by (auto simp: process_embedded_include.simps Let_def split: nat.splits)
    from 5(1) [OF False k refl _ p(2)] p(1) obtain ms where "gathered W d (prog_includes p) ?st cnt st' ms" by auto
    from gathered_module [OF loads_embedded [OF inc p(1)] _ _ _, of ?st cnt st' ms] this False p(3)
    show ?thesis by (auto simp: seen_insert module_content_def module_path_def)
  qed
next
  case (6 k W st path)
  note inc = 6(3) [unfolded resolve_include_state [of W st]]
  from 6(2) obtain cp where cp: "w_canonicalize W path = Ok cp" by (auto simp: process_file_include.simps)
  show ?case
  proof (cases "cp \<in> included_files st")
    case True
    with inc cp 6(2) gathered_none [of i st W d] show ?thesis
      by (auto simp: process_file_include.simps target_def seen_insert)
  next
    case False
    with 6(2) cp obtain k' body p r where k: "k = Suc k'" and p: "w_read_to_string W path = Ok body" "parse_text body = Some (Ok p)"
        "resolve k' W st path p = Some (Ok (r, st'))" "c = \<lparr>rc_words = prog_words (rr_program r), rc_unions = prog_unions (rr_program r)\<rparr>"
      by (auto simp: process_file_include.simps split: nat.splits)
    have "merged W st path p r st'" by (rule 6(1) [OF _ False k _ _ p(3)]) (use cp p in simp_all)
    from merged_module [OF this cp False loads_file [OF inc cp p(1,2)]] p(4) show ?thesis by simp
  qed
qed

section \<open>The resolver returns\<close>

text \<open>Every nested call includes a module that was not there before, so that the depth of the calls is bounded by the number of
  canonical paths and of embedded modules that have not been seen.\<close>

definition canonical_paths :: "world \<Rightarrow> string set \<Rightarrow> bool" where
  "canonical_paths W F \<longleftrightarrow> finite F \<and> (\<forall>q c. w_canonicalize W q = Ok c \<longrightarrow> c \<in> F)"

definition unseen_modules :: "string set \<Rightarrow> resolver \<Rightarrow> nat" where
  "unseen_modules F st = card (F - included_files st) + card (set stdlib_module_names - included_embedded st)"

lemma and_then_returns: "m \<noteq> None \<Longrightarrow> (\<And>a. m = Some (Ok a) \<Longrightarrow> f a \<noteq> None) \<Longrightarrow> and_then m f \<noteq> None"
  by (cases m rule: option.exhaust; auto) (metis and_then.simps(2,3) option.distinct(1) sum.exhaust)

lemma parse_text_returns: "parse_text s \<noteq> None"
  using items_within [of "parser_new s" "Suc (length (tokenize s))" "\<lparr>prog_includes = [], prog_unions = [], prog_words = []\<rparr>"]
  by (auto simp: parse_text_def parse_def parser_new_def split: option.split sum.split)

lemma resolve_include_returns: "\<not> is_ffi i \<Longrightarrow> resolve_include W st i d \<noteq> None"
  by (cases i) (auto simp: Let_def split: option.split)

lemma resolve_include_embedded: "resolve_include W st i d = Some (Ok (EmbeddedModule n content)) \<Longrightarrow> n \<in> set stdlib_module_names"
  by (cases i) (auto simp: Let_def get_stdlib_def split: if_splits option.splits)

lemma unseen_file: "finite F \<Longrightarrow> c \<in> F \<Longrightarrow> c \<notin> included_files st \<Longrightarrow>
    Suc (unseen_modules F (st\<lparr>included_files := insert c (included_files st)\<rparr>)) = unseen_modules F st"
proof -
  assume "finite F" "c \<in> F" "c \<notin> included_files st"
  then have "Suc (card (F - insert c (included_files st))) = card (F - included_files st)"
    by (metis Diff_iff Diff_insert card_Suc_Diff1 finite_Diff)
  then show ?thesis by (simp add: unseen_modules_def)
qed

lemma unseen_embedded: "n \<in> set stdlib_module_names \<Longrightarrow> n \<notin> included_embedded st \<Longrightarrow>
    Suc (unseen_modules F (st\<lparr>included_embedded := insert n (included_embedded st)\<rparr>)) = unseen_modules F st"
proof -
  assume "n \<in> set stdlib_module_names" "n \<notin> included_embedded st"
  then have "Suc (card (set stdlib_module_names - insert n (included_embedded st))) = card (set stdlib_module_names - included_embedded st)"
    by (metis Diff_iff Diff_insert List.finite_set card_Suc_Diff1 finite_Diff)
  then show ?thesis by (simp add: unseen_modules_def)
qed

lemma gathered_unseen: "gathered W d incs st c st' ms \<Longrightarrow> finite F \<Longrightarrow> unseen_modules F st' \<le> unseen_modules F st"
proof -
  assume "gathered W d incs st c st' ms" "finite F"
  then have "seen st \<subseteq> seen st'" by (auto simp: gathered_def)
  then have "included_files st \<subseteq> included_files st'" "included_embedded st \<subseteq> included_embedded st'"
    by (auto simp: seen_def)
  with \<open>finite F\<close> show ?thesis unfolding unseen_modules_def by (intro add_mono card_mono) auto
qed

lemma resolver_returns:
  shows "canonical_paths W F \<Longrightarrow> (\<And>c. w_canonicalize W path = Ok c \<Longrightarrow> unseen_modules F (st\<lparr>included_files := insert c (included_files st)\<rparr>) \<le> k)
      \<Longrightarrow> resolve k W st path p \<noteq> None"
    and "canonical_paths W F \<Longrightarrow> unseen_modules F st \<le> k \<Longrightarrow> process_includes k W st incs d \<noteq> None"
    and "canonical_paths W F \<Longrightarrow> unseen_modules F st \<le> k \<Longrightarrow> process_include k W st i d \<noteq> None"
    and "canonical_paths W F \<Longrightarrow> unseen_modules F st \<le> k \<Longrightarrow> n \<in> set stdlib_module_names \<Longrightarrow> process_embedded_include k W st n body d \<noteq> None"
    and "canonical_paths W F \<Longrightarrow> unseen_modules F st \<le> k \<Longrightarrow> process_file_include k W st path \<noteq> None"
proof (induction k W st path p and k W st incs d and k W st i d and k W st n body d and k W st path rule: resolver_induct)
  case (1 k W st path p)
  show ?case unfolding resolve.simps Let_def
    by (intro and_then_returns) (use 1 in \<open>auto\<close>)
next
  case (2 k W st d)
  then show ?case by simp
next
  case (3 k W st i incs d)
  have "finite F" using 3(3) by (simp add: canonical_paths_def)
  then have "unseen_modules F st1 \<le> k" if "process_include k W st i d = Some (Ok (c1, st1))" for c1 st1
    using resolver_merges(3) [OF that] gathered_unseen 3(4) order_trans by blast
  then have "process_includes k W st1 incs d \<noteq> None" if "process_include k W st i d = Some (Ok (c1, st1))" for c1 st1
    using 3(2) [OF that refl 3(3)] that by blast
  then have "and_then (process_includes k W st1 incs d) (\<lambda>(c2, st2). Some (Ok (content_append c1 c2, st2))) \<noteq> None"
    if "process_include k W st i d = Some (Ok (c1, st1))" for c1 st1
    by (intro and_then_returns) (use that in auto)
  then show ?case unfolding process_includes.simps by (intro and_then_returns) (use 3(1,3,4) in auto)
next
  case (4 k W st i d)
  show ?case
  proof (cases "is_ffi i")
    case True
    then show ?thesis by (cases i) (simp_all add: process_include.simps)
  next
    case False
    have "(case r of EmbeddedModule n content \<Rightarrow> process_embedded_include k W st n content d
          | FilePath path \<Rightarrow> process_file_include k W st path) \<noteq> None" if "resolve_include W st i d = Some (Ok r)" for r
    proof (cases r)
      case (EmbeddedModule n content)
      then have "n \<in> set stdlib_module_names" using that by (simp add: resolve_include_embedded)
      with EmbeddedModule that False show ?thesis using 4(1,3,5,6) by (cases i) (simp_all del: resolve_include.simps)
    next
      case (FilePath q)
      with that False show ?thesis using 4(2,4,5,6) by (cases i) (simp_all del: resolve_include.simps)
    qed
    then have "and_then (resolve_include W st i d) (\<lambda>r. case r of EmbeddedModule n content \<Rightarrow> process_embedded_include k W st n content d
          | FilePath path \<Rightarrow> process_file_include k W st path) \<noteq> None"
      by (rule and_then_returns [OF resolve_include_returns [OF False]])
    then show ?thesis using False by (cases i) (simp_all add: process_include.simps)
  qed
next
  case (5 k W st n body d)
  show ?case
  proof (cases "n \<in> included_embedded st")
    case False
    from unseen_embedded [OF 5(4) this, of F] 5(3) obtain k' where k: "k = Suc k'"
        "unseen_modules F (st\<lparr>included_embedded := insert n (included_embedded st)\<rparr>) \<le> k'"
      by (cases k) auto
    have "and_then (map_option (map_sum (EmbeddedParseFailed n) id) (parse_text body)) (\<lambda>p.
        and_then (process_includes k' W (st\<lparr>included_embedded := insert n (included_embedded st)\<rparr>) (prog_includes p) d) (\<lambda>(c, st2).
          Some (Ok (content_append (stamped (pseudo_path n) p) c, st2)))) \<noteq> None"
      by (intro and_then_returns) (use 5(1) [OF False k(1) refl] 5(2) k(2) parse_text_returns in auto)
    with False k(1) show ?thesis by (simp add: process_embedded_include.simps Let_def)
  qed (simp add: process_embedded_include.simps)
next
  case (6 k W st path)
  have "(if c \<in> included_files st then Some (Ok (content_empty, st))
     else case k of 0 \<Rightarrow> None | Suc k' \<Rightarrow>
       and_then (Some (map_sum (CannotRead path) id (w_read_to_string W path))) (\<lambda>content.
       and_then (map_option (map_sum IncludeParseFailed id) (parse_text content)) (\<lambda>p.
       and_then (resolve k' W st path p) (\<lambda>(r, st1).
       Some (Ok (\<lparr>rc_words = prog_words (rr_program r), rc_unions = prog_unions (rr_program r)\<rparr>, st1)))))) \<noteq> None"
    if c: "w_canonicalize W path = Ok c" for c
  proof (cases "c \<in> included_files st")
    case False
    have F: "finite F" "c \<in> F" using 6(2) c by (auto simp: canonical_paths_def)
    from unseen_file [OF F False] 6(3) obtain k' where k: "k = Suc k'"
        "unseen_modules F (st\<lparr>included_files := insert c (included_files st)\<rparr>) \<le> k'"
      by (cases k) auto
    have "resolve k' W st path p \<noteq> None"
      if "w_read_to_string W path = Ok content" "parse_text content = Some (Ok p)" for content p
      by (rule 6(1) [OF _ False k(1) _ _ 6(2)]) (use c that k(2) in auto)
    then have "and_then (Some (map_sum (CannotRead path) id (w_read_to_string W path))) (\<lambda>content.
       and_then (map_option (map_sum IncludeParseFailed id) (parse_text content)) (\<lambda>p.
       and_then (resolve k' W st path p) (\<lambda>(r, st1).
       Some (Ok (\<lparr>rc_words = prog_words (rr_program r), rc_unions = prog_unions (rr_program r)\<rparr>, st1))))) \<noteq> None"
      by (intro and_then_returns) (use parse_text_returns in auto)
    then show ?thesis using False k(1) by simp
  qed simp
  then show ?case unfolding process_file_include.simps by (intro and_then_returns) auto
qed

section \<open>What resolving a program gives\<close>

definition main_module :: "string \<Rightarrow> seq_program \<Rightarrow> seq_module" where
  "main_module c p = \<lparr>m_key = FileKey c, m_dir = source_dir_of c, m_program = p\<rparr>"

definition merges_modules :: "world \<Rightarrow> string option \<Rightarrow> seq_module \<Rightarrow> seq_module list \<Rightarrow> resolve_result \<Rightarrow> bool" where
  "merges_modules W sp main ms r \<longleftrightarrow>
     rr_program r = \<lparr>prog_includes = [], prog_unions = concat (map (rc_unions \<circ> module_content) (main # ms)),
       prog_words = concat (map (rc_words \<circ> module_content) (main # ms))\<rparr> \<and>
     distinct (map m_key (main # ms)) \<and>
     (\<forall>m \<in> set ms. (depends W sp)\<^sup>*\<^sup>* main m) \<and>
     (\<forall>m \<in> set (main # ms). includes_in W sp (m_key ` set (main # ms)) (m_dir m) (prog_includes (m_program m))) \<and>
     FileKey ` rr_source_files r \<union> StdKey ` rr_embedded_modules r = m_key ` set (main # ms)"

lemma merged_merges:
  assumes "merged W (resolver_new sp) path p r st'"
  shows "\<exists>c ms. w_canonicalize W path = Ok c \<and> merges_modules W sp (main_module c p) ms r"
proof -
  let ?st = "\<lambda>c. (resolver_new sp)\<lparr>included_files := insert c (included_files (resolver_new sp))\<rparr>"
  have st: "stdlib_path (?st c) = sp" "seen (?st c) = {FileKey c}" for c by (simp_all add: resolver_new_def seen_def)
  from assms obtain c cnt ms where c: "w_canonicalize W path = Ok c"
    and g: "gathered W (source_dir_of c) (prog_includes p) (?st c) cnt st' ms"
    and r: "rr_program r = \<lparr>prog_includes = [], prog_unions = rc_unions (stamped c p) @ rc_unions cnt,
        prog_words = rc_words (stamped c p) @ rc_words cnt\<rparr>"
      "rr_source_files r = included_files st'" "rr_embedded_modules r = included_embedded st'"
    unfolding merged_def by blast
  note g = g [unfolded gathered_def st]
  have seen: "seen st' = m_key ` set (main_module c p # ms)" using g by (simp add: main_module_def)
  have "(depends W sp)\<^sup>*\<^sup>* (main_module c p) m" if "m \<in> set ms" for m
  proof -
    from g that obtain i m1 where "i \<in> set (prog_includes p)" "loads W sp (source_dir_of c) i m1" "(depends W sp)\<^sup>*\<^sup>* m1 m"
      by blast
    moreover from this(1,2) have "depends W sp (main_module c p) m1" by (auto simp: depends_def main_module_def)
    ultimately show ?thesis by (blast intro: converse_rtranclp_into_rtranclp)
  qed
  moreover have "includes_in W sp (seen st') (m_dir m) (prog_includes (m_program m))" if "m \<in> set (main_module c p # ms)" for m
    using g that by (auto simp: main_module_def)
  moreover have "distinct (map m_key (main_module c p # ms))" using g by (auto simp: main_module_def)
  ultimately have "merges_modules W sp (main_module c p) ms r"
    using g r seen by (simp add: merges_modules_def seen_def [of st'] module_content_def main_module_def module_path_def)
  with c show ?thesis by blast
qed

lemma unseen_new: "canonical_paths W F \<Longrightarrow> unseen_modules F (resolver_new sp) = card F + 13"
  by (simp add: unseen_modules_def resolver_new_def stdlib_module_names_def)

text \<open>C7: Resolving the includes of a program returns, with fuel for as many nested includes as there are canonical paths and embedded
  modules, cyclic includes or not.  When it succeeds, the result is the merge of the modules reachable from the main file by its
  includes, each of them once: the words and the unions are those of the main file and of the modules, stamped with the path or the name of their
  module; every include statement of every one of them, other than of a foreign library, names one of them; the modules are those the result lists.\<close>

theorem resolve_merges_modules:
  assumes "canonical_paths W F" "card F + 13 \<le> k"
  shows "\<exists>res. resolve k W (resolver_new sp) path p = Some res \<and>
    (\<forall>r st. res = Ok (r, st) \<longrightarrow> (\<exists>c ms. w_canonicalize W path = Ok c \<and> merges_modules W sp (main_module c p) ms r))"
proof -
  have "unseen_modules F ((resolver_new sp)\<lparr>included_files := insert c (included_files (resolver_new sp))\<rparr>) \<le> k" if "w_canonicalize W path = Ok c" for c
    using unseen_file [of F c "resolver_new sp"] unseen_new [OF assms(1), of sp] assms that
    by (auto simp: canonical_paths_def resolver_new_def)
  then obtain res where "resolve k W (resolver_new sp) path p = Some res"
    using resolver_returns(1) [OF assms(1)] by blast
  moreover from this have "\<exists>c ms. w_canonicalize W path = Ok c \<and> merges_modules W sp (main_module c p) ms r" if "res = Ok (r, st)" for r st
    using merged_merges [OF resolver_merges(1)] that by blast
  ultimately show ?thesis by blast
qed

text \<open>Two files that include each other.\<close>

definition main_text :: string where
  "main_text = ''include ~square~ : main ( -- ) 3 square 10 i.< [ ] [ ] if ;''"

definition square_text :: string where
  "square_text = ''include ~main~ : square ( Int -- Int ) dup i.* ;''"

definition quoted :: "string \<Rightarrow> string" where
  "quoted s = map (\<lambda>c. if c = CHR ''~'' then quote_char else c) s"

definition demo_files :: "(string \<times> string) list" where
  "demo_files = [(''/p/main.seq'', quoted main_text), (''/p/square.seq'', quoted square_text)]"

definition demo_world :: world where
  "demo_world = \<lparr>w_canonicalize = (\<lambda>q. if q \<in> fst ` set demo_files then Ok q else Err ''not found''),
     w_exists = (\<lambda>q. q \<in> fst ` set demo_files),
     w_read_to_string = (\<lambda>q. case map_of demo_files q of Some t \<Rightarrow> Ok t | None \<Rightarrow> Err ''not found''),
     w_stdlib_text = (\<lambda>n. []), w_libedit = [], w_toml = (\<lambda>s. Err ''not a manifest''), w_find_stdlib = None\<rparr>"

lemma demo_paths: "canonical_paths demo_world (fst ` set demo_files)"
  by (simp add: canonical_paths_def demo_world_def)

definition demo_resolved :: "(resolve_error + resolve_result \<times> resolver) option" where
  "demo_resolved = (case parse_text (quoted main_text) of
     Some (Inr p) \<Rightarrow> resolve 15 demo_world (resolver_new None) ''/p/main.seq'' p | _ \<Rightarrow> None)"

lemma demo_words_resolved:
  "map_option (map_sum (\<lambda>e. ()) (\<lambda>r. map wd_name (prog_words (rr_program (fst r))))) demo_resolved = Some (Ok [''main'', ''square''])"
  by code_simp

theorem resolve_merges_modules_witness:
  "\<exists>p r st c ms. resolve 15 demo_world (resolver_new None) ''/p/main.seq'' p = Some (Ok (r, st)) \<and>
     merges_modules demo_world None (main_module c p) ms r \<and> map wd_name (prog_words (rr_program r)) = [''main'', ''square'']"
proof -
  obtain p r st where r: "resolve 15 demo_world (resolver_new None) ''/p/main.seq'' p = Some (Ok (r, st))"
      "map wd_name (prog_words (rr_program r)) = [''main'', ''square'']"
    using demo_words_resolved by (auto simp: demo_resolved_def split: option.splits sum.splits)
  have "card (fst ` set demo_files) + 13 \<le> (15::nat)" by (simp add: demo_files_def)
  from resolve_merges_modules [OF demo_paths this, of None "''/p/main.seq''" p] r(1)
  obtain c ms where "merges_modules demo_world None (main_module c p) ms r" by auto
  with r show ?thesis by (intro exI conjI)
qed

section \<open>Every definition has a source position\<close>

definition sourced :: "seq_program \<Rightarrow> bool" where
  "sourced p \<longleftrightarrow> (\<forall>w \<in> set (prog_words p). wd_source w \<noteq> None)
     \<and> (\<forall>u \<in> set (prog_unions p). \<forall>v \<in> set (ud_variants u). uv_source v \<noteq> None)"

lemma word_sourced: "parse_word_def n p = Some (Ok (w, q)) \<Longrightarrow> wd_source w \<noteq> None"
  by (auto simp: parse_word_def_def Let_def pok_def perr_def split: if_splits)

lemma variant_sourced: "parse_union_variant n p = Some (Ok (v, q)) \<Longrightarrow> uv_source v \<noteq> None"
  by (auto simp: parse_union_variant_def Let_def pok_def perr_def split: if_splits)

lemma variants_sourced:
  "parse_variant_loop n u acc p = Some (Ok (vs, q)) \<Longrightarrow> \<forall>v \<in> set acc. uv_source v \<noteq> None \<Longrightarrow> \<forall>v \<in> set vs. uv_source v \<noteq> None"
proof (induction n arbitrary: acc p)
  case (Suc n)
  consider "vs = acc" | v p2 where "parse_union_variant n (skip_comments p) = Some (Ok (v, p2))"
      "parse_variant_loop n u (acc @ [v]) p2 = Some (Ok (vs, q))"
    using Suc.prems(1) by (auto simp: Let_def pok_def perr_def split: if_splits)
  then show ?case
  proof cases
    case 2
    show ?thesis by (rule Suc.IH [OF 2(2)]) (use Suc.prems(2) variant_sourced [OF 2(1)] in simp)
  qed (use Suc.prems(2) in simp)
qed simp

lemma union_sourced: "parse_union_def n p = Some (Ok (u, q)) \<Longrightarrow> \<forall>v \<in> set (ud_variants u). uv_source v \<noteq> None"
  using variants_sourced [of n _ "[]"]
  by (auto simp: parse_union_def_def Let_def pok_def perr_def split: if_splits option.splits)

lemma item_sourced: "parse_item m a prog = Some (Ok (r, b)) \<Longrightarrow> sourced prog \<Longrightarrow> sourced r"
  using word_sourced union_sourced by (fastforce simp: sourced_def pok_def split: if_splits)

lemma items_sourced: "parse_items n p prog = Some (Ok (prog', q)) \<Longrightarrow> sourced prog \<Longrightarrow> sourced prog'"
proof (induction n arbitrary: p prog)
  case (Suc n)
  consider "prog' = prog" | r p2 where "parse_item (Suc n) (skip_comments p) prog = Some (Ok (r, p2))" "parse_items n p2 r = Some (Ok (prog', q))"
    using Suc.prems(1) by (auto simp: Let_def pok_def split: if_splits simp del: parse_item.simps)
  then show ?case
  proof cases
    case 2
    then show ?thesis using Suc.IH [OF 2(2)] item_sourced [OF 2(1) Suc.prems(2)] by blast
  qed (use Suc.prems(2) in simp)
qed simp

lemma parse_sourced: "parse k p = Some (Ok (prog, q)) \<Longrightarrow> sourced prog"
  using items_sourced [of k p "\<lparr>prog_includes = [], prog_unions = [], prog_words = []\<rparr>" prog q]
  by (auto simp: parse_def sourced_def split: option.splits sum.splits)

lemma parse_text_sourced: "parse_text t = Some (Ok p) \<Longrightarrow> sourced p"
  by (auto simp: parse_text_def dest: parse_sourced)

lemma loads_sourced: "loads W sp d i m \<Longrightarrow> sourced (m_program m)"
  by (auto elim!: loads.cases dest: parse_text_sourced)

lemma depends_sourced: "(depends W sp)\<^sup>*\<^sup>* m m' \<Longrightarrow> sourced (m_program m) \<Longrightarrow> sourced (m_program m')"
  by (induction rule: rtranclp_induct) (auto simp: depends_def dest: loads_sourced)

lemma content_sourced:
  "w \<in> set (rc_words (module_content m)) \<Longrightarrow> wd_source w \<noteq> None"
  "sourced (m_program m) \<Longrightarrow> u \<in> set (rc_unions (module_content m)) \<Longrightarrow> v \<in> set (ud_variants u) \<Longrightarrow> uv_source v \<noteq> None"
  by (auto simp: module_content_def stamped_def stamp_word_def stamp_source_def stamp_union_def sourced_def split: option.splits)

text \<open>The resolver keeps a source position on every definition: what the collision check relies on.\<close>

lemma resolve_sourced:
  assumes "resolve k W (resolver_new sp) path p = Some (Ok (r, st))" "sourced p"
  shows "sourced (rr_program r)"
proof -
  obtain c ms where ms: "merges_modules W sp (main_module c p) ms r"
    using merged_merges [OF resolver_merges(1) [OF assms(1)]] by blast
  have "sourced (m_program m)" if "m \<in> set (main_module c p # ms)" for m
    using that ms depends_sourced [of W sp "main_module c p" m] assms(2) by (auto simp: merges_modules_def main_module_def)
  then show ?thesis using ms content_sourced unfolding merges_modules_def sourced_def [of "rr_program r"] by fastforce
qed

section \<open>Two defects of merging\<close>

text \<open>The foreign libraries collected so far are taken out of the state by the nested call for an included file and dropped there, so that
  after a new file is included none is left.\<close>

lemma file_include_drops_ffi:
  assumes "process_file_include k W st path = Some (Ok (c, st'))" "w_canonicalize W path = Ok f" "f \<notin> included_files st"
  shows "ffi_includes st' = []"
  using assms by (auto simp: process_file_include.simps resolve.simps Let_def split: nat.splits)

text \<open>Every file is parsed by a parser of its own that numbers quotations from 0, and merging does not renumber them, so that quotations of
  different files have the same number, by which the checker records their types.\<close>

definition clash_world :: world where
  "clash_world = demo_world\<lparr>w_read_to_string := (\<lambda>q. if q = ''/p/main.seq'' then Ok (quoted ''include ~square~ : main ( -- ) [ 1 ] drop ;'')
     else Ok ('': other ( -- ) [ ] drop ;''))\<rparr>"

fun quotation_numbers :: "statement list \<Rightarrow> nat list" where
  "quotation_numbers [] = []"
| "quotation_numbers (Quotation n b sp # ss) = n # quotation_numbers ss"
| "quotation_numbers (s # ss) = quotation_numbers ss"

lemma quotation_numbers_clash:
  "(case w_read_to_string clash_world ''/p/main.seq'' of Inr t \<Rightarrow>
      (case parse_text t of Some (Inr p) \<Rightarrow>
        (case resolve 15 clash_world (resolver_new None) ''/p/main.seq'' p of
           Some (Inr (r, st)) \<Rightarrow> Some (map (\<lambda>w. (wd_name w, quotation_numbers (wd_body w))) (prog_words (rr_program r)))
         | _ \<Rightarrow> None) | _ \<Rightarrow> None) | _ \<Rightarrow> None) = Some [(''main'', [0]), (''other'', [0])]"
  by code_simp

end
