(* ===== verification/Front_End.thy ===== *)
theory Front_End
  imports Program_Passes Resolver Checked_Programs
begin

text \<open>
  The front end of the compiler, the part of \<open>compile_file_with_config\<close> in \<open>crates/compiler/src/lib.rs\<close> from reading the source
  to checking types, for the default configuration (no external builtins and no manifests on the command line): read and parse,
  resolve includes, load the manifests of included foreign libraries, fix up union types, generate the helper words, lower literal
  conditionals, check for collisions and for \<open>main\<close>, validate the word calls, build the call graph and check types.  What the
  front end accepts and the runtime executes are put together at the end: from source files to a run without a fault.
\<close>

section \<open>The pipeline\<close>

datatype front_error =
    ReadError string
  | ParseError parse_failure
  | ResolveError resolve_error
  | FfiError ffi_error
  | ProgramError program_error
  | NoMainWord
  | CheckError check_error

definition load_program :: "world \<Rightarrow> nat \<Rightarrow> string \<Rightarrow> (front_error + seq_program \<times> name list) option" where
  "load_program W k source_path =
     and_then (Some (map_sum ReadError id (w_read_to_string W source_path))) (\<lambda>source.
     and_then (map_option (map_sum ParseError id) (parse_text source)) (\<lambda>p.
     if prog_includes p \<noteq> []
     then map_option (map_sum ResolveError (\<lambda>(r, st). (rr_program r, rr_ffi_includes r)))
            (resolve k W (resolver_new (w_find_stdlib W)) source_path p)
     else Some (Ok (p, []))))"

fun load_ffi :: "world \<Rightarrow> name list \<Rightarrow> ffi_bindings \<Rightarrow> ffi_error + ffi_bindings" where
  "load_ffi W [] b = Ok b"
| "load_ffi W (n # ns) b =
     (case get_ffi_manifest W n of
        None \<Rightarrow> Err (ManifestNotFound n)
      | Some content \<Rightarrow> try_bind (manifest_parse (w_toml W) content) (\<lambda>m. try_bind (add_manifest b m) (load_ffi W ns)))"

definition front_passes :: "nat \<Rightarrow> ffi_bindings \<Rightarrow> seq_program \<Rightarrow> (front_error + seq_program \<times> checker) option" where
  "front_passes n b p1 =
     and_then (Some (map_sum ProgramError id (generate_constructors (fixup_union_types p1)))) (\<lambda>p2.
     let p3 = lower_literal_if_combinators p2
     in and_then (Some (map_sum ProgramError id (check_collisions (prog_words p3)))) (\<lambda>_.
        and_then (Some (map_sum ProgramError id (check_union_collisions (prog_unions p3)))) (\<lambda>_.
        if find_word p3 ''main'' = None then Some (Err NoMainWord)
        else and_then (Some (map_sum ProgramError id (validate_word_calls_with_externals p3 (function_names b)))) (\<lambda>_.
             case call_graph_build p3 of
               None \<Rightarrow> None
             | Some g \<Rightarrow>
                 let tc = register_external_words (set_call_graph checker_new g)
                            (map (\<lambda>(n, f). (fi_seq_name f, fi_effect f)) (ffi_functions b))
                 in map_option (map_sum CheckError (\<lambda>tc'. (p3, tc'))) (check_program n tc p3)))))"

definition front_end :: "world \<Rightarrow> nat \<Rightarrow> nat \<Rightarrow> string \<Rightarrow> (front_error + seq_program \<times> ffi_bindings \<times> checker) option" where
  "front_end W k n source_path =
     and_then (load_program W k source_path) (\<lambda>(p1, ffi_includes).
     and_then (Some (map_sum FfiError id (load_ffi W ffi_includes bindings_new))) (\<lambda>b.
     map_option (map_sum id (\<lambda>(p3, tc). (p3, b, tc))) (front_passes n b p1)))"

section \<open>From source text to a run\<close>

lemma generated_sourced:
  assumes "generate_constructors p = Ok q" "sourced p"
  shows "\<forall>w \<in> set (prog_words q). wd_source w \<noteq> None"
proof -
  obtain ws where ws: "generated_words (prog_unions p) = Ok ws" "q = p\<lparr>prog_words := prog_words p @ ws\<rparr>"
    using assms(1) by (cases "generated_words (prog_unions p)") (auto simp: generate_constructors_def)
  have "wd_source w = uv_source v" if "w \<in> set (helper_words u v)" for w u v
    using that by (auto simp: helper_words_def constructor_word_def predicate_word_def accessor_word_def make_helper_word_def)
  then show ?thesis using generated_words_set [OF ws(1)] ws(2) assms(2) by (auto simp: sourced_def)
qed

lemma fixup_sourced: "sourced p \<Longrightarrow> sourced (fixup_union_types p)"
  by (simp add: sourced_def fixup_union_types_def Let_def)

lemma front_passes_ok:
  assumes "front_passes n b p1 = Some (Ok (p, tc))" "sourced p1" "ffi_functions b = []"
  obtains g where "call_graph_build p = Some g" "check_program n (set_call_graph checker_new g) p = Some (Ok tc)"
    "distinct (map wd_name (prog_words p))" "validate_word_calls p = Ok ()" "list_all (triple_free \<circ> wd_body) (prog_words p)"
proof -
  obtain p2 where p2: "generate_constructors (fixup_union_types p1) = Ok p2" "p = lower_literal_if_combinators p2"
    and ok: "check_collisions (prog_words p) = Ok ()" "validate_word_calls p = Ok ()"
    and g: "\<exists>g. call_graph_build p = Some g \<and> check_program n (set_call_graph checker_new g) p = Some (Ok tc)"
    using assms(1,3)
    by (cases "generate_constructors (fixup_union_types p1)")
      (auto simp: front_passes_def Let_def validate_word_calls_def function_names_def register_external_words_def
        split: if_splits option.splits sum.splits)
  have "\<forall>w \<in> set (prog_words p). wd_source w \<noteq> None"
    using generated_sourced [OF p2(1) fixup_sourced [OF assms(2)]] p2(2) by (auto simp: lower_literal_if_combinators_def)
  then have "distinct (map wd_name (prog_words p))" by (rule collisions_distinct [OF ok(1)])
  moreover have "list_all (triple_free \<circ> wd_body) (prog_words p)"
    using p2(2) by (simp add: lower_literal_if_combinators_def list_all_iff rewrite_triple_free)
  ultimately show thesis using that g ok(2) by blast
qed

lemma load_sourced: "load_program W k path = Some (Ok (p, fs)) \<Longrightarrow> sourced p"
  by (auto simp: load_program_def split: if_splits dest: parse_text_sourced resolve_sourced)

lemma front_end_ok:
  assumes "front_end W k n path = Some (Ok (p, b, tc))"
  obtains p1 where "front_passes n b p1 = Some (Ok (p, tc))" "sourced p1"
  using assms load_sourced by (auto simp: front_end_def)

text \<open>C6: From source files to a run without a fault: when the front end accepts a source file, with the includes the resolver finds for it and no
  foreign functions, and every word of the resulting program is in the fragment the type soundness covers (a declared effect without variables;
  a body of literals, conditionals neither branch of which the checker takes to diverge, the primitive words of the soundness and calls of
  the program's words), then running the body of any word of it on values of its declared input types has no fault but the end of
  the stack's memory: it exhausts that or the fuel, or what it leaves has the declared output types over the untouched rest.  A run applies the
  runtime's function for every primitive word.  That no two words have the same name, which type soundness needs, is what
  the collision check ensures, and that it sees every word, what the resolver's source positions ensure.\<close>

theorem source_program_safe:
  assumes "front_end W k n path = Some (Ok (p, b, tc))" "ffi_functions b = []"
    and "\<And>g w. call_graph_build p = Some g \<Longrightarrow> w \<in> set (prog_words p) \<Longrightarrow> plain_word (declared p) (set_call_graph checker_new g) w"
    and "w \<in> set (prog_words p)" "wd_effect w = Some e"
    and "represents s ext vs" "stack_base (fst s) = Some 0" "typed (inputs e) below vs"
  shows "safe ext (outputs e) below (exec m (program_bodies p) (wd_body w) s)"
proof -
  obtain p1 where "front_passes n b p1 = Some (Ok (p, tc))" "sourced p1" by (rule front_end_ok [OF assms(1)])
  then obtain g where g: "call_graph_build p = Some g" "check_program n (set_call_graph checker_new g) p = Some (Ok tc)"
      "distinct (map wd_name (prog_words p))"
    by (rule front_passes_ok [OF _ _ assms(2)])
  have env: "env (set_call_graph checker_new g) = Map.empty" by (simp add: set_call_graph_def checker_new_def)
  have plain: "\<forall>w \<in> set (prog_words p). plain_word (declared p) (set_call_graph checker_new g) w" using assms(3) g(1) by blast
  show ?thesis
    by (rule acceptsD [OF checked_words_accept [OF g(2) env g(3) plain assms(4,5)] assms(6-8)])
qed

text \<open>The two files of the resolver's example, which include each other: a word, a literal conditional and a call, and the program the front
  end makes of them.\<close>

definition at_column :: "nat \<Rightarrow> nat \<Rightarrow> span option" where
  "at_column c l = Some \<lparr>sp_line = 0, sp_column = c, sp_length = l\<rparr>"

definition on_first_line :: "string \<Rightarrow> name \<Rightarrow> effect \<Rightarrow> statement list \<Rightarrow> word_def" where
  "on_first_line f n e body = \<lparr>wd_name = n, wd_effect = Some e, wd_body = body,
     wd_source = Some \<lparr>sl_file = f, sl_start_line = 0, sl_end_line = 0\<rparr>, wd_allowed_lints = []\<rparr>"

lemma on_first_line_simps [simp]:
  "wd_name (on_first_line f n e b) = n" "wd_effect (on_first_line f n e b) = Some e" "wd_body (on_first_line f n e b) = b"
  "map_option sl_start_line (wd_source (on_first_line f n e b)) = Some 0"
  by (simp_all add: on_first_line_def)

definition source_square :: word_def where
  "source_square = on_first_line ''/p/square.seq'' ''square'' int_to_int [WordCall ''dup'' (at_column 39 3), WordCall ''i.*'' (at_column 43 3)]"

definition source_main :: word_def where
  "source_main = on_first_line ''/p/main.seq'' ''main'' (effect_new (ints 0) (ints 0))
     [IntLiteral 3, WordCall ''square'' (at_column 33 6), IntLiteral 10, WordCall ''i.<'' (at_column 43 3),
      If [] (Some []) (at_column 55 2)]"

definition lowered_source :: seq_program where
  "lowered_source = program [source_main, source_square]"

definition lowered :: "(front_error + seq_program \<times> name list) option \<Rightarrow> seq_program option" where
  "lowered r = (case r of Some (Inr (p, ffi)) \<Rightarrow>
     (case generate_constructors (fixup_union_types p) of
        Inr p2 \<Rightarrow> if ffi = [] then Some (lower_literal_if_combinators p2) else None
      | Inl _ \<Rightarrow> None) | _ \<Rightarrow> None)"

lemma lowered_front_end:
  assumes "lowered (load_program W k path) = Some q"
    and "check_collisions (prog_words q) = Ok ()" "check_union_collisions (prog_unions q) = Ok ()"
    and "find_word q ''main'' \<noteq> None" "validate_word_calls_with_externals q [] = Ok ()" "call_graph_build q = Some g"
    and "check_program n (set_call_graph checker_new g) q = Some (Ok tc)"
  shows "front_end W k n path = Some (Ok (q, bindings_new, tc))"
proof -
  obtain p p2 where p: "load_program W k path = Some (Ok (p, []))"
      "generate_constructors (fixup_union_types p) = Ok p2" "q = lower_literal_if_combinators p2"
    using assms(1) by (auto simp: lowered_def split: option.splits sum.splits if_splits)
  with assms(2-) show ?thesis
    by (simp add: front_end_def front_passes_def Let_def bindings_new_def function_names_def register_external_words_def del: and_then_ok)
qed

lemma demo_lowered: "lowered (load_program demo_world 15 ''/p/main.seq'') = Some lowered_source"
  by code_simp

lemma lowered_names: "builtin_signature ''main'' = None" "builtin_signature ''square'' = None"
  by (rule builtin_none; simp add: all_tables absent_append absent_make)+

lemma lowered_declared: "declared lowered_source = [''main'' \<mapsto> effect_new (ints 0) (ints 0), ''square'' \<mapsto> int_to_int]"
  by (simp add: declared_def lowered_source_def declare_word_def source_square_def source_main_def)

lemma source_square_infers: "infers 9 S (wd_body source_square) (ints 1) (ints 1)"
  unfolding source_square_def on_first_line_simps by (rule infer_rules | simp)+

lemma source_main_infers:
  assumes "fst S ''square'' = Some int_to_int"
  shows "infers 9 S (wd_body source_main) (ints 0) (ints 0)"
proof -
  have sq: "infers1 9 S (WordCall ''square'' sp) (ints 1) (ints 1)" for sp
    by (rule call_int_to_int) (use assms lowered_names in \<open>simp_all add: sugar_ops_def special_words_def\<close>)
  have "infers1 9 S (If [] (Some []) sp) (SCons (ints 0) TBool) (ints 0)" for sp
    by (rule infers1_if9 [OF infers_Nil infers_Nil _ ints_unify(1)]) simp
  note rules = infer_rules this sq
  show ?thesis unfolding source_main_def on_first_line_simps by (rule rules | simp)+
qed

lemma main_effect_valid:
  "validate_effect_types tc w (effect_new (ints 0) (ints 0)) = Ok ()" "validate_main_effect (effect_new (ints 0) (ints 0)) = Ok ()"
  by (simp_all add: effect_new_def validate_ints ints_def validate_main_effect_def)

lemma lowered_accepted: "\<exists>tc. check_program 9 (set_call_graph checker_new g) lowered_source = Some (Ok tc)"
proof (rule check_programI)
  have "checks 9 (declared lowered_source) h source_square" for h
    by (rule checks_ints [OF _ _ ints_unify(2), of int_to_int]) (simp_all add: source_square_infers del: One_nat_def, simp add: source_square_def)
  moreover have "checks 9 (declared lowered_source) h source_main" for h
    by (rule checks_ints [OF _ _ ints_unify(1), of "effect_new (ints 0) (ints 0)"])
      (simp_all add: source_main_infers lowered_declared effect_new_def, simp add: source_main_def effect_new_def)
  ultimately show "\<forall>w \<in> set (prog_words lowered_source). checks 9 (declared lowered_source) (tc_call_graph (set_call_graph checker_new g)) w"
    by (simp add: lowered_source_def)
qed (simp_all add: lowered_source_def set_call_graph_def checker_new_def source_square_def source_main_def validate_int_to_int main_effect_valid
    lowered_declared [unfolded lowered_source_def source_square_def source_main_def])

lemma lowered_graph: "\<exists>g. call_graph_build lowered_source = Some g"
proof -
  have "call_graph_build lowered_source \<noteq> None" by code_simp
  then show ?thesis by blast
qed

lemma lowered_validated:
  "check_collisions (prog_words lowered_source) = Ok ()" "check_union_collisions (prog_unions lowered_source) = Ok ()"
  "find_word lowered_source ''main'' \<noteq> None" "validate_word_calls_with_externals lowered_source [] = Ok ()"
  by code_simp+

lemma demo_front_end: "\<exists>tc. front_end demo_world 15 9 ''/p/main.seq'' = Some (Ok (lowered_source, bindings_new, tc))"
  using lowered_front_end [OF demo_lowered lowered_validated] lowered_graph lowered_accepted by blast

lemma main_symbol: "runtime_word ''main'' = None" "mono_effect (effect_new (ints 0) (ints 0))"
  by (simp_all add: runtime_word_def arith_symbols_def stack_symbols_def mono_effect_def ints_def effect_new_def)

lemma lowered_words: "prog_words lowered_source = [source_main, source_square]"
  by (simp add: lowered_source_def)

lemma lowered_plain: "\<forall>w \<in> set (prog_words lowered_source). plain_word (declared lowered_source) tc w"
  unfolding lowered_words
  using mono_int_to_int lowered_names prim_examples example_symbols main_symbol
  by (simp add: lowered_declared source_square_def source_main_def plain_word_def user_word_def diverging_def
      sugar_ops_def special_words_def)

theorem source_program_safe_witness:
  "safe (\<lambda>_. 0) (ints 0) [] (exec 2 (program_bodies lowered_source) (wd_body source_main) (int_strand [] 20))"
proof -
  obtain tc where tc: "front_end demo_world 15 9 ''/p/main.seq'' = Some (Ok (lowered_source, bindings_new, tc))" using demo_front_end by blast
  have main: "source_main \<in> set (prog_words lowered_source)" "wd_effect source_main = Some (effect_new (ints 0) (ints 0))"
    by (simp_all add: lowered_source_def source_main_def)
  have start: "represents (int_strand [] 20) (\<lambda>_. 0) []" "stack_base (fst (int_strand [] 20)) = Some 0"
    "typed (inputs (effect_new (ints 0) (ints 0))) [] []"
    using int_strand_represents [of "[]" 20] by (simp_all add: effect_new_def ints_def)
  have "safe (\<lambda>_. 0) (outputs (effect_new (ints 0) (ints 0))) []
      (exec 2 (program_bodies lowered_source) (wd_body source_main) (int_strand [] 20))"
    by (rule source_program_safe [OF tc _ lowered_plain [rule_format] main start]) (simp_all add: bindings_new_def)
  then show ?thesis by (simp add: effect_new_def)
qed

end
