(* ===== verification/Lint_Engine.thy ===== *)
theory Lint_Engine
  imports Seq_Ast Tokens "HOL-Library.Sublist"
begin

text \<open>
  The pattern lints of \<open>crates/compiler/src/lint/types.rs\<close> and \<open>linter.rs\<close>: rules and their compilation, the matcher for
  word sequences with single and multiple wildcards, the scan of a body with everything nested in it, the nesting depth of
  conditionals, and the printed form of diagnostics.  Rules come from a TOML document, which a package reads; the parsed rules are
  an argument.  A word of a body is kept with its position, and every statement that is not a call is the marker of the source.
  In a function of type \<open>option\<close> the value \<open>None\<close> stands for a panic or for a loop without end.
\<close>

section \<open>Rules\<close>

datatype severity = SevError | SevWarning | SevHint

record lint_rule =
  lr_id :: string
  lr_pattern :: string
  lr_replacement :: string
  lr_message :: string
  lr_severity :: severity

type_synonym lint_config = "lint_rule list"

fun merge_rule :: "lint_config \<Rightarrow> lint_rule \<Rightarrow> lint_config" where
  "merge_rule [] rule = [rule]"
| "merge_rule (r # rs) rule = (if lr_id r = lr_id rule then rule # rs else r # merge_rule rs rule)"

definition merge :: "lint_config \<Rightarrow> lint_config \<Rightarrow> lint_config" where
  "merge config other = foldl merge_rule config other"

definition max_nesting_depth :: nat where
  "max_nesting_depth = 4"

record known_lint =
  kl_id :: string
  kl_message :: string
  kl_severity :: severity

definition known_lint_ids :: "string + lint_config \<Rightarrow> known_lint list" where
  "known_lint_ids default_config =
     (case default_config of
        Inr rules \<Rightarrow> map (\<lambda>r. \<lparr>kl_id = lr_id r, kl_message = lr_message r, kl_severity = lr_severity r\<rparr>) rules
      | Inl _ \<Rightarrow> []) @
     [\<lparr>kl_id = ''deep-nesting'',
       kl_message = ''deeply nested if/else ('' @ dec max_nesting_depth @ ''+ levels) - consider `cond` or extracting to helper words'',
       kl_severity = SevHint\<rparr>,
      \<lparr>kl_id = ''unchecked-error-flag'',
       kl_message = ''operation returns a Bool success flag that is dropped without being checked'',
       kl_severity = SevWarning\<rparr>]"

section \<open>Patterns\<close>

datatype pattern_element = PWord string | SingleWildcard string | MultiWildcard

record compiled_pattern =
  cp_rule :: lint_rule
  cp_elements :: "pattern_element list"

datatype lint_error = EmptyPattern string | TooManyWildcards string nat

fun split_whitespace_from :: "string \<Rightarrow> string \<Rightarrow> string list" where
  "split_whitespace_from cur [] = (if cur = [] then [] else [cur])"
| "split_whitespace_from cur (c # cs) =
     (if is_space c then (if cur = [] then split_whitespace_from [] cs else cur # split_whitespace_from [] cs)
      else split_whitespace_from (cur @ [c]) cs)"

definition split_whitespace :: "string \<Rightarrow> string list" where
  "split_whitespace s = split_whitespace_from [] s"

definition compile_token :: "string \<Rightarrow> pattern_element" where
  "compile_token token =
     (if token = ''$...'' then MultiWildcard
      else if take 1 token = ''$'' then SingleWildcard token
      else PWord token)"

definition compile_pattern :: "lint_rule \<Rightarrow> lint_error + compiled_pattern" where
  "compile_pattern rule =
     (let elements = map compile_token (split_whitespace (lr_pattern rule));
          multi_wildcard_count = length (filter (\<lambda>e. e = MultiWildcard) elements)
      in if elements = [] then Err (EmptyPattern (lr_id rule))
         else if 1 < multi_wildcard_count then Err (TooManyWildcards (lr_id rule) multi_wildcard_count)
         else Ok \<lparr>cp_rule = rule, cp_elements = elements\<rparr>)"

fun linter_new :: "lint_config \<Rightarrow> lint_error + compiled_pattern list" where
  "linter_new [] = Ok []"
| "linter_new (r # rs) = try_bind (compile_pattern r) (\<lambda>p. try_bind (linter_new rs) (\<lambda>ps. Ok (p # ps)))"

section \<open>Matching\<close>

record word_info =
  wi_name :: name
  wi_span :: "span option"

definition extract_word_sequence :: "statement list \<Rightarrow> word_info list" where
  "extract_word_sequence statements =
     map (\<lambda>stmt. case stmt of WordCall n sp \<Rightarrow> \<lparr>wi_name = n, wi_span = sp\<rparr> | _ \<Rightarrow> \<lparr>wi_name = ''<non-word>'', wi_span = None\<rparr>) statements"

fun first_some :: "(nat \<Rightarrow> nat option) \<Rightarrow> nat list \<Rightarrow> nat option" where
  "first_some f [] = None"
| "first_some f (x # xs) = (case f x of Some y \<Rightarrow> Some y | None \<Rightarrow> first_some f xs)"

text \<open>The loop of \<open>try_match_at\<close>: \<open>word_idx\<close> is where the rest of the pattern is tried, \<open>start\<close> where the match began.\<close>

fun match_elements :: "word_info list \<Rightarrow> nat \<Rightarrow> nat \<Rightarrow> pattern_element list \<Rightarrow> nat option" where
  "match_elements ws start word_idx [] = Some (word_idx - start)"
| "match_elements ws start word_idx (PWord expected # es) =
     (if length ws \<le> word_idx then None
      else if wi_name (ws ! word_idx) \<noteq> expected then None
      else match_elements ws start (word_idx + 1) es)"
| "match_elements ws start word_idx (SingleWildcard _ # es) =
     (if length ws \<le> word_idx then None else match_elements ws start (word_idx + 1) es)"
| "match_elements ws start word_idx (MultiWildcard # es) =
     (if es = [] then Some (length ws - start)
      else first_some (\<lambda>try_idx. map_option (\<lambda>rest_len. try_idx - start + rest_len) (match_elements ws try_idx try_idx es))
             [word_idx..<length ws + 1])"

definition try_match_at :: "word_info list \<Rightarrow> nat \<Rightarrow> pattern_element list \<Rightarrow> nat option" where
  "try_match_at ws start elements = match_elements ws start start elements"

record lint_diagnostic =
  ld_id :: string
  ld_message :: string
  ld_severity :: severity
  ld_replacement :: string
  ld_file :: string
  ld_line :: nat
  ld_end_line :: "nat option"
  ld_start_column :: "nat option"
  ld_end_column :: "nat option"
  ld_word_name :: name
  ld_start_index :: nat
  ld_end_index :: nat

definition match_diagnostic ::
  "compiled_pattern \<Rightarrow> word_def \<Rightarrow> string \<Rightarrow> nat \<Rightarrow> word_info list \<Rightarrow> nat \<Rightarrow> nat \<Rightarrow> lint_diagnostic" where
  "match_diagnostic pattern word file fallback_line ws i match_len =
     (let first_span = wi_span (ws ! i);
          last_span = wi_span (ws ! (i + match_len - 1));
          line = (case first_span of Some s \<Rightarrow> sp_line s | None \<Rightarrow> fallback_line);
          (end_line, start_column, end_column) =
            (case (first_span, last_span) of
               (Some sp1, Some sp2) \<Rightarrow>
                 if sp_line sp1 = sp_line sp2 then (None, Some (sp_column sp1), Some (sp_column sp2 + sp_length sp2))
                 else (Some (sp_line sp2), Some (sp_column sp1), Some (sp_column sp2 + sp_length sp2))
             | _ \<Rightarrow> (None, None, None))
      in \<lparr>ld_id = lr_id (cp_rule pattern), ld_message = lr_message (cp_rule pattern), ld_severity = lr_severity (cp_rule pattern),
          ld_replacement = lr_replacement (cp_rule pattern), ld_file = file, ld_line = line, ld_end_line = end_line,
          ld_start_column = start_column, ld_end_column = end_column, ld_word_name = wd_name word,
          ld_start_index = i, ld_end_index = i + match_len\<rparr>)"

text \<open>The sliding window.  The index of the last word is \<open>i + match_len - 1\<close>: it underflows at the start for an empty match and
  panics past the end; an empty match further on would be found again without end.\<close>

partial_function (option) find_loop ::
  "compiled_pattern \<Rightarrow> word_def \<Rightarrow> string \<Rightarrow> nat \<Rightarrow> word_info list \<Rightarrow> nat \<Rightarrow> lint_diagnostic list \<Rightarrow> lint_diagnostic list option" where
  "find_loop pattern word file fallback_line ws i diagnostics =
     (if i < length ws then
        (case try_match_at ws i (cp_elements pattern) of
           Some match_len \<Rightarrow>
             if i + match_len = 0 \<or> length ws < i + match_len then None
             else find_loop pattern word file fallback_line ws (i + match_len)
                    (diagnostics @ [match_diagnostic pattern word file fallback_line ws i match_len])
         | None \<Rightarrow> find_loop pattern word file fallback_line ws (i + 1) diagnostics)
      else Some diagnostics)"

definition find_matches ::
  "word_info list \<Rightarrow> compiled_pattern \<Rightarrow> word_def \<Rightarrow> string \<Rightarrow> nat \<Rightarrow> lint_diagnostic list \<Rightarrow> lint_diagnostic list option" where
  "find_matches ws pattern word file fallback_line diagnostics =
     (if ws = [] \<or> cp_elements pattern = [] then Some diagnostics
      else find_loop pattern word file fallback_line ws 0 diagnostics)"

fun run_patterns ::
  "compiled_pattern list \<Rightarrow> word_info list \<Rightarrow> word_def \<Rightarrow> string \<Rightarrow> nat \<Rightarrow> lint_diagnostic list \<Rightarrow> lint_diagnostic list option" where
  "run_patterns [] ws word file fallback_line diagnostics = Some diagnostics"
| "run_patterns (p # ps) ws word file fallback_line diagnostics =
     Option.bind (find_matches ws p word file fallback_line diagnostics) (run_patterns ps ws word file fallback_line)"

section \<open>The walk\<close>

definition fallback_line :: "word_def \<Rightarrow> nat" where
  "fallback_line word = (case wd_source word of Some s \<Rightarrow> sl_start_line s | None \<Rightarrow> 0)"

function (sequential) lint_statement_list ::
  "compiled_pattern list \<Rightarrow> word_def \<Rightarrow> string \<Rightarrow> nat \<Rightarrow> statement list \<Rightarrow> lint_diagnostic list \<Rightarrow> lint_diagnostic list option"
and lint_nested ::
  "compiled_pattern list \<Rightarrow> word_def \<Rightarrow> string \<Rightarrow> statement list \<Rightarrow> lint_diagnostic list \<Rightarrow> lint_diagnostic list option"
and lint_nested_arms ::
  "compiled_pattern list \<Rightarrow> word_def \<Rightarrow> string \<Rightarrow> match_arm list \<Rightarrow> lint_diagnostic list \<Rightarrow> lint_diagnostic list option" where
  "lint_statement_list ps word file line statements ds =
     Option.bind (run_patterns ps (extract_word_sequence statements) word file line ds) (lint_nested ps word file statements)"
| "lint_nested ps word file [] ds = Some ds"
| "lint_nested ps word file (Quotation q body sp # ss) ds =
     Option.bind (lint_statement_list ps word file (fallback_line word) body ds) (lint_nested ps word file ss)"
| "lint_nested ps word file (If t (Some e) sp # ss) ds =
     Option.bind (Option.bind (lint_statement_list ps word file (fallback_line word) t ds)
       (lint_statement_list ps word file (fallback_line word) e)) (lint_nested ps word file ss)"
| "lint_nested ps word file (If t None sp # ss) ds =
     Option.bind (lint_statement_list ps word file (fallback_line word) t ds) (lint_nested ps word file ss)"
| "lint_nested ps word file (Match arms sp # ss) ds =
     Option.bind (lint_nested_arms ps word file arms ds) (lint_nested ps word file ss)"
| "lint_nested ps word file (_ # ss) ds = lint_nested ps word file ss ds"
| "lint_nested_arms ps word file [] ds = Some ds"
| "lint_nested_arms ps word file (MatchArm p body sp # arms) ds =
     Option.bind (lint_statement_list ps word file (fallback_line word) body ds) (lint_nested_arms ps word file arms)"
  by pat_completeness auto
termination
  by (relation "measure (\<lambda>x. case x of
      Inl (_, _, _, _, ss, _) \<Rightarrow> 2 * size_list size ss + 1
    | Inr (Inl (_, _, _, ss, _)) \<Rightarrow> 2 * size_list size ss
    | Inr (Inr (_, _, _, arms, _)) \<Rightarrow> 2 * size_list size arms)") auto

text \<open>\<open>iter().map(..).max().unwrap_or(d)\<close>\<close>

definition max_or :: "nat \<Rightarrow> nat list \<Rightarrow> nat" where
  "max_or d xs = (if xs = [] then d else Max (set xs))"

fun if_nesting_depth :: "statement \<Rightarrow> nat \<Rightarrow> nat"
and nesting_depths :: "statement list \<Rightarrow> nat \<Rightarrow> nat list"
and arm_depths :: "match_arm list \<Rightarrow> nat \<Rightarrow> nat list" where
  "if_nesting_depth (If t e sp) d =
     (let then_max = max_or (d + 1) (nesting_depths t (d + 1));
          else_max = (case e of Some ss \<Rightarrow> max_or (d + 1) (nesting_depths ss (d + 1)) | None \<Rightarrow> d + 1)
      in max then_max else_max)"
| "if_nesting_depth (Quotation q body sp) d = max_or 0 (nesting_depths body 0)"
| "if_nesting_depth (Match arms sp) d = max_or d (arm_depths arms d)"
| "if_nesting_depth _ d = d"
| "nesting_depths [] d = []"
| "nesting_depths (s # ss) d = if_nesting_depth s d # nesting_depths ss d"
| "arm_depths [] d = []"
| "arm_depths (MatchArm p body sp # arms) d = nesting_depths body d @ arm_depths arms d"

definition max_if_nesting_depth :: "statement list \<Rightarrow> nat" where
  "max_if_nesting_depth statements = foldl (\<lambda>m stmt. let depth = if_nesting_depth stmt 0 in if m < depth then depth else m) 0 statements"

definition lint_word :: "compiled_pattern list \<Rightarrow> string \<Rightarrow> word_def \<Rightarrow> lint_diagnostic list \<Rightarrow> lint_diagnostic list option" where
  "lint_word ps file word diagnostics =
     (case lint_statement_list ps word file (fallback_line word) (wd_body word) [] of
        None \<Rightarrow> None
      | Some found \<Rightarrow>
          let max_depth = max_if_nesting_depth (wd_body word);
              nesting = (if max_nesting_depth \<le> max_depth then
                [\<lparr>ld_id = ''deep-nesting'',
                  ld_message = ''deeply nested if/else ('' @ dec max_depth @ '' levels) - consider using `cond` or extracting to helper words'',
                  ld_severity = SevHint, ld_replacement = [], ld_file = file, ld_line = fallback_line word, ld_end_line = None,
                  ld_start_column = None, ld_end_column = None, ld_word_name = wd_name word, ld_start_index = 0, ld_end_index = 0\<rparr>] else [])
          in Some (diagnostics @ filter (\<lambda>d. ld_id d \<notin> set (wd_allowed_lints word)) (found @ nesting)))"

fun lint_words :: "compiled_pattern list \<Rightarrow> string \<Rightarrow> word_def list \<Rightarrow> lint_diagnostic list \<Rightarrow> lint_diagnostic list option" where
  "lint_words ps file [] diagnostics = Some diagnostics"
| "lint_words ps file (w # ws) diagnostics = Option.bind (lint_word ps file w diagnostics) (lint_words ps file ws)"

definition lint_program :: "compiled_pattern list \<Rightarrow> seq_program \<Rightarrow> string \<Rightarrow> lint_diagnostic list option" where
  "lint_program ps program file = lint_words ps file (prog_words program) []"

section \<open>Printing\<close>

fun severity_str :: "severity \<Rightarrow> string" where
  "severity_str SevError = ''error''"
| "severity_str SevWarning = ''warning''"
| "severity_str SevHint = ''hint''"

definition format_diagnostic :: "lint_diagnostic \<Rightarrow> string" where
  "format_diagnostic d =
     (let location = (case ld_start_column d of
            Some col \<Rightarrow> ld_file d @ '':'' @ dec (ld_line d + 1) @ '':'' @ dec (col + 1)
          | None \<Rightarrow> ld_file d @ '':'' @ dec (ld_line d + 1))
      in location @ '': '' @ severity_str (ld_severity d) @ '' ['' @ ld_id d @ '']: '' @ ld_message d @ [newline_char] @
         (if ld_replacement d \<noteq> [] then ''  suggestion: replace with `'' @ ld_replacement d @ ''`'' @ [newline_char]
          else if sublist ''no effect'' (ld_message d) then ''  suggestion: remove this code'' @ [newline_char]
          else []))"

definition format_diagnostics :: "lint_diagnostic list \<Rightarrow> string" where
  "format_diagnostics diagnostics = concat (map format_diagnostic diagnostics)"

section \<open>What a pattern denotes\<close>

text \<open>The word sequences a pattern stands for: a word for itself, a wildcard for any one word, the multiple wildcard for any sequence.\<close>

inductive denotes :: "pattern_element list \<Rightarrow> name list \<Rightarrow> bool" where
  denotes_Nil: "denotes [] []"
| denotes_PWord: "denotes es ns \<Longrightarrow> denotes (PWord w # es) (w # ns)"
| denotes_Single: "denotes es ns \<Longrightarrow> denotes (SingleWildcard x # es) (n # ns)"
| denotes_Multi: "denotes es ns \<Longrightarrow> denotes (MultiWildcard # es) (ms @ ns)"

inductive_simps denotes_simps [simp]:
  "denotes [] ns" "denotes (PWord w # es) ns" "denotes (SingleWildcard x # es) ns" "denotes (MultiWildcard # es) ns"

definition occurs_at :: "pattern_element list \<Rightarrow> word_info list \<Rightarrow> nat \<Rightarrow> nat \<Rightarrow> bool" where
  "occurs_at es ws i n \<longleftrightarrow> i + n \<le> length ws \<and> denotes es (map wi_name (take n (drop i ws)))"

lemma occurs_Nil [simp]: "occurs_at [] ws i n \<longleftrightarrow> i \<le> length ws \<and> n = 0"
  by (auto simp: occurs_at_def)

lemma occurs_word [simp]:
  "occurs_at (PWord w # es) ws i n \<longleftrightarrow> i < length ws \<and> 0 < n \<and> wi_name (ws ! i) = w \<and> occurs_at es ws (i + 1) (n - 1)"
  "occurs_at (SingleWildcard x # es) ws i n \<longleftrightarrow> i < length ws \<and> 0 < n \<and> occurs_at es ws (i + 1) (n - 1)"
  by (cases n; auto simp: occurs_at_def Cons_nth_drop_Suc [symmetric])+

lemma occurs_multi [simp]:
  "occurs_at (MultiWildcard # es) ws i n \<longleftrightarrow> (\<exists>k \<le> n. occurs_at es ws (i + k) (n - k)) \<and> i + n \<le> length ws"
proof
  assume "occurs_at (MultiWildcard # es) ws i n"
  then obtain ms ns where m: "i + n \<le> length ws" "map wi_name (take n (drop i ws)) = ms @ ns" "denotes es ns"
    by (auto simp: occurs_at_def)
  then have "length ms \<le> n" by (metis append_eq_conv_conj length_map length_take min.cobounded1 min.bounded_iff nat_le_linear take_all_iff length_append le_add1)
  moreover have "map wi_name (take (n - length ms) (drop (i + length ms) ws)) = ns"
    using m(2) by (metis append_eq_conv_conj drop_drop drop_map drop_take add.commute)
  ultimately show "(\<exists>k \<le> n. occurs_at es ws (i + k) (n - k)) \<and> i + n \<le> length ws"
    using m by (intro conjI exI [of _ "length ms"]) (simp_all add: occurs_at_def)
next
  assume "(\<exists>k \<le> n. occurs_at es ws (i + k) (n - k)) \<and> i + n \<le> length ws"
  then obtain k where k: "k \<le> n" "i + n \<le> length ws" "denotes es (map wi_name (take (n - k) (drop (i + k) ws)))"
    by (auto simp: occurs_at_def)
  have "take n (drop i ws) = take k (drop i ws) @ take (n - k) (drop (i + k) ws)"
    using k(1) by (metis add.commute drop_drop le_add_diff_inverse take_add)
  then show "occurs_at (MultiWildcard # es) ws i n" using k by (auto simp: occurs_at_def)
qed

lemma first_some_Some: "first_some f xs = Some y \<Longrightarrow> \<exists>x \<in> set xs. f x = Some y"
  by (induction xs) (auto split: option.splits)

lemma first_some_None: "first_some f xs = None \<longleftrightarrow> (\<forall>x \<in> set xs. f x = None)"
  by (induction xs) (auto split: option.splits)

lemma match_multi:
  assumes "match_elements ws start idx (MultiWildcard # es) = Some n" "es \<noteq> []"
  obtains t m where "idx \<le> t" "t \<le> length ws" "match_elements ws t t es = Some m" "n = t - start + m"
proof -
  let ?f = "\<lambda>t. map_option (\<lambda>m. t - start + m) (match_elements ws t t es)"
  have "first_some ?f [idx..<length ws + 1] = Some n" using assms by simp
  then obtain t where "t \<in> set [idx..<length ws + 1]" "?f t = Some n" using first_some_Some by blast
  then show thesis using that by auto
qed

lemma match_sound:
  "match_elements ws start idx es = Some n \<Longrightarrow> start \<le> idx \<Longrightarrow> idx \<le> length ws \<Longrightarrow>
   idx \<le> start + n \<and> occurs_at es ws idx (start + n - idx)"
proof (induction ws start idx es arbitrary: n rule: match_elements.induct)
  case (2 ws start idx w es)
  then show ?case by (force split: if_splits)
next
  case (3 ws start idx x es)
  then show ?case by (force split: if_splits)
next
  case (4 ws start idx es)
  show ?case
  proof (cases "es = []")
    case True
    then show ?thesis using "4.prems" by (auto intro!: exI [of _ "length ws - idx"])
  next
    case False
    with "4.prems"(1) obtain t m where t: "idx \<le> t" "t \<le> length ws" "match_elements ws t t es = Some m" "n = t - start + m"
      by (rule match_multi)
    moreover from t have "occurs_at es ws t m" using "4.IH" [OF False, of t m] by simp
    moreover from this have "t + m \<le> length ws" by (simp add: occurs_at_def)
    moreover have "t - idx \<le> start + n - idx" "start + n - idx - (t - idx) = m" using t(1,4) "4.prems"(2) by simp_all
    ultimately show ?thesis using "4.prems"(2) by (auto intro!: exI [of _ "t - idx"])
  qed
qed simp

lemma match_complete: "occurs_at es ws idx k \<Longrightarrow> match_elements ws start idx es \<noteq> None"
proof (induction ws start idx es arbitrary: k rule: match_elements.induct)
  case (4 ws start idx es)
  show ?case
  proof (cases "es = []")
    case False
    obtain j where j: "j \<le> k" "occurs_at es ws (idx + j) (k - j)" "idx + k \<le> length ws" using "4.prems" by auto
    then have "match_elements ws (idx + j) (idx + j) es \<noteq> None" using "4.IH" [OF False] by blast
    moreover have "idx + j \<in> set [idx..<length ws + 1]" using j by (simp del: upt_Suc)
    ultimately show ?thesis using False unfolding match_elements.simps by (auto simp: first_some_None simp del: upt_Suc)
  qed simp
qed auto

lemma match_nonempty: "match_elements ws start start es = Some n \<Longrightarrow> es \<noteq> [] \<Longrightarrow> start < length ws \<Longrightarrow> 0 < n"
proof (induction es arbitrary: start n)
  case (Cons e es)
  show ?case
  proof (cases e)
    case MultiWildcard
    show ?thesis
    proof (cases "es = []")
      case False
      with Cons.prems(1) MultiWildcard obtain t m where t: "start \<le> t" "match_elements ws t t es = Some m" "n = t - start + m"
        by (metis match_multi)
      then show ?thesis using Cons.IH [OF t(2) False] Cons.prems(3) by (cases "t = start") auto
    qed (use Cons.prems MultiWildcard in auto)
  qed (use match_sound [OF Cons.prems(1)] Cons.prems in auto)
qed simp

lemma try_match_Some:
  assumes "try_match_at ws i es = Some n" "i < length ws" "es \<noteq> []"
  shows "0 < n" "occurs_at es ws i n" "i + n \<le> length ws"
  using match_sound [of ws i i es n] match_nonempty [of ws i es n] assms by (auto simp: try_match_at_def occurs_at_def)

lemma try_match_None: "try_match_at ws i es = None \<Longrightarrow> \<not> occurs_at es ws i n"
  using match_complete [of es ws i n i] by (auto simp: try_match_at_def)

section \<open>The scan finds what there is\<close>

text \<open>The matches reported from position \<open>i\<close> on: in order and apart, each a match, and none left outside of them.\<close>

definition reports :: "pattern_element list \<Rightarrow> word_info list \<Rightarrow> nat \<Rightarrow> (nat \<times> nat) list \<Rightarrow> bool" where
  "reports es ws i ms \<longleftrightarrow>
     (\<forall>(j, n) \<in> set ms. i \<le> j \<and> 0 < n \<and> occurs_at es ws j n) \<and> sorted_wrt (\<lambda>(j, n) (k, _). j + n \<le> k) ms \<and>
     (\<forall>j n. i \<le> j \<and> j < length ws \<and> occurs_at es ws j n \<longrightarrow> (\<exists>(k, m) \<in> set ms. k \<le> j \<and> j < k + m))"

lemma reports_match:
  assumes "reports es ws (i + n) ms" "0 < n" "occurs_at es ws i n"
  shows "reports es ws i ((i, n) # ms)"
  using assms unfolding reports_def by (fastforce simp: not_less)

lemma reports_skip:
  assumes "reports es ws (i + 1) ms" "\<And>n. \<not> occurs_at es ws i n"
  shows "reports es ws i ms"
proof -
  have "i + 1 \<le> j" if "occurs_at es ws j n" "i \<le> j" for j n
    using that assms(2) [of n] by (cases "j = i") auto
  then show ?thesis using assms(1) unfolding reports_def by fastforce
qed

lemma find_loop_reports:
  assumes "cp_elements p \<noteq> []"
  shows "\<exists>ms. find_loop p word file line ws i ds = Some (ds @ map (\<lambda>(j, n). match_diagnostic p word file line ws j n) ms) \<and>
    reports (cp_elements p) ws i ms"
proof (induction "length ws - i" arbitrary: i ds rule: less_induct)
  case less
  show ?case
  proof (cases "i < length ws")
    case True
    show ?thesis
    proof (cases "try_match_at ws i (cp_elements p)")
      case None
      obtain ms where "find_loop p word file line ws (i + 1) ds = Some (ds @ map (\<lambda>(j, n). match_diagnostic p word file line ws j n) ms)"
          "reports (cp_elements p) ws (i + 1) ms"
        using less.hyps [OF diff_less_mono2 [OF less_add_one True]] by blast
      then show ?thesis using None True reports_skip [OF _ try_match_None [OF None]]
        by (intro exI [of _ ms]) (simp add: find_loop.simps [of _ _ _ _ _ i])
    next
      case (Some n)
      note n = try_match_Some [OF Some True assms]
      let ?ds = "ds @ [match_diagnostic p word file line ws i n]"
      obtain ms where "find_loop p word file line ws (i + n) ?ds = Some (?ds @ map (\<lambda>(j, n). match_diagnostic p word file line ws j n) ms)"
          "reports (cp_elements p) ws (i + n) ms"
        using less.hyps [of "i + n" ?ds] diff_less_mono2 [OF less_add_same_cancel1 [THEN iffD2, OF n(1)] True] by blast
      then show ?thesis using Some True n reports_match [of "cp_elements p" ws i n ms]
        by (intro exI [of _ "(i, n) # ms"]) (simp add: find_loop.simps [of _ _ _ _ _ i])
    qed
  next
    case False
    then show ?thesis by (intro exI [of _ "[]"]) (simp add: find_loop.simps reports_def)
  qed
qed

lemma compiled_nonempty: "compile_pattern rule = Ok p \<Longrightarrow> cp_elements p \<noteq> []"
  by (auto simp: compile_pattern_def Let_def split: if_splits)

text \<open>C32: The search of a compiled pattern in a word sequence returns, with no index out of range, and reports exactly what is there: the
  matches are in order and do not overlap, each covers at least one word and is a sequence the pattern stands for, and every
  position at which some match of the pattern begins lies in a reported match.\<close>

theorem find_matches_correct:
  assumes "compile_pattern rule = Ok p"
  shows "\<exists>ms. find_matches ws p word file line ds = Some (ds @ map (\<lambda>(i, n). match_diagnostic p word file line ws i n) ms) \<and>
    (\<forall>(i, n) \<in> set ms. 0 < n \<and> occurs_at (cp_elements p) ws i n) \<and> sorted_wrt (\<lambda>(i, n) (j, _). i + n \<le> j) ms \<and>
    (\<forall>i n. i < length ws \<and> occurs_at (cp_elements p) ws i n \<longrightarrow> (\<exists>(j, m) \<in> set ms. j \<le> i \<and> i < j + m))"
proof (cases "ws = []")
  case True
  then show ?thesis by (intro exI [of _ "[]"]) (simp add: find_matches_def)
next
  case False
  obtain ms where "find_loop p word file line ws 0 ds = Some (ds @ map (\<lambda>(i, n). match_diagnostic p word file line ws i n) ms)"
      "reports (cp_elements p) ws 0 ms"
    using find_loop_reports [OF compiled_nonempty [OF assms]] by blast
  then show ?thesis using False compiled_nonempty [OF assms]
    by (intro exI [of _ ms]) (auto simp: find_matches_def reports_def)
qed

definition swap_rule :: lint_rule where
  "swap_rule = \<lparr>lr_id = ''redundant-swap'', lr_pattern = ''swap $... swap'', lr_replacement = [], lr_message = ''swaps cancel'', lr_severity = SevHint\<rparr>"

definition swap_pattern :: compiled_pattern where
  "swap_pattern = \<lparr>cp_rule = swap_rule, cp_elements = [PWord ''swap'', MultiWildcard, PWord ''swap'']\<rparr>"

definition swap_words :: "word_info list" where
  "swap_words = map (\<lambda>n. \<lparr>wi_name = n, wi_span = None\<rparr>) [''dup'', ''swap'', ''drop'', ''swap'', ''swap'']"

definition swap_word :: word_def where
  "swap_word = \<lparr>wd_name = ''main'', wd_effect = None, wd_body = [], wd_source = None, wd_allowed_lints = []\<rparr>"

theorem find_matches_correct_witness:
  "\<exists>ms. find_matches swap_words swap_pattern swap_word [] 0 [] = Some (map (\<lambda>(i, n). match_diagnostic swap_pattern swap_word [] 0 swap_words i n) ms) \<and>
    ms \<noteq> [] \<and> (\<forall>(i, n) \<in> set ms. 0 < n \<and> occurs_at (cp_elements swap_pattern) swap_words i n)"
proof -
  have "compile_pattern swap_rule = Ok swap_pattern" by code_simp
  from find_matches_correct [OF this, of swap_words swap_word "[]" 0 "[]"]
  obtain ms where ms: "find_matches swap_words swap_pattern swap_word [] 0 [] = Some (map (\<lambda>(i, n). match_diagnostic swap_pattern swap_word [] 0 swap_words i n) ms)"
    "\<forall>(i, n) \<in> set ms. 0 < n \<and> occurs_at (cp_elements swap_pattern) swap_words i n"
    "\<forall>i n. i < length swap_words \<and> occurs_at (cp_elements swap_pattern) swap_words i n \<longrightarrow> (\<exists>(j, m) \<in> set ms. j \<le> i \<and> i < j + m)"
    by auto
  have "occurs_at (cp_elements swap_pattern) swap_words 1 3"
    by (simp add: swap_pattern_def swap_words_def) (intro exI [of _ 1], simp)
  then have "ms \<noteq> []" using ms(3) by (fastforce simp: swap_words_def)
  with ms(1,2) show ?thesis by blast
qed

section \<open>The whole program\<close>

lemma run_patterns_total: "\<forall>p \<in> set ps. cp_elements p \<noteq> [] \<Longrightarrow> \<exists>ds'. run_patterns ps ws word file line ds = Some ds'"
proof (induction ps arbitrary: ds)
  case (Cons p ps)
  obtain ds1 where "find_matches ws p word file line ds = Some ds1"
    using find_loop_reports [of p word "file" line ws 0 ds] Cons.prems by (cases "ws = []") (auto simp: find_matches_def)
  then show ?case using Cons by simp
qed simp

lemma lint_total:
  assumes "\<forall>p \<in> set ps. cp_elements p \<noteq> []"
  shows "\<exists>ds'. lint_statement_list ps word file line statements ds = Some ds'" "\<exists>ds'. lint_nested ps word file ss ds = Some ds'"
    "\<exists>ds'. lint_nested_arms ps word file arms ds = Some ds'"
  using assms
proof (induction ps word "file" line statements ds and ps word "file" ss ds and ps word "file" arms ds
    rule: lint_statement_list_lint_nested_lint_nested_arms.induct)
  case (1 ps word f line statements ds)
  then show ?case using run_patterns_total [OF 1(2)] by (metis bind.bind_lunit lint_statement_list.simps)
qed (force simp: bind_eq_Some_conv)+

lemma linter_new_nonempty: "linter_new config = Ok ps \<Longrightarrow> \<forall>p \<in> set ps. cp_elements p \<noteq> []"
proof (induction config arbitrary: ps)
  case (Cons r rs)
  obtain p qs where "compile_pattern r = Ok p" "linter_new rs = Ok qs" "ps = p # qs"
    using Cons.prems by (cases "compile_pattern r"; cases "linter_new rs") auto
  then show ?case using Cons.IH compiled_nonempty by auto
qed simp

lemma lint_words_total: "\<forall>p \<in> set ps. cp_elements p \<noteq> [] \<Longrightarrow> \<exists>ds'. lint_words ps file ws ds = Some ds'"
proof (induction ws arbitrary: ds)
  case (Cons w ws)
  obtain ds1 where "lint_word ps file w ds = Some ds1"
    using lint_total(1) [OF Cons.prems, of w "file" "fallback_line w" "wd_body w" "[]"] by (auto simp: lint_word_def Let_def)
  then show ?case using Cons by simp
qed simp

text \<open>A linter made from a configuration ends on every program.\<close>

lemma lint_program_returns: "linter_new config = Ok ps \<Longrightarrow> \<exists>ds. lint_program ps program file = Some ds"
  unfolding lint_program_def by (rule lint_words_total [OF linter_new_nonempty])

text \<open>A rule of the user takes the place of the rule with its name; of several the last one counts.\<close>

lemma merge_rule_lookup: "List.find (\<lambda>r. lr_id r = k) (merge_rule config rule) =
    (if lr_id rule = k then Some rule else List.find (\<lambda>r. lr_id r = k) config)"
  by (induction config) auto

lemma merge_lookup: "List.find (\<lambda>r. lr_id r = k) (merge config other) =
    (case List.find (\<lambda>r. lr_id r = k) (rev other) of Some r \<Rightarrow> Some r | None \<Rightarrow> List.find (\<lambda>r. lr_id r = k) config)"
  unfolding merge_def
  by (induction other arbitrary: config rule: rev_induct) (simp_all add: merge_rule_lookup)

section \<open>Nesting\<close>

text \<open>Without quotations the computed depth is the nesting of the conditionals; a branch that is only a quotation loses the levels around it.\<close>

fun levels :: "statement \<Rightarrow> nat"
and levels_list :: "statement list \<Rightarrow> nat"
and levels_arms :: "match_arm list \<Rightarrow> nat" where
  "levels (If t e sp) = 1 + max (levels_list t) (case e of Some ss \<Rightarrow> levels_list ss | None \<Rightarrow> 0)"
| "levels (Match arms sp) = levels_arms arms"
| "levels _ = 0"
| "levels_list [] = 0"
| "levels_list (s # ss) = max (levels s) (levels_list ss)"
| "levels_arms [] = 0"
| "levels_arms (MatchArm p body sp # arms) = max (levels_list body) (levels_arms arms)"

fun no_quotations :: "statement \<Rightarrow> bool"
and no_quotations_list :: "statement list \<Rightarrow> bool"
and no_quotations_arms :: "match_arm list \<Rightarrow> bool" where
  "no_quotations (If t e sp) \<longleftrightarrow> no_quotations_list t \<and> (case e of Some ss \<Rightarrow> no_quotations_list ss | None \<Rightarrow> True)"
| "no_quotations (Quotation q body sp) \<longleftrightarrow> False"
| "no_quotations (Match arms sp) \<longleftrightarrow> no_quotations_arms arms"
| "no_quotations _ \<longleftrightarrow> True"
| "no_quotations_list [] \<longleftrightarrow> True"
| "no_quotations_list (s # ss) \<longleftrightarrow> no_quotations s \<and> no_quotations_list ss"
| "no_quotations_arms [] \<longleftrightarrow> True"
| "no_quotations_arms (MatchArm p body sp # arms) \<longleftrightarrow> no_quotations_list body \<and> no_quotations_arms arms"

lemma max_or_Cons: "max_or d (x # xs) = (if xs = [] then x else max x (max_or d xs))"
  by (simp add: max_or_def)

lemma max_or_Nil: "max_or d [] = d"
  by (simp add: max_or_def)

lemma max_or_append: "max_or d (xs @ ys) = (if xs = [] then max_or d ys else if ys = [] then max_or d xs else max (max_or d xs) (max_or d ys))"
  by (simp add: max_or_def Max_Un)

lemma depth_levels:
  "no_quotations s \<Longrightarrow> if_nesting_depth s d = d + levels s"
  "no_quotations_list ss \<Longrightarrow> max_or d (nesting_depths ss d) = d + levels_list ss"
  "no_quotations_arms arms \<Longrightarrow> max_or d (arm_depths arms d) = d + levels_arms arms"
proof (induction s and ss and arms arbitrary: d and d and d rule: levels_levels_list_levels_arms.induct)
  case (1 t e sp)
  then show ?case by (cases e) auto
next
  case (5 s ss)
  then show ?case using "5.IH"(2) [of d] by (cases "nesting_depths ss d = []") (auto simp: max_or_Cons max_or_Nil)
next
  case (7 p body sp arms)
  then show ?case using "7.IH"(1) [of d] "7.IH"(2) [of d]
    by (cases "nesting_depths body d = []"; cases "arm_depths arms d = []") (auto simp: max_or_append max_or_Nil)
qed (auto simp: max_or_Nil)

end
