(* ===== verification/Chan_Yield_Lint.thy ===== *)
theory Chan_Yield_Lint
  imports Lint_Engine Tarjan
begin

text \<open>
  The lint of \<open>crates/compiler/src/chan_yield_lint.rs\<close>: calls of \<open>chan.yield\<close> in words that no spawned strand can reach.  The
  cooperative words are found by a worklist over the call graph.  A hash set is a list of its elements in some order and the
  frontier, a vector used as a stack, a list with the last pushed element first.
\<close>

section \<open>Reachability by a worklist\<close>

text \<open>What the search needs of its loop: an element seen before is dropped, and a new one is recorded and its successors that are
  not recorded are pushed.\<close>

locale worklist =
  fixes succs :: "'a \<Rightarrow> 'a list" and explore :: "'a list \<Rightarrow> 'a list \<Rightarrow> 'a list option"
  assumes explore_done: "explore [] seen = Some seen"
    and explore_seen: "x \<in> set seen \<Longrightarrow> explore (x # front) seen = explore front seen"
    and explore_new: "x \<notin> set seen \<Longrightarrow> \<exists>new seen'. set new = set (succs x) - set seen' \<and> set seen' = insert x (set seen) \<and>
      explore (x # front) seen = explore (new @ front) seen'"
begin

definition edge :: "('a \<times> 'a) set" where
  "edge = {(x, y). y \<in> set (succs x)}"

lemma explore_closed:
  assumes U: "finite U" "\<And>x. x \<in> U \<Longrightarrow> set (succs x) \<subseteq> U"
    and "set front \<union> set seen \<subseteq> U" "\<forall>x \<in> set seen. set (succs x) \<subseteq> set seen \<union> set front"
  shows "\<exists>R. explore front seen = Some R \<and> set front \<union> set seen \<subseteq> set R \<and> set R \<subseteq> edge\<^sup>* `` (set front \<union> set seen) \<and>
    (\<forall>x \<in> set R. set (succs x) \<subseteq> set R)"
  using assms(3,4)
proof (induction "card (U - set seen)" arbitrary: front seen rule: less_induct)
  case less
  note outer = less.hyps
  show ?case using less.prems
  proof (induction front)
    case Nil
    then show ?case by (auto simp: explore_done)
  next
    case (Cons x front)
    show ?case
    proof (cases "x \<in> set seen")
      case True
      then have "explore (x # front) seen = explore front seen" "set (x # front) \<union> set seen = set front \<union> set seen"
        by (auto simp: explore_seen)
      moreover have "\<forall>x \<in> set seen. set (succs x) \<subseteq> set seen \<union> set front" using Cons.prems(2) True by auto
      ultimately show ?thesis using Cons.IH Cons.prems(1) by auto
    next
      case False
      obtain new seen' where n: "set new = set (succs x) - set seen'" "set seen' = insert x (set seen)"
          "explore (x # front) seen = explore (new @ front) seen'"
        using explore_new [OF False] by blast
      have "x \<in> U" using Cons.prems(1) by auto
      then have "card (U - set seen') < card (U - set seen)"
        using U(1) False unfolding n(2) by (intro psubset_card_mono) auto
      moreover have "set (new @ front) \<union> set seen' \<subseteq> U" using n Cons.prems(1) U(2) [OF \<open>x \<in> U\<close>] by auto
      moreover have "\<forall>y \<in> set seen'. set (succs y) \<subseteq> set seen' \<union> set (new @ front)" using n Cons.prems(2) by fastforce
      ultimately obtain R where R: "explore (new @ front) seen' = Some R" "set (new @ front) \<union> set seen' \<subseteq> set R"
          "set R \<subseteq> edge\<^sup>* `` (set (new @ front) \<union> set seen')" "\<forall>x \<in> set R. set (succs x) \<subseteq> set R"
        using outer by blast
      have "set new \<subseteq> edge\<^sup>* `` {x}" using n(1) by (auto simp: edge_def)
      then have "edge\<^sup>* `` (set (new @ front) \<union> set seen') \<subseteq> edge\<^sup>* `` (set (x # front) \<union> set seen)"
        unfolding n(2) by (auto dest!: subsetD) (meson ImageI insertI1 rtrancl_trans)
      then show ?thesis using R n by auto
    qed
  qed
qed

lemma explore_reaches:
  assumes "finite U" "\<And>x. x \<in> U \<Longrightarrow> set (succs x) \<subseteq> U" "set start \<subseteq> U"
  shows "\<exists>R. explore start [] = Some R \<and> set R = edge\<^sup>* `` set start"
proof -
  obtain R where R: "explore start [] = Some R" "set start \<subseteq> set R" "set R \<subseteq> edge\<^sup>* `` set start" "\<forall>x \<in> set R. set (succs x) \<subseteq> set R"
    using explore_closed [OF assms(1,2), of start "[]"] assms(3) by auto
  have "y \<in> set R" if "(x, y) \<in> edge\<^sup>*" "x \<in> set R" for x y
    using that by (induction rule: rtrancl_induct) (use R(4) in \<open>auto simp: edge_def\<close>)
  then show ?thesis using R by auto
qed

end

section \<open>The analyzer\<close>

definition is_spawn_or_weave :: "name \<Rightarrow> bool" where
  "is_spawn_or_weave n \<longleftrightarrow> n = ''strand.spawn'' \<or> n = ''strand.weave''"

fun collect_user_word_calls :: "statement list \<Rightarrow> name list \<Rightarrow> name list \<Rightarrow> name list"
and collect_user_word_call :: "statement \<Rightarrow> name list \<Rightarrow> name list \<Rightarrow> name list"
and collect_user_word_arms :: "match_arm list \<Rightarrow> name list \<Rightarrow> name list \<Rightarrow> name list" where
  "collect_user_word_calls [] user_words out = out"
| "collect_user_word_calls (s # ss) user_words out = collect_user_word_calls ss user_words (collect_user_word_call s user_words out)"
| "collect_user_word_call (WordCall n _) user_words out = (if n \<in> set user_words then List.insert n out else out)"
| "collect_user_word_call (If t None _) user_words out = collect_user_word_calls t user_words out"
| "collect_user_word_call (If t (Some e) _) user_words out = collect_user_word_calls e user_words (collect_user_word_calls t user_words out)"
| "collect_user_word_call (Quotation _ body _) user_words out = collect_user_word_calls body user_words out"
| "collect_user_word_call (Match arms _) user_words out = collect_user_word_arms arms user_words out"
| "collect_user_word_call _ user_words out = out"
| "collect_user_word_arms [] user_words out = out"
| "collect_user_word_arms (MatchArm _ body _ # arms) user_words out =
     collect_user_word_arms arms user_words (collect_user_word_calls body user_words out)"

definition quoted_seeds :: "statement option \<Rightarrow> name list \<Rightarrow> name list \<Rightarrow> name list" where
  "quoted_seeds prev user_words seeds =
     (case prev of Some (Quotation _ body _) \<Rightarrow> collect_user_word_calls body user_words seeds | _ \<Rightarrow> seeds)"

text \<open>The walk that finds the seeds, with the statement before the current one and the pair of the seeds and the flag.\<close>

fun scan_for_seeds :: "name list \<Rightarrow> statement option \<Rightarrow> statement list \<Rightarrow> name list \<times> bool \<Rightarrow> name list \<times> bool"
and scan_statement :: "name list \<Rightarrow> statement option \<Rightarrow> statement \<Rightarrow> name list \<times> bool \<Rightarrow> name list \<times> bool"
and scan_arms :: "name list \<Rightarrow> match_arm list \<Rightarrow> name list \<times> bool \<Rightarrow> name list \<times> bool" where
  "scan_for_seeds user_words prev [] acc = acc"
| "scan_for_seeds user_words prev (s # ss) acc = scan_for_seeds user_words (Some s) ss (scan_statement user_words prev s acc)"
| "scan_statement user_words prev (WordCall n _) acc =
     (if is_spawn_or_weave n then (quoted_seeds prev user_words (fst acc), True) else acc)"
| "scan_statement user_words prev (If t None _) acc = scan_for_seeds user_words None t acc"
| "scan_statement user_words prev (If t (Some e) _) acc = scan_for_seeds user_words None e (scan_for_seeds user_words None t acc)"
| "scan_statement user_words prev (Quotation _ body _) acc = scan_for_seeds user_words None body acc"
| "scan_statement user_words prev (Match arms _) acc = scan_arms user_words arms acc"
| "scan_statement user_words prev _ acc = acc"
| "scan_arms user_words [] acc = acc"
| "scan_arms user_words (MatchArm _ body _ # arms) acc = scan_arms user_words arms (scan_for_seeds user_words None body acc)"

definition word_seeds :: "name list \<Rightarrow> name list \<Rightarrow> word_def \<Rightarrow> name list" where
  "word_seeds user_words seeds word =
     (let (seeds', spawner) = scan_for_seeds user_words None (wd_body word) (seeds, False)
      in if spawner then List.insert (wd_name word) seeds' else seeds')"

partial_function (option) coop_loop :: "call_graph \<Rightarrow> name list \<Rightarrow> name list \<Rightarrow> name list option" where
  "coop_loop g frontier coop =
     (case frontier of
        [] \<Rightarrow> Some coop
      | w # rest \<Rightarrow>
          if w \<in> set coop then coop_loop g rest coop
          else (case edges g w of
                  Some cs \<Rightarrow> coop_loop g (rev (filter (\<lambda>c. c \<notin> set (w # coop)) cs) @ rest) (w # coop)
                | None \<Rightarrow> coop_loop g rest (w # coop)))"

definition cooperative_set :: "seq_program \<Rightarrow> call_graph \<Rightarrow> name list option" where
  "cooperative_set program g =
     (let user_words = map wd_name (prog_words program)
      in coop_loop g (foldl (word_seeds user_words) [] (prog_words program)) [])"

fun collect_chan_yield_sites :: "statement list \<Rightarrow> span option list"
and chan_yield_site :: "statement \<Rightarrow> span option list"
and chan_yield_arms :: "match_arm list \<Rightarrow> span option list" where
  "collect_chan_yield_sites [] = []"
| "collect_chan_yield_sites (s # ss) = chan_yield_site s @ collect_chan_yield_sites ss"
| "chan_yield_site (WordCall n sp) = (if n = ''chan.yield'' then [sp] else [])"
| "chan_yield_site (If t None _) = collect_chan_yield_sites t"
| "chan_yield_site (If t (Some e) _) = collect_chan_yield_sites t @ collect_chan_yield_sites e"
| "chan_yield_site (Quotation _ body _) = collect_chan_yield_sites body"
| "chan_yield_site (Match arms _) = chan_yield_arms arms"
| "chan_yield_site _ = []"
| "chan_yield_arms [] = []"
| "chan_yield_arms (MatchArm _ body _ # arms) = collect_chan_yield_sites body @ chan_yield_arms arms"

definition em_dash :: bytes where
  "em_dash = [CHR 0xE2, CHR 0x80, CHR 0x94]"

definition yield_diagnostic :: "string \<Rightarrow> word_def \<Rightarrow> span option \<Rightarrow> lint_diagnostic" where
  "yield_diagnostic file word sp =
     \<lparr>ld_id = ''unreachable-chan-yield'',
      ld_message = ''`chan.yield` in `'' @ wd_name word @ ''` has no peer to yield to '' @ em_dash @
        '' this code path is not reachable from any `strand.spawn` or `strand.weave`. Either remove the call, '' @
        ''or run this word under `[ ... ] strand.spawn`.'',
      ld_severity = SevError, ld_replacement = [], ld_file = file,
      ld_line = (case sp of Some s \<Rightarrow> sp_line s | None \<Rightarrow> 0), ld_end_line = None,
      ld_start_column = map_option sp_column sp, ld_end_column = None,
      ld_word_name = wd_name word, ld_start_index = 0, ld_end_index = 0\<rparr>"

definition analyze_chan_yield :: "string \<Rightarrow> seq_program \<Rightarrow> call_graph \<Rightarrow> lint_diagnostic list option" where
  "analyze_chan_yield file program g =
     map_option (\<lambda>coop. concat (map (\<lambda>word.
         if wd_name word \<in> set coop then []
         else map (yield_diagnostic file word) (collect_chan_yield_sites (wd_body word))) (prog_words program)))
       (cooperative_set program g)"

section \<open>The loop is a worklist\<close>

interpretation coop: worklist "callees g" "coop_loop g" for g
proof
  fix x seen front
  show "coop_loop g [] seen = Some seen" by (simp add: coop_loop.simps)
  show "x \<in> set seen \<Longrightarrow> coop_loop g (x # front) seen = coop_loop g front seen" by (simp add: coop_loop.simps [of g "x # front"])
  assume "x \<notin> set seen"
  then show "\<exists>new seen'. set new = set (callees g x) - set seen' \<and> set seen' = insert x (set seen) \<and>
      coop_loop g (x # front) seen = coop_loop g (new @ front) seen'"
    by (intro exI [of _ "rev (filter (\<lambda>c. c \<notin> set (x # seen)) (callees g x))"] exI [of _ "x # seen"])
      (auto simp: coop_loop.simps [of g "x # front"] callees_def split: option.splits)
qed

lemma graph_edges:
  assumes "call_graph_build p = Some g"
  shows "coop.edge g = word_calls p"
proof -
  have "edges g = build_edges (prog_words p) (remdups (map wd_name (prog_words p)))"
    using assms by (auto simp: call_graph_build_def Let_def)
  then show ?thesis
    by (auto simp: coop.edge_def callees_def word_calls_def build_edges_map set_extract_calls split: option.splits dest: sym)
qed

lemma word_calls_names: "(a, b) \<in> word_calls p \<Longrightarrow> b \<in> wd_name ` set (prog_words p)"
  by (auto simp: word_calls_def)

section \<open>Seeds\<close>

lemma collect_user_word_calls_set:
  "set (collect_user_word_calls ss known out) = set out \<union> called_in ss \<inter> set known"
  "set (collect_user_word_call s known out) = set out \<union> called_by s \<inter> set known"
  "set (collect_user_word_arms arms known out) = set out \<union> called_in_arms arms \<inter> set known"
  by (induction ss known out and s known out and arms known out
      rule: collect_user_word_calls_collect_user_word_call_collect_user_word_arms.induct) auto

definition spawns :: "name set \<Rightarrow> bool" where
  "spawns C \<longleftrightarrow> (\<exists>n \<in> C. is_spawn_or_weave n)"

lemma spawns_Un [simp]: "spawns (A \<union> B) \<longleftrightarrow> spawns A \<or> spawns B" "spawns {n} \<longleftrightarrow> is_spawn_or_weave n" "\<not> spawns {}"
  by (auto simp: spawns_def)

definition calls_before :: "statement option \<Rightarrow> name set" where
  "calls_before prev = (case prev of Some s \<Rightarrow> called_by s | None \<Rightarrow> {})"

definition seeded :: "name list \<Rightarrow> name set \<Rightarrow> name set \<Rightarrow> name list \<times> bool \<Rightarrow> name list \<times> bool \<Rightarrow> bool" where
  "seeded known C B acc r \<longleftrightarrow> (snd r \<longleftrightarrow> snd acc \<or> spawns C) \<and> set (fst acc) \<subseteq> set (fst r) \<and>
     set (fst r) \<subseteq> set (fst acc) \<union> (if spawns C then (C \<union> B) \<inter> set known else {})"

lemma seeded_refl: "seeded known {} B acc acc"
  by (simp add: seeded_def)

lemma seeded_trans:
  assumes "seeded known C B acc r" "seeded known C' B' r r'" "B' \<subseteq> C"
  shows "seeded known (C \<union> C') B acc r'"
  using assms unfolding seeded_def by (auto split: if_splits)

lemma seeded_weaken: "seeded known C {} acc r \<Longrightarrow> seeded known C B acc r"
  unfolding seeded_def by (auto split: if_splits)

lemma quoted_seeds_set:
  "set seeds \<subseteq> set (quoted_seeds prev known seeds) \<and> set (quoted_seeds prev known seeds) \<subseteq> set seeds \<union> calls_before prev \<inter> set known"
  by (simp add: quoted_seeds_def calls_before_def collect_user_word_calls_set split: option.split statement.split)

lemma scan_seeded:
  "seeded known (called_in ss) (calls_before prev) acc (scan_for_seeds known prev ss acc)"
  "seeded known (called_by s) (calls_before prev) acc (scan_statement known prev s acc)"
  "seeded known (called_in_arms arms) {} acc (scan_arms known arms acc)"
proof (induction known prev ss acc and known prev s acc and known arms acc rule: scan_for_seeds_scan_statement_scan_arms.induct)
  case (2 known prev s ss acc)
  then show ?case by (simp add: seeded_trans [where B' = "called_by s"] calls_before_def)
next
  case (3 known prev n sp acc)
  show ?case using quoted_seeds_set [of "fst acc" prev known] by (auto simp: seeded_def)
next
  case (5 known prev t e sp acc)
  then show ?case by (simp add: seeded_trans [where B' = "{}"] seeded_weaken calls_before_def)
next
  case (10 known p body sp arms acc)
  then show ?case by (simp add: seeded_trans [where B' = "{}"] calls_before_def)
qed (simp_all add: seeded_refl seeded_weaken calls_before_def)

definition spawners :: "seq_program \<Rightarrow> name set" where
  "spawners p = {wd_name w | w. w \<in> set (prog_words p) \<and> spawns (called_in (wd_body w))}"

lemma word_seeds_set:
  assumes "w \<in> set (prog_words p)" "distinct (map wd_name (prog_words p))" "known = map wd_name (prog_words p)"
  shows "set seeds \<subseteq> set (word_seeds known seeds w)" "spawns (called_in (wd_body w)) \<Longrightarrow> wd_name w \<in> set (word_seeds known seeds w)"
    "set (word_seeds known seeds w) \<subseteq> set seeds \<union> (word_calls p)\<^sup>* `` spawners p"
proof -
  obtain seeds' sp where sc: "scan_for_seeds known None (wd_body w) (seeds, False) = (seeds', sp)" by fastforce
  have r: "sp \<longleftrightarrow> spawns (called_in (wd_body w))" "set seeds \<subseteq> set seeds'"
      "set seeds' \<subseteq> set seeds \<union> (if sp then called_in (wd_body w) \<inter> set known else {})"
    using scan_seeded(1) [of known "wd_body w" None "(seeds, False)"] by (auto simp: calls_before_def seeded_def sc split: if_splits)
  have ws: "set (word_seeds known seeds w) = (if sp then insert (wd_name w) (set seeds') else set seeds')"
    by (simp add: word_seeds_def sc)
  have body: "map_of (rev (map (\<lambda>w. (wd_name w, wd_body w)) (prog_words p))) (wd_name w) = Some (wd_body w)"
    by (rule map_of_is_SomeI) (use assms(1,2) in \<open>auto simp: rev_map [symmetric] comp_def\<close>)
  have call: "(wd_name w, n) \<in> word_calls p" if "n \<in> called_in (wd_body w)" "n \<in> set known" for n
    using body that assms(3) by (auto simp: word_calls_def)
  have "wd_name w \<in> spawners p" if sp using assms(1) that r(1) by (auto simp: spawners_def)
  then have "insert (wd_name w) (called_in (wd_body w) \<inter> set known) \<subseteq> (word_calls p)\<^sup>* `` spawners p" if sp
    using that call by blast
  then show "set seeds \<subseteq> set (word_seeds known seeds w)" "spawns (called_in (wd_body w)) \<Longrightarrow> wd_name w \<in> set (word_seeds known seeds w)"
    "set (word_seeds known seeds w) \<subseteq> set seeds \<union> (word_calls p)\<^sup>* `` spawners p"
    using r ws by (auto split: if_splits)
qed

lemma seeds_set:
  assumes "distinct (map wd_name (prog_words p))" "known = map wd_name (prog_words p)" "set ws \<subseteq> set (prog_words p)"
  shows "{wd_name w | w. w \<in> set ws \<and> spawns (called_in (wd_body w))} \<subseteq> set (foldl (word_seeds known) [] ws) \<and>
    set (foldl (word_seeds known) [] ws) \<subseteq> (word_calls p)\<^sup>* `` spawners p"
  using assms(3)
proof (induction ws rule: rev_induct)
  case (snoc w ws)
  then have "w \<in> set (prog_words p)" by simp
  note w = word_seeds_set [OF this assms(1,2), of "foldl (word_seeds known) [] ws"]
  show ?case using snoc w by auto
qed simp

lemma cooperative_words:
  assumes "call_graph_build p = Some g" "distinct (map wd_name (prog_words p))"
  shows "\<exists>coop. cooperative_set p g = Some coop \<and> set coop = (word_calls p)\<^sup>* `` spawners p"
proof -
  let ?known = "map wd_name (prog_words p)"
  let ?seeds = "foldl (word_seeds ?known) [] (prog_words p)"
  have seeds: "spawners p \<subseteq> set ?seeds" "set ?seeds \<subseteq> (word_calls p)\<^sup>* `` spawners p"
    using seeds_set [OF assms(2) refl subset_refl] by (simp_all add: spawners_def)
  have edge: "set (callees g x) \<subseteq> set ?known" for x
    using graph_edges [OF assms(1)] word_calls_names by (fastforce simp: coop.edge_def)
  have "(word_calls p)\<^sup>* `` spawners p \<subseteq> set ?known"
  proof clarify
    fix v n assume v: "(v, n) \<in> (word_calls p)\<^sup>*" "v \<in> spawners p"
    from v(1) show "n \<in> set ?known"
      by (cases rule: rtrancl.cases) (use v(2) in \<open>auto simp: spawners_def dest: word_calls_names\<close>)
  qed
  then obtain R where "coop_loop g ?seeds [] = Some R" "set R = (word_calls p)\<^sup>* `` set ?seeds"
    using coop.explore_reaches [of "set ?known" g ?seeds] edge seeds(2) unfolding graph_edges [OF assms(1)] by blast
  moreover have "(word_calls p)\<^sup>* `` set ?seeds = (word_calls p)\<^sup>* `` spawners p" using seeds by (auto 0 3 dest: subsetD intro: rtrancl_trans)
  ultimately show ?thesis by (simp add: cooperative_set_def Let_def)
qed

lemma yield_sites:
  "collect_chan_yield_sites ss \<noteq> [] \<longleftrightarrow> ''chan.yield'' \<in> called_in ss"
  "chan_yield_site s \<noteq> [] \<longleftrightarrow> ''chan.yield'' \<in> called_by s"
  "chan_yield_arms arms \<noteq> [] \<longleftrightarrow> ''chan.yield'' \<in> called_in_arms arms"
  by (induction ss and s and arms rule: collect_chan_yield_sites_chan_yield_site_chan_yield_arms.induct) auto

text \<open>C33: The analysis returns on every program with a call graph and distinct names, and reports a word exactly when \<open>chan.yield\<close> is
  called somewhere in its body and no chain of calls leads to it from a word whose body calls \<open>strand.spawn\<close> or \<open>strand.weave\<close>.  The
  words in spawned quotations, which the code collects as roots of their own, add nothing: the spawning word calls them.\<close>

theorem chan_yield_exact:
  assumes "call_graph_build p = Some g" "distinct (map wd_name (prog_words p))"
  shows "\<exists>ds. analyze_chan_yield file p g = Some ds \<and>
    (\<forall>n. n \<in> ld_word_name ` set ds \<longleftrightarrow>
      (\<exists>w \<in> set (prog_words p). wd_name w = n \<and> ''chan.yield'' \<in> called_in (wd_body w)) \<and>
      \<not> (\<exists>v \<in> set (prog_words p). (''strand.spawn'' \<in> called_in (wd_body v) \<or> ''strand.weave'' \<in> called_in (wd_body v)) \<and>
           (wd_name v, n) \<in> (word_calls p)\<^sup>*))"
proof -
  obtain coop where coop: "cooperative_set p g = Some coop" "set coop = (word_calls p)\<^sup>* `` spawners p"
    using cooperative_words [OF assms] by blast
  have spawn: "spawns C \<longleftrightarrow> ''strand.spawn'' \<in> C \<or> ''strand.weave'' \<in> C" for C by (auto simp: spawns_def is_spawn_or_weave_def)
  let ?found = "\<lambda>w. if wd_name w \<in> set coop then [] else map (yield_diagnostic file w) (collect_chan_yield_sites (wd_body w))"
  have names: "ld_word_name (yield_diagnostic file w s) = wd_name w" for w s by (simp add: yield_diagnostic_def)
  have "ld_word_name ` set (?found w) = (if wd_name w \<notin> set coop \<and> ''chan.yield'' \<in> called_in (wd_body w) then {wd_name w} else {})" for w
    using yield_sites(1) [of "wd_body w"] by (auto simp: names image_image image_constant_conv)
  then have "n \<in> ld_word_name ` set (concat (map ?found (prog_words p))) \<longleftrightarrow>
      (\<exists>w \<in> set (prog_words p). wd_name w = n \<and> ''chan.yield'' \<in> called_in (wd_body w)) \<and> n \<notin> set coop" for n
    unfolding set_concat set_map image_Union image_image by (auto split: if_splits)
  moreover have "n \<in> set coop \<longleftrightarrow> (\<exists>v \<in> set (prog_words p). (''strand.spawn'' \<in> called_in (wd_body v) \<or> ''strand.weave'' \<in> called_in (wd_body v)) \<and>
      (wd_name v, n) \<in> (word_calls p)\<^sup>*)" for n
    unfolding coop(2) spawners_def spawn by blast
  moreover have "analyze_chan_yield file p g = Some (concat (map ?found (prog_words p)))"
    by (simp add: analyze_chan_yield_def coop(1))
  ultimately show ?thesis by blast
qed

text \<open>A program in which \<open>idle\<close> yields with nobody to yield to, and \<open>worker\<close> is spawned.\<close>

definition yield_word :: "name \<Rightarrow> statement list \<Rightarrow> word_def" where
  "yield_word n body = \<lparr>wd_name = n, wd_effect = None, wd_body = body, wd_source = None, wd_allowed_lints = []\<rparr>"

definition yield_program :: seq_program where
  "yield_program = \<lparr>prog_includes = [], prog_unions = [], prog_words =
     [yield_word ''worker'' [WordCall ''chan.yield'' None], yield_word ''idle'' [WordCall ''chan.yield'' None],
      yield_word ''main'' [Quotation 0 [WordCall ''worker'' None] None, WordCall ''strand.spawn'' None]]\<rparr>"

theorem chan_yield_exact_witness:
  "\<exists>g ds. call_graph_build yield_program = Some g \<and> analyze_chan_yield ''a.seq'' yield_program g = Some ds \<and>
    ''worker'' \<notin> ld_word_name ` set ds"
proof -
  have "call_graph_build yield_program \<noteq> None" by code_simp
  then obtain g where g: "call_graph_build yield_program = Some g" by blast
  have d: "distinct (map wd_name (prog_words yield_program))" by code_simp
  obtain ds where ds: "analyze_chan_yield ''a.seq'' yield_program g = Some ds"
    "\<forall>n. n \<in> ld_word_name ` set ds \<longleftrightarrow>
      (\<exists>w \<in> set (prog_words yield_program). wd_name w = n \<and> ''chan.yield'' \<in> called_in (wd_body w)) \<and>
      \<not> (\<exists>v \<in> set (prog_words yield_program). (''strand.spawn'' \<in> called_in (wd_body v) \<or> ''strand.weave'' \<in> called_in (wd_body v)) \<and>
           (wd_name v, n) \<in> (word_calls yield_program)\<^sup>*)"
    using chan_yield_exact [OF g d, of "''a.seq''"] by blast
  have "(''main'', ''worker'') \<in> word_calls yield_program"
    by (simp add: word_calls_def yield_program_def yield_word_def)
  then have "''worker'' \<notin> ld_word_name ` set ds"
    unfolding ds(2) [rule_format] by (auto simp: yield_program_def yield_word_def)
  with g ds(1) show ?thesis by blast
qed

end
