(* ===== verification/Builtin_Lookup.thy ===== *)
theory Builtin_Lookup
  imports Builtins
begin

text \<open>
  Evaluation of lookups in the signature tables: a name is searched table by table from the last, passing over the tables in which no
  name begins with its first two characters, which the simplifier does much faster than a search through all rows.
\<close>

text \<open>Looking a name up table by table, passing over the tables in which no name begins with its first two characters.\<close>

fun lookup_heads :: "(string list \<times> (name \<times> effect) list) list \<Rightarrow> name \<Rightarrow> effect option" where
  "lookup_heads [] w = None"
| "lookup_heads ((hs, t) # ts) w =
     (if take 2 w \<in> set hs then (case map_of (rev t) w of Some e \<Rightarrow> Some e | None \<Rightarrow> lookup_heads ts w) else lookup_heads ts w)"

definition tables_by_head :: "(string list \<times> (name \<times> effect) list) list" where
  "tables_by_head =
     [([''te'', ''ti'', ''so'', ''st''], diagnostics_signatures),
      ([''f.''], float_signatures),
      ([''ma''], map_signatures),
      ([''li''], list_signatures),
      ([''va'', ''wr''], adt_signatures),
      ([''st'', ''sy'', ''en'', ''cr'', ''re'', ''co''], text_signatures),
      ([''os'', ''si'', ''te''], os_signatures),
      ([''ne''], http_signatures),
      ([''ne''], tls_signatures),
      ([''ne''], dns_signatures),
      ([''ne''], udp_signatures),
      ([''ne'', ''fd'', ''so''], tcp_signatures),
      ([''ca'', ''di'', ''ke'', ''bi'', ''if'', ''co''], callable_signatures),
      ([''ch'', ''st'', ''yi''], concurrency_signatures),
      ([''du'', ''dr'', ''sw'', ''ov'', ''ro'', ''ni'', ''tu'', ''2d'', ''3d'', ''pi'', ''>a'', ''au''], stack_signatures),
      ([''i.'', ''an'', ''or'', ''no'', ''ba'', ''bo'', ''bx'', ''sh'', ''bn'', ''po'', ''cl'', ''ct'', ''ne'', ''in''], arith_signatures),
      ([''fi'', ''di''], fs_signatures),
      ([''io'', ''ar'', ''in'', ''fl'', ''st'', ''ch'', ''sy''], io_signatures)]"

definition headed :: "string list \<times> (name \<times> effect) list \<Rightarrow> bool" where
  "headed x \<longleftrightarrow> list_all (\<lambda>y. take 2 (fst y) \<in> set (fst x)) (snd x)"

lemma lookup_heads_map: "list_all headed ts \<Longrightarrow> lookup_heads ts w = map_of (rev (concat (map snd (rev ts)))) w"
proof (induction ts)
  case (Cons x ts)
  obtain hs t where x: "x = (hs, t)" by fastforce
  have "map_of (rev t) w = None" if "take 2 w \<notin> set hs"
  proof -
    have "w \<notin> fst ` set t" using Cons.prems that by (auto simp: x headed_def list_all_iff)
    then show ?thesis by (simp add: map_of_eq_None_iff)
  qed
  then show ?case using Cons by (auto simp: x map_add_def split: option.split)
qed simp

lemma headed_append: "headed (hs, t @ t') \<longleftrightarrow> headed (hs, t) \<and> headed (hs, t')"
  by (simp add: headed_def)

lemma headed_make: "take 2 p \<in> set hs \<Longrightarrow> 2 \<le> length p \<Longrightarrow> headed (hs, make_signatures p)"
  by (auto simp: headed_def make_signatures_def list_all_iff)

lemma tables_headed: "list_all headed tables_by_head"
  unfolding tables_by_head_def adt_signatures_def list.pred_inject headed_append
  by (intro conjI headed_make) (simp_all add: headed_def later_tables io_signatures_def fs_signatures_def arith_signatures_def stack_signatures_def)

lemma builtin_signature_heads: "builtin_signature w = lookup_heads tables_by_head w"
  unfolding lookup_heads_map [OF tables_headed] by (simp add: builtin_signature_def builtin_signatures_def tables_by_head_def)

text \<open>The last row of a name, without reversing the table.\<close>

fun last_row :: "(name \<times> effect) list \<Rightarrow> name \<Rightarrow> effect option" where
  "last_row [] w = None"
| "last_row (x # xs) w = (case last_row xs w of Some e \<Rightarrow> Some e | None \<Rightarrow> if fst x = w then Some (snd x) else None)"

lemma last_row_map: "map_of (rev t) w = last_row t w"
  by (induction t) (auto simp: map_add_def split: option.split)

lemmas lookup_table = builtin_signature_heads tables_by_head_def
lemmas lookup_row = last_row_map later_tables io_signatures_def fs_signatures_def arith_signatures_def stack_signatures_def
lemmas lookup_effect = sg_def row_def effect_new_def st_push_def

end
