(* ===== verification/Tag_Stacks.thy ===== *)
theory Tag_Stacks
  imports Runtime_Stack Seq_Ast
begin

text \<open>
  What the abstract stacks of the lints have in common: each lint runs a body over a stack of tags, one for each value it knows of, and
  claims that its stack operations move the tags as the runtime moves the values.  The contract is a locale; that tags which describe the
  values keep describing them through any sequence of shuffle words is proved here once, against the runtime's stack.
\<close>

section \<open>Sequences of shuffles\<close>

fun fixed_shuffles :: "shuffle list \<Rightarrow> 'a list \<Rightarrow> 'a list option" where
  "fixed_shuffles [] xs = Some xs"
| "fixed_shuffles (op # ops) xs = (case shuffle_fixed op xs of Some ys \<Rightarrow> fixed_shuffles ops ys | None \<Rightarrow> None)"

definition describes :: "('t \<Rightarrow> 'v \<Rightarrow> bool) \<Rightarrow> 't list \<Rightarrow> 'v list \<Rightarrow> bool" where
  "describes R ts vs \<longleftrightarrow> length ts \<le> length vs \<and> list_all2 R ts (take (length ts) vs)"

lemma describes_simps [simp]: "describes R [] vs" "\<not> describes R (t # ts) []" "describes R (t # ts) (v # vs) \<longleftrightarrow> R t v \<and> describes R ts vs"
  by (auto simp: describes_def)

lemma describes_Cons: "describes R (t # ts) vs \<longleftrightarrow> (\<exists>v vs'. vs = v # vs' \<and> R t v \<and> describes R ts vs')"
  by (cases vs) auto

lemma shuffle_describes:
  "describes R ts vs \<Longrightarrow> shuffle_fixed op ts = Some ts' \<Longrightarrow> \<exists>vs'. shuffle_fixed op vs = Some vs' \<and> describes R ts' vs'"
  by (cases "(op, ts)" rule: shuffle_fixed.cases) (auto simp: describes_Cons)

lemma shuffles_describe:
  "describes R ts vs \<Longrightarrow> fixed_shuffles ops ts = Some ts' \<Longrightarrow> \<exists>vs'. fixed_shuffles ops vs = Some vs' \<and> describes R ts' vs'"
proof (induction ops arbitrary: ts vs)
  case (Cons op ops)
  obtain ts1 where ts1: "shuffle_fixed op ts = Some ts1" "fixed_shuffles ops ts1 = Some ts'"
    using Cons.prems(2) by (auto split: option.splits)
  obtain vs1 where "shuffle_fixed op vs = Some vs1" "describes R ts1 vs1" using shuffle_describes [OF Cons.prems(1) ts1(1)] by blast
  then show ?case using Cons.IH [OF _ ts1(2)] by simp
qed simp

lemma fixed_spec: "shuffle_fixed op vs = Some vs' \<Longrightarrow> shuffle_spec op vs = Some vs'"
  by (cases "(op, vs)" rule: shuffle_fixed.cases) (auto simp: shuffle_spec_def split: val.splits)

lemma fixed_shuffles_spec: "fixed_shuffles ops vs = Some vs' \<Longrightarrow> shuffles_spec ops vs = Some vs'"
  by (induction ops arbitrary: vs) (auto simp: fixed_spec split: option.splits)

text \<open>What a shuffle loses.\<close>

fun lost_values :: "shuffle \<Rightarrow> 'a list \<Rightarrow> 'a list" where
  "lost_values Drop (a # r) = [a]"
| "lost_values Nip (b # a # r) = [a]"
| "lost_values _ _ = []"

section \<open>The contract\<close>

text \<open>A call is a name with its position.\<close>

definition call_statements :: "(name \<times> span option) list \<Rightarrow> statement list" where
  "call_statements cs = map (\<lambda>c. WordCall (fst c) (snd c)) cs"

locale tag_stack =
  fixes shuffle_words :: "(name \<times> shuffle) list" and tags :: "'s \<Rightarrow> 't list" and step :: "name \<times> span option \<Rightarrow> 's \<Rightarrow> 's"
  assumes step_shuffle: "map_of shuffle_words (fst c) = Some op \<Longrightarrow> shuffle_fixed op (tags st) = Some ts \<Longrightarrow> tags (step c st) = ts"
begin

lemma steps_shuffle:
  "list_all2 (\<lambda>c op. map_of shuffle_words (fst c) = Some op) cs ops \<Longrightarrow> fixed_shuffles ops (tags st) = Some ts \<Longrightarrow> tags (fold step cs st) = ts"
proof (induction arbitrary: st rule: list_all2_induct)
  case (Cons c cs op ops)
  then show ?case using step_shuffle by (auto split: option.splits)
qed simp

lemma tags_follow:
  assumes "list_all2 (\<lambda>c op. map_of shuffle_words (fst c) = Some op) cs ops" "fixed_shuffles ops (tags st) = Some ts"
    and "represents s ext vs" "stack_base (fst s) = Some 0" "room s (2 * length ops)" "describes R (tags st) vs"
  shows "\<exists>s' vs'. tags (fold step cs st) = ts \<and> run_shuffles ops s = Ok s' \<and> represents s' ext vs' \<and> describes R ts vs'"
proof -
  obtain vs' where vs': "fixed_shuffles ops vs = Some vs'" "describes R ts vs'" using shuffles_describe [OF assms(6,2)] by blast
  show ?thesis using shuffles_refine [OF assms(3) fixed_shuffles_spec [OF vs'(1)] assms(5,4)] vs'(2) steps_shuffle [OF assms(1,2)] by blast
qed

end

end
