(* ===== verification/Error_Flag_Lint.thy ===== *)
theory Error_Flag_Lint
  imports Lint_Engine Builtin_Lookup Tag_Stacks Stack_Utils
begin

text \<open>
  The lint of \<open>crates/compiler/src/error_flag_lint/\<close>: an abstract run of a word over a stack of tags that follows the success
  flags of fallible builtins and warns when one is dropped unchecked.  A vector used as a stack is a list with its last element, the
  top, first.  The analyzer's diagnostics are threaded through the walk beside the stack.
\<close>

section \<open>The abstract stack\<close>

record error_flag =
  ef_created_line :: nat
  ef_operation :: name
  ef_description :: string

datatype stack_val = FlagVal error_flag | OtherVal

record flag_stack =
  fs_stack :: "stack_val list"
  fs_aux :: "stack_val list"

definition flag_stack_new :: flag_stack where
  "flag_stack_new = \<lparr>fs_stack = [], fs_aux = []\<rparr>"

definition fs_push :: "stack_val \<Rightarrow> flag_stack \<Rightarrow> flag_stack" where
  "fs_push v st = st\<lparr>fs_stack := v # fs_stack st\<rparr>"

definition push_other :: "flag_stack \<Rightarrow> flag_stack" where
  "push_other st = fs_push OtherVal st"

definition push_flag :: "nat \<Rightarrow> name \<Rightarrow> string \<Rightarrow> flag_stack \<Rightarrow> flag_stack" where
  "push_flag line operation description st =
     fs_push (FlagVal \<lparr>ef_created_line = line, ef_operation = operation, ef_description = description\<rparr>) st"

definition fs_pop :: "flag_stack \<Rightarrow> stack_val option \<times> flag_stack" where
  "fs_pop st = (case fs_stack st of [] \<Rightarrow> (None, st) | v # vs \<Rightarrow> (Some v, st\<lparr>fs_stack := vs\<rparr>))"

definition fs_drop :: "flag_stack \<Rightarrow> flag_stack" where
  "fs_drop st = snd (fs_pop st)"

definition fs_push_some :: "stack_val option \<Rightarrow> flag_stack \<Rightarrow> flag_stack" where
  "fs_push_some v st = (case v of Some x \<Rightarrow> fs_push x st | None \<Rightarrow> st)"

definition fs_depth :: "flag_stack \<Rightarrow> nat" where
  "fs_depth st = length (fs_stack st)"

text \<open>The join of two stacks, position by position from the bottom.\<close>

fun join_val :: "stack_val option \<Rightarrow> stack_val option \<Rightarrow> stack_val" where
  "join_val (Some (FlagVal f)) _ = FlagVal f"
| "join_val _ (Some (FlagVal f)) = FlagVal f"
| "join_val _ _ = OtherVal"

definition vec_get :: "'a list \<Rightarrow> nat \<Rightarrow> 'a option" where
  "vec_get xs i = (if i < length xs then Some (rev xs ! i) else None)"

definition join_vals :: "stack_val list \<Rightarrow> stack_val list \<Rightarrow> stack_val list" where
  "join_vals xs ys = rev (map (\<lambda>i. join_val (vec_get xs i) (vec_get ys i)) [0..<max (length xs) (length ys)])"

definition fs_join :: "flag_stack \<Rightarrow> flag_stack \<Rightarrow> flag_stack" where
  "fs_join a b = \<lparr>fs_stack = join_vals (fs_stack a) (fs_stack b), fs_aux = join_vals (fs_aux a) (fs_aux b)\<rparr>"

section \<open>Fallible operations\<close>

record fallible_op =
  fo_inputs :: nat
  fo_values_before_bool :: nat
  fo_description :: string

definition fallible_table :: "(name \<times> nat \<times> nat \<times> string) list" where
  "fallible_table =
     [(''i./'', 2, 1, ''division by zero''), (''i.divide'', 2, 1, ''division by zero''), (''i.%'', 2, 1, ''modulo by zero''),
      (''i.modulo'', 2, 1, ''modulo by zero''), (''i.pow'', 2, 1, ''negative exponent or overflow''),
      (''file.slurp'', 1, 1, ''file read failure''), (''file.spit'', 2, 0, ''file write failure''),
      (''file.append'', 2, 0, ''file append failure''), (''file.delete'', 1, 0, ''file delete failure''),
      (''file.size'', 1, 1, ''file size failure''), (''dir.make'', 1, 0, ''directory creation failure''),
      (''dir.delete'', 1, 0, ''directory delete failure''), (''dir.list'', 1, 1, ''directory list failure''),
      (''io.read-line'', 0, 1, ''read failure''), (''string->int'', 1, 1, ''parse failure''),
      (''string->float'', 1, 1, ''parse failure''), (''chan.send'', 2, 0, ''send failure''),
      (''chan.receive'', 1, 1, ''receive failure''), (''map.get'', 2, 1, ''key not found''),
      (''list.get'', 2, 1, ''index out of bounds''), (''list.set'', 3, 1, ''index out of bounds''),
      (''list.first'', 1, 1, ''empty list''), (''list.last'', 1, 1, ''empty list''), (''net.tcp.listen'', 1, 1, ''listen failure''),
      (''net.tcp.connect'', 2, 1, ''TCP connect failure''), (''net.tcp.accept'', 1, 1, ''accept failure''),
      (''net.tcp.local-port'', 1, 1, ''local-port lookup failure''), (''net.tcp.read'', 1, 1, ''read failure''),
      (''net.tcp.write'', 2, 0, ''write failure''), (''net.tcp.close'', 1, 0, ''close failure''),
      (''net.dns.resolve'', 1, 1, ''DNS resolution failure''), (''net.tls.client'', 2, 1, ''TLS handshake failure''),
      (''os.getenv'', 1, 1, ''env var not set''), (''os.home-dir'', 0, 1, ''home dir not available''),
      (''os.current-dir'', 0, 1, ''current dir not available''), (''os.path-parent'', 1, 1, ''no parent path''),
      (''os.path-filename'', 1, 1, ''no filename''), (''regex.find'', 2, 1, ''no match or invalid regex''),
      (''regex.find-all'', 2, 1, ''invalid regex''), (''regex.replace'', 3, 1, ''invalid regex''),
      (''regex.replace-all'', 3, 1, ''invalid regex''), (''regex.captures'', 2, 1, ''invalid regex''),
      (''regex.split'', 2, 1, ''invalid regex''), (''encoding.base64-decode'', 1, 1, ''invalid base64''),
      (''encoding.base64url-decode'', 1, 1, ''invalid base64url''), (''encoding.hex-decode'', 1, 1, ''invalid hex''),
      (''crypto.aes-gcm-encrypt'', 2, 1, ''encryption failure''), (''crypto.aes-gcm-decrypt'', 2, 1, ''decryption failure''),
      (''crypto.pbkdf2-sha256'', 3, 1, ''key derivation failure''), (''crypto.ed25519-sign'', 2, 1, ''signing failure''),
      (''compress.gzip'', 1, 1, ''compression failure''), (''compress.gzip-level'', 2, 1, ''compression failure''),
      (''compress.gunzip'', 1, 1, ''decompression failure''), (''compress.zstd'', 1, 1, ''compression failure''),
      (''compress.zstd-level'', 2, 1, ''compression failure''), (''compress.unzstd'', 1, 1, ''decompression failure'')]"

definition fallible_op_info :: "name \<Rightarrow> fallible_op option" where
  "fallible_op_info n =
     map_option (\<lambda>(i, v, d). \<lparr>fo_inputs = i, fo_values_before_bool = v, fo_description = d\<rparr>) (map_of fallible_table n)"

definition is_checking_consumer :: "name \<Rightarrow> bool" where
  "is_checking_consumer n \<longleftrightarrow> n = ''cond''"

section \<open>The analyzer\<close>

type_synonym flag_run = "flag_stack \<times> lint_diagnostic list"

definition emit_warning :: "string \<Rightarrow> word_def \<Rightarrow> error_flag \<Rightarrow> nat \<Rightarrow> lint_diagnostic list" where
  "emit_warning file word flag drop_line =
     (if drop_line \<le> ef_created_line flag + 2 then []
      else [\<lparr>ld_id = ''unchecked-error-flag'',
        ld_message = ''`'' @ ef_operation flag @ ''` returns a Bool error flag (indicates '' @ ef_description flag @ '') '' @
          [CHR 0xE2, CHR 0x80, CHR 0x94] @ '' dropped without checking'',
        ld_severity = SevWarning, ld_replacement = [], ld_file = file, ld_line = ef_created_line flag, ld_end_line = Some drop_line,
        ld_start_column = None, ld_end_column = None, ld_word_name = wd_name word, ld_start_index = 0, ld_end_index = 0\<rparr>])"

definition pop_and_warn :: "string \<Rightarrow> word_def \<Rightarrow> nat \<Rightarrow> flag_run \<Rightarrow> flag_run" where
  "pop_and_warn file word line r =
     (case fs_pop (fst r) of
        (Some (FlagVal flag), st) \<Rightarrow> (st, snd r @ emit_warning file word flag line)
      | (_, st) \<Rightarrow> (st, snd r))"

definition retain_others :: "flag_stack \<Rightarrow> flag_stack" where
  "retain_others st = st\<lparr>fs_stack := filter (\<lambda>v. v = OtherVal) (fs_stack st)\<rparr>"

definition conversion_words :: "name list" where
  "conversion_words =
     [''int->string'', ''int->float'', ''float->int'', ''float->string'', ''char->string'', ''symbol->string'', ''string->symbol'']"

definition fs_nip :: "string \<Rightarrow> word_def \<Rightarrow> nat \<Rightarrow> flag_run \<Rightarrow> flag_run" where
  "fs_nip file word line r =
     (let (top, st) = fs_pop (fst r); (st2, ds) = pop_and_warn file word line (st, snd r) in (fs_push_some top st2, ds))"

definition fs_dup :: "flag_stack \<Rightarrow> flag_stack" where
  "fs_dup st = (case fs_stack st of [] \<Rightarrow> st | v # _ \<Rightarrow> fs_push v st)"

definition fs_swap :: "flag_stack \<Rightarrow> flag_stack" where
  "fs_swap st = (let (a, st1) = fs_pop st; (b, st2) = fs_pop st1 in fs_push_some b (fs_push_some a st2))"

definition fs_rot :: "flag_stack \<Rightarrow> flag_stack" where
  "fs_rot st = (let (c, st1) = fs_pop st; (b, st2) = fs_pop st1; (a, st3) = fs_pop st2
     in fs_push_some a (fs_push_some c (fs_push_some b st3)))"

definition fs_tuck :: "flag_stack \<Rightarrow> flag_stack" where
  "fs_tuck st = (let (b, st1) = fs_pop st; (a, st2) = fs_pop st1 in fs_push_some b (fs_push_some a (fs_push_some b st2)))"

definition fs_to_aux :: "flag_stack \<Rightarrow> flag_stack" where
  "fs_to_aux st = (case fs_pop st of (Some v, st1) \<Rightarrow> st1\<lparr>fs_aux := v # fs_aux st1\<rparr> | (None, st1) \<Rightarrow> st1)"

definition fs_from_aux :: "flag_stack \<Rightarrow> flag_stack" where
  "fs_from_aux st = (case fs_aux st of v # vs \<Rightarrow> fs_push v (st\<lparr>fs_aux := vs\<rparr>) | [] \<Rightarrow> st)"

definition fs_dip :: "flag_stack \<Rightarrow> flag_stack" where
  "fs_dip st = (let (preserved, st1) = fs_pop (fs_drop st) in fs_push_some preserved (retain_others st1))"

definition simulate_stack_op :: "string \<Rightarrow> word_def \<Rightarrow> name \<Rightarrow> nat \<Rightarrow> flag_run \<Rightarrow> flag_run" where
  "simulate_stack_op file word n line r =
     (let pw = pop_and_warn file word line; st = fst r; on = (\<lambda>f. (f st, snd r))
      in if n = ''drop'' then pw r
         else if n = ''nip'' then fs_nip file word line r
         else if n = ''3drop'' then pw (pw (pw r))
         else if n = ''2drop'' then pw (pw r)
         else if n = ''dup'' then on fs_dup
         else if n = ''swap'' then on fs_swap
         else if n = ''over'' \<and> 2 \<le> fs_depth st then on (fs_push (fs_stack st ! 1))
         else if n = ''rot'' then on fs_rot
         else if n = ''tuck'' then on fs_tuck
         else if n = ''2dup'' \<and> 2 \<le> fs_depth st then on (fs_push (fs_stack st ! 0) \<circ> fs_push (fs_stack st ! 1))
         else if n = ''>aux'' then on fs_to_aux
         else if n = ''aux>'' then on fs_from_aux
         else if n = ''pick'' \<or> n = ''roll'' then on push_other
         else if n = ''dip'' then on fs_dip
         else if n = ''keep'' then on fs_dip
         else if n = ''bi'' then on (retain_others \<circ> fs_drop \<circ> fs_drop \<circ> fs_drop)
         else if n = ''call'' then on (retain_others \<circ> fs_drop)
         else if n \<in> set conversion_words then on (push_other \<circ> fs_drop)
         else if n = ''and'' \<or> n = ''or'' then on (push_other \<circ> fs_drop \<circ> fs_drop)
         else if n = ''not'' then on (push_other \<circ> fs_drop)
         else if n = ''test.assert'' \<or> n = ''test.assert-not'' then on fs_drop
         else r)"

definition analyze_flag_call :: "string \<Rightarrow> word_def \<Rightarrow> name \<Rightarrow> span option \<Rightarrow> flag_run \<Rightarrow> flag_run" where
  "analyze_flag_call file word n sp r =
     (let line = (case sp of Some s \<Rightarrow> sp_line s | None \<Rightarrow> 0)
      in case fallible_op_info n of
           Some info \<Rightarrow>
             (push_flag line n (fo_description info) ((push_other ^^ fo_values_before_bool info) ((fs_drop ^^ fo_inputs info) (fst r))), snd r)
         | None \<Rightarrow> if is_checking_consumer n then (fs_drop (fst r), snd r) else simulate_stack_op file word n line r)"

definition bound_values :: "pattern \<Rightarrow> nat" where
  "bound_values p = (case p of PVariant _ \<Rightarrow> 0 | PVariantWithBindings _ bindings \<Rightarrow> length bindings)"

fun reduce_join :: "flag_stack list \<Rightarrow> flag_stack option" where
  "reduce_join [] = None"
| "reduce_join (s # ss) = Some (foldl fs_join s ss)"

fun analyze_flag_statements :: "string \<Rightarrow> word_def \<Rightarrow> statement list \<Rightarrow> flag_run \<Rightarrow> flag_run"
and analyze_flag_statement :: "string \<Rightarrow> word_def \<Rightarrow> statement \<Rightarrow> flag_run \<Rightarrow> flag_run"
and analyze_flag_arms :: "string \<Rightarrow> word_def \<Rightarrow> flag_stack \<Rightarrow> match_arm list \<Rightarrow> lint_diagnostic list \<Rightarrow> flag_stack list \<times> lint_diagnostic list" where
  "analyze_flag_statements file word [] r = r"
| "analyze_flag_statements file word (s # ss) r = analyze_flag_statements file word ss (analyze_flag_statement file word s r)"
| "analyze_flag_statement file word (WordCall n sp) r = analyze_flag_call file word n sp r"
| "analyze_flag_statement file word (If t e sp) r =
     (let st = fs_drop (fst r);
          (then_state, ds1) = analyze_flag_statements file word t (st, snd r);
          (else_state, ds2) = (case e of Some ss \<Rightarrow> analyze_flag_statements file word ss (st, ds1) | None \<Rightarrow> (st, ds1))
      in (fs_join then_state else_state, ds2))"
| "analyze_flag_statement file word (Match arms sp) r =
     (let st = fs_drop (fst r);
          (arm_states, ds) = analyze_flag_arms file word st arms (snd r)
      in (case reduce_join arm_states of Some joined \<Rightarrow> joined | None \<Rightarrow> st, ds))"
| "analyze_flag_statement file word _ r = (push_other (fst r), snd r)"
| "analyze_flag_arms file word st [] ds = ([], ds)"
| "analyze_flag_arms file word st (MatchArm p body sp # arms) ds =
     (let (arm_state, ds1) = analyze_flag_statements file word body ((push_other ^^ bound_values p) st, ds);
          (arm_states, ds2) = analyze_flag_arms file word st arms ds1
      in (arm_state # arm_states, ds2))"

definition analyze_flag_word :: "string \<Rightarrow> word_def \<Rightarrow> lint_diagnostic list" where
  "analyze_flag_word file word = snd (analyze_flag_statements file word (wd_body word) (flag_stack_new, []))"

definition analyze_flags :: "string \<Rightarrow> seq_program \<Rightarrow> lint_diagnostic list" where
  "analyze_flags file program =
     concat (map (\<lambda>word. if ''unchecked-error-flag'' \<in> set (wd_allowed_lints word) then [] else analyze_flag_word file word) (prog_words program))"

section \<open>The table and the signatures\<close>

fun signature_agrees :: "effect option \<Rightarrow> nat \<Rightarrow> nat \<Rightarrow> bool" where
  "signature_agrees (Some (Effect i (SCons rest TBool) fs)) m n \<longleftrightarrow> stack_depth i = m \<and> stack_depth rest = n"
| "signature_agrees _ m n \<longleftrightarrow> False"

lemma fallible_rows1:
  "signature_agrees (builtin_signature ''i./'') 2 1" "signature_agrees (builtin_signature ''i.divide'') 2 1"
  "signature_agrees (builtin_signature ''i.%'') 2 1" "signature_agrees (builtin_signature ''i.modulo'') 2 1"
  "signature_agrees (builtin_signature ''i.pow'') 2 1" "signature_agrees (builtin_signature ''file.slurp'') 1 1"
  "signature_agrees (builtin_signature ''file.spit'') 2 0" "signature_agrees (builtin_signature ''file.append'') 2 0"
  "signature_agrees (builtin_signature ''file.delete'') 1 0" "signature_agrees (builtin_signature ''file.size'') 1 1"
  by (simp add: lookup_table; simp add: lookup_row; simp add: lookup_effect eval_nat_numeral)+

lemma fallible_rows2:
  "signature_agrees (builtin_signature ''dir.make'') 1 0" "signature_agrees (builtin_signature ''dir.delete'') 1 0"
  "signature_agrees (builtin_signature ''dir.list'') 1 1" "signature_agrees (builtin_signature ''io.read-line'') 0 1"
  "signature_agrees (builtin_signature ''string->int'') 1 1" "signature_agrees (builtin_signature ''string->float'') 1 1"
  "signature_agrees (builtin_signature ''chan.send'') 2 0" "signature_agrees (builtin_signature ''chan.receive'') 1 1"
  "signature_agrees (builtin_signature ''map.get'') 2 1" "signature_agrees (builtin_signature ''list.get'') 2 1"
  by (simp add: lookup_table; simp add: lookup_row; simp add: lookup_effect eval_nat_numeral)+

lemma fallible_rows3:
  "signature_agrees (builtin_signature ''list.set'') 3 1" "signature_agrees (builtin_signature ''list.first'') 1 1"
  "signature_agrees (builtin_signature ''list.last'') 1 1" "signature_agrees (builtin_signature ''net.tcp.listen'') 1 1"
  "signature_agrees (builtin_signature ''net.tcp.connect'') 2 1" "signature_agrees (builtin_signature ''net.tcp.accept'') 1 1"
  "signature_agrees (builtin_signature ''net.tcp.local-port'') 1 1" "signature_agrees (builtin_signature ''net.tcp.read'') 1 1"
  "signature_agrees (builtin_signature ''net.tcp.write'') 2 0" "signature_agrees (builtin_signature ''net.tcp.close'') 1 0"
  by (simp add: lookup_table; simp add: lookup_row; simp add: lookup_effect eval_nat_numeral)+

lemma fallible_rows4:
  "signature_agrees (builtin_signature ''net.dns.resolve'') 1 1" "signature_agrees (builtin_signature ''net.tls.client'') 2 1"
  "signature_agrees (builtin_signature ''os.getenv'') 1 1" "signature_agrees (builtin_signature ''os.home-dir'') 0 1"
  "signature_agrees (builtin_signature ''os.current-dir'') 0 1" "signature_agrees (builtin_signature ''os.path-parent'') 1 1"
  "signature_agrees (builtin_signature ''os.path-filename'') 1 1" "signature_agrees (builtin_signature ''regex.find'') 2 1"
  "signature_agrees (builtin_signature ''regex.find-all'') 2 1" "signature_agrees (builtin_signature ''regex.replace'') 3 1"
  by (simp add: lookup_table; simp add: lookup_row; simp add: lookup_effect eval_nat_numeral)+

lemma fallible_rows5:
  "signature_agrees (builtin_signature ''regex.replace-all'') 3 1" "signature_agrees (builtin_signature ''regex.captures'') 2 1"
  "signature_agrees (builtin_signature ''regex.split'') 2 1" "signature_agrees (builtin_signature ''encoding.base64-decode'') 1 1"
  "signature_agrees (builtin_signature ''encoding.base64url-decode'') 1 1"
  "signature_agrees (builtin_signature ''encoding.hex-decode'') 1 1" "signature_agrees (builtin_signature ''crypto.aes-gcm-encrypt'') 2 1"
  "signature_agrees (builtin_signature ''crypto.aes-gcm-decrypt'') 2 1" "signature_agrees (builtin_signature ''crypto.pbkdf2-sha256'') 3 1"
  "signature_agrees (builtin_signature ''crypto.ed25519-sign'') 2 1"
  by (simp add: lookup_table; simp add: lookup_row; simp add: lookup_effect eval_nat_numeral)+

lemma fallible_rows6:
  "signature_agrees (builtin_signature ''compress.gzip'') 1 1" "signature_agrees (builtin_signature ''compress.gzip-level'') 2 1"
  "signature_agrees (builtin_signature ''compress.gunzip'') 1 1" "signature_agrees (builtin_signature ''compress.zstd'') 1 1"
  "signature_agrees (builtin_signature ''compress.zstd-level'') 2 1" "signature_agrees (builtin_signature ''compress.unzstd'') 1 1"
  by (simp add: lookup_table; simp add: lookup_row; simp add: lookup_effect eval_nat_numeral)+

lemmas fallible_rows = fallible_rows1 fallible_rows2 fallible_rows3 fallible_rows4 fallible_rows5 fallible_rows6

lemma fallible_signatures: "list_all (\<lambda>(w, m, n, _). signature_agrees (builtin_signature w) m n) fallible_table"
  unfolding fallible_table_def by (simp only: list.pred_inject prod.case fallible_rows simp_thms)

text \<open>C35: What the lint assumes of a fallible operation is what its signature says: for every operation of the table the number of
  values taken is the number of declared inputs, and the declared outputs are a success flag on top of as many values as the lint pushes.\<close>

theorem fallible_ops_signatures:
  assumes "fallible_op_info n = Some info"
  shows "\<exists>i rest fs. builtin_signature n = Some (Effect i (SCons rest TBool) fs) \<and>
    stack_depth i = fo_inputs info \<and> stack_depth rest = fo_values_before_bool info"
proof -
  obtain a b d where t: "map_of fallible_table n = Some (a, b, d)" "fo_inputs info = a" "fo_values_before_bool info = b"
    using assms by (auto simp: fallible_op_info_def)
  then have "signature_agrees (builtin_signature n) a b"
    using fallible_signatures map_of_SomeD [OF t(1)] by (fastforce simp: list_all_iff)
  then show ?thesis using t by (cases "(builtin_signature n, a, b)" rule: signature_agrees.cases) auto
qed

theorem fallible_ops_signatures_witness:
  "\<exists>i rest fs. builtin_signature ''file.slurp'' = Some (Effect i (SCons rest TBool) fs) \<and> stack_depth i = 1 \<and> stack_depth rest = 1"
proof -
  obtain info where info: "fallible_op_info ''file.slurp'' = Some info" "fo_inputs info = 1" "fo_values_before_bool info = 1"
    by (simp add: fallible_op_info_def fallible_table_def)
  from fallible_ops_signatures [OF info(1)] show ?thesis unfolding info(2,3) .
qed

section \<open>The simulated shuffles are those of the runtime\<close>

definition flag_shuffles :: "(name \<times> shuffle) list" where
  "flag_shuffles = [(''dup'', Dup), (''drop'', Drop), (''swap'', Swap), (''over'', Over), (''rot'', Rot), (''nip'', Nip),
     (''tuck'', Tuck), (''2dup'', TwoDup)]"

text \<open>The warnings for a lost value.\<close>

fun flag_warning :: "string \<Rightarrow> word_def \<Rightarrow> nat \<Rightarrow> stack_val \<Rightarrow> lint_diagnostic list" where
  "flag_warning file word line (FlagVal f) = emit_warning file word f line"
| "flag_warning file word line OtherVal = []"

lemmas flag_ops = fs_pop_def fs_push_def fs_push_some_def fs_drop_def fs_dup_def fs_swap_def fs_rot_def fs_tuck_def fs_nip_def fs_depth_def
  pop_and_warn_def

lemma pop_and_warn_Cons:
  "fs_stack st = v # vs \<Longrightarrow> pop_and_warn file word line (st, ds) = (st\<lparr>fs_stack := vs\<rparr>, ds @ flag_warning file word line v)"
  by (cases v) (simp_all add: pop_and_warn_def fs_pop_def)

lemma simulate_shuffle:
  assumes "map_of flag_shuffles n = Some op" "shuffle_fixed op (fs_stack st) = Some tags"
  shows "simulate_stack_op file word n line (st, ds) =
    (st\<lparr>fs_stack := tags\<rparr>, ds @ concat (map (flag_warning file word line) (lost_values op (fs_stack st))))"
proof -
  have "(n, op) \<in> set flag_shuffles" using assms(1) by (rule map_of_SomeD)
  then show ?thesis using assms(2)
    by (cases "(op, fs_stack st)" rule: shuffle_fixed.cases)
      (auto simp: flag_shuffles_def simulate_stack_op_def Let_def pop_and_warn_Cons fs_nip_def fs_pop_def fs_push_def fs_push_some_def
        fs_dup_def fs_swap_def fs_rot_def fs_tuck_def fs_depth_def)
qed

lemma fallible_names: "list_all (\<lambda>x. CHR ''.'' \<in> set (fst x) \<or> CHR ''>'' \<in> set (fst x)) fallible_table"
  by (simp add: fallible_table_def)

lemma shuffles_not_fallible:
  assumes "map_of flag_shuffles n = Some op"
  shows "fallible_op_info n = None" "\<not> is_checking_consumer n"
proof -
  have "list_all (\<lambda>x. CHR ''.'' \<notin> set (fst x) \<and> CHR ''>'' \<notin> set (fst x) \<and> fst x \<noteq> ''cond'') flag_shuffles"
    by (simp add: flag_shuffles_def)
  then have n: "CHR ''.'' \<notin> set n" "CHR ''>'' \<notin> set n" "n \<noteq> ''cond''"
    using map_of_SomeD [OF assms] by (auto simp: list_all_iff)
  then have "n \<notin> fst ` set fallible_table" using fallible_names by (auto simp: list_all_iff)
  then show "fallible_op_info n = None" by (simp add: fallible_op_info_def map_of_eq_None_iff)
  show "\<not> is_checking_consumer n" using n(3) by (simp add: is_checking_consumer_def)
qed

lemma flag_call_shuffle:
  assumes "map_of flag_shuffles n = Some op" "shuffle_fixed op (fs_stack (fst r)) = Some tags"
  shows "fs_stack (fst (analyze_flag_call file word n sp r)) = tags"
  using simulate_shuffle [OF assms(1), of "fst r" tags "file" word _ "snd r"] shuffles_not_fallible [OF assms(1)] assms(2)
  by (simp add: analyze_flag_call_def Let_def)

interpretation flags: tag_stack flag_shuffles "fs_stack \<circ> fst" "\<lambda>c. analyze_flag_call file word (fst c) (snd c)" for "file" word
  by unfold_locales (simp add: flag_call_shuffle)

lemma flag_calls: "analyze_flag_statements file word (call_statements cs) r = fold (\<lambda>c. analyze_flag_call file word (fst c) (snd c)) cs r"
  by (induction cs arbitrary: r) (simp_all add: call_statements_def)

text \<open>C34: The tags follow the values: when the tags of the lint's stack describe the values on top of the runtime's stack, by any relation
  between tags and values, and the lint's stack is deep enough for a sequence of \<open>dup\<close>, \<open>drop\<close>, \<open>swap\<close>, \<open>over\<close>, \<open>rot\<close>, \<open>nip\<close>, \<open>tuck\<close> and
  \<open>2dup\<close>, then after the lint's walk over the calls and the
  runtime's execution of the words the tags still describe the values on top.\<close>

theorem flags_follow_values:
  assumes "list_all2 (\<lambda>c op. map_of flag_shuffles (fst c) = Some op) cs ops" "fixed_shuffles ops (fs_stack st) = Some tags"
    and "represents s ext vs" "stack_base (fst s) = Some 0" "room s (2 * length ops)" "describes R (fs_stack st) vs"
  shows "\<exists>s' vs'. fs_stack (fst (analyze_flag_statements file word (call_statements cs) (st, ds))) = tags \<and>
    run_shuffles ops s = Ok s' \<and> represents s' ext vs' \<and> describes R tags vs'"
  unfolding flag_calls
  using flags.tags_follow [where st = "(st, ds)" and R = R, OF assms(1) _ assms(3-5)] assms(2,6) by simp

definition slurp_flag :: stack_val where
  "slurp_flag = FlagVal \<lparr>ef_created_line = 0, ef_operation = ''file.slurp'', ef_description = ''file read failure''\<rparr>"

definition flag_word :: "statement list \<Rightarrow> word_def" where
  "flag_word body = \<lparr>wd_name = ''load'', wd_effect = None, wd_body = body, wd_source = None, wd_allowed_lints = []\<rparr>"

theorem flags_follow_values_witness:
  "\<exists>s' vs'. fs_stack (fst (analyze_flag_statements [] (flag_word []) (call_statements [(''swap'', None), (''nip'', None)])
        (\<lparr>fs_stack = [slurp_flag, OtherVal], fs_aux = []\<rparr>, []))) = [OtherVal] \<and>
    run_shuffles [Swap, Nip] (int_strand [0, 5] 8) = Ok s' \<and> represents s' (\<lambda>_. 0) vs' \<and>
    describes (\<lambda>t v. t = slurp_flag \<longleftrightarrow> v = VInt 0) [OtherVal] vs'"
proof -
  have words: "list_all2 (\<lambda>c op. map_of flag_shuffles (fst c) = Some op) [(''swap'', None), (''nip'', None)] [Swap, Nip]"
    by (simp add: flag_shuffles_def)
  have r: "represents (int_strand [0, 5] 8) (\<lambda>_. 0) [VInt 0, VInt 5]" "stack_base (fst (int_strand [0, 5] 8)) = Some 0"
      "room (int_strand [0, 5] 8) (2 * length [Swap, Nip])"
    using int_strand_represents [of "[0, 5]" 8] by auto
  from flags_follow_values [OF words _ r, of "\<lparr>fs_stack = [slurp_flag, OtherVal], fs_aux = []\<rparr>" "[OtherVal]"
      "\<lambda>t v. t = slurp_flag \<longleftrightarrow> v = VInt 0"]
  show ?thesis by (simp add: slurp_flag_def)
qed

section \<open>Inputs are not on the stack\<close>

text \<open>A word starts on an empty stack of tags, whatever its declared inputs.  The body below is for a word that takes a value and
  a path: it reads the file and drops the value that came in, and the lint reports the flag as dropped.\<close>

definition at_line :: "nat \<Rightarrow> name \<Rightarrow> statement" where
  "at_line l n = WordCall n (Some \<lparr>sp_line = l, sp_column = 0, sp_length = length n\<rparr>)"

lemma flag_inputs_untracked:
  "map ld_message (analyze_flag_word [] (flag_word [at_line 1 ''file.slurp'', at_line 5 ''rot'', at_line 9 ''drop''])) =
     [''`file.slurp` returns a Bool error flag (indicates file read failure) '' @ [CHR 0xE2, CHR 0x80, CHR 0x94] @ '' dropped without checking'']"
  "shuffle_fixed Rot [''flag'', ''contents'', ''input''] = Some [''input'', ''flag'', ''contents'']"
  by code_simp+

text \<open>The datagram operations return a success flag as the others do and are not in the table.\<close>

lemma udp_untracked:
  "list_all (\<lambda>w. fallible_op_info w = None) [''net.udp.bind'', ''net.udp.send-to'', ''net.udp.receive-from'', ''net.udp.close'']"
  "signature_agrees (builtin_signature ''net.udp.bind'') 1 2" "signature_agrees (builtin_signature ''net.udp.close'') 1 0"
  by (simp_all add: fallible_op_info_def fallible_table_def) (simp add: lookup_table; simp add: lookup_row; simp add: lookup_effect eval_nat_numeral)+

section \<open>Joins keep the flags of both branches\<close>

lemma vec_get_join:
  "i < max (length xs) (length ys) \<Longrightarrow> vec_get (join_vals xs ys) i = Some (join_val (vec_get xs i) (vec_get ys i))"
  by (simp add: vec_get_def join_vals_def)

lemma join_val_flag: "join_val a b \<noteq> OtherVal \<longleftrightarrow> (\<exists>f. a = Some (FlagVal f) \<or> b = Some (FlagVal f))"
  by (cases "(a, b)" rule: join_val.cases) auto

text \<open>A position of the joined stack carries a flag exactly when it does in one of the branches.\<close>

lemma join_keeps_flags:
  "(\<exists>f. vec_get (join_vals xs ys) i = Some (FlagVal f)) \<longleftrightarrow> (\<exists>f. vec_get xs i = Some (FlagVal f) \<or> vec_get ys i = Some (FlagVal f))"
proof (cases "i < max (length xs) (length ys)")
  case True
  then show ?thesis unfolding vec_get_join [OF True] using join_val_flag [of "vec_get xs i" "vec_get ys i"]
    by (metis option.inject stack_val.distinct(1) stack_val.exhaust)
next
  case False
  then show ?thesis by (auto simp: vec_get_def join_vals_def)
qed

end
