(* ===== verification/Resource_Lint.thy ===== *)
theory Resource_Lint
  imports Lint_Engine Tag_Stacks
begin

text \<open>
  The resource lint of \<open>crates/compiler/src/resource_lint/\<close>: weave handles and channels are followed through an abstract run of each word,
  by itself (\<open>word.rs\<close>) and with the resources other words return (\<open>program.rs\<close>).  A vector used as a stack is a list with the top first;
  the consumed resources are a list in the order of their consumption.  A hash map from resource identities is the list of its
  values in some order, one for each identity, the last inserted.
\<close>

section \<open>State\<close>

datatype resource_kind = WeaveHandle | Channel

fun kind_name :: "resource_kind \<Rightarrow> string" where
  "kind_name WeaveHandle = ''WeaveHandle''"
| "kind_name Channel = ''Channel''"

fun cleanup_suggestion :: "resource_kind \<Rightarrow> string" where
  "cleanup_suggestion WeaveHandle = ''use `strand.weave-cancel` or resume to completion''"
| "cleanup_suggestion Channel = ''use `chan.close` when done''"

fun kind_lint :: "resource_kind \<Rightarrow> string" where
  "kind_lint WeaveHandle = ''resource-leak-weavehandle''"
| "kind_lint Channel = ''resource-leak-channel''"

record tracked_resource =
  tr_kind :: resource_kind
  tr_id :: nat
  tr_created_line :: nat
  tr_created_by :: name

datatype stack_value = Resource tracked_resource | Unknown

record stack_state =
  ss_stack :: "stack_value list"
  ss_aux :: "stack_value list"
  ss_consumed :: "tracked_resource list"
  ss_next_id :: nat

definition stack_state_new :: stack_state where
  "stack_state_new = \<lparr>ss_stack = [], ss_aux = [], ss_consumed = [], ss_next_id = 0\<rparr>"

definition ss_push :: "stack_value \<Rightarrow> stack_state \<Rightarrow> stack_state" where
  "ss_push v st = st\<lparr>ss_stack := v # ss_stack st\<rparr>"

definition push_unknown :: "stack_state \<Rightarrow> stack_state" where
  "push_unknown st = ss_push Unknown st"

definition push_resource :: "resource_kind \<Rightarrow> nat \<Rightarrow> name \<Rightarrow> stack_state \<Rightarrow> stack_state" where
  "push_resource kind line word st =
     ss_push (Resource \<lparr>tr_kind = kind, tr_id = ss_next_id st, tr_created_line = line, tr_created_by = word\<rparr>)
       (st\<lparr>ss_next_id := ss_next_id st + 1\<rparr>)"

definition ss_pop :: "stack_state \<Rightarrow> stack_value option \<times> stack_state" where
  "ss_pop st = (case ss_stack st of [] \<Rightarrow> (None, st) | v # vs \<Rightarrow> (Some v, st\<lparr>ss_stack := vs\<rparr>))"

definition ss_drop :: "stack_state \<Rightarrow> stack_state" where
  "ss_drop st = snd (ss_pop st)"

definition ss_push_some :: "stack_value option \<Rightarrow> stack_state \<Rightarrow> stack_state" where
  "ss_push_some v st = (case v of Some x \<Rightarrow> ss_push x st | None \<Rightarrow> st)"

definition ss_push_or_unknown :: "stack_value option \<Rightarrow> stack_state \<Rightarrow> stack_state" where
  "ss_push_or_unknown v st = (case v of Some x \<Rightarrow> ss_push x st | None \<Rightarrow> push_unknown st)"

definition ss_depth :: "stack_state \<Rightarrow> nat" where
  "ss_depth st = length (ss_stack st)"

definition consume_resource :: "tracked_resource \<Rightarrow> stack_state \<Rightarrow> stack_state" where
  "consume_resource r st = st\<lparr>ss_consumed := ss_consumed st @ [r]\<rparr>"

fun resources :: "stack_value list \<Rightarrow> tracked_resource list" where
  "resources [] = []"
| "resources (Resource r # vs) = r # resources vs"
| "resources (Unknown # vs) = resources vs"

text \<open>From the bottom of the stack to its top.\<close>

definition remaining_resources :: "stack_state \<Rightarrow> tracked_resource list" where
  "remaining_resources st = resources (rev (ss_stack st))"

fun resource_map :: "tracked_resource list \<Rightarrow> tracked_resource list" where
  "resource_map [] = []"
| "resource_map (r # rs) = (if tr_id r \<in> tr_id ` set rs then resource_map rs else r # resource_map rs)"

section \<open>Branches\<close>

record inconsistent_resource =
  ir_resource :: tracked_resource
  ir_consumed_in_else :: bool

definition ss_merge :: "stack_state \<Rightarrow> stack_state \<Rightarrow> inconsistent_resource list" where
  "ss_merge a b =
     (let self_resources = resource_map (remaining_resources a);
          other_resources = resource_map (remaining_resources b);
          self_consumed = tr_id ` set (ss_consumed a);
          other_consumed = tr_id ` set (ss_consumed b)
      in map (\<lambda>r. \<lparr>ir_resource = r, ir_consumed_in_else = True\<rparr>)
           (filter (\<lambda>r. tr_id r \<in> other_consumed \<and> tr_id r \<notin> self_consumed) self_resources) @
         map (\<lambda>r. \<lparr>ir_resource = r, ir_consumed_in_else = False\<rparr>)
           (filter (\<lambda>r. tr_id r \<in> self_consumed \<and> tr_id r \<notin> other_consumed) other_resources))"

text \<open>The positions of two stacks side by side, from the bottom: an unknown value of the first takes the resource of the second.\<close>

fun overlay :: "stack_value list \<Rightarrow> stack_value list \<Rightarrow> stack_value list" where
  "overlay [] ys = []"
| "overlay (Unknown # xs) (Resource r # ys) = Resource r # overlay xs ys"
| "overlay (x # xs) [] = x # xs"
| "overlay (x # xs) (_ # ys) = x # overlay xs ys"

definition ss_join :: "stack_state \<Rightarrow> stack_state \<Rightarrow> stack_state" where
  "ss_join a b =
     (let definitely_consumed = filter (\<lambda>r. tr_id r \<in> tr_id ` set (ss_consumed b)) (ss_consumed a);
          joined = rev (overlay (rev (ss_stack a)) (rev (ss_stack b)));
          missing = filter (\<lambda>r. tr_id r \<notin> tr_id ` set (resources joined) \<and> tr_id r \<notin> tr_id ` set definitely_consumed)
            (resource_map (remaining_resources b))
      in \<lparr>ss_stack = rev (map Resource missing) @ joined,
          ss_aux = (if length (ss_aux b) \<le> length (ss_aux a) then ss_aux a else ss_aux b),
          ss_consumed = definitely_consumed,
          ss_next_id = max (ss_next_id a) (ss_next_id b)\<rparr>)"

fun reduce_states :: "stack_state list \<Rightarrow> stack_state option" where
  "reduce_states [] = None"
| "reduce_states (s # ss) = Some (foldl ss_join s ss)"

definition merge_arms :: "stack_state list \<Rightarrow> inconsistent_resource list" where
  "merge_arms arms = (case arms of [] \<Rightarrow> [] | first # others \<Rightarrow> concat (map (ss_merge first) others))"

section \<open>Stack operations\<close>

definition ss_dup :: "stack_state \<Rightarrow> stack_state" where
  "ss_dup st = (case ss_stack st of v # _ \<Rightarrow> ss_push v st | [] \<Rightarrow> st)"

definition ss_swap :: "stack_state \<Rightarrow> stack_state" where
  "ss_swap st = (let (a, st1) = ss_pop st; (b, st2) = ss_pop st1 in ss_push_some b (ss_push_some a st2))"

definition ss_over :: "stack_state \<Rightarrow> stack_state" where
  "ss_over st = (if 2 \<le> ss_depth st then ss_push (ss_stack st ! 1) st else st)"

definition ss_rot :: "stack_state \<Rightarrow> stack_state" where
  "ss_rot st = (let (c, st1) = ss_pop st; (b, st2) = ss_pop st1; (a, st3) = ss_pop st2
     in ss_push_some a (ss_push_some c (ss_push_some b st3)))"

definition ss_tuck :: "stack_state \<Rightarrow> stack_state" where
  "ss_tuck st = (let (b, st1) = ss_pop st; (a, st2) = ss_pop st1 in ss_push_some b (ss_push_some a (ss_push_some b st2)))"

definition ss_2dup :: "stack_state \<Rightarrow> stack_state" where
  "ss_2dup st = (if 2 \<le> ss_depth st then ss_push (ss_stack st ! 0) (ss_push (ss_stack st ! 1) st) else push_unknown (push_unknown st))"

definition ss_to_aux :: "stack_state \<Rightarrow> stack_state" where
  "ss_to_aux st = (case ss_pop st of (Some v, st1) \<Rightarrow> st1\<lparr>ss_aux := v # ss_aux st1\<rparr> | (None, st1) \<Rightarrow> st1)"

definition ss_from_aux :: "stack_state \<Rightarrow> stack_state" where
  "ss_from_aux st = (case ss_aux st of v # vs \<Rightarrow> ss_push v (st\<lparr>ss_aux := vs\<rparr>) | [] \<Rightarrow> st)"

text \<open>A popped value that is a resource nobody has consumed.\<close>

definition leaked :: "stack_value option \<Rightarrow> stack_state \<Rightarrow> tracked_resource list" where
  "leaked v st = (case v of Some (Resource r) \<Rightarrow> if tr_id r \<in> tr_id ` set (ss_consumed st) then [] else [r] | _ \<Rightarrow> [])"

definition ss_drop_leak :: "stack_state \<Rightarrow> stack_state \<times> tracked_resource list" where
  "ss_drop_leak st = (let (v, st1) = ss_pop st in (st1, leaked v st1))"

definition ss_nip_leak :: "stack_state \<Rightarrow> stack_state \<times> tracked_resource list" where
  "ss_nip_leak st = (let (b, st1) = ss_pop st; (a, st2) = ss_pop st1 in (ss_push_some b st2, leaked a st2))"

definition ss_3drop_leak :: "stack_state \<Rightarrow> stack_state \<times> tracked_resource list" where
  "ss_3drop_leak st =
     (let (st1, l1) = ss_drop_leak st; (st2, l2) = ss_drop_leak st1; (st3, l3) = ss_drop_leak st2 in (st3, l1 @ l2 @ l3))"

definition ss_consume_top :: "resource_kind \<Rightarrow> stack_state \<Rightarrow> stack_state" where
  "ss_consume_top kind st =
     (case ss_pop st of
        (Some (Resource r), st1) \<Rightarrow> if tr_kind r = kind then consume_resource r st1 else st1
      | (_, st1) \<Rightarrow> st1)"

definition ss_resume :: "stack_state \<Rightarrow> stack_state" where
  "ss_resume st = (let (value, st1) = ss_pop st; (handle, st2) = ss_pop st1
     in push_unknown (ss_push_or_unknown value (ss_push_or_unknown handle st2)))"

definition ss_spawn :: "stack_state \<Rightarrow> stack_state" where
  "ss_spawn st = (let st1 = ss_drop st in push_unknown (foldl (\<lambda>s r. consume_resource r s) st1 (remaining_resources st1)))"

definition ss_store :: "nat \<Rightarrow> stack_state \<Rightarrow> stack_state" where
  "ss_store below st = (let (value, st1) = ss_pop st; st2 = (ss_drop ^^ below) st1
     in push_unknown (case value of Some (Resource r) \<Rightarrow> consume_resource r st2 | _ \<Rightarrow> st2))"

definition chan_transfer :: "stack_state \<Rightarrow> stack_state" where
  "chan_transfer st = push_unknown (push_unknown (ss_drop (ss_drop st)))"

definition index_op :: "stack_state \<Rightarrow> stack_state" where
  "index_op st = push_unknown (ss_drop st)"

definition call_line :: "span option \<Rightarrow> nat" where
  "call_line sp = (case sp of Some s \<Rightarrow> sp_line s | None \<Rightarrow> 0)"

section \<open>One word by itself\<close>

definition leak_diagnostic :: "(tracked_resource \<Rightarrow> string) \<Rightarrow> string \<Rightarrow> word_def \<Rightarrow> span option \<Rightarrow> tracked_resource \<Rightarrow> lint_diagnostic" where
  "leak_diagnostic created_where file word sp r =
     \<lparr>ld_id = kind_lint (tr_kind r),
      ld_message = kind_name (tr_kind r) @ created_where r @ '' dropped without cleanup - '' @ cleanup_suggestion (tr_kind r),
      ld_severity = SevWarning, ld_replacement = [], ld_file = file,
      ld_line = (case sp of Some s \<Rightarrow> sp_line s | None \<Rightarrow> fallback_line word), ld_end_line = None,
      ld_start_column = map_option sp_column sp, ld_end_column = map_option (\<lambda>s. sp_column s + 4) sp,
      ld_word_name = wd_name word, ld_start_index = 0, ld_end_index = 0\<rparr>"

definition inconsistent_diagnostic :: "(tracked_resource \<Rightarrow> string) \<Rightarrow> string \<Rightarrow> word_def \<Rightarrow> inconsistent_resource \<Rightarrow> lint_diagnostic" where
  "inconsistent_diagnostic created_where file word i =
     \<lparr>ld_id = ''resource-branch-inconsistent'',
      ld_message = kind_name (tr_kind (ir_resource i)) @ created_where (ir_resource i) @ '' is consumed in '' @
        (if ir_consumed_in_else i then ''else'' else ''then'') @
        '' branch but not the other - all branches must handle resources consistently'',
      ld_severity = SevWarning, ld_replacement = [], ld_file = file, ld_line = fallback_line word, ld_end_line = None,
      ld_start_column = None, ld_end_column = None, ld_word_name = wd_name word, ld_start_index = 0, ld_end_index = 0\<rparr>"

definition word_origin :: "tracked_resource \<Rightarrow> string" where
  "word_origin r = '' created at line '' @ dec (tr_created_line r + 1)"

definition program_origin :: "tracked_resource \<Rightarrow> string" where
  "program_origin r = '' from `'' @ tr_created_by r @ ''` (line '' @ dec (tr_created_line r + 1) @ '')''"

type_synonym resource_run = "stack_state \<times> lint_diagnostic list"

definition resource_word_step :: "name \<Rightarrow> span option \<Rightarrow> stack_state \<Rightarrow> stack_state \<times> tracked_resource list" where
  "resource_word_step n sp st =
     (let line = call_line sp; quiet = (\<lambda>s. (s, []))
      in if n = ''strand.weave'' then quiet (push_resource WeaveHandle line n (ss_drop st))
         else if n = ''chan.make'' then quiet (push_resource Channel line n st)
         else if n = ''strand.weave-cancel'' then quiet (ss_consume_top WeaveHandle st)
         else if n = ''chan.close'' then quiet (ss_consume_top Channel st)
         else if n = ''strand.resume'' then quiet (ss_resume st)
         else if n = ''drop'' then ss_drop_leak st
         else if n = ''dup'' then quiet (if ss_stack st = [] then push_unknown st else ss_dup st)
         else if n = ''swap'' then quiet (ss_swap st)
         else if n = ''over'' then quiet (if 2 \<le> ss_depth st then ss_over st else push_unknown st)
         else if n = ''rot'' then quiet (ss_rot st)
         else if n = ''nip'' then ss_nip_leak st
         else if n = ''>aux'' then quiet (ss_to_aux st)
         else if n = ''aux>'' then quiet (ss_from_aux st)
         else if n = ''tuck'' then quiet (ss_tuck st)
         else if n = ''2dup'' then quiet (ss_2dup st)
         else if n = ''3drop'' then ss_3drop_leak st
         else if n = ''pick'' \<or> n = ''roll'' then quiet (index_op st)
         else if n = ''chan.send'' \<or> n = ''chan.receive'' then quiet (chan_transfer st)
         else if n = ''strand.spawn'' then quiet (ss_spawn st)
         else quiet st)"

definition analyze_resource_call :: "string \<Rightarrow> word_def \<Rightarrow> name \<Rightarrow> span option \<Rightarrow> resource_run \<Rightarrow> resource_run" where
  "analyze_resource_call file word n sp r =
     (let (st, leaks) = resource_word_step n sp (fst r) in (st, snd r @ map (leak_diagnostic word_origin file word sp) leaks))"

definition pattern_bindings :: "pattern \<Rightarrow> nat" where
  "pattern_bindings p = (case p of PVariant _ \<Rightarrow> 0 | PVariantWithBindings _ bindings \<Rightarrow> length bindings)"

definition inconsistencies :: "(tracked_resource \<Rightarrow> string) \<Rightarrow> string \<Rightarrow> word_def \<Rightarrow> inconsistent_resource list \<Rightarrow> lint_diagnostic list" where
  "inconsistencies created_where file word is = map (inconsistent_diagnostic created_where file word) is"

fun analyze_resource_statements :: "string \<Rightarrow> word_def \<Rightarrow> statement list \<Rightarrow> resource_run \<Rightarrow> resource_run"
and analyze_resource_statement :: "string \<Rightarrow> word_def \<Rightarrow> statement \<Rightarrow> resource_run \<Rightarrow> resource_run"
and analyze_resource_arms :: "string \<Rightarrow> word_def \<Rightarrow> stack_state \<Rightarrow> match_arm list \<Rightarrow> lint_diagnostic list \<Rightarrow> stack_state list \<times> lint_diagnostic list" where
  "analyze_resource_statements file word [] r = r"
| "analyze_resource_statements file word (s # ss) r = analyze_resource_statements file word ss (analyze_resource_statement file word s r)"
| "analyze_resource_statement file word (WordCall n sp) r = analyze_resource_call file word n sp r"
| "analyze_resource_statement file word (If t e sp) r =
     (let st = ss_drop (fst r);
          (then_state, ds1) = analyze_resource_statements file word t (st, snd r);
          (else_state, ds2) = (case e of Some ss \<Rightarrow> analyze_resource_statements file word ss (st, ds1) | None \<Rightarrow> (st, ds1))
      in (ss_join then_state else_state, ds2 @ inconsistencies word_origin file word (ss_merge then_state else_state)))"
| "analyze_resource_statement file word (Match arms sp) r =
     (let st = ss_drop (fst r);
          (arm_states, ds) = analyze_resource_arms file word st arms (snd r)
      in (case reduce_states arm_states of Some joined \<Rightarrow> joined | None \<Rightarrow> st,
          ds @ inconsistencies word_origin file word (merge_arms arm_states)))"
| "analyze_resource_statement file word _ r = (push_unknown (fst r), snd r)"
| "analyze_resource_arms file word st [] ds = ([], ds)"
| "analyze_resource_arms file word st (MatchArm p body sp # arms) ds =
     (let (arm_state, ds1) = analyze_resource_statements file word body ((push_unknown ^^ pattern_bindings p) st, ds);
          (arm_states, ds2) = analyze_resource_arms file word st arms ds1
      in (arm_state # arm_states, ds2))"

definition analyze_resource_word :: "string \<Rightarrow> word_def \<Rightarrow> lint_diagnostic list" where
  "analyze_resource_word file word = snd (analyze_resource_statements file word (wd_body word) (stack_state_new, []))"

section \<open>A program\<close>

type_synonym word_infos = "name \<rightharpoonup> resource_kind list"

definition push_returns :: "resource_kind list \<Rightarrow> nat \<Rightarrow> name \<Rightarrow> stack_state \<Rightarrow> stack_state" where
  "push_returns kinds line n st = foldl (\<lambda>s kind. push_resource kind line n s) st kinds"

text \<open>The operations both passes share, with the resources they drop; \<open>None\<close>: not handled here.\<close>

definition simulate_word_common :: "word_infos \<Rightarrow> name \<Rightarrow> span option \<Rightarrow> stack_state \<Rightarrow> (stack_state \<times> tracked_resource list) option" where
  "simulate_word_common word_info n sp st =
     (let line = call_line sp; quiet = (\<lambda>s. Some (s, []))
      in if n = ''strand.weave'' then quiet (push_resource WeaveHandle line n (ss_drop st))
         else if n = ''chan.make'' then quiet (push_resource Channel line n st)
         else if n = ''strand.weave-cancel'' then quiet (ss_consume_top WeaveHandle st)
         else if n = ''chan.close'' then quiet (ss_consume_top Channel st)
         else if n = ''drop'' then Some (ss_drop_leak st)
         else if n = ''dup'' then quiet (ss_dup st)
         else if n = ''swap'' then quiet (ss_swap st)
         else if n = ''over'' then quiet (ss_over st)
         else if n = ''rot'' then quiet (ss_rot st)
         else if n = ''nip'' then Some (ss_nip_leak st)
         else if n = ''>aux'' then quiet (ss_to_aux st)
         else if n = ''aux>'' then quiet (ss_from_aux st)
         else if n = ''tuck'' then quiet (ss_tuck st)
         else if n = ''strand.spawn'' then quiet (ss_spawn st)
         else if n = ''map.set'' then quiet (ss_store 2 st)
         else if n = ''list.push'' \<or> n = ''list.prepend'' then quiet (ss_store 1 st)
         else (case word_info n of Some returns \<Rightarrow> quiet (push_returns returns line n st) | None \<Rightarrow> None))"

definition simulate_word_call :: "word_infos \<Rightarrow> name \<Rightarrow> span option \<Rightarrow> stack_state \<Rightarrow> stack_state" where
  "simulate_word_call word_info n sp st = (case simulate_word_common word_info n sp st of Some (st', _) \<Rightarrow> st' | None \<Rightarrow> st)"

fun simulate_statements :: "word_infos \<Rightarrow> statement list \<Rightarrow> stack_state \<Rightarrow> stack_state"
and simulate_statement :: "word_infos \<Rightarrow> statement \<Rightarrow> stack_state \<Rightarrow> stack_state"
and simulate_arms :: "word_infos \<Rightarrow> stack_state \<Rightarrow> match_arm list \<Rightarrow> stack_state list" where
  "simulate_statements wi [] st = st"
| "simulate_statements wi (s # ss) st = simulate_statements wi ss (simulate_statement wi s st)"
| "simulate_statement wi (WordCall n sp) st = simulate_word_call wi n sp st"
| "simulate_statement wi (If t e sp) st =
     (let st1 = ss_drop st
      in ss_join (simulate_statements wi t st1) (case e of Some ss \<Rightarrow> simulate_statements wi ss st1 | None \<Rightarrow> st1))"
| "simulate_statement wi (Match arms sp) st =
     (let st1 = ss_drop st in case reduce_states (simulate_arms wi st1 arms) of Some joined \<Rightarrow> joined | None \<Rightarrow> st1)"
| "simulate_statement wi _ st = push_unknown st"
| "simulate_arms wi st [] = []"
| "simulate_arms wi st (MatchArm p body sp # arms) = simulate_statements wi body st # simulate_arms wi st arms"

definition collect_word_info :: "word_infos \<Rightarrow> word_def \<Rightarrow> resource_kind list" where
  "collect_word_info wi word = map tr_kind (remaining_resources (simulate_statements wi (wd_body word) stack_state_new))"

definition collect_infos :: "word_def list \<Rightarrow> word_infos" where
  "collect_infos words = foldl (\<lambda>wi w. wi(wd_name w \<mapsto> collect_word_info wi w)) Map.empty words"

definition context_word_step :: "word_infos \<Rightarrow> name \<Rightarrow> span option \<Rightarrow> stack_state \<Rightarrow> stack_state \<times> tracked_resource list" where
  "context_word_step wi n sp st =
     (case simulate_word_common wi n sp st of
        Some r \<Rightarrow> r
      | None \<Rightarrow>
          if n = ''strand.resume'' then (ss_resume st, [])
          else if n = ''2dup'' then (ss_2dup st, [])
          else if n = ''3drop'' then ss_3drop_leak st
          else if n = ''pick'' \<or> n = ''roll'' then (index_op st, [])
          else if n = ''chan.send'' \<or> n = ''chan.receive'' then (chan_transfer st, [])
          else (st, []))"

definition analyze_context_call :: "string \<Rightarrow> word_infos \<Rightarrow> word_def \<Rightarrow> name \<Rightarrow> span option \<Rightarrow> resource_run \<Rightarrow> resource_run" where
  "analyze_context_call file wi word n sp r =
     (let (st, leaks) = context_word_step wi n sp (fst r) in (st, snd r @ map (leak_diagnostic program_origin file word sp) leaks))"

fun analyze_context_statements :: "string \<Rightarrow> word_infos \<Rightarrow> word_def \<Rightarrow> statement list \<Rightarrow> resource_run \<Rightarrow> resource_run"
and analyze_context_statement :: "string \<Rightarrow> word_infos \<Rightarrow> word_def \<Rightarrow> statement \<Rightarrow> resource_run \<Rightarrow> resource_run"
and analyze_context_arms :: "string \<Rightarrow> word_infos \<Rightarrow> word_def \<Rightarrow> stack_state \<Rightarrow> match_arm list \<Rightarrow> lint_diagnostic list \<Rightarrow> stack_state list \<times> lint_diagnostic list" where
  "analyze_context_statements file wi word [] r = r"
| "analyze_context_statements file wi word (s # ss) r = analyze_context_statements file wi word ss (analyze_context_statement file wi word s r)"
| "analyze_context_statement file wi word (WordCall n sp) r = analyze_context_call file wi word n sp r"
| "analyze_context_statement file wi word (If t e sp) r =
     (let st = ss_drop (fst r);
          (then_state, ds1) = analyze_context_statements file wi word t (st, snd r);
          (else_state, ds2) = (case e of Some ss \<Rightarrow> analyze_context_statements file wi word ss (st, ds1) | None \<Rightarrow> (st, ds1))
      in (ss_join then_state else_state, ds2 @ inconsistencies program_origin file word (ss_merge then_state else_state)))"
| "analyze_context_statement file wi word (Match arms sp) r =
     (let st = ss_drop (fst r);
          (arm_states, ds) = analyze_context_arms file wi word st arms (snd r)
      in (case reduce_states arm_states of Some joined \<Rightarrow> joined | None \<Rightarrow> st,
          ds @ inconsistencies program_origin file word (merge_arms arm_states)))"
| "analyze_context_statement file wi word _ r = (push_unknown (fst r), snd r)"
| "analyze_context_arms file wi word st [] ds = ([], ds)"
| "analyze_context_arms file wi word st (MatchArm p body sp # arms) ds =
     (let (arm_state, ds1) = analyze_context_statements file wi word body (st, ds);
          (arm_states, ds2) = analyze_context_arms file wi word st arms ds1
      in (arm_state # arm_states, ds2))"

definition analyze_word_with_context :: "string \<Rightarrow> word_infos \<Rightarrow> lint_diagnostic list \<Rightarrow> word_def \<Rightarrow> lint_diagnostic list" where
  "analyze_word_with_context file wi ds word = snd (analyze_context_statements file wi word (wd_body word) (stack_state_new, ds))"

definition analyze_resources :: "string \<Rightarrow> seq_program \<Rightarrow> lint_diagnostic list" where
  "analyze_resources file program = foldl (analyze_word_with_context file (collect_infos (prog_words program))) [] (prog_words program)"

section \<open>Identities\<close>

text \<open>The resources a state knows of, and what a run may do to them: those it had before, and new ones whose identities it gave out.\<close>

definition known_resources :: "stack_state \<Rightarrow> tracked_resource set" where
  "known_resources st = set (resources (ss_stack st)) \<union> set (resources (ss_aux st)) \<union> set (ss_consumed st)"

definition extends_ids :: "stack_state \<Rightarrow> stack_state \<Rightarrow> bool" where
  "extends_ids st st' \<longleftrightarrow> ss_next_id st \<le> ss_next_id st' \<and>
     (\<forall>r \<in> known_resources st'. r \<in> known_resources st \<or> ss_next_id st \<le> tr_id r \<and> tr_id r < ss_next_id st')"

named_theorems ids_intros \<open>operations give out identities and lose resources, nothing else\<close>

lemma resources_append [simp]: "resources (xs @ ys) = resources xs @ resources ys"
  by (induction xs rule: resources.induct) auto

lemma resources_rev [simp]: "set (resources (rev xs)) = set (resources xs)"
  by (induction xs rule: resources.induct) auto

lemma resources_map [simp]: "resources (map Resource rs) = rs"
  by (induction rs) auto

lemma set_resources: "set (resources vs) = {r. Resource r \<in> set vs}"
  by (induction vs rule: resources.induct) auto

lemma ids_extend_refl [ids_intros]: "extends_ids st st"
  by (simp add: extends_ids_def)

lemma ids_extend_trans: "extends_ids a b \<Longrightarrow> extends_ids b c \<Longrightarrow> extends_ids a c"
  unfolding extends_ids_def by fastforce

lemma extends_fewer: "ss_next_id st' = ss_next_id st \<Longrightarrow> known_resources st' \<subseteq> known_resources st \<Longrightarrow> extends_ids st st'"
  by (auto simp: extends_ids_def)

lemmas ss_ops = ss_pop_def ss_push_def ss_drop_def ss_push_some_def ss_push_or_unknown_def push_unknown_def ss_dup_def ss_swap_def ss_over_def
  ss_rot_def ss_tuck_def ss_2dup_def ss_to_aux_def ss_from_aux_def ss_drop_leak_def ss_nip_leak_def ss_3drop_leak_def ss_resume_def
  consume_resource_def ss_consume_top_def chan_transfer_def index_op_def Let_def

lemma second_mem: "2 \<le> length xs \<Longrightarrow> xs ! 0 \<in> set xs \<and> xs ! Suc 0 \<in> set xs"
  by (cases xs; cases "tl xs") auto

lemma extends_ops [ids_intros]:
  "extends_ids st (push_unknown st)" "extends_ids st (ss_drop st)" "extends_ids st (ss_dup st)" "extends_ids st (ss_swap st)"
  "extends_ids st (ss_over st)" "extends_ids st (ss_rot st)" "extends_ids st (ss_tuck st)" "extends_ids st (ss_2dup st)"
  "extends_ids st (ss_to_aux st)" "extends_ids st (ss_from_aux st)" "extends_ids st (fst (ss_drop_leak st))"
  "extends_ids st (fst (ss_nip_leak st))" "extends_ids st (ss_resume st)" "extends_ids st (ss_consume_top k st)"
  "extends_ids st (index_op st)" "extends_ids st (chan_transfer st)"
  by (rule extends_fewer; auto simp: ss_ops ss_depth_def known_resources_def set_resources split: list.splits stack_value.splits option.splits if_splits
    dest: second_mem)+

lemma extends_push_resource [ids_intros]: "extends_ids st (push_resource kind line n st)"
  by (auto simp: extends_ids_def push_resource_def ss_push_def known_resources_def)

lemma extends_3drop [ids_intros]: "extends_ids st (fst (ss_3drop_leak st))"
  unfolding ss_3drop_leak_def Let_def
  using extends_ops(11) [of st] extends_ops(11) [of "fst (ss_drop_leak st)"] extends_ops(11) [of "fst (ss_drop_leak (fst (ss_drop_leak st)))"]
  by (auto split: prod.splits intro: ids_extend_trans)

lemma extends_returns [ids_intros]: "extends_ids st (push_returns kinds line n st)"
  unfolding push_returns_def by (induction kinds arbitrary: st) (auto intro: ids_extend_refl ids_extend_trans extends_push_resource)

lemma consume_all: "ss_next_id (foldl (\<lambda>s r. consume_resource r s) st rs) = ss_next_id st"
  "known_resources (foldl (\<lambda>s r. consume_resource r s) st rs) = known_resources st \<union> set rs"
  by (induction rs arbitrary: st) (auto simp: consume_resource_def known_resources_def)

lemma extends_spawn [ids_intros]: "extends_ids st (ss_spawn st)"
proof -
  let ?st = "foldl (\<lambda>s r. consume_resource r s) (ss_drop st) (remaining_resources (ss_drop st))"
  have "extends_ids (ss_drop st) ?st"
    unfolding consume_all by (rule extends_fewer) (simp_all add: consume_all, auto simp: remaining_resources_def known_resources_def)
  then show ?thesis unfolding ss_spawn_def Let_def using ids_extend_trans extends_ops(1,2) by blast
qed

lemma extends_funpow: "(\<And>st. extends_ids st (f st)) \<Longrightarrow> extends_ids st ((f ^^ k) st)"
  by (induction k) (auto intro: ids_extend_refl ids_extend_trans)

lemma extends_store [ids_intros]: "extends_ids st (ss_store k st)"
proof -
  obtain v st1 where pop: "ss_pop st = (v, st1)" by fastforce
  let ?st = "(ss_drop ^^ k) st1"
  have below: "extends_ids st1 ?st" by (rule extends_funpow) (rule extends_ops)
  have "known_resources st1 \<union> set (resources (case v of Some x \<Rightarrow> [x] | None \<Rightarrow> [])) \<subseteq> known_resources st" "ss_next_id st1 = ss_next_id st"
    using pop by (auto simp: ss_pop_def known_resources_def set_resources split: list.splits)
  moreover have "ss_next_id ((ss_drop ^^ k) st1) = ss_next_id st1"
    by (induction k) (auto simp: ss_drop_def ss_pop_def split: list.splits)
  ultimately have "extends_ids st (case v of Some (Resource r) \<Rightarrow> consume_resource r ?st | _ \<Rightarrow> ?st)"
    using below by (auto simp: extends_ids_def consume_resource_def known_resources_def split: option.splits stack_value.splits)
  then show ?thesis unfolding ss_store_def pop Let_def prod.case by (rule ids_extend_trans) (rule extends_ops)
qed

lemma overlay_resources: "set (resources (overlay xs ys)) \<subseteq> set (resources xs) \<union> set (resources ys)"
  by (induction xs ys rule: overlay.induct) (auto simp: set_resources)

lemma resource_map_set: "set (resource_map rs) \<subseteq> set rs"
  by (induction rs) auto

lemma extends_join [ids_intros]:
  assumes "extends_ids st a" "extends_ids st b"
  shows "extends_ids st (ss_join a b)"
proof -
  have "known_resources (ss_join a b) \<subseteq> known_resources a \<union> known_resources b" "ss_next_id (ss_join a b) = max (ss_next_id a) (ss_next_id b)"
    using overlay_resources [of "rev (ss_stack a)" "rev (ss_stack b)"] resource_map_set [of "remaining_resources b"]
    by (auto simp: ss_join_def known_resources_def Let_def remaining_resources_def rev_map split: if_splits)
  then show ?thesis using assms unfolding extends_ids_def by fastforce
qed

lemma extends_reduce: "\<forall>s \<in> set states. extends_ids st s \<Longrightarrow> reduce_states states = Some joined \<Longrightarrow> extends_ids st joined"
proof -
  have "\<forall>s \<in> set ss. extends_ids st s \<Longrightarrow> extends_ids st s0 \<Longrightarrow> extends_ids st (foldl ss_join s0 ss)" for ss s0
    by (induction ss arbitrary: s0) (auto intro: extends_join)
  then show "\<forall>s \<in> set states. extends_ids st s \<Longrightarrow> reduce_states states = Some joined \<Longrightarrow> extends_ids st joined"
    by (cases states) auto
qed

lemma extends_word_step: "extends_ids st (fst (resource_word_step n sp st))"
  unfolding resource_word_step_def Let_def by (simp add: ids_intros ids_extend_trans [OF extends_ops(2) extends_push_resource])

definition ids_kept :: "stack_state \<Rightarrow> (stack_state \<times> tracked_resource list) option \<Rightarrow> bool" where
  "ids_kept st x \<longleftrightarrow> (\<forall>r. x = Some r \<longrightarrow> extends_ids st (fst r))"

lemma ids_kept_intros:
  "ids_kept st x \<Longrightarrow> ids_kept st y \<Longrightarrow> ids_kept st (if b then x else y)" "extends_ids st (fst r) \<Longrightarrow> ids_kept st (Some r)"
  "(\<And>y. ids_kept st (f y)) \<Longrightarrow> ids_kept st (case z of Some y \<Rightarrow> f y | None \<Rightarrow> None)"
  by (simp_all add: ids_kept_def split: option.split)

lemma extends_common: "ids_kept st (simulate_word_common wi n sp st)"
  unfolding simulate_word_common_def Let_def
  by (intro ids_kept_intros) (simp_all only: fst_conv extends_ops extends_store extends_returns extends_spawn extends_push_resource
    ids_extend_trans [OF extends_ops(2) extends_push_resource])

lemma extends_context_step: "extends_ids st (fst (context_word_step wi n sp st))"
proof (cases "simulate_word_common wi n sp st")
  case None
  then show ?thesis by (simp add: context_word_step_def ids_intros)
next
  case (Some r)
  then show ?thesis using extends_common [of st wi n sp] by (simp add: context_word_step_def ids_kept_def)
qed

lemma extends_resource_call: "extends_ids (fst r) (fst (analyze_resource_call file word n sp r))"
  using extends_word_step [of "fst r" n sp] by (auto simp: analyze_resource_call_def Let_def split: prod.splits)

lemma extends_context_call: "extends_ids (fst r) (fst (analyze_context_call file wi word n sp r))"
  using extends_context_step [of "fst r" wi n sp] by (auto simp: analyze_context_call_def Let_def split: prod.splits)

lemma extends_simulate_call: "extends_ids st (simulate_word_call wi n sp st)"
  using extends_common [of st wi n sp] by (auto simp: simulate_word_call_def ids_kept_def ids_extend_refl split: option.splits)

lemma extends_match:
  assumes "\<forall>s \<in> set states. extends_ids (ss_drop st) s"
  shows "extends_ids st (case reduce_states states of Some joined \<Rightarrow> joined | None \<Rightarrow> ss_drop st)"
proof (cases "reduce_states states")
  case (Some joined)
  then show ?thesis using ids_extend_trans [OF extends_ops(2) extends_reduce [OF assms Some]] by simp
qed (simp add: extends_ops)

lemma extends_if: "extends_ids (ss_drop st) a \<Longrightarrow> extends_ids (ss_drop st) b \<Longrightarrow> extends_ids st (ss_join a b)"
  by (rule ids_extend_trans [OF extends_ops(2) extends_join])

lemma extends_resource_walk:
  "extends_ids (fst r) (fst (analyze_resource_statements file word ss r))"
  "extends_ids (fst r) (fst (analyze_resource_statement file word s r))"
  "\<forall>s \<in> set (fst (analyze_resource_arms file word st arms ds)). extends_ids st s"
proof (induction "file" word ss r and "file" word s r and "file" word st arms ds
    rule: analyze_resource_statements_analyze_resource_statement_analyze_resource_arms.induct)
  case (2 f word s ss r)
  then show ?case using ids_extend_trans by simp
next
  case (4 f word t e sp r)
  then show ?case by (cases e) (fastforce simp: Let_def ids_extend_refl split: prod.splits intro!: extends_if)+
next
  case (5 f word arms sp r)
  then show ?case by (auto simp: Let_def extends_match split: prod.splits)
next
  case (8 f word st p body sp arms ds)
  have "extends_ids st ((push_unknown ^^ pattern_bindings p) st)" by (rule extends_funpow) (rule extends_ops)
  then show ?case using 8 by (auto simp: Let_def split: prod.splits intro: ids_extend_trans)
qed (simp_all add: extends_resource_call ids_intros)

lemma extends_context_walk:
  "extends_ids (fst r) (fst (analyze_context_statements file wi word ss r))"
  "extends_ids (fst r) (fst (analyze_context_statement file wi word s r))"
  "\<forall>s \<in> set (fst (analyze_context_arms file wi word st arms ds)). extends_ids st s"
proof (induction "file" wi word ss r and "file" wi word s r and "file" wi word st arms ds
    rule: analyze_context_statements_analyze_context_statement_analyze_context_arms.induct)
  case (2 f wi word s ss r)
  then show ?case using ids_extend_trans by simp
next
  case (4 f wi word t e sp r)
  then show ?case by (cases e) (fastforce simp: Let_def ids_extend_refl split: prod.splits intro!: extends_if)+
next
  case (5 f wi word arms sp r)
  then show ?case by (auto simp: Let_def extends_match split: prod.splits)
next
  case (8 f wi word st p body sp arms ds)
  then show ?case by (auto simp: Let_def split: prod.splits)
qed (simp_all add: extends_context_call ids_intros)

text \<open>C37: Identities are given out in order along a run: after the analysis of any body, with branches and matches joined, every resource the
  state knows of, on its stacks or consumed, was known before or has an identity between the counters before and after.  So from the
  empty state every identity in use is below the counter and the next resource made has one that is not in use.\<close>

theorem resource_ids_below_counter:
  "extends_ids (fst r) (fst (analyze_context_statements file wi word ss r)) \<and>
   extends_ids (fst r) (fst (analyze_resource_statements file word ss r)) \<and>
   tr_id ` known_resources (fst (analyze_context_statements file wi word ss (stack_state_new, [])))
     \<subseteq> {..<ss_next_id (fst (analyze_context_statements file wi word ss (stack_state_new, [])))}"
  using extends_context_walk(1) [of "(stack_state_new, [])" "file" wi word ss] extends_context_walk(1) extends_resource_walk(1)
  by (auto simp: extends_ids_def known_resources_def stack_state_new_def)

section \<open>The tags are on the right values\<close>

definition resource_shuffles :: "(name \<times> shuffle) list" where
  "resource_shuffles = [(''dup'', Dup), (''drop'', Drop), (''swap'', Swap), (''over'', Over), (''rot'', Rot), (''nip'', Nip), (''tuck'', Tuck)]"

definition lost_resources :: "shuffle \<Rightarrow> stack_state \<Rightarrow> tracked_resource list" where
  "lost_resources op st = filter (\<lambda>r. tr_id r \<notin> tr_id ` set (ss_consumed st)) (resources (lost_values op (ss_stack st)))"

lemma word_step_shuffle:
  assumes "map_of resource_shuffles n = Some op \<or> n = ''2dup'' \<and> op = TwoDup" "shuffle_fixed op (ss_stack st) = Some tags"
  shows "resource_word_step n sp st = (st\<lparr>ss_stack := tags\<rparr>, lost_resources op st)"
proof -
  have "(n, op) \<in> set ((''2dup'', TwoDup) # resource_shuffles)" using assms(1) by (auto dest: map_of_SomeD)
  then show ?thesis using assms(2)
    by (cases "(op, ss_stack st)" rule: shuffle_fixed.cases)
      (auto simp: resource_shuffles_def resource_word_step_def lost_resources_def ss_ops leaked_def ss_depth_def split: stack_value.splits)
qed

lemma common_shuffle:
  assumes "map_of resource_shuffles n = Some op" "shuffle_fixed op (ss_stack st) = Some tags"
  shows "simulate_word_common wi n sp st = Some (st\<lparr>ss_stack := tags\<rparr>, lost_resources op st)"
proof -
  have "(n, op) \<in> set resource_shuffles" using assms(1) by (rule map_of_SomeD)
  then show ?thesis using assms(2)
    by (cases "(op, ss_stack st)" rule: shuffle_fixed.cases)
      (auto simp: resource_shuffles_def simulate_word_common_def lost_resources_def ss_ops leaked_def ss_depth_def split: stack_value.splits)
qed

lemma context_step_shuffle:
  assumes "map_of resource_shuffles n = Some op" "shuffle_fixed op (ss_stack st) = Some tags"
  shows "context_word_step wi n sp st = (st\<lparr>ss_stack := tags\<rparr>, lost_resources op st)"
  using common_shuffle [OF assms] by (simp add: context_word_step_def)

interpretation res_word: tag_stack "(''2dup'', TwoDup) # resource_shuffles" "ss_stack \<circ> fst"
  "\<lambda>c. analyze_resource_call file word (fst c) (snd c)" for "file" word
proof
  fix c :: "name \<times> span option" and op and st :: resource_run and ts
  assume a: "map_of ((''2dup'', TwoDup) # resource_shuffles) (fst c) = Some op" "shuffle_fixed op ((ss_stack \<circ> fst) st) = Some ts"
  then have "map_of resource_shuffles (fst c) = Some op \<or> fst c = ''2dup'' \<and> op = TwoDup" by (auto split: if_splits)
  from word_step_shuffle [OF this] a(2) show "(ss_stack \<circ> fst) (analyze_resource_call file word (fst c) (snd c) st) = ts"
    by (simp add: analyze_resource_call_def)
qed

interpretation res_program: tag_stack resource_shuffles "ss_stack \<circ> fst"
  "\<lambda>c. analyze_context_call file wi word (fst c) (snd c)" for "file" wi word
  by unfold_locales (simp add: analyze_context_call_def context_step_shuffle)

lemma resource_calls:
  "analyze_resource_statements file word (call_statements cs) r = fold (\<lambda>c. analyze_resource_call file word (fst c) (snd c)) cs r"
  "analyze_context_statements file wi word (call_statements cs) r = fold (\<lambda>c. analyze_context_call file wi word (fst c) (snd c)) cs r"
  by (induction cs arbitrary: r) (simp_all add: call_statements_def)

text \<open>C36: The tracked resources stay on the right values: when the lint's stack describes the values on top of the runtime's stack, by any
  relation, and is deep enough for a sequence of \<open>dup\<close>, \<open>drop\<close>, \<open>swap\<close>, \<open>over\<close>, \<open>rot\<close>, \<open>nip\<close> and \<open>tuck\<close>, then after the lint's walk over the calls, with or without knowledge of other
  words, and the runtime's execution of the words it still does.\<close>

theorem resources_follow_values:
  assumes "list_all2 (\<lambda>c op. map_of resource_shuffles (fst c) = Some op) cs ops" "fixed_shuffles ops (ss_stack st) = Some tags"
    and "represents s ext vs" "stack_base (fst s) = Some 0" "room s (2 * length ops)" "describes R (ss_stack st) vs"
  shows "\<exists>s' vs'. ss_stack (fst (analyze_context_statements file wi word (call_statements cs) (st, ds))) = tags \<and>
    ss_stack (fst (analyze_resource_statements file word (call_statements cs) (st, ds))) = tags \<and>
    run_shuffles ops s = Ok s' \<and> represents s' ext vs' \<and> describes R tags vs'"
proof -
  have "list_all2 (\<lambda>c op. map_of ((''2dup'', TwoDup) # resource_shuffles) (fst c) = Some op) cs ops"
    using assms(1) by (rule list_all2_mono) (auto simp: resource_shuffles_def split: if_splits)
  then have "ss_stack (fst (analyze_resource_statements file word (call_statements cs) (st, ds))) = tags"
    unfolding resource_calls using res_word.steps_shuffle [of cs ops "(st, ds)"] assms(2) by simp
  then show ?thesis unfolding resource_calls
    using res_program.tags_follow [where st = "(st, ds)" and R = R, OF assms(1) _ assms(3-5)] assms(2,6) by simp
qed

definition made_channel :: tracked_resource where
  "made_channel = \<lparr>tr_kind = Channel, tr_id = 0, tr_created_line = 0, tr_created_by = ''chan.make''\<rparr>"

definition resource_word :: "statement list \<Rightarrow> word_def" where
  "resource_word body = \<lparr>wd_name = ''serve'', wd_effect = None, wd_body = body, wd_source = None, wd_allowed_lints = []\<rparr>"

theorem resources_follow_values_witness:
  "\<exists>s' vs'. ss_stack (fst (analyze_context_statements [] Map.empty (resource_word []) (call_statements [(''swap'', None), (''over'', None)])
        (stack_state_new\<lparr>ss_stack := [Unknown, Resource made_channel]\<rparr>, []))) = [Unknown, Resource made_channel, Unknown] \<and>
    run_shuffles [Swap, Over] (int_strand [1, 7] 9) = Ok s' \<and> represents s' (\<lambda>_. 0) vs' \<and>
    describes (\<lambda>t v. t \<noteq> Unknown \<longleftrightarrow> v = VInt 7) [Unknown, Resource made_channel, Unknown] vs'"
proof -
  have words: "list_all2 (\<lambda>c op. map_of resource_shuffles (fst c) = Some op) [(''swap'', None), (''over'', None)] [Swap, Over]"
    by (simp add: resource_shuffles_def)
  have r: "represents (int_strand [1, 7] 9) (\<lambda>_. 0) [VInt 1, VInt 7]" "stack_base (fst (int_strand [1, 7] 9)) = Some 0"
      "room (int_strand [1, 7] 9) (2 * length [Swap, Over])"
    using int_strand_represents [of "[1, 7]" 9] by auto
  from resources_follow_values [OF words _ r, of "stack_state_new\<lparr>ss_stack := [Unknown, Resource made_channel]\<rparr>"
      "[Unknown, Resource made_channel, Unknown]" "\<lambda>t v. t \<noteq> Unknown \<longleftrightarrow> v = VInt 7" "[]" Map.empty "resource_word []" "[]"]
  show ?thesis by (simp add: made_channel_def)
qed

section \<open>Where the tags are lost\<close>

definition res_call :: "name \<Rightarrow> statement" where
  "res_call n = WordCall n None"

text \<open>\<open>chan.receive\<close> takes one value and leaves two; both analyzers take two.  A weave handle below the channel is no longer tracked, and
  dropping it is not reported, as it is without the receive.\<close>

lemma receive_loses_resource:
  "analyze_resource_word [] (resource_word (map res_call [''strand.weave'', ''chan.make'', ''chan.receive'', ''drop'', ''drop'', ''drop''])) = []"
  "map ld_id (analyze_resource_word [] (resource_word (map res_call [''strand.weave'', ''drop'']))) = [''resource-leak-weavehandle'']"
  by code_simp+

text \<open>The arms of a match bind the fields they name: \<open>word.rs\<close> pushes a value for each, \<open>program.rs\<close> none, and takes the drop of a field for the
  drop of the channel below.\<close>

definition binding_match :: "statement list" where
  "binding_match = [res_call ''chan.make'', IntLiteral 0,
     Match [MatchArm (PVariantWithBindings ''Get'' [''n'']) [res_call ''drop''] None] None, res_call ''chan.close'']"

lemma bindings_not_pushed:
  "analyze_resource_word [] (resource_word binding_match) = []"
  "map ld_id (analyze_resources [] \<lparr>prog_includes = [], prog_unions = [], prog_words = [resource_word binding_match]\<rparr>) = [''resource-leak-channel'']"
  by code_simp+

text \<open>Two branches number the resources they make from the same counter, so that different resources have the same identity: here each
  branch makes its own channel, the first closes its channel and keeps the reference, and the second is told its channel was consumed in the first.\<close>

definition same_identity :: "statement list" where
  "same_identity = [BoolLiteral True,
     If (map res_call [''chan.make'', ''dup'', ''chan.close'']) (Some [res_call ''chan.make'']) None]"

lemma branches_share_identities:
  "map ld_id (analyze_resource_word [] (resource_word same_identity)) = [''resource-branch-inconsistent'']"
  by code_simp

end
