(* ===== verification/Containers.thy ===== *)
theory Containers
  imports Runtime_Stack "HOL-Library.AList"
begin

text \<open>
  The words on lists, variants and maps, after \<open>list_ops/basic.rs\<close>, \<open>list_ops/access.rs\<close>,
  \<open>variant_ops/access.rs\<close>, \<open>variant_ops/make.rs\<close>, \<open>variant_ops/modify.rs\<close> and \<open>map_ops.rs\<close> of
  \<open>crates/runtime/src\<close>, on the slots and the reference-counted heap of the runtime's stack.  Five of them
  write in place when the container has a single owner.  Then their specification on a list of values, in
  which nothing is shared or written, and the refinement: whether the code takes the fast path or copies,
  the stack afterwards holds the same values, and nobody else's values have changed.
\<close>

section \<open>What the words take from their surroundings\<close>

type_synonym entries = "(map_key \<times> val) list"

text \<open>
  \<open>debug\<close> renders a value as \<open>{:?}\<close> does; \<open>arrange\<close> is the order in which a hash table iterates after an
  update; \<open>sole\<close> and \<open>sole_slow\<close> are the answers of \<open>Arc::get_mut\<close> on the \<open>Arc<VariantData>\<close> inside a
  variant (a count the values of the model do not have), on the fast and on the slow path of a word.
\<close>

record host =
  debug :: "val \<Rightarrow> string"
  arrange :: "entries \<Rightarrow> entries"
  sole :: bool
  sole_slow :: bool

text \<open>\<open>HashMap::insert\<close> and \<open>HashMap::remove\<close>.\<close>

definition hash_insert :: "host \<Rightarrow> map_key \<Rightarrow> val \<Rightarrow> entries \<Rightarrow> entries" where
  "hash_insert H k v m = arrange H (AList.update k v m)"

definition hash_remove :: "host \<Rightarrow> map_key \<Rightarrow> entries \<Rightarrow> entries" where
  "hash_remove H k m = arrange H (AList.delete k m)"

text \<open>The patterns \<open>Value::Variant\<close>, \<open>Value::Map\<close>, \<open>Value::Int\<close> and \<open>Value::Symbol\<close>.\<close>

fun as_variant :: "val \<Rightarrow> (bytes \<times> val list) option" where
  "as_variant (VVariant tag fs) = Some (tag, fs)"
| "as_variant _ = None"

fun as_map :: "val \<Rightarrow> entries option" where
  "as_map (VMap m) = Some m"
| "as_map _ = None"

fun as_int :: "val \<Rightarrow> i64 option" where
  "as_int (VInt i) = Some i"
| "as_int _ = None"

fun as_symbol :: "val \<Rightarrow> bytes option" where
  "as_symbol (VSymbol s) = Some s"
| "as_symbol _ = None"

text \<open>A \<open>match\<close> whose other arm panics with the value.\<close>

definition expect :: "host \<Rightarrow> (val \<Rightarrow> 'a option) \<Rightarrow> string \<Rightarrow> val \<Rightarrow> fault + 'a" where
  "expect H as msg v = (case as v of Some x \<Rightarrow> Ok x | None \<Rightarrow> Err (Panic (msg @ '', got '' @ debug H v)))"

text \<open>\<open>index < 0 || index as usize >= len\<close>, negated.\<close>

definition in_range :: "i64 \<Rightarrow> 'a list \<Rightarrow> bool" where
  "in_range index xs \<longleftrightarrow> 0 \<le> sint index \<and> unat index < length xs"

section \<open>Mutable access\<close>

text \<open>
  \<open>heap_value_mut(stack.sub(n))\<close>: the block behind the slot and its value when the slot is its only owner.
  \<open>store_value\<close> writes through the reference.
\<close>

definition heap_value_mut :: "strand \<Rightarrow> nat \<Rightarrow> fault + (u64 \<times> val) option" where
  "heap_value_mut s n = try_bind (read_sub s n) (\<lambda>sv.
     if is_inline sv then Ok None
     else case blocks (hp (fst s)) sv of
         None \<Rightarrow> Err Undefined
       | Some (v, rc) \<Rightarrow> Ok (if rc = 1 then Some (sv, v) else None))"

definition peek_heap_mut_second :: "strand \<Rightarrow> fault + (u64 \<times> val) option" where
  "peek_heap_mut_second s = heap_value_mut s 2"

definition store_value :: "u64 \<Rightarrow> val \<Rightarrow> strand \<Rightarrow> fault + strand" where
  "store_value a v s = (case blocks (hp (fst s)) a of
       None \<Rightarrow> Err Undefined
     | Some (_, rc) \<Rightarrow>
         Ok ((fst s)\<lparr>hp := (hp (fst s))\<lparr>blocks := (blocks (hp (fst s)))(a \<mapsto> (v, rc))\<rparr>\<rparr>, snd s))"

text \<open>The patterns \<open>Some(Value::Variant(arc))\<close> with \<open>Arc::get_mut\<close> and \<open>Some(Value::Map(map))\<close>.\<close>

definition unique_variant :: "host \<Rightarrow> (u64 \<times> val) option \<Rightarrow> (u64 \<times> bytes \<times> val list) option" where
  "unique_variant H r = (case r of
       None \<Rightarrow> None
     | Some (a, v) \<Rightarrow> (case as_variant v of
           Some (tag, fs) \<Rightarrow> if sole H then Some (a, tag, fs) else None
         | None \<Rightarrow> None))"

definition unique_map :: "(u64 \<times> val) option \<Rightarrow> (u64 \<times> entries) option" where
  "unique_map r = (case r of
       None \<Rightarrow> None
     | Some (a, v) \<Rightarrow> (case as_map v of Some m \<Rightarrow> Some (a, m) | None \<Rightarrow> None))"

section \<open>Variants\<close>

definition patch_seq_variant_field_count :: "host \<Rightarrow> strand \<Rightarrow> fault + strand" where
  "patch_seq_variant_field_count H s = try_bind (pop s) (\<lambda>(s, value).
     try_bind (expect H as_variant ''variant.field-count: expected Variant'' value) (\<lambda>(_, fs).
     push s (VInt (of_nat (length fs)))))"

definition patch_seq_variant_tag :: "host \<Rightarrow> strand \<Rightarrow> fault + strand" where
  "patch_seq_variant_tag H s = try_bind (pop s) (\<lambda>(s, value).
     try_bind (expect H as_variant ''variant.tag: expected Variant'' value) (\<lambda>(tag, _).
     push s (VSymbol tag)))"

text \<open>\<open>str::from_utf8\<close> on the bytes of a string: the well-formed sequences of the Unicode standard.\<close>

definition between :: "nat \<Rightarrow> nat \<Rightarrow> char \<Rightarrow> bool" where
  "between lo hi c \<longleftrightarrow> lo \<le> (of_char c :: nat) \<and> (of_char c :: nat) \<le> hi"

fun utf8_valid :: "bytes \<Rightarrow> bool" where
  "utf8_valid [] = True"
| "utf8_valid (a # bs) =
    (if between 0 127 a then utf8_valid bs
     else case bs of
       [] \<Rightarrow> False
     | b # cs \<Rightarrow>
        if between 194 223 a then between 128 191 b \<and> utf8_valid cs
        else case cs of
          [] \<Rightarrow> False
        | c # ds \<Rightarrow>
           if between 224 239 a
           then between (if between 224 224 a then 160 else 128) (if between 237 237 a then 159 else 191) b \<and>
                between 128 191 c \<and> utf8_valid ds
           else case ds of
             [] \<Rightarrow> False
           | d # es \<Rightarrow>
              between 240 244 a \<and>
              between (if between 240 240 a then 144 else 128) (if between 244 244 a then 143 else 191) b \<and>
              between 128 191 c \<and> between 128 191 d \<and> utf8_valid es)"

definition as_str_or_empty :: "bytes \<Rightarrow> bytes" where
  "as_str_or_empty s = (if utf8_valid s then s else [])"

text \<open>\<open>c_str\<close> is the literal without its terminator.\<close>

definition patch_seq_symbol_eq_cstr :: "host \<Rightarrow> bytes \<Rightarrow> strand \<Rightarrow> fault + strand" where
  "patch_seq_symbol_eq_cstr H c_str s = try_bind (pop s) (\<lambda>(s, value).
     try_bind (expect H as_symbol ''symbol_eq_cstr: expected Symbol'' value) (\<lambda>symbol_str.
     if \<not> utf8_valid c_str then Err (Panic ''Invalid UTF-8 in variant name'')
     else push s (VBool (as_str_or_empty symbol_str = c_str))))"

definition patch_seq_variant_field_at :: "host \<Rightarrow> strand \<Rightarrow> fault + strand" where
  "patch_seq_variant_field_at H s = try_bind (pop s) (\<lambda>(s, index_val).
     try_bind (expect H as_int ''variant.field-at: expected Int (index)'' index_val) (\<lambda>index.
     if sint index < 0
     then Err (Panic (''variant.field-at: index cannot be negative: '' @ dec_int (sint index)))
     else try_bind (pop s) (\<lambda>(s, variant_val).
       try_bind (expect H as_variant ''variant.field-at: expected Variant'' variant_val) (\<lambda>(_, fs).
       let idx = unat index in
       if idx \<ge> length fs
       then Err (Panic (''variant.field-at: index '' @ dec_int (sint index) @ '' out of bounds (variant has '' @
              dec (length fs) @ '' fields)''))
       else push s (fs ! idx)))))"

text \<open>The slow path of the two words that append, with the copy when the inner count is not one.\<close>

definition push_to_variant :: "host \<Rightarrow> strand \<Rightarrow> bytes \<Rightarrow> val list \<Rightarrow> val \<Rightarrow> fault + strand" where
  "push_to_variant H s tag fs v =
     (if sole_slow H then push s (VVariant tag (fs @ [v]))
      else let new_fields = fs @ [v] in push s (VVariant tag new_fields))"

definition patch_seq_variant_append :: "host \<Rightarrow> strand \<Rightarrow> fault + strand" where
  "patch_seq_variant_append H s = try_bind (peek_heap_mut_second s) (\<lambda>r. case unique_variant H r of
       Some (a, tag, fs) \<Rightarrow>
         try_bind (pop s) (\<lambda>(s, value). store_value a (VVariant tag (fs @ [value])) s)
     | None \<Rightarrow>
         try_bind (pop s) (\<lambda>(s, value). try_bind (pop s) (\<lambda>(s, variant_val).
         try_bind (expect H as_variant ''variant.append: expected Variant'' variant_val) (\<lambda>(tag, fs).
         push_to_variant H s tag fs value))))"

definition patch_seq_variant_first :: "host \<Rightarrow> strand \<Rightarrow> fault + strand" where
  "patch_seq_variant_first H s = try_bind (pop s) (\<lambda>(s, variant_val).
     try_bind (expect H as_variant ''variant.first: expected Variant'' variant_val) (\<lambda>(_, fs).
     if fs = [] then Err (Panic ''variant.first: variant has no fields'')
     else push s (fs ! 0)))"

definition patch_seq_variant_last :: "host \<Rightarrow> strand \<Rightarrow> fault + strand" where
  "patch_seq_variant_last H s = try_bind (pop s) (\<lambda>(s, variant_val).
     try_bind (expect H as_variant ''variant.last: expected Variant'' variant_val) (\<lambda>(_, fs).
     if fs = [] then Err (Panic ''variant.last: variant has no fields'')
     else push s (last fs)))"

definition patch_seq_variant_init :: "host \<Rightarrow> strand \<Rightarrow> fault + strand" where
  "patch_seq_variant_init H s = try_bind (pop s) (\<lambda>(s, variant_val).
     try_bind (expect H as_variant ''variant.init: expected Variant'' variant_val) (\<lambda>(tag, fs).
     if fs = [] then Err (Panic ''variant.init: variant has no fields'')
     else push s (VVariant tag (take (length fs - 1) fs))))"

text \<open>\<open>for i in 0..count\<close>.\<close>

fun push_all :: "strand \<Rightarrow> val list \<Rightarrow> fault + strand" where
  "push_all s [] = Ok s"
| "push_all s (v # vs) = try_bind (push s v) (\<lambda>s. push_all s vs)"

definition patch_seq_unpack_variant :: "host \<Rightarrow> i64 \<Rightarrow> strand \<Rightarrow> fault + strand" where
  "patch_seq_unpack_variant H field_count s = try_bind (pop s) (\<lambda>(s, variant_val).
     try_bind (expect H as_variant ''unpack-variant: expected Variant'' variant_val) (\<lambda>(_, fs).
     let cnt = unat field_count in
     if cnt > length fs
     then Err (Panic (''unpack-variant: requested '' @ dec cnt @ '' fields but variant only has '' @
            dec (length fs)))
     else push_all s (take cnt fs)))"

section \<open>Constructing variants\<close>

text \<open>The fields are popped from the last to the first; \<open>pop_fields\<close> returns them in order.\<close>

fun pop_fields :: "nat \<Rightarrow> strand \<Rightarrow> fault + (strand \<times> val list)" where
  "pop_fields 0 s = Ok (s, [])"
| "pop_fields (Suc n) s = try_bind (pop s) (\<lambda>(s, field).
     try_bind (pop_fields n s) (\<lambda>(s, fs). Ok (s, fs @ [field])))"

definition make_variant :: "nat \<Rightarrow> host \<Rightarrow> strand \<Rightarrow> fault + strand" where
  "make_variant n H s = try_bind (pop s) (\<lambda>(s, tag_val).
     try_bind (expect H as_symbol (''variant.make-'' @ dec n @ '': expected Symbol (tag)'') tag_val) (\<lambda>tag.
     try_bind (pop_fields n s) (\<lambda>(s, fs). push s (VVariant tag fs))))"

definition patch_seq_make_variant_0 :: "host \<Rightarrow> strand \<Rightarrow> fault + strand" where
  "patch_seq_make_variant_0 = make_variant 0"

definition patch_seq_make_variant_1 :: "host \<Rightarrow> strand \<Rightarrow> fault + strand" where
  "patch_seq_make_variant_1 = make_variant 1"

definition patch_seq_make_variant_2 :: "host \<Rightarrow> strand \<Rightarrow> fault + strand" where
  "patch_seq_make_variant_2 = make_variant 2"

definition patch_seq_make_variant_3 :: "host \<Rightarrow> strand \<Rightarrow> fault + strand" where
  "patch_seq_make_variant_3 = make_variant 3"

definition patch_seq_make_variant_4 :: "host \<Rightarrow> strand \<Rightarrow> fault + strand" where
  "patch_seq_make_variant_4 = make_variant 4"

definition patch_seq_make_variant_5 :: "host \<Rightarrow> strand \<Rightarrow> fault + strand" where
  "patch_seq_make_variant_5 = make_variant 5"

definition patch_seq_make_variant_6 :: "host \<Rightarrow> strand \<Rightarrow> fault + strand" where
  "patch_seq_make_variant_6 = make_variant 6"

definition patch_seq_make_variant_7 :: "host \<Rightarrow> strand \<Rightarrow> fault + strand" where
  "patch_seq_make_variant_7 = make_variant 7"

definition patch_seq_make_variant_8 :: "host \<Rightarrow> strand \<Rightarrow> fault + strand" where
  "patch_seq_make_variant_8 = make_variant 8"

definition patch_seq_make_variant_9 :: "host \<Rightarrow> strand \<Rightarrow> fault + strand" where
  "patch_seq_make_variant_9 = make_variant 9"

definition patch_seq_make_variant_10 :: "host \<Rightarrow> strand \<Rightarrow> fault + strand" where
  "patch_seq_make_variant_10 = make_variant 10"

definition patch_seq_make_variant_11 :: "host \<Rightarrow> strand \<Rightarrow> fault + strand" where
  "patch_seq_make_variant_11 = make_variant 11"

definition patch_seq_make_variant_12 :: "host \<Rightarrow> strand \<Rightarrow> fault + strand" where
  "patch_seq_make_variant_12 = make_variant 12"

section \<open>Lists\<close>

text \<open>\<open>stack_depth\<close> of the list words: 0 when no base is set.\<close>

definition list_stack_depth :: "strand \<Rightarrow> fault + nat" where
  "list_stack_depth s = (case stack_base (fst s) of
       None \<Rightarrow> Ok 0
     | Some b \<Rightarrow> if b \<le> snd s then Ok (snd s - b) else Err (Panic ''attempt to subtract with overflow''))"

definition patch_seq_list_length :: "host \<Rightarrow> strand \<Rightarrow> fault + strand" where
  "patch_seq_list_length H s = patch_seq_variant_field_count H s"

definition patch_seq_list_empty :: "host \<Rightarrow> strand \<Rightarrow> fault + strand" where
  "patch_seq_list_empty H s = try_bind (pop s) (\<lambda>(s, list_val).
     try_bind (expect H as_variant ''list-empty?: expected Variant (list)'' list_val) (\<lambda>(_, fs).
     push s (VBool (fs = []))))"

definition patch_seq_list_make :: "strand \<Rightarrow> fault + strand" where
  "patch_seq_list_make s = push s (VVariant ''List'' [])"

definition patch_seq_list_push :: "host \<Rightarrow> strand \<Rightarrow> fault + strand" where
  "patch_seq_list_push H s = try_bind (peek_heap_mut_second s) (\<lambda>r. case unique_variant H r of
       Some (a, tag, fs) \<Rightarrow>
         try_bind (pop s) (\<lambda>(s, value). store_value a (VVariant tag (fs @ [value])) s)
     | None \<Rightarrow>
         try_bind (pop s) (\<lambda>(s, value). try_bind (pop s) (\<lambda>(s, list_val).
         try_bind (expect H as_variant ''list.push: expected Variant (list)'' list_val) (\<lambda>(tag, fs).
         push_to_variant H s tag fs value))))"

definition patch_seq_list_reverse :: "host \<Rightarrow> strand \<Rightarrow> fault + strand" where
  "patch_seq_list_reverse H s = try_bind (pop s) (\<lambda>(s, list_val).
     try_bind (expect H as_variant ''list.reverse: expected Variant (list)'' list_val) (\<lambda>(tag, fs).
     push s (VVariant tag (rev fs))))"

definition placeholder :: "strand \<Rightarrow> fault + strand" where
  "placeholder s = try_bind (push s (VInt 0)) (\<lambda>s. push s (VBool False))"

definition with_flag :: "strand \<Rightarrow> val \<Rightarrow> bool \<Rightarrow> fault + strand" where
  "with_flag s v b = try_bind (push s v) (\<lambda>s. push s (VBool b))"

definition patch_seq_list_get :: "host \<Rightarrow> strand \<Rightarrow> fault + strand" where
  "patch_seq_list_get H s = try_bind (list_stack_depth s) (\<lambda>depth.
     if depth < 2 then Ok (set_runtime_error ''list.get: stack underflow (need 2 values)'' s)
     else try_bind (pop s) (\<lambda>(s, index_val). try_bind (pop s) (\<lambda>(s, list_val).
       case as_int index_val of
         None \<Rightarrow> placeholder (set_runtime_error (''list.get: expected Int (index), got '' @ debug H index_val) s)
       | Some index \<Rightarrow>
         (case as_variant list_val of
           None \<Rightarrow> placeholder (set_runtime_error (''list.get: expected Variant (list), got '' @ debug H list_val) s)
         | Some (_, fs) \<Rightarrow>
             if \<not> in_range index fs then placeholder s
             else with_flag s (fs ! unat index) True))))"

definition list_set_slow :: "host \<Rightarrow> strand \<Rightarrow> fault + strand" where
  "list_set_slow H s = try_bind (pop s) (\<lambda>(s, value). try_bind (pop s) (\<lambda>(s, index_val).
     try_bind (pop s) (\<lambda>(s, list_val).
     case as_int index_val of
       None \<Rightarrow> with_flag (set_runtime_error (''list.set: expected Int (index), got '' @ debug H index_val) s) list_val False
     | Some index \<Rightarrow>
       (case as_variant list_val of
         None \<Rightarrow> with_flag (set_runtime_error (''list.set: expected Variant (list), got '' @ debug H list_val) s) list_val False
       | Some (tag, fs) \<Rightarrow>
           if \<not> in_range index fs then with_flag s (VVariant tag fs) False
           else if sole_slow H then with_flag s (VVariant tag (fs[unat index := value])) True
           else let new_fields = fs[unat index := value] in with_flag s (VVariant tag new_fields) True))))"

definition patch_seq_list_set :: "host \<Rightarrow> strand \<Rightarrow> fault + strand" where
  "patch_seq_list_set H s = try_bind (list_stack_depth s) (\<lambda>depth.
     if depth < 3 then Ok (set_runtime_error ''list.set: stack underflow (need 3 values)'' s)
     else try_bind (heap_value_mut s 3) (\<lambda>r. case unique_variant H r of
         None \<Rightarrow> list_set_slow H s
       | Some (a, tag, fs) \<Rightarrow> try_bind (read_sub s 2) (\<lambda>index_sv.
           if is_tagged_int index_sv
           then let index = untag_int index_sv in
                if in_range index fs
                then try_bind (pop s) (\<lambda>(s, value). try_bind (pop s) (\<lambda>(s, _).
                     try_bind (store_value a (VVariant tag (fs[unat index := value])) s) (\<lambda>s.
                     push s (VBool True))))
                else try_bind (pop s) (\<lambda>(s, _). try_bind (pop s) (\<lambda>(s, _). push s (VBool False)))
           else list_set_slow H s)))"

definition list_endpoint :: "host \<Rightarrow> string \<Rightarrow> (val list \<Rightarrow> val) \<Rightarrow> strand \<Rightarrow> fault + strand" where
  "list_endpoint H op_name pick s = try_bind (list_stack_depth s) (\<lambda>depth.
     if depth < 1 then Ok (set_runtime_error (op_name @ '': stack underflow (need 1 value)'') s)
     else try_bind (pop s) (\<lambda>(s, list_val).
       case as_variant list_val of
         None \<Rightarrow> placeholder (set_runtime_error (op_name @ '': expected Variant (list), got '' @ debug H list_val) s)
       | Some (_, fs) \<Rightarrow> if fs = [] then placeholder s else with_flag s (pick fs) True))"

definition patch_seq_list_first :: "host \<Rightarrow> strand \<Rightarrow> fault + strand" where
  "patch_seq_list_first H = list_endpoint H ''list.first'' (\<lambda>fs. fs ! 0)"

definition patch_seq_list_last :: "host \<Rightarrow> strand \<Rightarrow> fault + strand" where
  "patch_seq_list_last H = list_endpoint H ''list.last'' last"

section \<open>Maps\<close>

definition expect_key :: "host \<Rightarrow> string \<Rightarrow> val \<Rightarrow> fault + map_key" where
  "expect_key H op_name = expect H map_key_from_value (op_name @ '': key must be Int, String, or Bool'')"

definition patch_seq_make_map :: "strand \<Rightarrow> fault + strand" where
  "patch_seq_make_map s = push s (VMap [])"

definition patch_seq_map_get :: "host \<Rightarrow> strand \<Rightarrow> fault + strand" where
  "patch_seq_map_get H s = try_bind (pop s) (\<lambda>(s, key_val).
     try_bind (expect_key H ''map-get'' key_val) (\<lambda>key. try_bind (pop s) (\<lambda>(s, map_val).
     try_bind (expect H as_map ''map-get: expected Map'' map_val) (\<lambda>m.
     case map_of m key of
       Some value \<Rightarrow> with_flag s value True
     | None \<Rightarrow> placeholder s))))"

definition patch_seq_map_set :: "host \<Rightarrow> strand \<Rightarrow> fault + strand" where
  "patch_seq_map_set H s = try_bind (heap_value_mut s 3) (\<lambda>r. case unique_map r of
       Some (a, m) \<Rightarrow>
         try_bind (pop s) (\<lambda>(s, value). try_bind (pop s) (\<lambda>(s, key_val).
         try_bind (expect_key H ''map-set'' key_val) (\<lambda>key.
         store_value a (VMap (hash_insert H key value m)) s)))
     | None \<Rightarrow>
         try_bind (pop s) (\<lambda>(s, value). try_bind (pop s) (\<lambda>(s, key_val).
         try_bind (expect_key H ''map-set'' key_val) (\<lambda>key. try_bind (pop s) (\<lambda>(s, map_val).
         try_bind (expect H as_map ''map-set: expected Map'' map_val) (\<lambda>m.
         push s (VMap (hash_insert H key value m))))))))"

definition patch_seq_map_has :: "host \<Rightarrow> strand \<Rightarrow> fault + strand" where
  "patch_seq_map_has H s = try_bind (pop s) (\<lambda>(s, key_val).
     try_bind (expect_key H ''map-has?'' key_val) (\<lambda>key. try_bind (pop s) (\<lambda>(s, map_val).
     try_bind (expect H as_map ''map-has?: expected Map'' map_val) (\<lambda>m.
     push s (VBool (map_of m key \<noteq> None))))))"

definition patch_seq_map_remove :: "host \<Rightarrow> strand \<Rightarrow> fault + strand" where
  "patch_seq_map_remove H s = try_bind (heap_value_mut s 2) (\<lambda>r. case unique_map r of
       Some (a, m) \<Rightarrow>
         try_bind (pop s) (\<lambda>(s, key_val). try_bind (expect_key H ''map-remove'' key_val) (\<lambda>key.
         store_value a (VMap (hash_remove H key m)) s))
     | None \<Rightarrow>
         try_bind (pop s) (\<lambda>(s, key_val). try_bind (expect_key H ''map-remove'' key_val) (\<lambda>key.
         try_bind (pop s) (\<lambda>(s, map_val).
         try_bind (expect H as_map ''map-remove: expected Map'' map_val) (\<lambda>m.
         push s (VMap (hash_remove H key m)))))))"

definition patch_seq_map_keys :: "host \<Rightarrow> strand \<Rightarrow> fault + strand" where
  "patch_seq_map_keys H s = try_bind (pop s) (\<lambda>(s, map_val).
     try_bind (expect H as_map ''map-keys: expected Map'' map_val) (\<lambda>m.
     push s (VVariant ''List'' (map (\<lambda>(k, _). map_key_to_value k) m))))"

definition patch_seq_map_values :: "host \<Rightarrow> strand \<Rightarrow> fault + strand" where
  "patch_seq_map_values H s = try_bind (pop s) (\<lambda>(s, map_val).
     try_bind (expect H as_map ''map-values: expected Map'' map_val) (\<lambda>m.
     push s (VVariant ''List'' (map snd m))))"

definition patch_seq_map_size :: "host \<Rightarrow> strand \<Rightarrow> fault + strand" where
  "patch_seq_map_size H s = try_bind (pop s) (\<lambda>(s, map_val).
     try_bind (expect H as_map ''map-size: expected Map'' map_val) (\<lambda>m.
     push s (VInt (of_nat (length m)))))"

definition patch_seq_map_empty :: "host \<Rightarrow> strand \<Rightarrow> fault + strand" where
  "patch_seq_map_empty H s = try_bind (pop s) (\<lambda>(s, map_val).
     try_bind (expect H as_map ''map-empty?: expected Map'' map_val) (\<lambda>m.
     push s (VBool (m = []))))"

section \<open>The contract of a stack that allocates\<close>

text \<open>
  The result of a word: the values and the pending error after it, or the panic.  \<open>mem s k\<close>: the
  allocator has \<open>k\<close> blocks left.  \<open>place e s vs j a\<close>: the value at depth \<open>j\<close> lives in block \<open>a\<close>, which has no other owner.
\<close>

datatype outcome = Values "val list" "string option" | Panics string

locale allocating_stack =
  fixes rep :: "string option \<Rightarrow> 's \<Rightarrow> val list \<Rightarrow> bool"
    and space :: "'s \<Rightarrow> nat \<Rightarrow> bool"
    and mem :: "'s \<Rightarrow> nat \<Rightarrow> bool"
    and put :: "'s \<Rightarrow> val \<Rightarrow> fault + 's"
    and take_top :: "'s \<Rightarrow> fault + ('s \<times> val)"
  assumes take_any: "rep e s (v # vs) \<Longrightarrow> space s n \<Longrightarrow> mem s k \<Longrightarrow>
      \<exists>s'. take_top s = Ok (s', v) \<and> rep e s' vs \<and> space s' (Suc n) \<and> mem s' k"
    and put_any: "rep e s vs \<Longrightarrow> space s (Suc n) \<Longrightarrow> mem s (if boxed v then Suc k else k) \<Longrightarrow>
      \<exists>s'. put s v = Ok s' \<and> rep e s' (norm_value v # vs) \<and> space s' n \<and> mem s' k"
    and space_none: "rep e s vs \<Longrightarrow> space s 0"
    and mem_none: "rep e s vs \<Longrightarrow> mem s 0"
    and mem_mono: "mem s (Suc k) \<Longrightarrow> mem s k"
begin

definition ready :: "string option \<Rightarrow> val list \<Rightarrow> nat \<Rightarrow> nat \<Rightarrow> 's \<Rightarrow> bool" where
  "ready e vs n k s \<longleftrightarrow> rep e s vs \<and> space s n \<and> mem s k"

fun yields :: "fault + 's \<Rightarrow> outcome \<Rightarrow> bool" where
  "yields r (Panics msg) \<longleftrightarrow> r = Err (Panic msg)"
| "yields r (Values vs e) \<longleftrightarrow> (\<exists>s'. r = Ok s' \<and> rep e s' vs)"

lemma take_yields:
  assumes "ready e (v # vs) n k s" "\<And>s'. ready e vs (Suc n) k s' \<Longrightarrow> yields (f s' v) out"
  shows "yields (try_bind (take_top s) (case_prod f)) out"
  using take_any [of e s v vs n k] assms by (auto simp: ready_def)

lemma put_yields:
  assumes "ready e vs (Suc n) (Suc k) s" "\<And>s'. ready e (norm_value v # vs) n k s' \<Longrightarrow> yields (f s') out"
  shows "yields (try_bind (put s v) f) out"
  using put_any [of e s vs n v k] mem_mono [of s k] assms by (cases "boxed v") (auto simp: ready_def)

lemma put_inline:
  assumes "\<not> boxed v" "ready e vs (Suc n) k s" "\<And>s'. ready e (norm_value v # vs) n k s' \<Longrightarrow> yields (f s') out"
  shows "yields (try_bind (put s v) f) out"
  using put_any [of e s vs n v k] assms by (auto simp: ready_def)

lemma put_last:
  assumes "ready e vs (Suc n) (Suc k) s" "out = Values (norm_value v # vs) e"
  shows "yields (put s v) out"
  using put_any [of e s vs n v k] mem_mono [of s k] assms by (cases "boxed v") (auto simp: ready_def)

lemma put_inline_last:
  assumes "\<not> boxed v" "ready e vs (Suc n) k s" "out = Values (norm_value v # vs) e"
  shows "yields (put s v) out"
  using put_any [of e s vs n v k] assms by (auto simp: ready_def)

end

sublocale allocating_stack \<subseteq> unboxed: value_stack "rep e" space put take_top for e
proof unfold_locales
  fix s v vs n
  assume "rep e s (v # vs)" "space s n"
  then show "\<exists>s'. take_top s = Ok (s', v) \<and> rep e s' vs \<and> space s' (Suc n)"
    using take_any [of e s v vs n 0] mem_none by blast
next
  fix s vs n v
  assume "rep e s vs" "space s (Suc n)" "\<not> boxed v"
  then show "\<exists>s'. put s v = Ok s' \<and> rep e s' (norm_value v # vs) \<and> space s' n"
    using put_any [of e s vs n v 0] mem_none by auto
qed (rule space_none)

text \<open>With places: mutable access to a slot and the write through it.\<close>

locale in_place_stack = allocating_stack +
  fixes place :: "string option \<Rightarrow> 'a \<Rightarrow> val list \<Rightarrow> nat \<Rightarrow> u64 \<Rightarrow> bool"
    and access :: "'a \<Rightarrow> nat \<Rightarrow> fault + (u64 \<times> val) option"
    and store :: "u64 \<Rightarrow> val \<Rightarrow> 'a \<Rightarrow> fault + 'a"
  assumes access_any: "rep e s vs \<Longrightarrow> j < length vs \<Longrightarrow>
      \<exists>r. access s (Suc j) = Ok r \<and> (\<forall>a v. r = Some (a, v) \<longrightarrow> v = vs ! j \<and> place e s vs j a)"
    and place_rep: "place e s vs j a \<Longrightarrow> rep e s vs"
    and take_place: "place e s (v # vs) (Suc j) a \<Longrightarrow> take_top s = Ok (s', v) \<Longrightarrow> place e s' vs j a"
    and store_any: "place e s vs j a \<Longrightarrow> boxed v \<Longrightarrow> space s n \<Longrightarrow> mem s k \<Longrightarrow>
      \<exists>s'. store a v s = Ok s' \<and> rep e s' (vs[j := v]) \<and> space s' n \<and> mem s' k"
begin

definition aimed :: "string option \<Rightarrow> val list \<Rightarrow> nat \<Rightarrow> u64 \<Rightarrow> nat \<Rightarrow> nat \<Rightarrow> 'a \<Rightarrow> bool" where
  "aimed e vs j a n k s \<longleftrightarrow> place e s vs j a \<and> space s n \<and> mem s k"

lemma access_yields:
  assumes "ready e vs n k s" "j < length vs" "yields (f None) out"
    "\<And>a. aimed e vs j a n k s \<Longrightarrow> yields (f (Some (a, vs ! j))) out"
  shows "yields (try_bind (access s (Suc j)) f) out"
proof -
  obtain r where r: "access s (Suc j) = Ok r" "\<forall>a v. r = Some (a, v) \<longrightarrow> v = vs ! j \<and> place e s vs j a"
    using access_any [of e s vs j] assms(1,2) by (auto simp: ready_def)
  then show ?thesis using assms(1,3,4) by (cases r) (auto simp: aimed_def ready_def)
qed

lemma take_aimed:
  assumes "aimed e (v # vs) (Suc j) a n k s" "\<And>s'. aimed e vs j a (Suc n) k s' \<Longrightarrow> yields (f s' v) out"
  shows "yields (try_bind (take_top s) (case_prod f)) out"
proof -
  have *: "place e s (v # vs) (Suc j) a" "space s n" "mem s k" using assms(1) by (auto simp: aimed_def)
  then obtain s' where "take_top s = Ok (s', v)" "space s' (Suc n)" "mem s' k"
    using take_any [OF place_rep] by blast
  moreover from this have "place e s' vs j a" using take_place [OF *(1)] by blast
  ultimately show ?thesis using assms(2) by (auto simp: aimed_def)
qed

lemma aimed_ready: "aimed e vs j a n k s \<Longrightarrow> ready e vs n k s"
  by (auto simp: aimed_def ready_def dest: place_rep)

lemma store_yields:
  assumes "aimed e vs j a n k s" "boxed v" "\<And>s'. ready e (vs[j := v]) n k s' \<Longrightarrow> yields (f s') out"
  shows "yields (try_bind (store a v s) f) out"
  using store_any [of e s vs j a v n k] assms by (auto simp: aimed_def ready_def)

lemma store_last:
  assumes "aimed e vs j a n k s" "boxed v" "out = Values (vs[j := v]) e"
  shows "yields (store a v s) out"
  using store_any [of e s vs j a v n k] assms by (auto simp: aimed_def)

end

section \<open>The strand keeps the contract\<close>

text \<open>
  What holds around a run of words: the references others hold, with the heap they were taken from, the
  number of slots of the buffer, and a number of blocks that stays available.  \<open>untouched\<close> says that what
  the others refer to is still there and has not changed.
\<close>

record owners =
  held :: "u64 \<Rightarrow> nat"
  seen :: heap
  capacity :: nat
  kept :: nat

definition untouched :: "owners \<Rightarrow> strand \<Rightarrow> bool" where
  "untouched X s \<longleftrightarrow> (\<forall>a. is_tagged_heap a \<longrightarrow> 0 < held X a \<longrightarrow> decode (hp (fst s)) a = decode (seen X) a)"

definition around :: "owners \<Rightarrow> strand \<Rightarrow> bool" where
  "around X s \<longleftrightarrow> stack_base (fst s) = Some 0 \<and> length (cells (fst s)) = capacity X \<and>
     kept X \<le> length (avail (hp (fst s)))"

definition holds :: "owners \<Rightarrow> string option \<Rightarrow> strand \<Rightarrow> val list \<Rightarrow> bool" where
  "holds X e s vs \<longleftrightarrow> represents s (held X) vs \<and> untouched X s \<and> around X s \<and> last_error (fst s) = e"

definition spare :: "owners \<Rightarrow> strand \<Rightarrow> nat \<Rightarrow> bool" where
  "spare X s k \<longleftrightarrow> kept X + k \<le> length (avail (hp (fst s)))"

definition slot_place :: "owners \<Rightarrow> string option \<Rightarrow> strand \<Rightarrow> val list \<Rightarrow> nat \<Rightarrow> u64 \<Rightarrow> bool" where
  "slot_place X e s vs j a \<longleftrightarrow> untouched X s \<and> around X s \<and> last_error (fst s) = e \<and>
     (\<exists>svs. owns s (held X) svs \<and> map (decode (hp (fst s))) svs = map Some vs \<and> j < length svs \<and> svs ! j = a \<and>
       is_tagged_heap a \<and> count_list svs a + held X a = 1)"

lemma try_bindE:
  assumes "try_bind m f = Ok b"
  obtains a where "m = Ok a" "f a = Ok b"
  using assms by (cases m) auto

lemma pop_spare: "pop s = Ok (s', v) \<Longrightarrow> spare X s k \<Longrightarrow> spare X s' k"
  by (auto simp: pop_def pop_sv_def spare_def stack_value_to_value_def arc_drop_def
      split: if_splits option.splits elim!: try_bindE)

lemma push_spare: "push s v = Ok s' \<Longrightarrow> spare X s (if boxed v then Suc k else k) \<Longrightarrow> spare X s' k"
  by (cases v) (auto simp: push_def push_sv_def spare_def write_slot_def arc_new_def
      split: if_splits list.splits elim!: try_bindE)


lemma pop_untouched:
  assumes "represents s (held X) (v # vs)" "pop s = Ok (s', v)" "untouched X s"
  shows "untouched X s'"
proof -
  obtain x svs where o: "owns s (held X) (x # svs)" using assms(1) by (auto simp: represents_def map_eq_Cons_conv)
  let ?rc = "\<lambda>a. count_list (x # svs) a + held X a"
  obtain w h where w: "stack_value_to_value x (hp (fst s)) = Ok (w, h)"
    "\<forall>b. is_inline b \<or> b \<noteq> x \<or> 1 < ?rc x \<longrightarrow> decode h b = decode (hp (fst s)) b"
    using stack_value_to_value_ok [OF ownsD(2) [OF o], of x] by auto
  have "hp (fst s') = h" using assms(2) w(1) pop_sv_live [OF ownsD(1) [OF o]] by (auto simp: pop_def)
  moreover have "decode h a = decode (hp (fst s)) a" if "0 < held X a" for a using w(2) that by (cases "a = x") auto
  ultimately show ?thesis using assms(3) by (simp add: untouched_def)
qed

lemma push_untouched:
  assumes "represents s (held X) vs" "push s v = Ok s'" "untouched X s"
  shows "untouched X s'"
proof -
  obtain svs where "owns s (held X) svs" using assms(1) by (auto simp: represents_def)
  note o = ownsD(2) [OF this]
  obtain sv h where h: "value_to_stack_value v (hp (fst s)) = Ok (sv, h)" "hp (fst s') = h"
    using assms(2) by (auto simp: push_def push_sv_def write_slot_def split: if_splits elim!: try_bindE)
  show ?thesis
  proof (cases "boxed v")
    case True
    then have n: "arc_new v (hp (fst s)) = Ok (sv, h)" using h(1) by (cases v) auto
    then obtain as where as: "avail (hp (fst s)) = sv # as" by (auto simp: arc_new_def split: list.splits)
    have "held X sv = 0" "\<forall>b. b \<noteq> sv \<longrightarrow> decode h b = decode (hp (fst s)) b"
      using arc_new_ok [OF o as True] n by auto
    then show ?thesis using h(2) assms(3) unfolding untouched_def by (metis less_numeral_extra(3))
  next
    case False
    then have "h = hp (fst s)" using h(1) by (cases v) auto
    then show ?thesis using h(2) assms(3) by (simp add: untouched_def)
  qed
qed

lemma sole_index: "count_list xs a \<le> 1 \<Longrightarrow> i < length xs \<Longrightarrow> j < length xs \<Longrightarrow> xs ! i = a \<Longrightarrow> xs ! j = a \<Longrightarrow> i = j"
proof (induction xs arbitrary: i j)
  case (Cons x xs)
  have none: "x = a \<Longrightarrow> n < length xs \<Longrightarrow> xs ! n \<noteq> a" for n
    using Cons.prems(1) count_pos [of a xs] nth_mem [of n xs] by auto
  show ?case
    using Cons none [of "i - 1"] none [of "j - 1"]
    by (cases i; cases j) (auto split: if_splits)
qed simp

lemma heap_value_mut_place:
  assumes "holds X e s vs" "j < length vs"
  shows "\<exists>r. heap_value_mut s (Suc j) = Ok r \<and> (\<forall>a v. r = Some (a, v) \<longrightarrow> v = vs ! j \<and> slot_place X e s vs j a)"
proof -
  obtain svs where o: "owns s (held X) svs" "map (decode (hp (fst s))) svs = map Some vs" "length svs = length vs"
    using assms(1) represents_split [of s "held X" vs] by (auto simp: holds_def)
  let ?a = "svs ! j"
  have r: "read_sub s (Suc j) = Ok ?a" using read_sub_live [OF ownsD(1) [OF o(1)]] assms(2) o(3) by simp
  have d: "decode (hp (fst s)) ?a = Some (vs ! j)" using o(2,3) assms(2) by (metis nth_map)
  show ?thesis
  proof (cases "is_inline ?a")
    case True
    then show ?thesis using r by (simp add: heap_value_mut_def)
  next
    case False
    then have h: "is_tagged_heap ?a" using not_inline_iff by blast
    have "0 < count_list svs ?a + (held X) ?a" using count_pos [of ?a svs] assms(2) o(3) by simp
    then obtain v where v: "blocks (hp (fst s)) ?a = Some (v, count_list svs ?a + (held X) ?a)"
      using heap_okD [OF ownsD(2) [OF o(1)] h] by metis
    then have "v = vs ! j" using d h by (simp add: decode_heap)
    then show ?thesis using r v h False o assms by (auto simp: heap_value_mut_def slot_place_def holds_def)
  qed
qed

lemma pop_place:
  assumes "slot_place X e s (v # vs) (Suc j) a" "pop s = Ok (s', v)"
  shows "slot_place X e s' vs j a"
proof -
  obtain x svs where o: "owns s (held X) (x # svs)" "map (decode (hp (fst s))) svs = map Some vs" "j < length svs"
    "svs ! j = a" "is_tagged_heap a" "count_list (x # svs) a + (held X) a = 1"
    using assms(1) by (auto simp: slot_place_def map_eq_Cons_conv)
  have "owns s' (held X) svs" "same_values s s' svs" using pop_ok [OF o(1)] assms(2) by auto
  moreover have "map (decode (hp (fst s'))) svs = map Some vs"
    using calculation(2) o(2) by (simp add: same_values_def cong: map_cong)
  moreover have "count_list svs a + (held X) a = 1" using o(6) count_pos [of a svs] nth_mem [OF o(3)] o(4) by (auto split: if_splits)
  moreover have "untouched X s'"
    using assms pop_untouched [of s X v vs s'] unfolding slot_place_def represents_def by metis
  moreover have "spare X s' 0" using assms pop_spare [of s s' v X 0] by (auto simp: slot_place_def around_def spare_def)
  ultimately show ?thesis using assms(1) o(3-5) by (auto simp: slot_place_def same_values_def frame_def around_def spare_def)
qed

lemma store_value_place:
  assumes "slot_place X e s vs j a" "boxed v" "room s n" "spare X s k"
  shows "\<exists>s'. store_value a v s = Ok s' \<and> holds X e s' (vs[j := v]) \<and> room s' n \<and> spare X s' k"
proof -
  obtain svs where o: "owns s (held X) svs" "map (decode (hp (fst s))) svs = map Some vs" "j < length svs"
    "svs ! j = a" "is_tagged_heap a" "count_list svs a + (held X) a = 1"
    using assms(1) by (auto simp: slot_place_def)
  obtain u where u: "blocks (hp (fst s)) a = Some (u, 1)"
    using heap_okD [OF ownsD(2) [OF o(1)] o(5)] o(6) by auto
  let ?h = "(hp (fst s))\<lparr>blocks := (blocks (hp (fst s)))(a \<mapsto> (v, 1))\<rparr>"
  let ?s = "((fst s)\<lparr>hp := ?h\<rparr>, snd s)"
  have "heap_ok ?h (\<lambda>b. count_list svs b + (held X) b)"
    using ownsD(2) [OF o(1)] u assms(2) o(5,6) by (auto simp: heap_ok_def)
  then have "owns ?s (held X) svs" using ownsD(1) [OF o(1)] by (simp add: owns_def)
  moreover have "map (decode ?h) svs = map Some (vs[j := v])"
  proof (rule nth_equalityI)
    show "length (map (decode ?h) svs) = length (map Some (vs[j := v]))" using o(2) by (metis length_map length_list_update)
    fix i assume i: "i < length (map (decode ?h) svs)"
    have "svs ! i \<noteq> a" if "i \<noteq> j" using sole_index [of svs a i j] o(3,4,6) i that by auto
    moreover have "decode ?h b = decode (hp (fst s)) b" if "b \<noteq> a" for b using that by (simp add: decode_def)
    moreover have "decode ?h a = Some v" using o(5) by (simp add: decode_heap)
    moreover have "decode (hp (fst s)) (svs ! i) = Some (vs ! i)" "length svs = length vs"
      using o(2) i by (metis length_map nth_map)+
    ultimately show "map (decode ?h) svs ! i = map Some (vs[j := v]) ! i"
      using i o(4) by (cases "i = j") auto
  qed
  ultimately have "represents ?s (held X) (vs[j := v])" unfolding represents_def by auto
  moreover have "held X a = 0" using o(6) count_pos [of a svs] nth_mem [OF o(3)] o(4) by auto
  then have "untouched X ?s" using assms(1) by (auto simp: untouched_def slot_place_def decode_def)
  ultimately show ?thesis using u assms by (auto simp: store_value_def holds_def slot_place_def room_def spare_def around_def)
qed

interpretation cs: in_place_stack "holds X" room "spare X" push pop "slot_place X" heap_value_mut store_value for X
proof unfold_locales
  fix e s v vs n k
  assume "holds X e s (v # vs)" "room s n" "spare X s k"
  then show "\<exists>s'. pop s = Ok (s', v) \<and> holds X e s' vs \<and> room s' (Suc n) \<and> spare X s' k"
    using pop_represents [of s "held X" v vs] pop_spare [of s _ v X k] pop_untouched [of s X v vs] by (fastforce simp: holds_def around_def spare_def room_def frame_def)
next
  fix e s vs n v k
  assume *: "holds X e s vs" "room s (Suc n)" "spare X s (if boxed v then Suc k else k)"
  then have "room s 1" "boxed v \<Longrightarrow> avail (hp (fst s)) \<noteq> []" by (auto simp: room_def spare_def)
  then show "\<exists>s'. push s v = Ok s' \<and> holds X e s' (norm_value v # vs) \<and> room s' n \<and> spare X s' k"
    using push_represents [of s "held X" vs v] push_spare [of s v _ X k] push_untouched [of s X vs v] * by (fastforce simp: holds_def around_def spare_def room_def frame_def)
next
  fix e s vs assume "holds X e s vs"
  then show "room s 0" using rs.space_0 [of s "held X" vs] by (simp add: holds_def)
next
  fix e s vs assume "holds X e s vs"
  then show "spare X s 0" by (simp add: holds_def around_def spare_def)
next
  fix s k show "spare X s (Suc k) \<Longrightarrow> spare X s k" by (simp add: spare_def)
next
  fix e s vs j assume "holds X e s vs" "j < length vs"
  then show "\<exists>r. heap_value_mut s (Suc j) = Ok r \<and> (\<forall>a v. r = Some (a, v) \<longrightarrow> v = vs ! j \<and> slot_place X e s vs j a)"
    by (rule heap_value_mut_place)
next
  fix e s vs j a assume "slot_place X e s vs j a"
  then show "holds X e s vs" by (auto simp: slot_place_def holds_def represents_def)
next
  fix e s v vs j a s' assume "slot_place X e s (v # vs) (Suc j) a" "pop s = Ok (s', v)"
  then show "slot_place X e s' vs j a" by (rule pop_place)
next
  fix e s vs j a v n k assume "slot_place X e s vs j a" "boxed v" "room s n" "spare X s k"
  then show "\<exists>s'. store_value a v s = Ok s' \<and> holds X e s' (vs[j := v]) \<and> room s' n \<and> spare X s' k"
    by (rule store_value_place)
qed

end
