(* ===== verification/Container_Spec.thy ===== *)
theory Container_Spec
  imports Containers
begin

text \<open>
  What the words on lists, variants and maps do to a list of values, and the refinement of the
  runtime's functions to it: on the fast path that writes in place, on the slow path that copies, and on
  every error.
\<close>

section \<open>The specification\<close>

datatype cop =
    ListLength | ListEmpty | ListMake | ListPush | ListReverse | ListGet | ListSet | ListFirst | ListLast
  | FieldCount | VariantTag | SymbolEq bytes | FieldAt | VariantAppend | VariantFirst | VariantLast
  | VariantInit | UnpackVariant i64 | MakeVariant nat
  | MakeMap | MapGet | MapSet | MapHas | MapRemove | MapKeys | MapValues | MapSize | MapEmpty

fun run_container :: "host \<Rightarrow> cop \<Rightarrow> strand \<Rightarrow> fault + strand" where
  "run_container H ListLength = patch_seq_list_length H"
| "run_container H ListEmpty = patch_seq_list_empty H"
| "run_container H ListMake = patch_seq_list_make"
| "run_container H ListPush = patch_seq_list_push H"
| "run_container H ListReverse = patch_seq_list_reverse H"
| "run_container H ListGet = patch_seq_list_get H"
| "run_container H ListSet = patch_seq_list_set H"
| "run_container H ListFirst = patch_seq_list_first H"
| "run_container H ListLast = patch_seq_list_last H"
| "run_container H FieldCount = patch_seq_variant_field_count H"
| "run_container H VariantTag = patch_seq_variant_tag H"
| "run_container H (SymbolEq c_str) = patch_seq_symbol_eq_cstr H c_str"
| "run_container H FieldAt = patch_seq_variant_field_at H"
| "run_container H VariantAppend = patch_seq_variant_append H"
| "run_container H VariantFirst = patch_seq_variant_first H"
| "run_container H VariantLast = patch_seq_variant_last H"
| "run_container H VariantInit = patch_seq_variant_init H"
| "run_container H (UnpackVariant n) = patch_seq_unpack_variant H n"
| "run_container H (MakeVariant n) = make_variant n H"
| "run_container H MakeMap = patch_seq_make_map"
| "run_container H MapGet = patch_seq_map_get H"
| "run_container H MapSet = patch_seq_map_set H"
| "run_container H MapHas = patch_seq_map_has H"
| "run_container H MapRemove = patch_seq_map_remove H"
| "run_container H MapKeys = patch_seq_map_keys H"
| "run_container H MapValues = patch_seq_map_values H"
| "run_container H MapSize = patch_seq_map_size H"
| "run_container H MapEmpty = patch_seq_map_empty H"

text \<open>What a word does to the values, first on top; \<open>None\<close> where the words rely on the type checker.\<close>

definition need :: "host \<Rightarrow> (val \<Rightarrow> 'a option) \<Rightarrow> string \<Rightarrow> val \<Rightarrow> ('a \<Rightarrow> outcome) \<Rightarrow> outcome option" where
  "need H as msg v k = Some (case as v of Some x \<Rightarrow> k x | None \<Rightarrow> Panics (msg @ '', got '' @ debug H v))"

definition flagged :: "val list \<Rightarrow> val option \<Rightarrow> string option \<Rightarrow> outcome" where
  "flagged vs r e = (case r of
       Some v \<Rightarrow> Values (VBool True # norm_value v # vs) e
     | None \<Rightarrow> Values (VBool False # VInt 0 # vs) e)"

definition endpoint_spec :: "host \<Rightarrow> string \<Rightarrow> (val list \<Rightarrow> val) \<Rightarrow> string option \<Rightarrow> val list \<Rightarrow> outcome" where
  "endpoint_spec H op_name pick e vs = (case vs of
       [] \<Rightarrow> Values vs (Some (op_name @ '': stack underflow (need 1 value)''))
     | l # vs \<Rightarrow> (case as_variant l of
           None \<Rightarrow> flagged vs None (Some (op_name @ '': expected Variant (list), got '' @ debug H l))
         | Some (_, fs) \<Rightarrow> flagged vs (if fs = [] then None else Some (pick fs)) e))"

fun list_get_spec :: "host \<Rightarrow> string option \<Rightarrow> val list \<Rightarrow> outcome" where
  "list_get_spec H e (i # l # vs) = (case as_int i of
       None \<Rightarrow> flagged vs None (Some (''list.get: expected Int (index), got '' @ debug H i))
     | Some n \<Rightarrow> (case as_variant l of
           None \<Rightarrow> flagged vs None (Some (''list.get: expected Variant (list), got '' @ debug H l))
         | Some (_, fs) \<Rightarrow> flagged vs (if in_range n fs then Some (fs ! unat n) else None) e))"
| "list_get_spec H e vs = Values vs (Some ''list.get: stack underflow (need 2 values)'')"

fun list_set_spec :: "host \<Rightarrow> string option \<Rightarrow> val list \<Rightarrow> outcome" where
  "list_set_spec H e (v # i # l # vs) = (case as_int i of
       None \<Rightarrow> Values (VBool False # l # vs) (Some (''list.set: expected Int (index), got '' @ debug H i))
     | Some n \<Rightarrow> (case as_variant l of
           None \<Rightarrow> Values (VBool False # l # vs) (Some (''list.set: expected Variant (list), got '' @ debug H l))
         | Some (tag, fs) \<Rightarrow>
             if in_range n fs then Values (VBool True # VVariant tag (fs[unat n := v]) # vs) e
             else Values (VBool False # l # vs) e))"
| "list_set_spec H e vs = Values vs (Some ''list.set: stack underflow (need 3 values)'')"

definition field_at_spec :: "host \<Rightarrow> string option \<Rightarrow> val \<Rightarrow> val \<Rightarrow> val list \<Rightarrow> outcome option" where
  "field_at_spec H e i l vs = need H as_int ''variant.field-at: expected Int (index)'' i (\<lambda>n.
     if sint n < 0 then Panics (''variant.field-at: index cannot be negative: '' @ dec_int (sint n))
     else case as_variant l of
         None \<Rightarrow> Panics (''variant.field-at: expected Variant, got '' @ debug H l)
       | Some (_, fs) \<Rightarrow>
           if in_range n fs then Values (norm_value (fs ! unat n) # vs) e
           else Panics (''variant.field-at: index '' @ dec_int (sint n) @ '' out of bounds (variant has '' @
                  dec (length fs) @ '' fields)''))"

definition key_map_spec :: "host \<Rightarrow> string \<Rightarrow> (map_key \<Rightarrow> entries \<Rightarrow> outcome) \<Rightarrow> val \<Rightarrow> val \<Rightarrow> outcome option" where
  "key_map_spec H op_name f k m = need H map_key_from_value (op_name @ '': key must be Int, String, or Bool'') k (\<lambda>key.
     case as_map m of
       None \<Rightarrow> Panics (op_name @ '': expected Map, got '' @ debug H m)
     | Some es \<Rightarrow> f key es)"

text \<open>The top values and the rest of the stack.\<close>

definition on1 :: "'a list \<Rightarrow> ('a \<Rightarrow> 'a list \<Rightarrow> 'b option) \<Rightarrow> 'b option" where
  "on1 st k = (case st of v # vs \<Rightarrow> k v vs | [] \<Rightarrow> None)"

definition on2 :: "'a list \<Rightarrow> ('a \<Rightarrow> 'a \<Rightarrow> 'a list \<Rightarrow> 'b option) \<Rightarrow> 'b option" where
  "on2 st k = on1 st (\<lambda>b vs. on1 vs (k b))"

definition on3 :: "'a list \<Rightarrow> ('a \<Rightarrow> 'a \<Rightarrow> 'a \<Rightarrow> 'a list \<Rightarrow> 'b option) \<Rightarrow> 'b option" where
  "on3 st k = on1 st (\<lambda>c vs. on2 vs (k c))"

lemma on_Some:
  "on1 st k = Some r \<longleftrightarrow> (\<exists>v vs. st = v # vs \<and> k v vs = Some r)"
  "on2 st k2 = Some r \<longleftrightarrow> (\<exists>b v vs. st = b # v # vs \<and> k2 b v vs = Some r)"
  "on3 st k3 = Some r \<longleftrightarrow> (\<exists>c b v vs. st = c # b # v # vs \<and> k3 c b v vs = Some r)"
  by (auto simp: on1_def on2_def on3_def split: list.splits)

fun container_spec :: "host \<Rightarrow> cop \<Rightarrow> string option \<Rightarrow> val list \<Rightarrow> outcome option" where
  "container_spec H ListMake e vs = Some (Values (VVariant ''List'' [] # vs) e)"
| "container_spec H MakeMap e vs = Some (Values (VMap [] # vs) e)"
| "container_spec H ListGet e vs = Some (list_get_spec H e vs)"
| "container_spec H ListSet e vs = Some (list_set_spec H e vs)"
| "container_spec H ListFirst e vs = Some (endpoint_spec H ''list.first'' hd e vs)"
| "container_spec H ListLast e vs = Some (endpoint_spec H ''list.last'' last e vs)"
| "container_spec H ListLength e st = on1 st (\<lambda>v vs. need H as_variant ''variant.field-count: expected Variant'' v
         (\<lambda>(_, fs). Values (VInt (wrap63 (of_nat (length fs))) # vs) e))"
| "container_spec H FieldCount e st = on1 st (\<lambda>v vs. need H as_variant ''variant.field-count: expected Variant'' v
         (\<lambda>(_, fs). Values (VInt (wrap63 (of_nat (length fs))) # vs) e))"
| "container_spec H ListEmpty e st = on1 st (\<lambda>v vs. need H as_variant ''list-empty?: expected Variant (list)'' v
         (\<lambda>(_, fs). Values (VBool (fs = []) # vs) e))"
| "container_spec H ListReverse e st = on1 st (\<lambda>v vs. need H as_variant ''list.reverse: expected Variant (list)'' v
         (\<lambda>(tag, fs). Values (VVariant tag (rev fs) # vs) e))"
| "container_spec H ListPush e st = on2 st (\<lambda>x v vs. need H as_variant ''list.push: expected Variant (list)'' v
         (\<lambda>(tag, fs). Values (VVariant tag (fs @ [x]) # vs) e))"
| "container_spec H VariantAppend e st = on2 st (\<lambda>x v vs. need H as_variant ''variant.append: expected Variant'' v
         (\<lambda>(tag, fs). Values (VVariant tag (fs @ [x]) # vs) e))"
| "container_spec H VariantTag e st = on1 st (\<lambda>v vs. need H as_variant ''variant.tag: expected Variant'' v
         (\<lambda>(tag, _). Values (VSymbol tag # vs) e))"
| "container_spec H (SymbolEq c) e st = on1 st (\<lambda>v vs. need H as_symbol ''symbol_eq_cstr: expected Symbol'' v
         (\<lambda>sym. if utf8_valid c then Values (VBool (as_str_or_empty sym = c) # vs) e
                else Panics ''Invalid UTF-8 in variant name''))"
| "container_spec H FieldAt e st = on2 st (field_at_spec H e)"
| "container_spec H VariantFirst e st = on1 st (\<lambda>v vs. need H as_variant ''variant.first: expected Variant'' v
         (\<lambda>(_, fs). if fs = [] then Panics ''variant.first: variant has no fields''
                    else Values (norm_value (hd fs) # vs) e))"
| "container_spec H VariantLast e st = on1 st (\<lambda>v vs. need H as_variant ''variant.last: expected Variant'' v
         (\<lambda>(_, fs). if fs = [] then Panics ''variant.last: variant has no fields''
                    else Values (norm_value (last fs) # vs) e))"
| "container_spec H VariantInit e st = on1 st (\<lambda>v vs. need H as_variant ''variant.init: expected Variant'' v
         (\<lambda>(tag, fs). if fs = [] then Panics ''variant.init: variant has no fields''
                      else Values (VVariant tag (butlast fs) # vs) e))"
| "container_spec H (UnpackVariant n) e st = on1 st (\<lambda>v vs. need H as_variant ''unpack-variant: expected Variant'' v
         (\<lambda>(_, fs). if length fs < unat n
                    then Panics (''unpack-variant: requested '' @ dec (unat n) @ '' fields but variant only has '' @
                           dec (length fs))
                    else Values (rev (map norm_value (take (unat n) fs)) @ vs) e))"
| "container_spec H (MakeVariant n) e st = on1 st (\<lambda>t vs. (if length vs < n then None
          else need H as_symbol (''variant.make-'' @ dec n @ '': expected Symbol (tag)'') t
            (\<lambda>tag. Values (VVariant tag (rev (take n vs)) # drop n vs) e)))"
| "container_spec H MapGet e st = on2 st (\<lambda>k m vs. key_map_spec H ''map-get'' (\<lambda>key es. flagged vs (map_of es key) e) k m)"
| "container_spec H MapHas e st = on2 st (\<lambda>k m vs. key_map_spec H ''map-has?'' (\<lambda>key es. Values (VBool (key \<in> fst ` set es) # vs) e) k m)"
| "container_spec H MapRemove e st = on2 st (\<lambda>k m vs. key_map_spec H ''map-remove'' (\<lambda>key es. Values (VMap (hash_remove H key es) # vs) e) k m)"
| "container_spec H MapSet e st = on3 st (\<lambda>v k m vs. key_map_spec H ''map-set'' (\<lambda>key es. Values (VMap (hash_insert H key v es) # vs) e) k m)"
| "container_spec H MapKeys e st = on1 st (\<lambda>m vs. need H as_map ''map-keys: expected Map'' m
         (\<lambda>es. Values (VVariant ''List'' (map map_key_to_value (map fst es)) # vs) e))"
| "container_spec H MapValues e st = on1 st (\<lambda>m vs. need H as_map ''map-values: expected Map'' m
         (\<lambda>es. Values (VVariant ''List'' (map snd es) # vs) e))"
| "container_spec H MapSize e st = on1 st (\<lambda>m vs. need H as_map ''map-size: expected Map'' m
         (\<lambda>es. Values (VInt (wrap63 (of_nat (length es))) # vs) e))"
| "container_spec H MapEmpty e st = on1 st (\<lambda>m vs. need H as_map ''map-empty?: expected Map'' m
         (\<lambda>es. Values (VBool (es = []) # vs) e))"

text \<open>The slots and the blocks a word may need beyond those it frees.\<close>

fun extra :: "cop \<Rightarrow> nat" where
  "extra (UnpackVariant n) = unat n"
| "extra _ = 1"

section \<open>Refinement\<close>

declare cs.yields.simps(2) [simp del]

lemma expect_yields:
  assumes "\<And>x. as v = Some x \<Longrightarrow> cs.yields X (f x) (k x)"
  shows "\<forall>out. need H as msg v k = Some out \<longrightarrow> cs.yields X (try_bind (expect H as msg v) f) out"
  using assms by (auto simp: need_def expect_def split: option.splits)

lemmas expect_cases = expect_yields [rule_format]

lemma placeholder_yields:
  assumes "cs.ready X e vs (Suc (Suc n)) k s"
  shows "cs.yields X (placeholder s) (flagged vs None e)"
  unfolding placeholder_def flagged_def
  by (rule cs.put_inline [OF _ assms], simp, rule cs.put_inline_last, simp, assumption) simp

lemma with_flag_yields:
  assumes "cs.ready X e vs (Suc (Suc n)) (Suc k) s" "out = Values (VBool b # norm_value v # vs) e"
  shows "cs.yields X (with_flag s v b) out"
  unfolding with_flag_def
  by (rule cs.put_yields [OF assms(1)], rule cs.put_inline_last, simp, assumption) (simp add: assms(2))

lemma set_error_ready:
  "cs.ready X e vs n k s \<Longrightarrow> cs.ready X (Some msg) vs n k (set_runtime_error msg s)"
  by (auto simp: cs.ready_def holds_def room_def spare_def set_runtime_error_def represents_def owns_def live_def untouched_def around_def)

lemma one_variant:
  assumes "cs.ready X e (v # vs) n (Suc k) s" "need H as msg v spec = Some out"
    "\<And>x s'. cs.ready X e vs (Suc n) (Suc k) s' \<Longrightarrow> as v = Some x \<Longrightarrow> cs.yields X (f s' x) (spec x)"
  shows "cs.yields X (try_bind (pop s) (\<lambda>(s, v). try_bind (expect H as msg v) (f s))) out"
  by (rule cs.take_yields [OF assms(1)], rule expect_cases [OF _ assms(2)]) (rule assms(3))

text \<open>The words that take one value apart.\<close>

lemma map_fst_case: "map (\<lambda>(k, _). f k) m = map f (map fst m)"
  by (induction m) auto

lemma unary_words:
  assumes "cs.ready X e st 1 1 s"
  shows "container_spec H FieldCount e st = Some out \<Longrightarrow> cs.yields X (patch_seq_variant_field_count H s) out"
    and "container_spec H VariantTag e st = Some out \<Longrightarrow> cs.yields X (patch_seq_variant_tag H s) out"
    and "container_spec H (SymbolEq c) e st = Some out \<Longrightarrow> cs.yields X (patch_seq_symbol_eq_cstr H c s) out"
    and "container_spec H VariantFirst e st = Some out \<Longrightarrow> cs.yields X (patch_seq_variant_first H s) out"
    and "container_spec H VariantLast e st = Some out \<Longrightarrow> cs.yields X (patch_seq_variant_last H s) out"
    and "container_spec H VariantInit e st = Some out \<Longrightarrow> cs.yields X (patch_seq_variant_init H s) out"
    and "container_spec H ListEmpty e st = Some out \<Longrightarrow> cs.yields X (patch_seq_list_empty H s) out"
    and "container_spec H ListReverse e st = Some out \<Longrightarrow> cs.yields X (patch_seq_list_reverse H s) out"
    and "container_spec H MapKeys e st = Some out \<Longrightarrow> cs.yields X (patch_seq_map_keys H s) out"
    and "container_spec H MapValues e st = Some out \<Longrightarrow> cs.yields X (patch_seq_map_values H s) out"
    and "container_spec H MapSize e st = Some out \<Longrightarrow> cs.yields X (patch_seq_map_size H s) out"
    and "container_spec H MapEmpty e st = Some out \<Longrightarrow> cs.yields X (patch_seq_map_empty H s) out"
  using assms
  unfolding patch_seq_variant_field_count_def patch_seq_variant_tag_def patch_seq_symbol_eq_cstr_def
    patch_seq_variant_first_def patch_seq_variant_last_def patch_seq_variant_init_def patch_seq_list_empty_def
    patch_seq_list_reverse_def patch_seq_map_keys_def patch_seq_map_values_def patch_seq_map_size_def
    patch_seq_map_empty_def
  by (auto simp: on_Some hd_conv_nth butlast_conv_take map_fst_case simp del: map_map
      intro!: one_variant [of X e _ _ 1 0] cs.put_last)

lemma make_words:
  assumes "cs.ready X e st 1 1 s"
  shows "cs.yields X (patch_seq_list_make s) (Values (VVariant ''List'' [] # st) e)"
    and "cs.yields X (patch_seq_make_map s) (Values (VMap [] # st) e)"
  using assms unfolding patch_seq_list_make_def patch_seq_make_map_def by (auto intro!: cs.put_last)

text \<open>The words that take a key and a map.\<close>

lemma key_map_yields:
  assumes "cs.ready X e (k # m # vs) n (Suc i) s" "key_map_spec H op spec k m = Some out"
    "msg = op @ '': expected Map''"
    "\<And>key es s'. cs.ready X e vs (Suc (Suc n)) (Suc i) s' \<Longrightarrow> cs.yields X (f s' key es) (spec key es)"
  shows "cs.yields X (try_bind (pop s) (\<lambda>(s, k). try_bind (expect_key H op k) (\<lambda>key.
     try_bind (pop s) (\<lambda>(s, m). try_bind (expect H as_map msg m) (f s key))))) out"
  unfolding expect_key_def
proof (rule cs.take_yields [OF assms(1)], rule expect_cases [OF _ assms(2) [unfolded key_map_spec_def]])
  fix s' key
  assume r: "cs.ready X e (m # vs) (Suc n) (Suc i) s'"
  show "cs.yields X (try_bind (pop s') (\<lambda>(s, m). try_bind (expect H as_map msg m) (f s key)))
    (case as_map m of None \<Rightarrow> Panics (op @ '': expected Map, got '' @ debug H m) | Some es \<Rightarrow> spec key es)"
    using assms(3,4) by (intro cs.take_yields [OF r]) (auto simp: expect_def split: option.splits)
qed

lemma lookup_yields:
  assumes "cs.ready X e vs (Suc (Suc n)) (Suc k) s"
  shows "cs.yields X (case r of Some v \<Rightarrow> with_flag s v True | None \<Rightarrow> placeholder s) (flagged vs r e)"
  using placeholder_yields [OF assms] with_flag_yields [OF assms] by (auto simp: flagged_def split: option.splits)

lemma map_get_step:
  assumes "cs.ready X e st 1 1 s" "container_spec H MapGet e st = Some out"
  shows "cs.yields X (patch_seq_map_get H s) out"
  using assms unfolding patch_seq_map_get_def
  by (auto simp: on_Some intro!: key_map_yields [of X e _ _ _ 1 0] lookup_yields)

lemma map_has_step:
  assumes "cs.ready X e st 1 1 s" "container_spec H MapHas e st = Some out"
  shows "cs.yields X (patch_seq_map_has H s) out"
proof -
  have *: "map_of es key \<noteq> None \<longleftrightarrow> key \<in> fst ` set es" for es :: entries and key
    by (simp add: map_of_eq_None_iff)
  show ?thesis using assms unfolding patch_seq_map_has_def *
    by (auto simp: on_Some intro!: key_map_yields [of X e _ _ _ 1 0] cs.put_last)
qed

text \<open>Words that check the depth of the stack themselves.\<close>

lemma list_stack_depth_ready: "cs.ready X e vs n k s \<Longrightarrow> list_stack_depth s = Ok (length vs)"
  using represents_depth [of s "held X" vs] by (simp add: cs.ready_def holds_def list_stack_depth_def around_def)

lemma error_yields:
  "cs.ready X e vs n k s \<Longrightarrow> cs.yields X (Ok (set_runtime_error msg s)) (Values vs (Some msg))"
  using set_error_ready [of X e vs n k s msg] by (auto simp: cs.yields.simps cs.ready_def)

lemma list_get_step:
  assumes r: "cs.ready X e st 1 1 s"
  shows "cs.yields X (patch_seq_list_get H s) (list_get_spec H e st)"
proof (cases "\<exists>i l vs. st = i # l # vs")
  case True
  then obtain i l vs where st: "st = i # l # vs" by blast
  have "cs.yields X (try_bind (pop s) (\<lambda>(s, index_val). try_bind (pop s) (\<lambda>(s, list_val).
       case as_int index_val of
         None \<Rightarrow> placeholder (set_runtime_error (''list.get: expected Int (index), got '' @ debug H index_val) s)
       | Some index \<Rightarrow>
         (case as_variant list_val of
           None \<Rightarrow> placeholder (set_runtime_error (''list.get: expected Variant (list), got '' @ debug H list_val) s)
         | Some (_, fs) \<Rightarrow>
             if \<not> in_range index fs then placeholder s
             else with_flag s (fs ! unat index) True)))) (list_get_spec H e (i # l # vs))"
    by (rule cs.take_yields [OF r [unfolded st]], erule cs.take_yields)
      (auto intro: placeholder_yields set_error_ready lookup_yields [where r = "Some _", simplified] split: option.splits)
  then show ?thesis using list_stack_depth_ready [OF r] st by (simp add: patch_seq_list_get_def)
next
  case False
  then have "length st < 2" "list_get_spec H e st = Values st (Some ''list.get: stack underflow (need 2 values)'')"
    by (cases "(H, e, st)" rule: list_get_spec.cases; auto)+
  then show ?thesis using list_stack_depth_ready [OF r] error_yields [OF r] by (simp add: patch_seq_list_get_def)
qed

lemma endpoint_step:
  assumes r: "cs.ready X e st 1 1 s" and pick: "\<And>fs. fs \<noteq> [] \<Longrightarrow> pick fs = pick' fs"
  shows "cs.yields X (list_endpoint H op pick s) (endpoint_spec H op pick' e st)"
proof (cases st)
  case Nil
  then show ?thesis using list_stack_depth_ready [OF r] error_yields [OF r]
    by (simp add: list_endpoint_def endpoint_spec_def)
next
  case (Cons l vs)
  have "cs.yields X (try_bind (pop s) (\<lambda>(s, list_val).
       case as_variant list_val of
         None \<Rightarrow> placeholder (set_runtime_error (op @ '': expected Variant (list), got '' @ debug H list_val) s)
       | Some (_, fs) \<Rightarrow> if fs = [] then placeholder s else with_flag s (pick fs) True)) (endpoint_spec H op pick' e (l # vs))"
    by (rule cs.take_yields [OF r [unfolded Cons]])
      (auto simp: endpoint_spec_def pick intro: placeholder_yields set_error_ready lookup_yields [where r = "Some _", simplified]
        split: option.splits)
  then show ?thesis using list_stack_depth_ready [OF r] Cons by (simp add: list_endpoint_def)
qed

text \<open>The words that write in place.\<close>

lemma unique_variantE:
  assumes "unique_variant H (Some (a, v)) = Some u"
  obtains tag fs where "u = (a, tag, fs)" "v = VVariant tag fs"
  using assms by (cases v) (auto simp: unique_variant_def split: if_splits)

lemma append_slow:
  assumes "cs.ready X e (x # v # vs) 1 1 s"
    "need H as_variant msg v (\<lambda>(tag, fs). Values (VVariant tag (fs @ [x]) # vs) e) = Some out"
  shows "cs.yields X (try_bind (pop s) (\<lambda>(s, value). try_bind (pop s) (\<lambda>(s, variant_val).
         try_bind (expect H as_variant msg variant_val) (\<lambda>(tag, fs). push_to_variant H s tag fs value)))) out"
  by (rule cs.take_yields [OF assms(1)], rule cs.take_yields, assumption, rule expect_cases [OF _ assms(2)])
    (auto simp: push_to_variant_def intro!: cs.put_last)

lemma append_yields:
  assumes r: "cs.ready X e (x # v # vs) 1 1 s"
    and n: "need H as_variant msg v (\<lambda>(tag, fs). Values (VVariant tag (fs @ [x]) # vs) e) = Some out"
  shows "cs.yields X (try_bind (peek_heap_mut_second s) (\<lambda>r. case unique_variant H r of
       Some (a, tag, fs) \<Rightarrow> try_bind (pop s) (\<lambda>(s, value). store_value a (VVariant tag (fs @ [value])) s)
     | None \<Rightarrow> try_bind (pop s) (\<lambda>(s, value). try_bind (pop s) (\<lambda>(s, variant_val).
         try_bind (expect H as_variant msg variant_val) (\<lambda>(tag, fs). push_to_variant H s tag fs value))))) out"
  unfolding peek_heap_mut_second_def numeral_2_eq_2
proof (rule cs.access_yields [OF r], goal_cases)
  case 2
  then show ?case using append_slow [OF r n] by (simp add: unique_variant_def)
next
  case (3 a)
  show ?case
  proof (cases "unique_variant H (Some (a, v))")
    case None
    then show ?thesis using append_slow [OF r n] by simp
  next
    case (Some u)
    then obtain tag fs where u: "u = (a, tag, fs)" "v = VVariant tag fs" by (rule unique_variantE)
    then have "out = Values (VVariant tag (fs @ [x]) # vs) e" using n by (simp add: need_def)
    then show ?thesis using Some u 3 by (auto intro!: cs.take_aimed cs.store_last)
  qed
qed simp

lemma append_words:
  assumes "cs.ready X e st 1 1 s"
  shows "container_spec H ListPush e st = Some out \<Longrightarrow> cs.yields X (patch_seq_list_push H s) out"
    and "container_spec H VariantAppend e st = Some out \<Longrightarrow> cs.yields X (patch_seq_variant_append H s) out"
  using assms unfolding patch_seq_list_push_def patch_seq_variant_append_def
  by (auto simp: on_Some simp del: One_nat_def intro!: append_yields)

lemma unique_mapE:
  assumes "unique_map (Some (a, v)) = Some u"
  obtains es where "u = (a, es)" "as_map v = Some es"
  using assms by (auto simp: unique_map_def split: option.splits)

lemma key_store:
  assumes "cs.aimed X e (k # m # vs) (Suc 0) a n i s" "as_map m = Some es"
    "key_map_spec H op (\<lambda>key es. Values (VMap (g key es) # vs) e) k m = Some out"
  shows "cs.yields X (try_bind (pop s) (\<lambda>(s, k). try_bind (expect_key H op k) (\<lambda>key.
    store_value a (VMap (g key es)) s))) out"
  unfolding expect_key_def
  by (rule cs.take_aimed [OF assms(1)], rule expect_cases [OF _ assms(3) [unfolded key_map_spec_def]])
    (auto simp: assms(2) intro!: cs.store_last)

lemma key_slow:
  assumes "cs.ready X e (k # m # vs) n (Suc i) s" "msg = op @ '': expected Map''"
    "key_map_spec H op (\<lambda>key es. Values (VMap (g key es) # vs) e) k m = Some out"
  shows "cs.yields X (try_bind (pop s) (\<lambda>(s, k). try_bind (expect_key H op k) (\<lambda>key.
     try_bind (pop s) (\<lambda>(s, m). try_bind (expect H as_map msg m) (\<lambda>m. push s (VMap (g key m))))))) out"
  by (rule key_map_yields [OF assms(1,3,2)]) (auto intro!: cs.put_last)

lemma map_remove_step:
  assumes "cs.ready X e st 1 1 s" "container_spec H MapRemove e st = Some out"
  shows "cs.yields X (patch_seq_map_remove H s) out"
proof -
  obtain k m vs where st: "st = k # m # vs"
    and n: "key_map_spec H ''map-remove'' (\<lambda>key es. Values (VMap (hash_remove H key es) # vs) e) k m = Some out"
    using assms(2) by (auto simp: on_Some)
  note r = assms(1) [unfolded st]
  note slow = key_slow [OF r [unfolded One_nat_def] _ n, of "''map-remove: expected Map''"]
  show ?thesis unfolding patch_seq_map_remove_def numeral_2_eq_2
  proof (rule cs.access_yields [OF r], goal_cases)
    case (3 a)
    show ?case
    proof (cases "unique_map (Some (a, m))")
      case (Some u)
      then show ?thesis using key_store [OF 3 _ n] by (auto elim!: unique_mapE)
    qed (use slow in simp)
  qed (use slow in \<open>simp_all add: unique_map_def\<close>)
qed

lemma map_set_yields:
  assumes r: "cs.ready X e (v # k # m # vs) n 1 s"
    and n: "key_map_spec H ''map-set'' (\<lambda>key es. Values (VMap (hash_insert H key v es) # vs) e) k m = Some out"
  shows "cs.yields X (patch_seq_map_set H s) out"
proof -
  have slow: "cs.yields X (try_bind (pop s) (\<lambda>(s, value). try_bind (pop s) (\<lambda>(s, key_val).
         try_bind (expect_key H ''map-set'' key_val) (\<lambda>key. try_bind (pop s) (\<lambda>(s, map_val).
         try_bind (expect H as_map ''map-set: expected Map'' map_val) (\<lambda>m.
         push s (VMap (hash_insert H key value m)))))))) out"
    by (rule cs.take_yields [OF r], rule key_slow [OF _ _ n]) auto
  show ?thesis unfolding patch_seq_map_set_def numeral_3_eq_3
  proof (rule cs.access_yields [OF r], goal_cases)
    case (3 a)
    show ?case
    proof (cases "unique_map (Some (a, m))")
      case (Some u)
      then obtain es where u: "u = (a, es)" "as_map m = Some es" by (rule unique_mapE)
      have "cs.yields X (try_bind (pop s) (\<lambda>(s, value). try_bind (pop s) (\<lambda>(s, key_val).
         try_bind (expect_key H ''map-set'' key_val) (\<lambda>key.
         store_value a (VMap (hash_insert H key value es)) s)))) out"
        by (rule cs.take_aimed [OF 3], rule key_store [OF _ u(2) n])
      then show ?thesis using Some u by simp
    qed (use slow in simp)
  qed (use slow in \<open>simp_all add: unique_map_def\<close>)
qed

lemma map_set_step:
  assumes "cs.ready X e st 1 1 s" "container_spec H MapSet e st = Some out"
  shows "cs.yields X (patch_seq_map_set H s) out"
  using assms by (auto simp: on_Some simp del: One_nat_def intro: map_set_yields)

text \<open>A value on the stack is one the encoding keeps, and an index can be read off its slot.\<close>

lemma wrap63_untag [simp]: "is_tagged_int sv \<Longrightarrow> wrap63 (untag_int sv) = untag_int sv"
  unfolding wrap63_def by (rule bit_eqI) (auto simp: bit_simps min_def)

lemma decode_norm:
  assumes "heap_ok h rc" "decode h sv = Some v"
  shows "norm_value v = v" "is_tagged_int sv \<longleftrightarrow> (\<exists>n. v = VInt n)" "v = VInt n \<Longrightarrow> untag_int sv = n"
proof -
  have "boxed v" if "\<not> is_inline sv"
  proof -
    have "is_tagged_heap sv" using that not_inline_iff by blast
    then have "block_ok (blocks h sv) (rc sv)" using assms(1) by (simp add: heap_ok_def)
    then show ?thesis using assms(2) decode_heap [OF \<open>is_tagged_heap sv\<close>] by (cases "blocks h sv") auto
  qed
  then have "(\<exists>n. v = VInt n) \<Longrightarrow> is_inline sv" by (metis boxed.simps(1))
  then show "norm_value v = v" "is_tagged_int sv \<longleftrightarrow> (\<exists>n. v = VInt n)" "v = VInt n \<Longrightarrow> untag_int sv = n"
    using assms(2) by (cases v; auto simp: decode_def is_inline_def split: if_splits)+
qed

lemma slot_value:
  assumes "cs.ready X e vs n k s" "j < length vs"
  shows "norm_value (vs ! j) = vs ! j"
    and "\<exists>sv. read_sub s (Suc j) = Ok sv \<and> (is_tagged_int sv \<longleftrightarrow> (\<exists>i. vs ! j = VInt i)) \<and>
      (\<forall>i. vs ! j = VInt i \<longrightarrow> untag_int sv = i)"
proof -
  obtain svs where o: "owns s (held X) svs" "map (decode (hp (fst s))) svs = map Some vs" "length svs = length vs"
    using assms(1) represents_split [of s "held X" vs] by (auto simp: cs.ready_def holds_def)
  then have "decode (hp (fst s)) (svs ! j) = Some (vs ! j)" using assms(2) by (metis nth_map)
  note d = decode_norm [OF ownsD(2) [OF o(1)] this]
  show "norm_value (vs ! j) = vs ! j" by (rule d(1))
  show "\<exists>sv. read_sub s (Suc j) = Ok sv \<and> (is_tagged_int sv \<longleftrightarrow> (\<exists>i. vs ! j = VInt i)) \<and>
      (\<forall>i. vs ! j = VInt i \<longrightarrow> untag_int sv = i)"
    using d(2,3) read_sub_live [OF ownsD(1) [OF o(1)], of j] assms(2) o(3) by auto
qed

lemma list_set_slow_step:
  assumes r: "cs.ready X e (v # i # l # vs) 1 1 s"
  shows "cs.yields X (list_set_slow H s) (list_set_spec H e (v # i # l # vs))"
proof -
  have "norm_value l = l" using slot_value(1) [OF r, of 2] by simp
  then show ?thesis unfolding list_set_slow_def
    by (intro cs.take_yields [OF r], elim cs.take_yields)
      (auto simp: Let_def intro: with_flag_yields set_error_ready split: option.splits elim!: as_variant.elims)
qed

lemma list_set_fast_step:
  assumes "cs.aimed X e (v # VInt n # VVariant tag fs # vs) 2 a 1 1 s"
  shows "cs.yields X
     (if in_range n fs
      then try_bind (pop s) (\<lambda>(s, value). try_bind (pop s) (\<lambda>(s, _).
             try_bind (store_value a (VVariant tag (fs[unat n := value])) s) (\<lambda>s. push s (VBool True))))
      else try_bind (pop s) (\<lambda>(s, _). try_bind (pop s) (\<lambda>(s, _). push s (VBool False))))
     (list_set_spec H e (v # VInt n # VVariant tag fs # vs))"
proof (cases "in_range n fs")
  case True
  have "cs.yields X (try_bind (pop s) (\<lambda>(s, value). try_bind (pop s) (\<lambda>(s, _).
      try_bind (store_value a (VVariant tag (fs[unat n := value])) s) (\<lambda>s. push s (VBool True)))))
      (Values (VBool True # VVariant tag (fs[unat n := v]) # vs) e)"
    by (rule cs.take_aimed [OF assms [unfolded numeral_2_eq_2]], rule cs.take_aimed, assumption,
        rule cs.store_yields, assumption) (auto intro: cs.put_inline_last)
  then show ?thesis using True by simp
next
  case False
  have "cs.yields X (try_bind (pop s) (\<lambda>(s, _). try_bind (pop s) (\<lambda>(s, _). push s (VBool False))))
      (Values (VBool False # VVariant tag fs # vs) e)"
    by (rule cs.take_yields [OF cs.aimed_ready [OF assms]], rule cs.take_yields, assumption)
      (auto intro: cs.put_inline_last)
  then show ?thesis using False by simp
qed

lemma list_set_step:
  assumes r: "cs.ready X e st 1 1 s"
  shows "cs.yields X (patch_seq_list_set H s) (list_set_spec H e st)"
proof (cases "\<exists>v i l vs. st = v # i # l # vs")
  case True
  then obtain v i l vs where st: "st = v # i # l # vs" by blast
  then have nth: "st ! 2 = l" by simp
  note slow = list_set_slow_step [OF r [unfolded st], of H]
  obtain sv where sv: "read_sub s 2 = Ok sv" "is_tagged_int sv \<longleftrightarrow> (\<exists>n. i = VInt n)" "\<And>n. i = VInt n \<Longrightarrow> untag_int sv = n"
    using slot_value(2) [OF r, of 1] st by (auto simp: numeral_2_eq_2 simp del: is_tagged_int_iff)
  have "cs.yields X (try_bind (heap_value_mut s (Suc 2)) (\<lambda>r. case unique_variant H r of
         None \<Rightarrow> list_set_slow H s
       | Some (a, tag, fs) \<Rightarrow> try_bind (read_sub s 2) (\<lambda>index_sv.
           if is_tagged_int index_sv
           then let index = untag_int index_sv in
                if in_range index fs
                then try_bind (pop s) (\<lambda>(s, value). try_bind (pop s) (\<lambda>(s, _).
                     try_bind (store_value a (VVariant tag (fs[unat index := value])) s) (\<lambda>s.
                     push s (VBool True))))
                else try_bind (pop s) (\<lambda>(s, _). try_bind (pop s) (\<lambda>(s, _). push s (VBool False)))
           else list_set_slow H s))) (list_set_spec H e st)"
  proof (rule cs.access_yields [OF r], goal_cases)
    case (3 a)
    show ?case
    proof (cases "unique_variant H (Some (a, l)) = None \<or> \<not> is_tagged_int sv")
      case True
      then show ?thesis unfolding nth using slow [folded st] sv(1)
        by (auto simp del: is_tagged_int_iff list_set_spec.simps split: option.split)
    next
      case False
      then obtain n where i: "i = VInt n" using sv(2) by blast
      obtain u where u: "unique_variant H (Some (a, l)) = Some u" using False by auto
      moreover obtain tag fs where "u = (a, tag, fs)" "l = VVariant tag fs" using u by (rule unique_variantE)
      ultimately show ?thesis
        unfolding nth using list_set_fast_step [of X e v n tag fs vs a s H] 3 False sv(1) sv(3) [OF i] i st
        by (simp del: list_set_spec.simps)
    qed
  qed (use slow st in \<open>simp_all add: unique_variant_def\<close>)
  then show ?thesis using list_stack_depth_ready [OF r] st by (simp add: patch_seq_list_set_def)
next
  case False
  then have "length st < 3" "list_set_spec H e st = Values st (Some ''list.set: stack underflow (need 3 values)'')"
    by (cases "(H, e, st)" rule: list_set_spec.cases; auto)+
  then show ?thesis using list_stack_depth_ready [OF r] error_yields [OF r] by (simp add: patch_seq_list_set_def)
qed

text \<open>Indexing, unpacking and building variants.\<close>

lemma field_at_step:
  assumes "cs.ready X e st 1 1 s" "container_spec H FieldAt e st = Some out"
  shows "cs.yields X (patch_seq_variant_field_at H s) out"
proof -
  obtain i l vs where st: "st = i # l # vs" and n: "field_at_spec H e i l vs = Some out"
    using assms(2) by (auto simp: on_Some)
  show ?thesis unfolding patch_seq_variant_field_at_def
  proof (rule cs.take_yields [OF assms(1) [unfolded st]], rule expect_cases [OF _ n [unfolded field_at_spec_def]], goal_cases)
    case (1 s' index)
    have "0 \<le> sint index \<Longrightarrow> cs.yields X (try_bind (pop s') (\<lambda>(s, variant_val).
       try_bind (expect H as_variant ''variant.field-at: expected Variant'' variant_val) (\<lambda>(_, fs).
       let idx = unat index in
       if idx \<ge> length fs
       then Err (Panic (''variant.field-at: index '' @ dec_int (sint index) @ '' out of bounds (variant has '' @
              dec (length fs) @ '' fields)''))
       else push s (fs ! idx))))
      (case as_variant l of
         None \<Rightarrow> Panics (''variant.field-at: expected Variant, got '' @ debug H l)
       | Some (_, fs) \<Rightarrow>
           if in_range index fs then Values (norm_value (fs ! unat index) # vs) e
           else Panics (''variant.field-at: index '' @ dec_int (sint index) @ '' out of bounds (variant has '' @
                  dec (length fs) @ '' fields)''))"
      by (rule cs.take_yields [OF 1(1)])
        (auto simp: expect_def in_range_def Let_def intro!: cs.put_last split: option.splits)
    then show ?case by auto
  qed
qed

lemma push_all_yields:
  "cs.ready X e vs (length ws + n) (length ws) s \<Longrightarrow> cs.yields X (push_all s ws) (Values (rev (map norm_value ws) @ vs) e)"
proof (induction ws arbitrary: s vs)
  case Nil
  then show ?case by (auto simp: cs.yields.simps cs.ready_def)
next
  case (Cons w ws)
  have "cs.yields X (push_all s' ws) (Values (rev (map norm_value ws) @ norm_value w # vs) e)"
    if "cs.ready X e (norm_value w # vs) (length ws + n) (length ws) s'" for s'
    using Cons.IH [OF that] .
  then show ?case using cs.put_yields [of X e vs "length ws + n" "length ws" s w] Cons.prems by simp
qed

lemma unpack_step:
  assumes "cs.ready X e st (unat n) (unat n) s" "container_spec H (UnpackVariant n) e st = Some out"
  shows "cs.yields X (patch_seq_unpack_variant H n s) out"
proof -
  obtain v vs where st: "st = v # vs"
    and n: "need H as_variant ''unpack-variant: expected Variant'' v
         (\<lambda>(_, fs). if length fs < unat n
                    then Panics (''unpack-variant: requested '' @ dec (unat n) @ '' fields but variant only has '' @
                           dec (length fs))
                    else Values (rev (map norm_value (take (unat n) fs)) @ vs) e) = Some out"
    using assms(2) by (auto simp: on_Some)
  have all: "cs.ready X e vs (Suc (unat n)) (unat n) s' \<Longrightarrow> unat n \<le> length fs \<Longrightarrow>
    cs.yields X (push_all s' (take (unat n) fs)) (Values (rev (map norm_value (take (unat n) fs)) @ vs) e)" for s' fs
    using push_all_yields [of X e vs "take (unat n) fs" 1 s'] by (simp add: min_absorb2)
  show ?thesis unfolding patch_seq_unpack_variant_def
    by (rule cs.take_yields [OF assms(1) [unfolded st]], rule expect_cases [OF _ n]) (auto simp: Let_def all)
qed

lemma pop_fields_ready:
  "cs.ready X e vs i k s \<Longrightarrow> n \<le> length vs \<Longrightarrow>
   \<exists>s'. pop_fields n s = Ok (s', rev (take n vs)) \<and> cs.ready X e (drop n vs) (n + i) k s'"
proof (induction n arbitrary: s vs i)
  case (Suc n)
  then obtain v ws where vs: "vs = v # ws" by (cases vs) auto
  obtain s1 where "pop s = Ok (s1, v)" "cs.ready X e ws (Suc i) k s1"
    using cs.take_any [of X e s v ws i k] Suc.prems(1) vs by (auto simp: cs.ready_def)
  then show ?case using Suc.IH [of ws "Suc i" s1] Suc.prems(2) vs by auto
qed simp

lemma make_variant_step:
  assumes "cs.ready X e st 1 1 s" "container_spec H (MakeVariant n) e st = Some out"
  shows "cs.yields X (make_variant n H s) out"
proof -
  obtain t vs where st: "st = t # vs" and l: "n \<le> length vs"
    and n: "need H as_symbol (''variant.make-'' @ dec n @ '': expected Symbol (tag)'') t
              (\<lambda>tag. Values (VVariant tag (rev (take n vs)) # drop n vs) e) = Some out"
    using assms(2) by (auto simp: on_Some split: if_splits)
  have "cs.ready X e vs 2 1 s' \<Longrightarrow> cs.yields X (try_bind (pop_fields n s') (\<lambda>(s, fs). push s (VVariant tag fs)))
      (Values (VVariant tag (rev (take n vs)) # drop n vs) e)" for s' tag
    using pop_fields_ready [of X e vs 2 1 s' n] l by (auto intro!: cs.put_last)
  then show ?thesis unfolding make_variant_def
    by (intro cs.take_yields [OF assms(1) [unfolded st]] expect_cases [OF _ n]) (simp add: numeral_2_eq_2)
qed

lemmas container_words = unary_words make_words map_get_step map_has_step list_get_step endpoint_step append_words
  map_remove_step map_set_step list_set_step field_at_step unpack_step make_variant_step

lemma length_spec: "container_spec H ListLength e st = container_spec H FieldCount e st"
  by simp

lemma container_step:
  assumes "cs.ready X e st (extra op) (extra op) s" "container_spec H op e st = Some out"
  shows "cs.yields X (run_container H op s) out"
  using assms
  by (cases op) (auto simp: patch_seq_list_first_def patch_seq_list_last_def patch_seq_list_length_def hd_conv_nth length_spec
      simp del: One_nat_def container_spec.simps(7-) intro: container_words [where e = e and st = st])

section \<open>Sequences of words\<close>

text \<open>A word with the answers its surroundings give at that moment.\<close>

type_synonym call = "host \<times> cop"

fun run_containers :: "call list \<Rightarrow> strand \<Rightarrow> fault + strand" where
  "run_containers [] s = Ok s"
| "run_containers ((H, op) # calls) s = try_bind (run_container H op s) (run_containers calls)"

fun containers_spec :: "call list \<Rightarrow> string option \<Rightarrow> val list \<Rightarrow> outcome option" where
  "containers_spec [] e vs = Some (Values vs e)"
| "containers_spec ((H, op) # calls) e vs = (case container_spec H op e vs of
       Some (Values ws e') \<Rightarrow> containers_spec calls e' ws
     | r \<Rightarrow> r)"

text \<open>The buffer has \<open>c\<close> slots, enough at every moment.\<close>

fun fits :: "nat \<Rightarrow> call list \<Rightarrow> string option \<Rightarrow> val list \<Rightarrow> bool" where
  "fits c [] e vs \<longleftrightarrow> True"
| "fits c ((H, op) # calls) e vs \<longleftrightarrow> length vs + extra op \<le> c \<and>
     (case container_spec H op e vs of Some (Values ws e') \<Rightarrow> fits c calls e' ws | _ \<Rightarrow> True)"

definition budget :: "call list \<Rightarrow> nat" where
  "budget calls = sum_list (map (\<lambda>(H, op). extra op) calls)"

lemma budget_simps [simp]: "budget [] = 0" "budget ((H, op) # calls) = extra op + budget calls"
  by (simp_all add: budget_def)

lemma holds_ready:
  assumes "holds X e s vs" "length vs + n \<le> capacity X" "k + q \<le> kept X"
  shows "cs.ready (X\<lparr>kept := q\<rparr>) e vs n k s"
  using assms represents_depth [of s "held X" vs]
  by (auto simp: cs.ready_def holds_def room_def spare_def around_def untouched_def)

lemma containers_refine:
  "holds X e s vs \<Longrightarrow> fits (capacity X) calls e vs \<Longrightarrow> budget calls \<le> kept X \<Longrightarrow>
   containers_spec calls e vs = Some out \<Longrightarrow> \<exists>q. cs.yields (X\<lparr>kept := q\<rparr>) (run_containers calls s) out"
proof (induction calls arbitrary: X e s vs)
  case Nil
  then have "cs.yields (X\<lparr>kept := kept X\<rparr>) (run_containers [] s) out" by (auto simp: cs.yields.simps)
  then show ?case by blast
next
  case (Cons call calls)
  obtain H op where c: "call = (H, op)" by (cases call)
  let ?X = "X\<lparr>kept := budget calls\<rparr>"
  obtain r where r: "container_spec H op e vs = Some r" using Cons.prems(4) c by (cases "container_spec H op e vs") auto
  have "cs.ready ?X e vs (extra op) (extra op) s" using holds_ready [OF Cons.prems(1)] Cons.prems(2,3) c by simp
  then have y: "cs.yields ?X (run_container H op s) r" using container_step r by blast
  show ?case
  proof (cases r)
    case (Values ws e')
    then obtain s' where s': "run_container H op s = Ok s'" "holds ?X e' s' ws" using y by (auto simp: cs.yields.simps)
    then show ?thesis using Cons.IH [OF s'(2)] Cons.prems(2,4) c r Values by auto
  next
    case (Panics msg)
    then have "cs.yields (X\<lparr>kept := 0\<rparr>) (run_containers (call # calls) s) out" using y Cons.prems(4) c r by auto
    then show ?thesis by blast
  qed
qed

section \<open>Hash tables\<close>

text \<open>What the standard library documents of a table: an update may move every entry, but loses none.\<close>

definition rearranges :: "host \<Rightarrow> bool" where
  "rearranges H \<longleftrightarrow> (\<forall>m. mset (arrange H m) = mset m)"

lemma map_of_mset:
  assumes "mset m = mset m'" "distinct (map fst m)"
  shows "map_of m = map_of m'" "distinct (map fst m')"
proof -
  show d: "distinct (map fst m')" using assms by (metis mset_eq_imp_distinct_iff mset_map)
  show "map_of m = map_of m'" using map_of_inject_set [OF assms(2) d] mset_eq_setD [OF assms(1)] by simp
qed

lemma hash_insert_map_of:
  assumes "rearranges H" "distinct (map fst m)"
  shows "map_of (hash_insert H k v m) = (map_of m)(k \<mapsto> v)" "distinct (map fst (hash_insert H k v m))"
  using map_of_mset [of "AList.update k v m" "arrange H (AList.update k v m)"] assms distinct_update [of m k v]
  by (auto simp: rearranges_def hash_insert_def update_conv')

lemma hash_remove_map_of:
  assumes "rearranges H" "distinct (map fst m)"
  shows "map_of (hash_remove H k m) = (map_of m)(k := None)" "distinct (map fst (hash_remove H k m))"
  using map_of_mset [of "AList.delete k m" "arrange H (AList.delete k m)"] assms distinct_delete [of m k]
  by (auto simp: rearranges_def hash_remove_def delete_conv')

section \<open>Building and unpacking\<close>

lemma try_bind_assoc: "try_bind (try_bind m f) g = try_bind m (\<lambda>x. try_bind (f x) g)"
  by (cases m) auto

lemma make_then_unpack:
  assumes r: "cs.ready X e (VSymbol tag # vs) 0 (Suc n) s" and n: "n \<le> length vs" "unat i = n"
    and v: "map norm_value (take n vs) = take n vs"
  shows "cs.yields X (try_bind (make_variant n H s) (patch_seq_unpack_variant H i)) (Values vs e)"
proof -
  obtain s1 where s1: "pop s = Ok (s1, VSymbol tag)" "cs.ready X e vs 1 (Suc n) s1"
    using cs.take_any [of X e s "VSymbol tag" vs 0 "Suc n"] r by (auto simp: cs.ready_def)
  obtain s2 where s2: "pop_fields n s1 = Ok (s2, rev (take n vs))" "cs.ready X e (drop n vs) (Suc n) (Suc n) s2"
    using pop_fields_ready [OF s1(2) n(1)] by auto
  have spec: "container_spec H (UnpackVariant i) e (VVariant tag (rev (take n vs)) # drop n vs) = Some (Values vs e)"
    using n v by (simp add: on1_def need_def rev_map min_absorb2)
  have "cs.yields X (try_bind (push s2 (VVariant tag (rev (take n vs)))) (patch_seq_unpack_variant H i)) (Values vs e)"
    by (rule cs.put_yields [OF s2(2)]) (use n(2) unpack_step [OF _ spec] in simp)
  then show ?thesis using s1(1) s2(1) by (simp add: make_variant_def expect_def)
qed

lemma get_after_push:
  assumes "cs.ready X e (VMap m # vs) 2 2 s" "norm_value k = k" "map_key_from_value k = Some key"
  shows "cs.yields X (try_bind (push s k) (patch_seq_map_get H)) (flagged vs (map_of m key) e)"
proof (rule cs.put_yields [OF assms(1) [unfolded numeral_2_eq_2]])
  fix s' assume "cs.ready X e (norm_value k # VMap m # vs) (Suc 0) (Suc 0) s'"
  then show "cs.yields X (patch_seq_map_get H s') (flagged vs (map_of m key) e)"
    by (intro map_get_step) (auto simp: assms(2,3) on1_def on2_def key_map_spec_def need_def)
qed

section \<open>Properties\<close>

lemma owners_of:
  assumes "represents s ext vs" "stack_base (fst s) = Some 0"
  shows "holds \<lparr>held = ext, seen = hp (fst s), capacity = length (cells (fst s)), kept = length (avail (hp (fst s)))\<rparr>
    (last_error (fst s)) s vs"
  using assms by (simp add: holds_def untouched_def around_def)

text \<open>C3: any sequence of the words on lists, variants and maps that call no quotation does to the stack what the specification says of the
  values, whichever of the words write in place and whichever copy, when the stack has room for the values (\<open>fits\<close>) and the allocator has
  a block for every value a word may box (\<open>budget\<close>).  When a word panics, the run panics with its message; otherwise the
  pending error is the specified one, and every value that others hold a reference to is unchanged.\<close>

theorem container_words_refine:
  assumes "represents s ext vs" "stack_base (fst s) = Some 0"
    and "fits (length (cells (fst s))) calls (last_error (fst s)) vs" "budget calls \<le> length (avail (hp (fst s)))"
    and "containers_spec calls (last_error (fst s)) vs = Some out"
  shows "case out of
      Values ws e \<Rightarrow> \<exists>s'. run_containers calls s = Ok s' \<and> represents s' ext ws \<and> last_error (fst s') = e \<and>
        (\<forall>a. is_tagged_heap a \<and> 0 < ext a \<longrightarrow> decode (hp (fst s')) a = decode (hp (fst s)) a)
    | Panics msg \<Rightarrow> run_containers calls s = Err (Panic msg)"
  using containers_refine [OF owners_of [OF assms(1,2)], of calls out] assms(3-5)
  by (cases out) (auto simp: cs.yields.simps holds_def untouched_def)

text \<open>A strand with the given slots, first on top, and the given blocks.\<close>

definition demo_strand :: "u64 list \<Rightarrow> (u64 \<rightharpoonup> val \<times> nat) \<Rightarrow> strand" where
  "demo_strand svs bs =
     (\<lparr>cells = rev (map Some svs) @ [None, None], origin = 0, stack_base = Some 0,
       hp = \<lparr>blocks = bs, avail = [80, 88, 96]\<rparr>, last_error = None\<rparr>, length svs)"

lemma demo_strand_simps [simp]:
  "stack_base (fst (demo_strand svs bs)) = Some 0" "avail (hp (fst (demo_strand svs bs))) = [80, 88, 96]"
  "last_error (fst (demo_strand svs bs)) = None" "length (cells (fst (demo_strand svs bs))) = length svs + 2"
  by (simp_all add: demo_strand_def)

lemma demo_represents:
  assumes "heap_ok \<lparr>blocks = bs, avail = [80, 88, 96]\<rparr> (count_list svs)"
    "map (decode \<lparr>blocks = bs, avail = [80, 88, 96]\<rparr>) svs = map Some vs"
  shows "represents (demo_strand svs bs) (\<lambda>_. 0) vs"
  using assms by (auto simp: represents_def owns_def live_def demo_strand_def intro!: exI [of _ svs])

lemmas demo_facts = heap_ok_def is_tagged_heap_def TAG_TRUE_def TAG_FALSE_def tag_int_def decode_def

text \<open>Two slots that share a list, with an element on top.\<close>

definition shared_list_strand :: strand where
  "shared_list_strand = demo_strand [11, 8, 8] [8 \<mapsto> (VVariant ''List'' [VInt 1], 2)]"

lemma shared_list_represents:
  "represents shared_list_strand (\<lambda>_. 0) [VInt 5, VVariant ''List'' [VInt 1], VVariant ''List'' [VInt 1]]"
  unfolding shared_list_strand_def by (rule demo_represents) (auto simp: demo_facts untag_int_def)

definition plain_host :: host where
  "plain_host = \<lparr>debug = (\<lambda>_. ''?''), arrange = rev, sole = True, sole_slow = True\<rparr>"

theorem container_words_refine_witness:
  "\<exists>s'. run_containers [(plain_host, ListPush)] shared_list_strand = Ok s' \<and>
     represents s' (\<lambda>_. 0) [VVariant ''List'' [VInt 1, VInt 5], VVariant ''List'' [VInt 1]] \<and> last_error (fst s') = None"
  using container_words_refine [OF shared_list_represents, of "[(plain_host, ListPush)]"
      "Values [VVariant ''List'' [VInt 1, VInt 5], VVariant ''List'' [VInt 1]] None"]
  by (simp add: shared_list_strand_def on1_def on2_def need_def budget_def)

text \<open>C38: building a variant from its tag and \<open>n\<close> fields and unpacking it again gives back the stack without the tag,
  the fields in their order, for every number of fields that has a constructor.\<close>

theorem make_unpack_round_trip:
  assumes "represents s ext (VSymbol tag # vs)" "stack_base (fst s) = Some 0" "n \<le> length vs" "n \<le> 12"
    and "n < length (avail (hp (fst s)))"
  shows "\<exists>s'. try_bind (make_variant n H s) (patch_seq_unpack_variant H (of_nat n)) = Ok s' \<and>
    represents s' ext vs \<and> last_error (fst s') = last_error (fst s)"
proof -
  let ?X = "\<lparr>held = ext, seen = hp (fst s), capacity = length (cells (fst s)), kept = 0\<rparr>"
  have n: "unat (of_nat n :: i64) = n" using assms(4) by (simp add: unsigned_of_nat take_bit_nat_eq_self)
  have h: "holds (?X\<lparr>kept := length (avail (hp (fst s)))\<rparr>) (last_error (fst s)) s (VSymbol tag # vs)"
    using owners_of [OF assms(1,2)] by simp
  have d: "length (VSymbol tag # vs) \<le> length (cells (fst s))"
    using represents_depth [OF assms(1)] rs.space_0 [OF assms(1)] by (simp add: room_def)
  have r: "cs.ready ?X (last_error (fst s)) (VSymbol tag # vs) 0 (Suc n) s"
    using holds_ready [OF h, of 0 "Suc n" 0] d assms(5) by simp
  have v: "map norm_value (take n vs) = take n vs"
    using slot_value(1) [OF r, of "Suc _"] assms(3) by (auto intro!: nth_equalityI)
  have "cs.yields ?X (try_bind (make_variant n H s) (patch_seq_unpack_variant H (of_nat n))) (Values vs (last_error (fst s)))"
    by (rule make_then_unpack [OF r assms(3) n v])
  then show ?thesis by (auto simp: cs.yields.simps holds_def)
qed

theorem make_unpack_round_trip_witness:
  "\<exists>s'. try_bind (patch_seq_make_variant_2 plain_host (demo_strand [8, 5, 3] [8 \<mapsto> (VSymbol ''Pair'', 1)]))
       (patch_seq_unpack_variant plain_host 2) = Ok s' \<and> represents s' (\<lambda>_. 0) [VInt 2, VInt 1]"
proof -
  have "represents (demo_strand [8, 5, 3] [8 \<mapsto> (VSymbol ''Pair'', 1)]) (\<lambda>_. 0) [VSymbol ''Pair'', VInt 2, VInt 1]"
    by (rule demo_represents) (auto simp: demo_facts untag_int_def)
  from make_unpack_round_trip [OF this, of 2 plain_host] show ?thesis
    by (auto simp: patch_seq_make_variant_2_def)
qed

text \<open>C39: a map word sequence behaves as an update and a lookup of a finite map: after \<open>map.set\<close> of a key, \<open>map.get\<close> of any
  key returns what the updated map has there and \<open>true\<close>, or the placeholder and \<open>false\<close>, whatever order the
  table iterates in.\<close>

theorem map_set_then_get:
  assumes "represents s ext (v # k # VMap es # vs)" "stack_base (fst s) = Some 0" "3 \<le> length (avail (hp (fst s)))"
    and "map_key_from_value k = Some key" "map_key_from_value k' = Some key'" "norm_value k' = k'"
    and "rearranges H" "distinct (map fst es)"
  shows "\<exists>s'. try_bind (patch_seq_map_set H s) (\<lambda>s. try_bind (push s k') (patch_seq_map_get H)) = Ok s' \<and>
    represents s' ext (case ((map_of es)(key \<mapsto> v)) key' of
        Some w \<Rightarrow> VBool True # norm_value w # vs
      | None \<Rightarrow> VBool False # VInt 0 # vs)"
proof -
  let ?c = "length (cells (fst s))"
  let ?X = "\<lambda>q. \<lparr>held = ext, seen = hp (fst s), capacity = ?c, kept = q\<rparr>"
  let ?e = "last_error (fst s)"
  let ?m = "hash_insert H key v es"
  have d: "Suc (Suc (Suc (length vs))) \<le> ?c"
    using represents_depth [OF assms(1)] rs.space_0 [OF assms(1)] by (simp add: room_def)
  have "cs.ready (?X 2) ?e (v # k # VMap es # vs) 0 1 s"
    using holds_ready [OF owners_of [OF assms(1,2)], of 0 1 2] d assms(3) by simp
  then have "cs.yields (?X 2) (patch_seq_map_set H s) (Values (VMap ?m # vs) ?e)"
    by (rule map_set_yields) (simp add: key_map_spec_def need_def assms(4))
  then obtain s1 where s1: "patch_seq_map_set H s = Ok s1" "holds (?X 2) ?e s1 (VMap ?m # vs)"
    by (auto simp: cs.yields.simps)
  have "cs.ready (?X 0) ?e (VMap ?m # vs) 2 2 s1" using holds_ready [OF s1(2), of 2 2 0] d by simp
  then have "cs.yields (?X 0) (try_bind (push s1 k') (patch_seq_map_get H)) (flagged vs (map_of ?m key') ?e)"
    by (rule get_after_push) (use assms(5,6) in auto)
  then show ?thesis using s1(1) hash_insert_map_of(1) [OF assms(7,8)]
    by (auto simp: flagged_def cs.yields.simps holds_def split: option.splits)
qed

theorem map_set_then_get_witness:
  "\<exists>s'. try_bind (patch_seq_map_set plain_host (demo_strand [5, 3, 8] [8 \<mapsto> (VMap [(MKInt 9, VBool True)], 1)]))
       (\<lambda>s. try_bind (push s (VInt 1)) (patch_seq_map_get plain_host)) = Ok s' \<and>
     represents s' (\<lambda>_. 0) [VBool True, VInt 2]"
proof -
  have "represents (demo_strand [5, 3, 8] [8 \<mapsto> (VMap [(MKInt 9, VBool True)], 1)]) (\<lambda>_. 0)
      [VInt 2, VInt 1, VMap [(MKInt 9, VBool True)]]"
    by (rule demo_represents) (auto simp: demo_facts untag_int_def)
  from map_set_then_get [OF this, of "MKInt 1" "VInt 1" "MKInt 1" plain_host] show ?thesis
    by (auto simp: plain_host_def rearranges_def)
qed

end
