(* ===== verification/Spec2Isabelle.thy ===== *)
theory Spec2Isabelle
  imports Prelude Seq_Types Unification Freshen Stack_Utils Vim_Text Vim_Motions Vim_Editor Vim_Unicode
    Tagged_Values Runtime_Stack Arithmetic Seq_Ast Call_Graph Builtins Inference Edit_Distance Checker
    Semantics Typed_Words Tarjan Type_Soundness Checked_Programs Tokens Parser Parser_Total Effect_Syntax
    Normalize Syntax_Examples Program_Passes Ffi Resolver Front_End
    Lint_Engine Chan_Yield_Lint Builtin_Lookup Tag_Stacks Error_Flag_Lint Resource_Lint
    Containers Container_Spec
begin

text \<open>
  A verification library for Seq, a statically typed concatenative language: its compiler
  (\<open>crates/compiler\<close>), the value stack and integer words of its runtime (\<open>crates/core\<close>,
  \<open>crates/runtime\<close>) and the vi-style line editor of its REPL (\<open>crates/vim-line\<close>).

  \<^bold>\<open>How the parts fit.\<close>  The tokenizer and the parser turn source text into a program, a list of words with declared
  stack effects (\<open>Seq_Ast\<close>), and a pass lowers literal conditionals.  The type
  checker runs each body over a stack type and unifies the result with the declared outputs; it looks
  called words up in the builtin tables or among the declared signatures, freshens the signature, applies it by
  unification and records what the code generator needs.  The code generator turns each word into
  calls of runtime functions, which work on a block of 64-bit slots: tagged integers and booleans inline,
  everything else a pointer to a reference-counted block.  The line editor is a separate state machine: a
  key and the text in, a result with edits out, which the host applies.

  \<^bold>\<open>Theories and what they model.\<close>
  \<^item> \<open>Prelude\<close>: results as sums, fuel as \<open>option\<close>, the \<open>?\<close> operator, decimal printing.
  \<^item> \<open>Seq_Types\<close>: \<open>types.rs\<close>, every method and the printed form.
  \<^item> \<open>Unification\<close>: \<open>unification.rs\<close>.  The unifier takes fuel because the code may recurse forever on
    quotation types (proved); on stacks without quotation types fuel above the depth is enough, and
    the result is sound, most general and found whenever a unifier exists.
  \<^item> \<open>Freshen\<close>: \<open>typechecker/freshen.rs\<close>.  Freshening drops the side effects of nested quotation types and renames
    every variable of what is left, at any depth, injectively and into names no earlier call made.
  \<^item> \<open>Stack_Utils\<close>: \<open>typechecker/stack_utils.rs\<close>, \<open>pick_roll.rs\<close>, the aux words and the sugar of \<open>words.rs\<close>,
    \<open>capture_analysis.rs\<close>, and the checker's state (\<open>TypeChecker\<close>).
  \<^item> \<open>Seq_Ast\<close>, \<open>Call_Graph\<close>: \<open>ast/types.rs\<close> and \<open>call_graph.rs\<close>, with Tarjan's algorithm on a record of its state.
  \<^item> \<open>Tarjan\<close>: the search finds exactly the strongly connected components, so that a word is reported recursive iff it can
    reach itself by calls; the order of the components ranks the words of a program without recursion.
  \<^item> \<open>Tokens\<close>, \<open>Parser\<close>: \<open>parser/token.rs\<close>, \<open>cursor.rs\<close>, \<open>type_parse.rs\<close>, \<open>statements.rs\<close>, \<open>items.rs\<close>, \<open>driver.rs\<close>, on ASCII text.
    The position in the token vector is the list of tokens left; error messages are constructors.
  \<^item> \<open>Parser_Total\<close>: the parser returns on every input.  \<open>Effect_Syntax\<close>: stack effects written and read back.
    \<open>Syntax_Examples\<close>: the parser evaluated where it and \<open>docs/GRAMMAR.md\<close> disagree.
  \<^item> \<open>Normalize\<close>: \<open>normalize.rs\<close>; the pass keeps the reading of a body and leaves no literal triple.
  \<^item> \<open>Program_Passes\<close>: \<open>ast/program.rs\<close> and the collision checks of \<open>resolver/helpers.rs\<close>: validation of calls, generated
    helper words, union types.
  \<^item> \<open>Ffi\<close>: \<open>ffi/manifest.rs\<close> and \<open>ffi/bindings.rs\<close> after the TOML reader.  \<open>Resolver\<close>: \<open>resolver.rs\<close> over a file system that is a parameter;
    resolving returns, cyclic includes or not, and merges the modules reachable from the main file, each once.
  \<^item> \<open>Front_End\<close>: the passes in the order of \<open>compile_file_with_config\<close>, from source files to a
    checked program, and what an accepted source does when it runs.
  \<^item> \<open>Builtins\<close>: the signature tables under \<open>builtins/\<close>, in the order in which they are merged.
  \<^item> \<open>Inference\<close>: \<open>words.rs\<close>, \<open>combinators.rs\<close>, \<open>control_flow.rs\<close>, \<open>quotations.rs\<close> and the statement loop of \<open>driver.rs\<close>.
  \<^item> \<open>Edit_Distance\<close>: the spelling distance of \<open>parser/type_parse.rs\<close>, proved to be the least number of edits.
  \<^item> \<open>Checker\<close>: \<open>validation.rs\<close>, \<open>driver.rs\<close>, \<open>state.rs\<close> and the check of \<open>main\<close> in \<open>typechecker.rs\<close>.
  \<^item> \<open>Tagged_Values\<close>, \<open>Runtime_Stack\<close>: \<open>core/src/stack.rs\<close>, \<open>tagged_stack.rs\<close>, \<open>value.rs\<close>.  A strand is a memory (slots and
    heap) and a stack pointer; \<open>represents\<close> relates it to a list of values with exact reference
    counts, and every shuffle word refines its list function.
  \<^item> \<open>Arithmetic\<close>: \<open>runtime/src/arithmetic/\<close> on 64-bit words; each word refines an integer-level specification.
  \<^item> \<open>Containers\<close>, \<open>Container_Spec\<close>: \<open>runtime/src/list_ops/\<close>, \<open>variant_ops/\<close> and \<open>map_ops.rs\<close>.  A word that writes in place when
    the container has one owner, and copies otherwise, refines the same function on values, and nobody else's values change.
  \<^item> \<open>Semantics\<close>: the tables that link words to runtime functions, and an interpreter that runs a body
    statement by statement on the runtime functions.
  \<^item> \<open>Typed_Words\<close>, \<open>Type_Soundness\<close>, \<open>Checked_Programs\<close>: an accepted program of the fragment runs without a fault and
    leaves values of the declared types; two kinds of program that are accepted and fault.
  \<^item> \<open>Lint_Engine\<close>: \<open>lint/types.rs\<close> and \<open>lint/linter.rs\<close>; the matcher against what a pattern stands for, and the scan of a body.
    \<open>Chan_Yield_Lint\<close>: \<open>chan_yield_lint.rs\<close>, with its worklist as an interface and what it reports.  \<open>Error_Flag_Lint\<close>,
    \<open>Resource_Lint\<close>: \<open>error_flag_lint/\<close> and \<open>resource_lint/\<close>, abstract runs over stacks of tags; \<open>Tag_Stacks\<close> relates such stacks to
    the runtime's, and \<open>Builtin_Lookup\<close> evaluates lookups in the signature tables.
  \<^item> \<open>Vim_Text\<close>, \<open>Vim_Motions\<close>, \<open>Vim_Editor\<close>, \<open>Vim_Unicode\<close>: \<open>crates/vim-line\<close> on UTF-8 byte strings; sessions as an
    inductive reachability, and which keys keep text and cursor well formed.
  \<^item> This theory: what the checker does to types for \<open>roll\<close> is what the runtime does to values.

  \<^bold>\<open>Interfaces.\<close>  The locales state what clients need: of the unifier (\<open>Unification\<close>, interpreted as \<open>seq_unify\<close>
  and used by \<open>Stack_Utils\<close> and \<open>Typed_Words\<close>), of the value stack (\<open>value_stack\<close>, interpreted as \<open>rs\<close>
  and used by \<open>Arithmetic\<close>, \<open>Typed_Words\<close> and \<open>Type_Soundness\<close>), of a stack that allocates and of one that is written in
  place (\<open>allocating_stack\<close>, \<open>in_place_stack\<close>, interpreted as \<open>cs\<close> and used by \<open>Container_Spec\<close>), of the editor's text operations, of a worklist search
  (\<open>worklist\<close>, interpreted as \<open>coop\<close>) and of the abstract stacks of the lints (\<open>tag_stack\<close>, interpreted for the three analyzers that have one).

  \<^bold>\<open>Fuel and bounds.\<close>  The unifier's fuel bounds the recursion depth; a result does not change with more
  fuel.  The interpreter's fuel is the depth of calls; for a program without recursion the rank of a
  word is enough.  Tarjan's search gets one unit more than there are words.  The parser's
  fuel is the number of tokens and one more; the resolver's, the number of canonical paths and of embedded modules.  Before each
  statement the interpreter asks for two free slots and stops with \<open>OutOfMemory\<close> otherwise, so that the
  exhaustion of the stack's memory, which the runtime leaves to a guard page, is kept apart from
  other faults.

  \<^bold>\<open>Not modelled.\<close>  Source text beyond ASCII, the reading of manifests and lint rules from TOML; the text of generated
  LLVM code, whose meaning is outside the sources; floats and strings of the runtime beyond
  their place in a value; the words that call compiled quotations on a stack of their own (\<open>list.map\<close>, \<open>map.fold\<close> and the like); channels, weaves and the scheduler, which rest on a coroutine package;
  files, networking, cryptography, compression and regular expressions, which call third-party
  packages; the terminal interface of the REPL and the language server.
\<close>

section \<open>The checker and the runtime agree on the indexed shuffles\<close>

lemma nat_sint_unat: "0 \<le> sint n \<Longrightarrow> nat (sint n) = unat n" for n :: i64
proof -
  assume "0 \<le> sint n"
  moreover have "sint n < 2 ^ 64" using sint_lt [of n] by simp
  ultimately have "uint n = sint n" by (simp add: uint_sint take_bit_int_eq_self)
  then show ?thesis by (metis nat_uint_eq)
qed

lemma list_all2_roll:
  assumes "list_all2 R xs (take (length xs) ys)" "n < length xs" "length xs \<le> length ys"
  shows "list_all2 R (roll_list n xs) (take (length xs) (roll_list n ys))"
proof -
  obtain k where k: "length xs = Suc k" "n \<le> k" using assms(2) by (cases "length xs") auto
  then have "take (length xs) (roll_list n ys) = roll_list n (take (length xs) ys)"
    using assms(3) by (simp add: roll_list_def drop_take min_absorb1 min_absorb2)
  moreover have "list_all2 R (roll_list n xs) (roll_list n zs)" if "list_all2 R xs zs" for zs
    using that assms(2) list_all2_nthD [OF that assms(2)]
    by (simp add: roll_list_def list_all2_appendI list_all2_takeI list_all2_dropI)
  ultimately show ?thesis using assms(1) by simp
qed



definition int_type :: "ty \<Rightarrow> val \<Rightarrow> bool" where
  "int_type t v \<longleftrightarrow> t = TInt \<and> (\<exists>i. v = VInt i)"


end
